(* ===== verification/Prelude.thy ===== *)
theory Prelude
  imports Main "HOL-Library.Word" "HOL-Library.AList" "HOL-Library.Char_ord"
    "HOL-Library.List_Lexorder" "HOL-Library.Product_Lexorder"
begin

text \<open>
  What the component theories share: the names of the model's basic types, Rust's saturating
  arithmetic on unsigned words with its \<open>unat\<close> contracts, the text operations of Rust's
  standard library the code uses, \<open>min_by_key\<close>/\<open>max_by_key\<close> with the tie rules of Rust's
  iterators, and the interface \<open>chooser\<close> of every place that picks one element of a list.

  Text is modelled on its ASCII fragment: a \<open>string\<close> is a list of characters, one character is
  one byte, white space and letter case are ASCII's. Hash maps are association lists without
  duplicate keys, whose order stands for the unspecified iteration order.
\<close>

unbundle bit_operations_syntax

type_synonym u8 = "8 word"
type_synonym u16 = "16 word"
type_synonym u32 = "32 word"
type_synonym u64 = "64 word"

type_synonym instant = int    \<comment> \<open>a UTC instant, in nanoseconds since the epoch\<close>
type_synonym span = int       \<comment> \<open>a length of time, in nanoseconds\<close>

type_synonym ident = string   \<comment> \<open>an identifier by its printed form\<close>
type_synonym download_id = ident
type_synonym package_id = ident
type_synonym account_id = ident
type_synonym category_id = ident
type_synonym profile_id = ident

abbreviation nanos_per_second :: int where
  "nanos_per_second \<equiv> 1000000000"

abbreviation nanos_per_minute :: int where
  "nanos_per_minute \<equiv> 60000000000"

definition of_seconds :: "int \<Rightarrow> span" where
  "of_seconds n = n * nanos_per_second"

definition of_minutes :: "int \<Rightarrow> span" where
  "of_minutes n = n * nanos_per_minute"

definition of_hours :: "int \<Rightarrow> span" where
  "of_hours n = n * (60 * nanos_per_minute)"

definition of_days :: "int \<Rightarrow> span" where
  "of_days n = n * (1440 * nanos_per_minute)"

named_theorems span_defs \<open>the units of time as nanoseconds\<close>
named_theorems state_simps \<open>how the operations change the fields of a state\<close>
named_theorems step_invs \<open>invariants every step of a component keeps\<close>

declare of_seconds_def [span_defs] of_minutes_def [span_defs] of_hours_def [span_defs] of_days_def [span_defs]

section \<open>Saturating arithmetic\<close>

definition sat_add :: "'a::len word \<Rightarrow> 'a word \<Rightarrow> 'a word" where
  "sat_add a b = (if unat a + unat b < 2 ^ LENGTH('a) then a + b else - 1)"

definition sat_sub :: "'a::len word \<Rightarrow> 'a word \<Rightarrow> 'a word" where
  "sat_sub a b = (if b \<le> a then a - b else 0)"

definition sat_mul :: "'a::len word \<Rightarrow> 'a word \<Rightarrow> 'a word" where
  "sat_mul a b = (if unat a * unat b < 2 ^ LENGTH('a) then a * b else - 1)"

lemma unat_max: "unat (- 1 :: 'a::len word) = 2 ^ LENGTH('a) - 1"
  by (simp add: unsigned_minus_1_eq_mask mask_eq_exp_minus_1)

lemma unat_sat_add:
  "unat (sat_add a b) = min (unat a + unat b) (2 ^ LENGTH('a) - 1)" for a b :: "'a::len word"
  by (auto simp: sat_add_def unat_max unat_word_ariths)

lemma unat_sat_sub: "unat (sat_sub a b) = unat a - unat b"
  by (auto simp: sat_sub_def unat_sub word_le_nat_alt)

lemma unat_sat_mul:
  "unat (sat_mul a b) = min (unat a * unat b) (2 ^ LENGTH('a) - 1)" for a b :: "'a::len word"
  by (auto simp: sat_mul_def unat_max unat_word_ariths)

lemma sat_add_0 [simp]: "sat_add a 0 = a"
  using unsigned_less [of a] by (simp add: sat_add_def)

lemma sat_sub_self [simp]: "sat_sub a a = 0"
  by (simp add: sat_sub_def)

lemma uint_of_int_small: "0 \<le> w \<Longrightarrow> w < 2 ^ LENGTH('a) \<Longrightarrow> uint (word_of_int w :: 'a::len word) = w"
  by (simp only: uint_word_of_int_eq take_bit_int_eq_self)

lemma unat_of_nat_small: "n < 2 ^ LENGTH('a) \<Longrightarrow> unat (word_of_nat n :: 'a::len word) = n"
  by (simp add: unsigned_of_nat take_bit_nat_eq_self)

lemma unat_cast: "unat w < 2 ^ LENGTH('b) \<Longrightarrow> unat (ucast w :: 'b::len word) = unat w"
  for w :: "'a::len word"
  by (simp add: unsigned_ucast_eq take_bit_nat_eq_self)

lemma unat_widen [simp]: "unat (ucast w :: u64) = unat w" for w :: u32
proof (rule unat_cast)
  have "unat w < 2 ^ 32" using unsigned_less [of w] by simp
  then show "unat w < 2 ^ LENGTH(64)" by simp
qed

section \<open>Text\<close>

definition ws_char :: "char \<Rightarrow> bool" where
  "ws_char c = (let n = of_char c :: nat in n = 32 \<or> 9 \<le> n \<and> n \<le> 13)"

definition trim_start :: "string \<Rightarrow> string" where
  "trim_start s = dropWhile ws_char s"

definition trim_end :: "string \<Rightarrow> string" where
  "trim_end s = rev (dropWhile ws_char (rev s))"

definition trim :: "string \<Rightarrow> string" where
  "trim s = trim_end (trim_start s)"

definition lower_char :: "char \<Rightarrow> char" where
  "lower_char c = (let n = of_char c :: nat in if 65 \<le> n \<and> n \<le> 90 then char_of (n + 32) else c)"

definition lowercase :: "string \<Rightarrow> string" where
  "lowercase s = map lower_char s"

definition digit_char :: "char \<Rightarrow> bool" where
  "digit_char c = (let n = of_char c :: nat in 48 \<le> n \<and> n \<le> 57)"

definition alpha_char :: "char \<Rightarrow> bool" where
  "alpha_char c = (let n = of_char c :: nat in 65 \<le> n \<and> n \<le> 90 \<or> 97 \<le> n \<and> n \<le> 122)"

definition starts_with :: "string \<Rightarrow> string \<Rightarrow> bool" where
  "starts_with s p = (take (length p) s = p)"

definition ends_with :: "string \<Rightarrow> string \<Rightarrow> bool" where
  "ends_with s p = (length p \<le> length s \<and> drop (length s - length p) s = p)"

fun contains :: "string \<Rightarrow> string \<Rightarrow> bool" where
  "contains [] p = (p = [])"
| "contains (c # s) p = (starts_with (c # s) p \<or> contains s p)"

definition strip_prefix :: "string \<Rightarrow> string \<Rightarrow> string option" where
  "strip_prefix p s = (if starts_with s p then Some (drop (length p) s) else None)"

definition strip_suffix :: "string \<Rightarrow> string \<Rightarrow> string option" where
  "strip_suffix p s = (if ends_with s p then Some (take (length s - length p) s) else None)"

lemma starts_with_iff: "starts_with s p \<longleftrightarrow> (\<exists>r. s = p @ r)"
  by (auto simp: starts_with_def) (metis append_take_drop_id)

lemma ends_with_iff: "ends_with s p \<longleftrightarrow> (\<exists>r. s = r @ p)"
  by (auto simp: ends_with_def) (metis append_take_drop_id)

lemma contains_iff: "contains s p \<longleftrightarrow> (\<exists>a b. s = a @ p @ b)"
proof (induction s)
  case Nil
  then show ?case by auto
next
  case (Cons c s)
  show ?case
  proof
    assume "contains (c # s) p"
    then consider "starts_with (c # s) p" | "contains s p" by auto
    then show "\<exists>a b. c # s = a @ p @ b"
    proof cases
      case 1
      then obtain r where "c # s = p @ r" by (auto simp: starts_with_iff)
      then have "c # s = [] @ p @ r" by simp
      then show ?thesis by blast
    next
      case 2
      then obtain a b where "s = a @ p @ b" using Cons.IH by blast
      then have "c # s = (c # a) @ p @ b" by simp
      then show ?thesis by blast
    qed
  next
    assume "\<exists>a b. c # s = a @ p @ b"
    then obtain a b where ab: "c # s = a @ p @ b" by blast
    show "contains (c # s) p"
    proof (cases a)
      case Nil
      with ab have "starts_with (c # s) p" by (auto simp: starts_with_iff)
      then show ?thesis by simp
    next
      case (Cons x a')
      with ab have "s = a' @ p @ b" by simp
      then have "contains s p" using Cons.IH by blast
      then show ?thesis by simp
    qed
  qed
qed

text \<open>Decimal numbers as \<open>Display\<close> prints them and as \<open>parse::<u64>\<close> reads them.\<close>

definition digit :: "nat \<Rightarrow> char" where
  "digit n = char_of (48 + n)"

definition digit_value :: "char \<Rightarrow> nat" where
  "digit_value c = of_char c - 48"

fun dec :: "nat \<Rightarrow> string" where
  "dec n = (if n < 10 then [digit n] else dec (n div 10) @ [digit (n mod 10)])"

declare dec.simps [simp del]

definition undec :: "string \<Rightarrow> nat" where
  "undec s = foldl (\<lambda>n c. n * 10 + digit_value c) 0 s"

text \<open>An optional plus sign, at least one digit, only digits, and no overflow.\<close>

definition parse_u64 :: "string \<Rightarrow> u64 option" where
  "parse_u64 s =
     (let t = (case s of [] \<Rightarrow> [] | c # r \<Rightarrow> if c = CHR ''+'' then r else s) in
      if t \<noteq> [] \<and> list_all digit_char t \<and> undec t < 2 ^ 64 then Some (of_nat (undec t)) else None)"

lemma digit_facts:
  assumes "d < 10"
  shows "digit_char (digit d)" and "digit_value (digit d) = d" and "digit d \<noteq> CHR ''+''"
proof -
  have d: "(of_char (digit d) :: nat) = 48 + d"
    using assms by (simp add: digit_def of_char_of)
  then show "digit_char (digit d)" and "digit_value (digit d) = d"
    using assms by (simp_all add: digit_char_def digit_value_def)
  show "digit d \<noteq> CHR ''+''"
  proof
    assume "digit d = CHR ''+''"
    with d show False by simp
  qed
qed

lemma undec_snoc: "undec (s @ [c]) = undec s * 10 + digit_value c"
  by (simp add: undec_def)

lemma dec_digits: "list_all digit_char (dec n) \<and> dec n \<noteq> [] \<and> undec (dec n) = n
    \<and> CHR ''+'' \<notin> set (dec n)"
proof (induction n rule: dec.induct)
  case (1 n)
  show ?case
  proof (cases "n < 10")
    case True
    then show ?thesis
      using digit_facts [of n] by (subst (1 2 3 4) dec.simps) (auto simp: undec_def)
  next
    case False
    have d: "digit_char (digit (n mod 10))" "digit_value (digit (n mod 10)) = n mod 10"
      "digit (n mod 10) \<noteq> CHR ''+''"
      using digit_facts [of "n mod 10"] by auto
    then show ?thesis
      using "1.IH" [OF False] False
      by (subst (1 2 3 4) dec.simps) (auto simp: undec_snoc)
  qed
qed

lemma parse_dec: "n < 2 ^ 64 \<Longrightarrow> parse_u64 (dec n) = Some (of_nat n)"
  using dec_digits [of n] by (auto simp: parse_u64_def split: list.splits)

section \<open>Choosing from a list\<close>

text \<open>\<open>Iterator::min_by_key\<close> answers the first of several minima.\<close>

fun min_by_key :: "('a \<Rightarrow> 'k::linorder) \<Rightarrow> 'a list \<Rightarrow> 'a option" where
  "min_by_key f [] = None"
| "min_by_key f (x # xs) =
     (case min_by_key f xs of
        None \<Rightarrow> Some x
      | Some y \<Rightarrow> if f y < f x then Some y else Some x)"

text \<open>\<open>Iterator::max_by_key\<close> and \<open>max_by\<close> answer the last of several maxima.\<close>

fun max_by_key :: "('a \<Rightarrow> 'k::linorder) \<Rightarrow> 'a list \<Rightarrow> 'a option" where
  "max_by_key f [] = None"
| "max_by_key f (x # xs) =
     (case max_by_key f xs of
        None \<Rightarrow> Some x
      | Some y \<Rightarrow> if f y < f x then Some x else Some y)"

lemma min_by_key_None [simp]: "min_by_key f xs = None \<longleftrightarrow> xs = []"
  by (cases xs) (auto split: option.splits)

lemma max_by_key_None [simp]: "max_by_key f xs = None \<longleftrightarrow> xs = []"
  by (cases xs) (auto split: option.splits)

lemma min_by_key_Some:
  "min_by_key f xs = Some m \<Longrightarrow> m \<in> set xs \<and> (\<forall>x \<in> set xs. f m \<le> f x)"
  by (induction xs arbitrary: m) (fastforce split: option.splits if_splits)+

lemma max_by_key_Some:
  "max_by_key f xs = Some m \<Longrightarrow> m \<in> set xs \<and> (\<forall>x \<in> set xs. f x \<le> f m)"
  by (induction xs arbitrary: m) (fastforce split: option.splits if_splits)+

text \<open>Where the chosen element stands: the first of several minima.\<close>

lemma min_by_key_first:
  "min_by_key f xs = Some m \<Longrightarrow>
   \<exists>pre post. xs = pre @ m # post \<and> (\<forall>x \<in> set pre. f m < f x) \<and> (\<forall>x \<in> set post. f m \<le> f x)"
proof (induction xs arbitrary: m)
  case (Cons x xs)
  show ?case
  proof (cases "min_by_key f xs")
    case None
    then show ?thesis using Cons.prems by (intro exI [of _ "[]"] exI [of _ xs]) auto
  next
    case (Some y)
    obtain pre post where y: "xs = pre @ y # post" "\<forall>x \<in> set pre. f y < f x" "\<forall>x \<in> set post. f y \<le> f x"
      using Cons.IH [OF Some] by blast
    show ?thesis
    proof (cases "f y < f x")
      case True
      then have "m = y" using Some Cons.prems by simp
      with True y show ?thesis by (intro exI [of _ "x # pre"] exI [of _ post]) auto
    next
      case False
      then have "m = x" using Some Cons.prems by simp
      moreover have "\<forall>z \<in> set xs. f x \<le> f z"
        using min_by_key_Some [OF Some] False by (auto intro: order_trans simp: not_less)
      ultimately show ?thesis by (intro exI [of _ "[]"] exI [of _ xs]) auto
    qed
  qed
qed simp

text \<open>
  The contract of a choice: it answers an element exactly when there is one, and the element is
  of the best rank among them. The clients' facts follow from the contract alone; in particular
  a choice between elements of different ranks does not depend on the order they come in.
\<close>

locale chooser =
  fixes pick :: "'a list \<Rightarrow> 'a option"
    and better :: "'a \<Rightarrow> 'a \<Rightarrow> bool"
  assumes pick_none: "pick xs = None \<longleftrightarrow> xs = []"
    and pick_in: "pick xs = Some x \<Longrightarrow> x \<in> set xs"
    and pick_best: "pick xs = Some x \<Longrightarrow> y \<in> set xs \<Longrightarrow> \<not> better y x"
begin

lemma picks_when_nonempty: "xs \<noteq> [] \<Longrightarrow> \<exists>x \<in> set xs. pick xs = Some x"
  using pick_none pick_in by (cases "pick xs") auto

lemma pick_order_free:
  assumes same: "set xs = set ys"
    and strict: "\<And>x y. x \<in> set xs \<Longrightarrow> y \<in> set xs \<Longrightarrow> x \<noteq> y \<Longrightarrow> better x y \<or> better y x"
  shows "pick xs = pick ys"
proof (cases "pick xs")
  case None
  then show ?thesis using same pick_none by (metis set_empty)
next
  case (Some x)
  have "x \<in> set xs" using Some by (rule pick_in)
  then have "pick ys \<noteq> None" using same pick_none [of ys] by auto
  then obtain y where y: "pick ys = Some y" "y \<in> set ys" using pick_in by auto
  have y': "y \<in> set xs" and x': "x \<in> set ys" using y(2) \<open>x \<in> set xs\<close> same by simp_all
  have "\<not> better y x" by (rule pick_best [OF Some y'])
  moreover have "\<not> better x y" by (rule pick_best [OF y(1) x'])
  ultimately have "x = y" using strict [OF \<open>x \<in> set xs\<close> y'] by (cases "x = y") simp_all
  then show ?thesis using Some y(1) by simp
qed

lemma pick_beats:
  "pick xs = Some x \<Longrightarrow> y \<in> set xs \<Longrightarrow> better y x \<Longrightarrow> False"
  using pick_best by blast

end

interpretation least: chooser "min_by_key f" "\<lambda>x y. f x < f y" for f
  by unfold_locales (auto dest: min_by_key_Some simp: not_less)

interpretation greatest: chooser "max_by_key f" "\<lambda>x y. f x > f y" for f
  by unfold_locales (auto dest: max_by_key_Some simp: not_less)

section \<open>Maps\<close>

lemma map_of_filter_snd:
  "distinct (map fst xs) \<Longrightarrow>
   map_of (filter (\<lambda>p. P (snd p)) xs) k = Option.bind (map_of xs k) (\<lambda>v. if P v then Some v else None)"
proof (induction xs)
  case Nil
  then show ?case by simp
next
  case (Cons p xs)
  then have "k = fst p \<Longrightarrow> map_of xs k = None"
    by (auto simp: map_of_eq_None_iff)
  with Cons show ?case by (cases p) auto
qed

lemma distinct_filter_keys: "distinct (map fst xs) \<Longrightarrow> distinct (map fst (filter P xs))"
  by (rule distinct_map_filter)

end
