(* ===== verification/Hosts.thy ===== *)
theory Hosts
  imports Prelude
begin

text \<open>
  Host names (\<open>rd-provider-registry/src/host_pattern.rs\<close>): the one form a host is compared in,
  and the reading of an allowlist entry. A limit scope, a host block and a provider match all go
  through \<open>host_key\<close>.
\<close>

definition host_key :: "string \<Rightarrow> string" where
  "host_key host =
     (let host = lowercase (rev (dropWhile (\<lambda>c. c = CHR ''.'') (rev (trim host))))
      in case strip_prefix ''www.'' host of
           Some rest \<Rightarrow> if rest \<noteq> [] then rest else host
         | None \<Rightarrow> host)"

datatype wildcard_apex = Excluded | Included

definition host_pattern_matches :: "string \<Rightarrow> string \<Rightarrow> wildcard_apex \<Rightarrow> bool" where
  "host_pattern_matches pattern host apex =
     (case strip_prefix ''*.'' pattern of
        Some suffix \<Rightarrow>
          if suffix \<noteq> [] \<and> CHR ''*'' \<notin> set suffix
          then apex = Included \<and> host = suffix
             \<or> (case strip_suffix suffix host of
                  Some prefix \<Rightarrow> length prefix > 1 \<and> ends_with prefix ''.''
                | None \<Rightarrow> False)
          else False
      | None \<Rightarrow> CHR ''*'' \<notin> set pattern \<and> host = pattern)"

section \<open>The one form of a host\<close>

lemma lower_char_idem [simp]: "lower_char (lower_char c) = lower_char c"
proof -
  have "(of_char (char_of (n + 32) :: char) :: nat) = n + 32" if "n \<le> 90" for n :: nat
    using that by (simp add: of_char_of)
  then show ?thesis by (auto simp: lower_char_def Let_def)
qed

lemma lowercase_idem [simp]: "lowercase (lowercase s) = lowercase s"
  by (simp add: lowercase_def)

lemma lower_char_dot [simp]: "lower_char c = CHR ''.'' \<longleftrightarrow> c = CHR ''.''"
proof -
  have "(of_char c :: nat) + 32 \<noteq> 46" if "65 \<le> (of_char c :: nat)" using that by simp
  moreover have "(of_char (char_of (n + 32) :: char) :: nat) = n + 32" if "n \<le> 90" for n :: nat
    using that by (simp add: of_char_of)
  ultimately show ?thesis by (auto simp: lower_char_def Let_def dest!: arg_cong [where f = "of_char :: char \<Rightarrow> nat"])
qed

text \<open>A host without surrounding white space or trailing dots: what the trims leave alone.\<close>

definition plain_host :: "string \<Rightarrow> bool" where
  "plain_host h \<longleftrightarrow> h \<noteq> [] \<and> \<not> ws_char (hd h) \<and> \<not> ws_char (last h) \<and> last h \<noteq> CHR ''.''"

lemma trim_plain: "s \<noteq> [] \<Longrightarrow> \<not> ws_char (hd s) \<Longrightarrow> \<not> ws_char (last s) \<Longrightarrow> trim s = s"
proof -
  assume s: "s \<noteq> []" "\<not> ws_char (hd s)" "\<not> ws_char (last s)"
  have "dropWhile ws_char s = s" using s by (cases s) auto
  moreover have "dropWhile ws_char (rev s) = rev s" using s by (cases s rule: rev_cases) auto
  ultimately show ?thesis by (simp add: trim_def trim_start_def trim_end_def)
qed

lemma drop_dots: "set ds \<subseteq> {CHR ''.''} \<Longrightarrow> h \<noteq> [] \<Longrightarrow> last h \<noteq> CHR ''.'' \<Longrightarrow>
  rev (dropWhile (\<lambda>c. c = CHR ''.'') (rev (h @ ds))) = h"
proof (induction ds rule: rev_induct)
  case Nil
  then show ?case by (cases h rule: rev_cases) auto
next
  case (snoc d ds)
  then show ?case by simp
qed

lemma host_key_plain:
  assumes "plain_host h" and "set ds \<subseteq> {CHR ''.''}"
  shows "host_key (h @ ds) = (let l = lowercase h in
    if starts_with l ''www.'' \<and> drop 4 l \<noteq> [] then drop 4 l else l)"
proof -
  have dot: "\<not> ws_char (CHR ''.'')" by (simp add: ws_char_def)
  have "trim (h @ ds) = h @ ds"
  proof (rule trim_plain)
    show "\<not> ws_char (last (h @ ds))"
      using assms dot by (cases ds rule: rev_cases) (auto simp: plain_host_def)
  qed (use assms in \<open>auto simp: plain_host_def\<close>)
  then have "rev (dropWhile (\<lambda>c. c = CHR ''.'') (rev (trim (h @ ds)))) = h"
    using drop_dots [OF assms(2)] assms(1) by (simp add: plain_host_def del: rev_append)
  then show ?thesis unfolding host_key_def strip_prefix_def Let_def by (auto simp: numeral_eq_Suc)
qed

text \<open>One host has one key: capital letters, a leading \<open>www.\<close> and trailing dots make
  no difference.\<close>

lemma host_key_one_form:
  assumes "plain_host h" and "set ds \<subseteq> {CHR ''.''}" and "\<not> starts_with (lowercase h) ''www.''"
    and "lowercase www = ''www.''" and "lowercase g = lowercase h"
  shows "host_key (www @ h @ ds) = lowercase h \<and> host_key g = lowercase h"
proof -
  have len: "length www = 4" using arg_cong [OF assms(4), of length] by (simp add: lowercase_def)
  obtain c r where www: "www = c # r" using len by (cases www) auto
  have c: "lower_char c = CHR ''w''" using assms(4) www by (simp add: lowercase_def)
  have "\<not> ws_char c"
  proof
    assume "ws_char c"
    then have "lower_char c = c" by (auto simp: ws_char_def lower_char_def Let_def)
    with c \<open>ws_char c\<close> show False by (simp add: ws_char_def)
  qed
  then have p: "plain_host (www @ h)" using assms(1) by (auto simp: plain_host_def www)
  have l: "lowercase (www @ h) = ''www.'' @ lowercase h" using assms(4) by (simp add: lowercase_def)
  have ne: "lowercase h \<noteq> []" using assms(1) by (simp add: plain_host_def lowercase_def)
  have "host_key ((www @ h) @ ds) = lowercase h"
    unfolding host_key_plain [OF p assms(2)] l using ne by (simp add: starts_with_def Let_def)
  moreover have "plain_host g"
  proof -
    have ws: "ws_char a \<longleftrightarrow> ws_char b" if "lower_char a = lower_char b" for a b
    proof -
      have *: "ws_char (lower_char x) \<longleftrightarrow> ws_char x" for x
      proof -
        have "(of_char (char_of (n + 32) :: char) :: nat) = n + 32" if "n \<le> 90" for n :: nat
          using that by (simp add: of_char_of)
        then show ?thesis by (auto simp: ws_char_def lower_char_def Let_def)
      qed
      show ?thesis using * [of a] * [of b] that by simp
    qed
    have h: "h \<noteq> []" using assms(1) by (simp add: plain_host_def)
    have m: "map lower_char g = map lower_char h" using assms(5) by (simp add: lowercase_def)
    then have g: "g \<noteq> []" using h by auto
    have "lower_char (hd g) = lower_char (hd h)" "lower_char (last g) = lower_char (last h)"
      using arg_cong [OF m, of hd] arg_cong [OF m, of last] g h by (simp_all add: hd_map last_map)
    moreover note g
    ultimately show ?thesis
      using assms(1) ws lower_char_dot unfolding plain_host_def by metis
  qed
  then have "host_key (g @ []) = lowercase h"
    using assms(3,5) by (subst host_key_plain) (auto simp: Let_def)
  ultimately show ?thesis by simp
qed

theorem host_key_one_form_witness:
  "host_key ''WWW.Example.ORG..'' = ''example.org'' \<and> host_key ''example.Org'' = ''example.org''"
proof -
  have "plain_host ''Example.ORG''" and "set ''..'' \<subseteq> {CHR ''.''}"
    and "\<not> starts_with (lowercase ''Example.ORG'') ''www.''" and "lowercase ''WWW.'' = ''www.''"
    and "lowercase ''example.Org'' = lowercase ''Example.ORG''"
    and l: "lowercase ''Example.ORG'' = ''example.org''"
    by code_simp+
  from host_key_one_form [OF this(1-5)] show ?thesis unfolding l by simp
qed

section \<open>Allowlist entries read at label boundaries\<close>

text \<open>The labels of a name, split at every dot.\<close>

fun labels :: "string \<Rightarrow> string list" where
  "labels [] = [[]]"
| "labels (c # s) =
     (if c = CHR ''.'' then [] # labels s
      else case labels s of [] \<Rightarrow> [[c]] | l # ls \<Rightarrow> (c # l) # ls)"

lemma labels_nonempty [simp]: "labels s \<noteq> []"
  by (cases s) (auto split: list.splits)

lemma labels_append_dot: "labels (a @ CHR ''.'' # b) = labels a @ labels b"
  by (induction a) (auto split: list.splits)

fun joined :: "string list \<Rightarrow> string" where
  "joined [] = []"
| "joined [l] = l"
| "joined (l # m # ls) = l @ CHR ''.'' # joined (m # ls)"

lemma joined_labels: "joined (labels s) = s"
proof (induction s)
  case (Cons c s)
  then show ?case
    by (cases "labels s") (auto split: list.splits, (cases "tl (labels s)"; auto)+)
qed simp

lemma joined_append: "xs \<noteq> [] \<Longrightarrow> ys \<noteq> [] \<Longrightarrow> joined (xs @ ys) = joined xs @ CHR ''.'' # joined ys"
proof (induction xs rule: joined.induct)
  case (2 l)
  then show ?case by (cases ys) auto
qed auto

lemma labels_suffix:
  "(\<exists>p. p \<noteq> [] \<and> host = p @ CHR ''.'' # suffix)
   \<longleftrightarrow> (\<exists>ls. ls \<noteq> [] \<and> ls \<noteq> [[]] \<and> labels host = ls @ labels suffix)"
proof
  assume "\<exists>p. p \<noteq> [] \<and> host = p @ CHR ''.'' # suffix"
  then obtain p where p: "p \<noteq> []" "host = p @ CHR ''.'' # suffix" by blast
  have "labels p \<noteq> [[]]" using p(1) joined_labels [of p] by auto
  then show "\<exists>ls. ls \<noteq> [] \<and> ls \<noteq> [[]] \<and> labels host = ls @ labels suffix"
    using p(2) labels_append_dot by (intro exI [of _ "labels p"]) auto
next
  assume "\<exists>ls. ls \<noteq> [] \<and> ls \<noteq> [[]] \<and> labels host = ls @ labels suffix"
  then obtain ls where ls: "ls \<noteq> []" "ls \<noteq> [[]]" "labels host = ls @ labels suffix" by blast
  have "host = joined ls @ CHR ''.'' # suffix"
    using joined_append [OF ls(1) labels_nonempty, of suffix] ls(3) joined_labels by metis
  moreover have "joined ls \<noteq> []"
    using ls(1,2) by (cases ls rule: joined.cases) auto
  ultimately show "\<exists>p. p \<noteq> [] \<and> host = p @ CHR ''.'' # suffix" by blast
qed

text \<open>A wildcard entry matches at label boundaries only: \<open>*.suffix\<close> covers exactly the names
  with further labels in front of the suffix's labels, and the suffix itself where the apex is
  included.\<close>

lemma wildcard_covers_whole_labels:
  assumes "suffix \<noteq> []" and "CHR ''*'' \<notin> set suffix"
  shows "host_pattern_matches (''*.'' @ suffix) host apex \<longleftrightarrow>
      apex = Included \<and> host = suffix
      \<or> (\<exists>ls. ls \<noteq> [] \<and> ls \<noteq> [[]] \<and> labels host = ls @ labels suffix)"
proof -
  have strip: "strip_prefix ''*.'' (''*.'' @ suffix) = Some suffix"
    by (simp add: strip_prefix_def starts_with_def)
  have "(case strip_suffix suffix host of
          Some prefix \<Rightarrow> length prefix > 1 \<and> ends_with prefix ''.'' | None \<Rightarrow> False)
      \<longleftrightarrow> (\<exists>p. p \<noteq> [] \<and> host = p @ CHR ''.'' # suffix)" (is "?l \<longleftrightarrow> ?r")
  proof
    assume ?l
    then obtain q where q: "strip_suffix suffix host = Some q" "length q > 1" "ends_with q ''.''"
      by (auto split: option.splits)
    then have "host = q @ suffix"
      by (auto simp: strip_suffix_def ends_with_def split: if_splits) (metis append_take_drop_id)
    moreover obtain p where "q = p @ ''.''" using q(3) ends_with_iff by blast
    ultimately show ?r using q(2) by (intro exI [of _ p]) auto
  next
    assume ?r
    then obtain p where p: "p \<noteq> []" "host = (p @ ''.'') @ suffix" by auto
    then have "strip_suffix suffix host = Some (p @ ''.'')"
      by (simp add: strip_suffix_def ends_with_def)
    moreover have "ends_with (p @ ''.'') ''.''" by (simp add: ends_with_def)
    ultimately show ?l using p(1) by (cases p) auto
  qed
  then show ?thesis
    unfolding host_pattern_matches_def strip using assms labels_suffix by simp
qed

lemma wildcard_covers_whole_labels_sample:
  "host_pattern_matches ''*.foo.com'' ''cdn.foo.com'' Excluded \<longleftrightarrow>
     (\<exists>ls. ls \<noteq> [] \<and> ls \<noteq> [[]] \<and> labels ''cdn.foo.com'' = ls @ labels ''foo.com'')"
  using wildcard_covers_whole_labels [of "''foo.com''" "''cdn.foo.com''" Excluded] by simp

end
