(* ===== verification/Timing.thy ===== *)
theory Timing
  imports Prelude
begin

text \<open>
  The shared delay arithmetic of \<open>rd-core/src/timing.rs\<close> (the ceiling on a stated wait, the
  capped exponential backoff, the deterministic spread) and the delivery retry policy
  \<open>rd-notify/src/retry.rs\<close> built on it. A signed 64-bit value is an \<open>int\<close> whose saturation is
  written out; unsigned values are words. The contract \<open>unat_exponential_backoff\<close> and the band
  lemma \<open>jitter_band\<close> are what the retry policies rest on.
\<close>

definition sat_i64 :: "int \<Rightarrow> int" where
  "sat_i64 x = max (- (2 ^ 63)) (min (2 ^ 63 - 1) x)"

definition quot :: "int \<Rightarrow> int \<Rightarrow> int" where
  "quot a b = sgn a * sgn b * (\<bar>a\<bar> div \<bar>b\<bar>)"

definition MAX_RETRY_AFTER_SECONDS :: u64 where
  "MAX_RETRY_AFTER_SECONDS = 24 * 60 * 60"

definition clamp_retry_after :: "u64 \<Rightarrow> u64" where
  "clamp_retry_after seconds =
     (if seconds > MAX_RETRY_AFTER_SECONDS then MAX_RETRY_AFTER_SECONDS else seconds)"

definition RETRY_JITTER_PERCENT :: u32 where
  "RETRY_JITTER_PERCENT = 10"

definition exponential_backoff :: "u32 \<Rightarrow> u64 \<Rightarrow> u64 \<Rightarrow> u64" where
  "exponential_backoff attempt base mx = min (sat_mul base (push_bit (unat (min attempt 32)) 1)) mx"

definition mix_seed :: "u64 \<Rightarrow> u64" where
  "mix_seed seed = word_rotl 31 (seed * 0x9E3779B97F4A7C15) * 0xBF58476D1CE4E5B9"

definition jitter :: "int \<Rightarrow> u32 \<Rightarrow> u64 \<Rightarrow> int" where
  "jitter delay percent seed =
     (let spread = quot (sat_i64 (delay * uint percent)) 100 in
      if spread \<le> 0 then 0
      else
        let mixed = mix_seed seed;
            doubled = sat_i64 (sat_i64 (spread * 2) + 1);
            width = (if 0 \<le> doubled then word_of_int doubled else 1) :: u64;
            rest = uint (mixed mod width);
            magnitude = (if rest < 2 ^ 63 then rest else 0)
        in magnitude - spread)"

section \<open>Delivery retries\<close>

definition MAX_ATTEMPTS :: u32 where
  "MAX_ATTEMPTS = 6"

text \<open>The wait in whole seconds; the conversion to a signed value falls back to the cap.\<close>

definition backoff :: "u32 \<Rightarrow> int" where
  "backoff attempt =
     (let s = uint (exponential_backoff attempt 30 3600) in if s < 2 ^ 63 then s else 3600)"

definition backoff_with_seed :: "u32 \<Rightarrow> u64 \<Rightarrow> int" where
  "backoff_with_seed attempt seed = (let base = backoff attempt in base + jitter base RETRY_JITTER_PERCENT seed)"

definition subsec_nanos :: "instant \<Rightarrow> u64" where
  "subsec_nanos now = word_of_int (now mod nanos_per_second)"

definition next_attempt_at :: "u32 \<Rightarrow> instant \<Rightarrow> instant option" where
  "next_attempt_at attempt now =
     (if attempt < MAX_ATTEMPTS
      then Some (now + of_seconds (backoff_with_seed attempt (subsec_nanos now))) else None)"

section \<open>What the arithmetic guarantees\<close>

lemma unat_clamp_retry_after: "unat (clamp_retry_after s) = min (unat s) 86400"
  by (auto simp: clamp_retry_after_def MAX_RETRY_AFTER_SECONDS_def word_less_nat_alt min_def)

lemma unat_two_power: "n < 64 \<Longrightarrow> unat (2 ^ n :: u64) = 2 ^ n"
proof -
  assume n: "n < 64"
  then have "(2::nat) ^ n < 2 ^ 64" by (rule power_strict_increasing) simp
  then have "unat (word_of_nat (2 ^ n) :: u64) = 2 ^ n"
    by (intro unat_of_nat_small) simp
  then show ?thesis by simp
qed

lemma unat_min: "unat (min a b) = min (unat a) (unat b)" for a b :: "'a::len word"
  by (simp add: min_def word_le_nat_alt)

lemma unat_exponential_backoff:
  "unat (exponential_backoff attempt base mx) = min (unat base * 2 ^ min (unat attempt) 32) (unat mx)"
proof -
  let ?k = "min (unat attempt) 32"
  have k: "unat (min attempt 32) = ?k" by (simp add: unat_min)
  have p: "unat (2 ^ ?k :: u64) = 2 ^ ?k" by (rule unat_two_power) simp
  have "unat mx < 2 ^ 64" using unsigned_less [of mx] by simp
  then show ?thesis
    by (simp add: exponential_backoff_def unat_min unat_sat_mul k p)
qed

lemma quot_nonneg: "0 \<le> a \<Longrightarrow> 0 < b \<Longrightarrow> quot a b = a div b"
  by (cases "a = 0") (simp_all add: quot_def)

lemma quot_nonpos: "a \<le> 0 \<Longrightarrow> 0 < b \<Longrightarrow> quot a b \<le> 0"
  by (cases "a = 0") (simp_all add: quot_def pos_imp_zdiv_nonneg_iff)

lemma percent_room: "0 \<le> p \<Longrightarrow> p < 2 ^ 63 \<Longrightarrow> p div 100 * 2 + 1 < 2 ^ 63" for p :: int
  by simp

text \<open>The spread stays in the band it was asked for, on both sides.\<close>

lemma jitter_band:
  assumes "0 \<le> delay" and "delay * uint percent < 2 ^ 63"
  shows "\<bar>jitter delay percent seed\<bar> \<le> delay * uint percent div 100"
proof -
  let ?p = "delay * uint percent"
  let ?s = "?p div 100"
  have p0: "0 \<le> ?p" using assms(1) by simp
  have sat: "sat_i64 ?p = ?p" using assms(2) p0 by (simp add: sat_i64_def)
  have span: "quot (sat_i64 ?p) 100 = ?s" using p0 by (simp add: sat quot_nonneg)
  have s0: "0 \<le> ?s" using p0 by simp
  show ?thesis
  proof (cases "?s \<le> 0")
    case True
    then show ?thesis using s0 by (simp add: jitter_def span)
  next
    case False
    define w where "w = sat_i64 (sat_i64 (?s * 2) + 1)"
    have ub: "?s * 2 + 1 < 2 ^ 63" using percent_room [OF p0 assms(2)] .
    then have w: "w = ?s * 2 + 1" using False by (simp add: w_def sat_i64_def)
    have wu: "uint (word_of_int w :: u64) = w"
      using ub False by (intro uint_of_int_small) (simp_all add: w)
    define m where "m = uint (mix_seed seed mod word_of_int w)"
    have "m = uint (mix_seed seed) mod w"
      by (simp only: m_def uint_mod wu)
    moreover have w0: "0 < w" using False by (simp add: w)
    ultimately have m: "0 \<le> m" "m < w" by simp_all
    have "m < 2 ^ 63" using m(2) ub by (simp add: w)
    moreover have "jitter delay percent seed = (if m < 2 ^ 63 then m else 0) - ?s"
      by (simp only: jitter_def Let_def span if_not_P [OF False] w_def [symmetric]
          if_P [OF less_imp_le [OF w0]] m_def [symmetric])
    ultimately have "jitter delay percent seed = m - ?s" by simp
    then show ?thesis using m by (simp add: w)
  qed
qed

lemma backoff_value: "backoff attempt = int (min (30 * 2 ^ min (unat attempt) 32) 3600)"
proof -
  have "uint (exponential_backoff attempt 30 3600) = int (min (30 * 2 ^ min (unat attempt) 32) 3600)"
    using unat_exponential_backoff [of attempt 30 3600] unfolding uint_nat by simp
  moreover have "int (min (30 * 2 ^ min (unat attempt) 32) 3600) < 2 ^ 63" by simp
  ultimately show ?thesis by (simp only: backoff_def Let_def if_True)
qed

end
