(* ===== verification/Failures.thy ===== *)
theory Failures
  imports Timing
begin

text \<open>
  The failure classes of \<open>rd-plugin-types/src/error.rs\<close>, shared by the scheduler, the plugins and
  the database: a failure is a class, a message, an optional stable code and string parameters.
\<close>

datatype failure_kind =
    Transient "u64 option"
  | Permanent
  | Offline
  | AuthRequired
  | AccountInvalid
  | RateLimited "u64 option"
  | NeedsCaptcha
  | Unsupported
  | IpBlocked "u64 option"
  | CaptchaFailed

definition is_retryable :: "failure_kind \<Rightarrow> bool" where
  "is_retryable k =
     (case k of
        Transient _ \<Rightarrow> True
      | Offline \<Rightarrow> True
      | RateLimited _ \<Rightarrow> True
      | IpBlocked _ \<Rightarrow> True
      | CaptchaFailed \<Rightarrow> True
      | _ \<Rightarrow> False)"

definition is_limit :: "failure_kind \<Rightarrow> bool" where
  "is_limit k = (case k of RateLimited _ \<Rightarrow> True | IpBlocked _ \<Rightarrow> True | _ \<Rightarrow> False)"

text \<open>The stated delay, in seconds.\<close>

definition retry_after :: "failure_kind \<Rightarrow> u64 option" where
  "retry_after k =
     (case k of
        Transient s \<Rightarrow> s
      | RateLimited s \<Rightarrow> s
      | IpBlocked s \<Rightarrow> s
      | _ \<Rightarrow> None)"

type_synonym message_params = "(string \<times> string) list"    \<comment> \<open>a map, keys once\<close>

record failure =
  fl_category :: failure_kind
  fl_message :: string
  fl_code :: "string option"
  fl_params :: message_params

definition failure_new :: "failure_kind \<Rightarrow> string \<Rightarrow> failure" where
  "failure_new category message =
     \<lparr>fl_category = category, fl_message = message, fl_code = None, fl_params = []\<rparr>"

definition failure_coded :: "failure_kind \<Rightarrow> string \<Rightarrow> string \<Rightarrow> failure" where
  "failure_coded category code message =
     \<lparr>fl_category = category, fl_message = message, fl_code = Some code, fl_params = []\<rparr>"

definition with_param :: "string \<Rightarrow> string \<Rightarrow> failure \<Rightarrow> failure" where
  "with_param key v f = f\<lparr>fl_params := AList.update key v (fl_params f)\<rparr>"

lemmas failure_defs = failure_new_def failure_coded_def with_param_def

lemma failure_coded_simps [simp]:
  "fl_category (failure_coded k c m) = k"
  "fl_code (failure_coded k c m) = Some c"
  "fl_message (failure_coded k c m) = m"
  "fl_params (failure_coded k c m) = []"
  by (simp_all add: failure_coded_def)

lemma with_param_simps [simp]:
  "fl_category (with_param key v f) = fl_category f"
  "fl_code (with_param key v f) = fl_code f"
  "fl_message (with_param key v f) = fl_message f"
  "fl_params (with_param key v f) = AList.update key v (fl_params f)"
  by (simp_all add: with_param_def)

lemma limits_are_retryable: "is_limit k \<Longrightarrow> is_retryable k"
  by (simp add: is_limit_def is_retryable_def split: failure_kind.splits)

lemma stated_waits_are_retryable: "retry_after k = Some s \<Longrightarrow> is_retryable k"
  by (simp add: retry_after_def is_retryable_def split: failure_kind.splits)

end
