(* ===== verification/Lifecycle.thy ===== *)
theory Lifecycle
  imports Failures
begin

text \<open>
  The data model of the queue, \<open>rd-core/src/download.rs\<close>: the states of a download and the legal
  moves between them, the queue priority, the transport kinds and the file itself. \<open>legal_path\<close>
  is a run of legal moves; what such a run can and cannot do is what the rest of the program
  relies on when it asks \<open>can_transition_to\<close> before every write.
\<close>

section \<open>States and legal moves\<close>

datatype download_state =
    Queued | Resolving | Downloading | Paused | RetryWait | Verifying | Repairing | Extracting
  | Seeding | Skipped | Blocked | Failed | Cancelled | Completed

definition can_transition_to :: "download_state \<Rightarrow> download_state \<Rightarrow> bool" where
  "can_transition_to self next =
     ((case self of
         Queued \<Rightarrow> next \<in> {Resolving, Paused, Blocked, Cancelled}
       | Resolving \<Rightarrow> next \<in> {Downloading, Paused, RetryWait, Blocked, Failed, Cancelled}
       | Downloading \<Rightarrow> next \<in> {Paused, RetryWait, Verifying, Seeding, Blocked, Failed, Cancelled}
       | Seeding \<Rightarrow> next \<in> {Completed, Failed, Cancelled}
       | Paused \<Rightarrow> next \<in> {Queued, Downloading, Cancelled}
       | RetryWait \<Rightarrow> next \<in> {Queued, Resolving, Downloading, Paused, Failed, Cancelled}
       | Verifying \<Rightarrow> next \<in> {Repairing, Extracting, Completed, Failed, Blocked, Cancelled}
       | Repairing \<Rightarrow> next \<in> {Extracting, Completed, Failed}
       | Extracting \<Rightarrow> next \<in> {Completed, Failed}
       | Completed \<Rightarrow> next \<in> {Extracting}
       | Blocked \<Rightarrow> next \<in> {Queued, Resolving, Cancelled}
       | Failed \<Rightarrow> next \<in> {Queued, Cancelled}
       | Cancelled \<Rightarrow> next \<in> {Queued}
       | Skipped \<Rightarrow> next \<in> {Queued, Cancelled})
      \<or> self \<in> {Queued, Paused, RetryWait, Failed, Blocked} \<and> next = Skipped
      \<or> self = next)"

definition is_working :: "download_state \<Rightarrow> bool" where
  "is_working s = (s \<in> {Resolving, Downloading, Verifying, Repairing, Extracting})"

definition holds_the_file :: "download_state \<Rightarrow> bool" where
  "holds_the_file s = (is_working s \<or> s = Seeding)"

definition is_queued_or_working :: "download_state \<Rightarrow> bool" where
  "is_queued_or_working s = (is_working s \<or> s \<in> {Queued, RetryWait})"

definition holds_a_connection :: "download_state \<Rightarrow> bool" where
  "holds_a_connection s = (s \<in> {Resolving, Downloading, Seeding})"

text \<open>The text of a state, as it is stored and shown.\<close>

definition download_state_text :: "download_state \<Rightarrow> string" where
  "download_state_text s = (case s of
      Queued \<Rightarrow> ''queued''
    | Resolving \<Rightarrow> ''resolving''
    | Downloading \<Rightarrow> ''downloading''
    | Paused \<Rightarrow> ''paused''
    | RetryWait \<Rightarrow> ''retry_wait''
    | Verifying \<Rightarrow> ''verifying''
    | Repairing \<Rightarrow> ''repairing''
    | Extracting \<Rightarrow> ''extracting''
    | Seeding \<Rightarrow> ''seeding''
    | Skipped \<Rightarrow> ''skipped''
    | Blocked \<Rightarrow> ''blocked''
    | Failed \<Rightarrow> ''failed''
    | Cancelled \<Rightarrow> ''cancelled''
    | Completed \<Rightarrow> ''completed'')"

lemmas state_pred_defs = is_working_def holds_the_file_def is_queued_or_working_def
  holds_a_connection_def

lemma can_transition_refl [simp]: "can_transition_to s s"
  by (simp add: can_transition_to_def)

fun legal_path :: "download_state \<Rightarrow> download_state list \<Rightarrow> bool" where
  "legal_path s [] = True"
| "legal_path s (t # ts) = (can_transition_to s t \<and> legal_path t ts)"

lemma legal_path_append:
  "legal_path s (xs @ ys) \<longleftrightarrow> legal_path s xs \<and> legal_path (last (s # xs)) ys"
  by (induction s xs rule: legal_path.induct) auto

section \<open>Priorities and kinds\<close>

datatype download_priority = Low | Normal | High

definition as_i32 :: "download_priority \<Rightarrow> u32" where
  "as_i32 p = (case p of Low \<Rightarrow> - 1 | Normal \<Rightarrow> 0 | High \<Rightarrow> 1)"

text \<open>A stored integer is read as two's complement.\<close>

definition from_i32 :: "u32 \<Rightarrow> download_priority" where
  "from_i32 v = (if sint v \<le> - 1 then Low else if v = 0 then Normal else High)"

datatype download_kind =
    Http | Usenet | Media | Gallery | Record | Torrent | Ftp | Sftp | Plugin | ObjectStorage

instantiation download_priority :: linorder
begin

definition less_eq_download_priority :: "download_priority \<Rightarrow> download_priority \<Rightarrow> bool" where
  "less_eq_download_priority p q \<longleftrightarrow> sint (as_i32 p) \<le> sint (as_i32 q)"

definition less_download_priority :: "download_priority \<Rightarrow> download_priority \<Rightarrow> bool" where
  "less_download_priority p q \<longleftrightarrow> sint (as_i32 p) < sint (as_i32 q)"

instance
proof
  fix p q r :: download_priority
  show "p < q \<longleftrightarrow> p \<le> q \<and> \<not> q \<le> p"
    by (auto simp: less_eq_download_priority_def less_download_priority_def)
  show "p \<le> p" by (simp add: less_eq_download_priority_def)
  show "p \<le> q \<Longrightarrow> q \<le> r \<Longrightarrow> p \<le> r" by (simp add: less_eq_download_priority_def)
  show "p \<le> q \<Longrightarrow> q \<le> p \<Longrightarrow> p = q"
    by (cases p; cases q) (simp_all add: less_eq_download_priority_def as_i32_def)
  show "p \<le> q \<or> q \<le> p" by (auto simp: less_eq_download_priority_def)
qed

end

section \<open>Files\<close>

text \<open>A parsed address: its text and what the program asks of it.\<close>

record url =
  url_text :: string
  url_scheme :: string
  url_host :: "string option"

record download_file =
  df_id :: download_id
  df_package_id :: package_id
  df_source :: url
  df_file_name :: string
  df_state :: download_state
  df_total_bytes :: "u64 option"
  df_committed_bytes :: u64
  df_retry_count :: u32
  df_next_retry_at :: "instant option"
  df_last_error :: "failure option"
  df_account_id :: "account_id option"
  df_mirror_group :: "string option"
  df_position :: int
  df_kind :: download_kind
  df_created_at :: instant

section \<open>What legal moves can do\<close>

text \<open>
  States a run from a finished download stays in until a failure or a cancellation is recorded.
\<close>

definition finished_side :: "download_state \<Rightarrow> bool" where
  "finished_side s = (s \<in> {Completed, Extracting})"

lemma finished_side_step:
  "finished_side s \<Longrightarrow> can_transition_to s t \<Longrightarrow> finished_side t \<or> t = Failed"
  by (cases s) (auto simp: finished_side_def can_transition_to_def)

lemma finished_side_run:
  "finished_side s \<Longrightarrow> legal_path s ts \<Longrightarrow> Failed \<notin> set ts \<Longrightarrow> t \<in> set ts \<Longrightarrow> finished_side t"
proof (induction ts arbitrary: s)
  case Nil
  then show ?case by simp
next
  case (Cons u us)
  then have "finished_side u" using finished_side_step [of s u] by auto
  with Cons show ?case by auto
qed

text \<open>A finished download is never taken up again by legal moves alone: on every run of
  legal moves from \<open>Completed\<close> that reaches a state other than \<open>Completed\<close> or \<open>Extracting\<close> --
  waiting, moving, paused, cancelled -- a failure was recorded in between.\<close>

lemma finished_download_not_taken_up:
  assumes "legal_path Completed ts" and "t \<in> set ts" and "t \<notin> {Completed, Extracting}"
  shows "Failed \<in> set ts"
  using assms finished_side_run [of Completed ts t] by (auto simp: finished_side_def)

lemma finished_download_not_taken_up_sample:
  "Failed \<in> set [Extracting, Failed, Queued]"
  by (rule finished_download_not_taken_up [of _ Queued]) (simp_all add: can_transition_to_def)

text \<open>Every state has a way to the end: the run of legal moves to \<open>Completed\<close>.\<close>

fun way_to_completed :: "download_state \<Rightarrow> download_state list" where
  "way_to_completed Completed = []"
| "way_to_completed Verifying = [Completed]"
| "way_to_completed Repairing = [Completed]"
| "way_to_completed Extracting = [Completed]"
| "way_to_completed Seeding = [Completed]"
| "way_to_completed Downloading = [Verifying, Completed]"
| "way_to_completed Resolving = [Downloading, Verifying, Completed]"
| "way_to_completed Paused = [Downloading, Verifying, Completed]"
| "way_to_completed RetryWait = [Downloading, Verifying, Completed]"
| "way_to_completed Queued = [Resolving, Downloading, Verifying, Completed]"
| "way_to_completed Blocked = [Resolving, Downloading, Verifying, Completed]"
| "way_to_completed Failed = [Queued, Resolving, Downloading, Verifying, Completed]"
| "way_to_completed Cancelled = [Queued, Resolving, Downloading, Verifying, Completed]"
| "way_to_completed Skipped = [Queued, Resolving, Downloading, Verifying, Completed]"

text \<open>No state is a dead end: from every state some run of at most five legal moves
  ends in \<open>Completed\<close>.\<close>

lemma no_dead_end:
  "\<exists>ts. legal_path s ts \<and> last (s # ts) = Completed \<and> length ts \<le> 5"
  by (rule exI [of _ "way_to_completed s"]) (cases s; simp add: can_transition_to_def)

text \<open>A stored priority reads back as the one written, and any other integer by its sign -- not as
  \<open>Normal\<close>, as the comment on \<open>from_i32\<close> has it.\<close>

lemma priority_roundtrip:
  "from_i32 (as_i32 p) = p \<and> sint (as_i32 (from_i32 v)) = sgn (sint v)"
proof
  show "from_i32 (as_i32 p) = p"
    by (cases p) (simp_all add: from_i32_def as_i32_def)
  have "v = 0 \<longleftrightarrow> sint v = 0" by (metis signed_0 signed_word_eqI)
  then show "sint (as_i32 (from_i32 v)) = sgn (sint v)"
    by (cases "sint v \<le> - 1"; cases "v = 0") (auto simp: from_i32_def as_i32_def)
qed

end
