(* ===== verification/Budget.thy ===== *)
theory Budget
  imports Prelude
begin

text \<open>
  The traffic budgets of \<open>rd-limits/src/budget.rs\<close>: byte counters keyed by the calendar day and
  month they belong to, the delta taken from a growing total, and the two readings of a budget
  (which one is exhausted, which one a notification names). \<open>traffic_of\<close> is the abstract account
  the counters implement.
\<close>

record budget_period =
  bp_key :: string
  bp_used_bytes :: u64

record budget_state =
  bs_daily :: budget_period
  bs_monthly :: budget_period
  bs_last_total_bytes :: u64

record budget_limits =
  bl_daily_bytes :: "u64 option"
  bl_monthly_bytes :: "u64 option"

datatype budget_kind = Daily | Monthly

record budget_exceeded =
  be_period :: budget_kind
  be_used_bytes :: u64
  be_limit_bytes :: u64

record budget_reading =
  br_period :: budget_kind
  br_used_bytes :: u64
  br_limit_bytes :: u64

definition empty_period :: budget_period where
  "empty_period = \<lparr>bp_key = [], bp_used_bytes = 0\<rparr>"

definition empty_budget :: budget_state where
  "empty_budget = \<lparr>bs_daily = empty_period, bs_monthly = empty_period, bs_last_total_bytes = 0\<rparr>"

text \<open>One counter rolled onto a period and increased; the code does it once for each of the two.\<close>

definition roll_period :: "budget_period \<Rightarrow> string \<Rightarrow> u64 \<Rightarrow> budget_period" where
  "roll_period p key bytes =
     (let q = (if bp_key p \<noteq> key then \<lparr>bp_key = key, bp_used_bytes = 0\<rparr> else p)
      in q\<lparr>bp_used_bytes := sat_add (bp_used_bytes q) bytes\<rparr>)"

definition budget_record :: "budget_state \<Rightarrow> string \<Rightarrow> string \<Rightarrow> u64 \<Rightarrow> budget_state" where
  "budget_record s day month bytes =
     s\<lparr>bs_daily := roll_period (bs_daily s) day bytes,
       bs_monthly := roll_period (bs_monthly s) month bytes\<rparr>"

definition delta_from_total :: "budget_state \<Rightarrow> u64 \<Rightarrow> u64 \<times> budget_state" where
  "delta_from_total s total_bytes =
     (sat_sub total_bytes (bs_last_total_bytes s), s\<lparr>bs_last_total_bytes := total_bytes\<rparr>)"

definition exhausted :: "budget_state \<Rightarrow> budget_limits \<Rightarrow> budget_exceeded option" where
  "exhausted s limits =
     (case (case bl_daily_bytes limits of
              Some limit \<Rightarrow>
                if bp_used_bytes (bs_daily s) \<ge> limit
                then Some \<lparr>be_period = Daily, be_used_bytes = bp_used_bytes (bs_daily s),
                           be_limit_bytes = limit\<rparr>
                else None
            | None \<Rightarrow> None) of
        Some e \<Rightarrow> Some e
      | None \<Rightarrow>
          (case bl_monthly_bytes limits of
             Some limit \<Rightarrow>
               if bp_used_bytes (bs_monthly s) \<ge> limit
               then Some \<lparr>be_period = Monthly, be_used_bytes = bp_used_bytes (bs_monthly s),
                          be_limit_bytes = limit\<rparr>
               else None
           | None \<Rightarrow> None))"

definition left_bytes :: "budget_reading \<Rightarrow> u64" where
  "left_bytes r = sat_sub (br_limit_bytes r) (br_used_bytes r)"

definition reading :: "budget_state \<Rightarrow> budget_limits \<Rightarrow> budget_reading option" where
  "reading s limits =
     (let daily = map_option (\<lambda>limit. \<lparr>br_period = Daily, br_used_bytes = bp_used_bytes (bs_daily s),
                                       br_limit_bytes = limit\<rparr>) (bl_daily_bytes limits);
          monthly = map_option (\<lambda>limit. \<lparr>br_period = Monthly, br_used_bytes = bp_used_bytes (bs_monthly s),
                                         br_limit_bytes = limit\<rparr>) (bl_monthly_bytes limits)
      in case (daily, monthly) of
           (Some d, Some m) \<Rightarrow> if left_bytes m < left_bytes d then Some m else Some d
         | (Some d, None) \<Rightarrow> Some d
         | (None, m) \<Rightarrow> m)"

section \<open>The account the counters keep\<close>

text \<open>
  A log of recorded traffic, oldest first: the day, the month and the bytes. The traffic of a
  period is the sum of its entries.
\<close>

type_synonym traffic_log = "(string \<times> string \<times> u64) list"

definition record_all :: "budget_state \<Rightarrow> traffic_log \<Rightarrow> budget_state" where
  "record_all s log = foldl (\<lambda>s (day, month, bytes). budget_record s day month bytes) s log"

definition traffic_of :: "(string \<times> string \<times> u64 \<Rightarrow> string) \<Rightarrow> string \<Rightarrow> traffic_log \<Rightarrow> nat" where
  "traffic_of period key log = (\<Sum>e\<leftarrow>log. if period e = key then unat (snd (snd e)) else 0)"

abbreviation day_of :: "string \<times> string \<times> u64 \<Rightarrow> string" where
  "day_of e \<equiv> fst e"

abbreviation month_of :: "string \<times> string \<times> u64 \<Rightarrow> string" where
  "month_of e \<equiv> fst (snd e)"

text \<open>The keys of a log that runs forward in time never come back once they were left.\<close>

definition forward :: "(string \<times> string \<times> u64 \<Rightarrow> string) \<Rightarrow> traffic_log \<Rightarrow> bool" where
  "forward period log = sorted (map period log)"

lemma record_all_snoc:
  "record_all s (log @ [(day, month, bytes)]) = budget_record (record_all s log) day month bytes"
  by (simp add: record_all_def)

lemma traffic_of_snoc:
  "traffic_of period key (log @ [e]) =
   traffic_of period key log + (if period e = key then unat (snd (snd e)) else 0)"
  by (simp add: traffic_of_def)

lemma traffic_of_absent: "key \<notin> set (map period log) \<Longrightarrow> traffic_of period key log = 0"
  by (induction log) (auto simp: traffic_of_def)

lemma forward_snoc:
  "forward period (log @ [e]) \<Longrightarrow> forward period log \<and> (\<forall>x \<in> set log. period x \<le> period e)"
  by (auto simp: forward_def sorted_append)

text \<open>A key other than the last one of a forward log does not occur in it when it is appended.\<close>

lemma forward_new_key:
  assumes "forward period (log @ [e])" and "log \<noteq> []" and "period (last log) \<noteq> period e"
  shows "period e \<notin> set (map period log)"
proof
  assume "period e \<in> set (map period log)"
  then obtain x where x: "x \<in> set log" "period x = period e" by auto
  have l: "last log \<in> set log" using assms(2) by simp
  have fw: "forward period log" and up: "\<forall>x \<in> set log. period x \<le> period e"
    using forward_snoc [OF assms(1)] by auto
  have "log = butlast log @ [last log]" using assms(2) by simp
  then have "\<forall>y \<in> set (butlast log). period y \<le> period (last log)"
    using fw forward_snoc by metis
  with x assms(2) have "period e \<le> period (last log)"
    by (metis append_butlast_last_id in_set_conv_decomp order_refl rotate1.simps(2) set_ConsD set_rotate1)
  moreover have "period (last log) \<le> period e" using up l by blast
  ultimately show False using assms(3) by simp
qed

definition period_agrees :: "(string \<times> string \<times> u64 \<Rightarrow> string) \<Rightarrow> budget_period \<Rightarrow> traffic_log \<Rightarrow> bool" where
  "period_agrees period p log \<longleftrightarrow>
     (log \<noteq> [] \<longrightarrow> bp_key p = period (last log)
        \<and> unat (bp_used_bytes p) = min (traffic_of period (period (last log)) log) (2 ^ 64 - 1))"

lemma period_agrees_step:
  assumes agrees: "period_agrees period p log"
    and fw: "forward period (log @ [e])"
    and fresh: "log = [] \<Longrightarrow> bp_used_bytes p = 0"
  shows "period_agrees period (roll_period p (period e) (snd (snd e))) (log @ [e])"
proof (cases "log = []")
  case True
  then show ?thesis
    using fresh unsigned_less [of "snd (snd e)"]
    by (auto simp: period_agrees_def traffic_of_def unat_sat_add roll_period_def Let_def)
next
  case False
  with agrees have p: "bp_key p = period (last log)"
    "unat (bp_used_bytes p) = min (traffic_of period (period (last log)) log) (2 ^ 64 - 1)"
    by (auto simp: period_agrees_def)
  show ?thesis
  proof (cases "bp_key p = period e")
    case True
    with p show ?thesis
      by (auto simp: period_agrees_def traffic_of_snoc unat_sat_add roll_period_def Let_def)
  next
    case new: False
    then have "period e \<notin> set (map period log)"
      using forward_new_key [OF fw False] p(1) by auto
    then have "traffic_of period (period e) log = 0" by (rule traffic_of_absent)
    then show ?thesis
      using new unsigned_less [of "snd (snd e)"]
      by (auto simp: period_agrees_def traffic_of_snoc unat_sat_add roll_period_def Let_def)
  qed
qed

text \<open>Property C36. The counters are the account: after any traffic recorded forward in time, the
  daily and the monthly counter carry the last entry's day and month, and each equals the sum of
  everything recorded in that period, cut off at the largest 64-bit value.\<close>

theorem counters_are_the_account:
  assumes "forward day_of log" and "forward month_of log" and "log \<noteq> []"
  shows "let s = record_all empty_budget log; d = day_of (last log); m = month_of (last log) in
    bp_key (bs_daily s) = d \<and> bp_key (bs_monthly s) = m
    \<and> unat (bp_used_bytes (bs_daily s)) = min (traffic_of day_of d log) (2 ^ 64 - 1)
    \<and> unat (bp_used_bytes (bs_monthly s)) = min (traffic_of month_of m log) (2 ^ 64 - 1)"
proof -
  have "period_agrees day_of (bs_daily (record_all empty_budget log)) log
      \<and> period_agrees month_of (bs_monthly (record_all empty_budget log)) log"
    using assms(1,2)
  proof (induction log rule: rev_induct)
    case Nil
    then show ?case by (simp add: period_agrees_def)
  next
    case (snoc e log)
    obtain d m b where e: "e = (d, m, b)" by (cases e)
    let ?s = "record_all empty_budget log"
    have IH: "period_agrees day_of (bs_daily ?s) log" "period_agrees month_of (bs_monthly ?s) log"
      using snoc.IH forward_snoc [OF snoc.prems(1)] forward_snoc [OF snoc.prems(2)] by auto
    have fresh: "log = [] \<Longrightarrow> bp_used_bytes (bs_daily ?s) = 0"
      "log = [] \<Longrightarrow> bp_used_bytes (bs_monthly ?s) = 0"
      by (auto simp: record_all_def empty_budget_def empty_period_def)
    show ?case
      using period_agrees_step [OF IH(1) snoc.prems(1) fresh(1)]
        period_agrees_step [OF IH(2) snoc.prems(2) fresh(2)]
      by (simp add: e record_all_snoc budget_record_def)
  qed
  then show ?thesis using assms(3) by (simp add: period_agrees_def Let_def)
qed

theorem counters_are_the_account_witness:
  "let s = record_all empty_budget [(''2026-01-01'', ''2026-01'', 5), (''2026-01-02'', ''2026-01'', 7)] in
     unat (bp_used_bytes (bs_monthly s)) = 12"
  using counters_are_the_account [of "[(''2026-01-01'', ''2026-01'', 5), (''2026-01-02'', ''2026-01'', 7)]"]
  by (simp add: forward_def traffic_of_def Let_def less_eq_char_def less_char_def)

section \<open>Traffic from a running total\<close>

fun deltas :: "budget_state \<Rightarrow> u64 list \<Rightarrow> u64 list" where
  "deltas s [] = []"
| "deltas s (t # ts) = (case delta_from_total s t of (d, s') \<Rightarrow> d # deltas s' ts)"

fun growth :: "nat \<Rightarrow> u64 list \<Rightarrow> nat" where
  "growth prev [] = 0"
| "growth prev (t # ts) = (unat t - prev) + growth (unat t) ts"

lemma deltas_sum: "(\<Sum>d\<leftarrow>deltas s ts. unat d) = growth (unat (bs_last_total_bytes s)) ts"
  by (induction ts arbitrary: s) (simp_all add: delta_from_total_def unat_sat_sub)

text \<open>A total that shrinks adds nothing and is not paid back later: the deltas of any
  sequence of totals add up to the sum of its rises, and for totals that only grow to the last
  total less the first reading.\<close>

lemma deltas_count_every_rise_once:
  "(\<Sum>d\<leftarrow>deltas s ts. unat d) = growth (unat (bs_last_total_bytes s)) ts
   \<and> (sorted (bs_last_total_bytes s # ts) \<longrightarrow>
      (\<Sum>d\<leftarrow>deltas s ts. unat d) + unat (bs_last_total_bytes s) = unat (last (bs_last_total_bytes s # ts)))"
proof
  show "(\<Sum>d\<leftarrow>deltas s ts. unat d) = growth (unat (bs_last_total_bytes s)) ts"
    by (rule deltas_sum)
  have "sorted (t # ts) \<Longrightarrow> unat t + growth (unat t) ts = unat (last (t # ts))" for t :: u64
    by (induction ts arbitrary: t) (auto simp: word_le_nat_alt)
  then show "sorted (bs_last_total_bytes s # ts) \<longrightarrow>
      (\<Sum>d\<leftarrow>deltas s ts. unat d) + unat (bs_last_total_bytes s) = unat (last (bs_last_total_bytes s # ts))"
    by (simp only: deltas_sum add.commute) blast
qed

lemma deltas_count_every_rise_once_sample:
  "(\<Sum>d\<leftarrow>deltas empty_budget [10, 4, 9]. unat d) = 15
   \<and> (\<Sum>d\<leftarrow>deltas empty_budget [10, 14]. unat d) = 14"
  using deltas_count_every_rise_once [of empty_budget "[10, 4, 9]"]
    deltas_count_every_rise_once [of empty_budget "[10, 14]"]
  by (simp add: empty_budget_def word_le_nat_alt)

section \<open>The two readings of a budget agree\<close>

lemma left_bytes_0: "left_bytes r = 0 \<longleftrightarrow> br_limit_bytes r \<le> br_used_bytes r"
  by (auto simp: left_bytes_def sat_sub_def)

text \<open>The budget a notification names and the budget that holds the queue are the same
  one: a budget is exhausted exactly when the reading has nothing left, and then both name the
  same period, its traffic and its limit.\<close>

lemma exhausted_iff_nothing_left:
  "exhausted s limits =
     (case reading s limits of
        Some r \<Rightarrow> if left_bytes r = 0
                  then Some \<lparr>be_period = br_period r, be_used_bytes = br_used_bytes r,
                             be_limit_bytes = br_limit_bytes r\<rparr>
                  else None
      | None \<Rightarrow> None)"
proof (cases "bl_daily_bytes limits")
  case None
  then show ?thesis
    by (auto simp: exhausted_def reading_def left_bytes_0 Let_def split: option.splits)
next
  case (Some d)
  show ?thesis
  proof (cases "bl_monthly_bytes limits")
    case None
    with Some show ?thesis
      by (simp add: exhausted_def reading_def left_bytes_0 Let_def)
  next
    case m: (Some m)
    let ?d = "\<lparr>br_period = Daily, br_used_bytes = bp_used_bytes (bs_daily s), br_limit_bytes = d\<rparr>"
    let ?m = "\<lparr>br_period = Monthly, br_used_bytes = bp_used_bytes (bs_monthly s), br_limit_bytes = m\<rparr>"
    have z: "left_bytes ?d = 0 \<longleftrightarrow> d \<le> bp_used_bytes (bs_daily s)"
      "left_bytes ?m = 0 \<longleftrightarrow> m \<le> bp_used_bytes (bs_monthly s)"
      by (simp_all add: left_bytes_0)
    have r: "reading s limits = Some (if left_bytes ?m < left_bytes ?d then ?m else ?d)"
      using Some m by (simp add: reading_def Let_def)
    show ?thesis
    proof (cases "left_bytes ?d = 0")
      case True
      then have "\<not> left_bytes ?m < left_bytes ?d" by simp
      with r have "reading s limits = Some ?d" by (simp only: if_False)
      then show ?thesis using True z Some by (simp add: exhausted_def)
    next
      case False
      then have d0: "\<not> d \<le> bp_used_bytes (bs_daily s)" using z by blast
      show ?thesis
      proof (cases "left_bytes ?m = 0")
        case True
        then have "left_bytes ?m < left_bytes ?d"
          using False by (simp only: word_neq_0_conv)
        with r have "reading s limits = Some ?m" by (simp only: if_True)
        then show ?thesis using True z(2) d0 Some m by (simp add: exhausted_def)
      next
        case m0: False
        then have "\<not> m \<le> bp_used_bytes (bs_monthly s)" using z by blast
        then have e: "exhausted s limits = None" using d0 Some m by (simp add: exhausted_def)
        obtain q where "reading s limits = Some q" "left_bytes q \<noteq> 0"
          using r False m0 by (cases "left_bytes ?m < left_bytes ?d") auto
        then show ?thesis using e by simp
      qed
    qed
  qed
qed

end
