(* ===== verification/Limiter.thy ===== *)
theory Limiter
  imports Hosts Lifecycle Budget
begin

text \<open>
  The hierarchical speed limits of \<open>rd-limits\<close>: \<open>limiter.rs\<close> (buckets and their registry),
  \<open>scope.rs\<close> (what a limit applies to), \<open>profile.rs\<close> and \<open>capabilities.rs\<close>.

  A \<open>BandwidthLimiter\<close> is shared: transfers hold clones of it while a profile switch changes it.
  The model has an explicit store of these cells (\<open>limiters\<close>), and the registry holds addresses
  into it; \<open>bucket\<close> is the contract of the places of the registry that hold one. The token bucket
  itself is a library (\<open>governor\<close>): what it answers to a request is a parameter of \<open>acquire\<close>. A request
  takes its bytes piece by piece while other tasks change the limits, so it runs over a history of the
  store: \<open>hist n\<close> is the state its \<open>n\<close>-th reading of a limit sees. It reads the limit first and waits for
  its turn at the limiter it read, as the code does.
\<close>

section \<open>What a limit applies to\<close>

datatype limit_scope =
    Protocol download_kind
  | Host string
  | Account account_id
  | Category category_id

definition limit_scope_host :: "string \<Rightarrow> limit_scope" where
  "limit_scope_host value = Host (host_key value)"

datatype limit_source =
  SrcManual | SrcGlobal | SrcProtocol | SrcHost | SrcAccount | SrcCategory | SrcPackage

record transfer_scope =
  ts_kind :: "download_kind option"
  ts_host :: "string option"
  ts_account_id :: "account_id option"
  ts_category_id :: "category_id option"
  ts_package_id :: "package_id option"

definition default_scope :: transfer_scope where
  "default_scope = \<lparr>ts_kind = None, ts_host = None, ts_account_id = None, ts_category_id = None,
                    ts_package_id = None\<rparr>"

definition pushed :: "('a \<Rightarrow> 'b) \<Rightarrow> 'a option \<Rightarrow> 'b list" where
  "pushed f x = (case x of Some v \<Rightarrow> [f v] | None \<Rightarrow> [])"

definition scope_keys :: "transfer_scope \<Rightarrow> (limit_source \<times> limit_scope) list" where
  "scope_keys scope =
     pushed (\<lambda>kind. (SrcProtocol, Protocol kind)) (ts_kind scope)
     @ pushed (\<lambda>host. (SrcHost, limit_scope_host host)) (ts_host scope)
     @ pushed (\<lambda>account. (SrcAccount, Account account)) (ts_account_id scope)
     @ pushed (\<lambda>category. (SrcCategory, Category category)) (ts_category_id scope)"

definition for_download ::
    "download_kind \<Rightarrow> string option \<Rightarrow> account_id option \<Rightarrow> category_id option \<Rightarrow> transfer_scope" where
  "for_download kind host account category =
     \<lparr>ts_kind = Some kind, ts_host = map_option host_key host, ts_account_id = account,
      ts_category_id = category, ts_package_id = None\<rparr>"

definition in_package :: "package_id \<Rightarrow> transfer_scope \<Rightarrow> transfer_scope" where
  "in_package package scope = scope\<lparr>ts_package_id := Some package\<rparr>"

section \<open>Profiles and what the transports enforce\<close>

record scope_limit =
  sl_scope :: limit_scope
  sl_bytes_per_second :: u64

record bandwidth_profile =
  pf_id :: profile_id
  pf_name :: string
  pf_download_bytes_per_second :: "u64 option"
  pf_upload_bytes_per_second :: "u64 option"
  pf_max_active_files :: "u32 option"
  pf_daily_budget_bytes :: "u64 option"
  pf_monthly_budget_bytes :: "u64 option"
  pf_scopes :: "scope_limit list"
  pf_pause_downloads :: bool

text \<open>The new profile's random id is an argument.\<close>

definition bandwidth_profile_new :: "profile_id \<Rightarrow> string \<Rightarrow> bandwidth_profile" where
  "bandwidth_profile_new i name =
     \<lparr>pf_id = i, pf_name = name, pf_download_bytes_per_second = None,
      pf_upload_bytes_per_second = None, pf_max_active_files = None, pf_daily_budget_bytes = None,
      pf_monthly_budget_bytes = None, pf_scopes = [], pf_pause_downloads = False\<rparr>"

definition profile_budget_limits :: "bandwidth_profile \<Rightarrow> budget_limits" where
  "profile_budget_limits p =
     \<lparr>bl_daily_bytes = pf_daily_budget_bytes p, bl_monthly_bytes = pf_monthly_budget_bytes p\<rparr>"

definition scope_limits :: "bandwidth_profile \<Rightarrow> (limit_scope \<times> u64) list" where
  "scope_limits p =
     map (\<lambda>l. (sl_scope l, sl_bytes_per_second l))
       (filter (\<lambda>l. sl_bytes_per_second l > 0) (pf_scopes p))"

record runner_limit_support =
  rl_kind :: download_kind
  rl_download_enforced :: bool
  rl_scoped_enforced :: bool
  rl_note :: "string option"
  rl_note_code :: "string option"

definition limit_capabilities :: "runner_limit_support list" where
  "limit_capabilities =
    [\<lparr>rl_kind = Http, rl_download_enforced = True, rl_scoped_enforced = True,
      rl_note = None, rl_note_code = None\<rparr>,
     \<lparr>rl_kind = Usenet, rl_download_enforced = True, rl_scoped_enforced = True,
      rl_note = None, rl_note_code = None\<rparr>,
     \<lparr>rl_kind = Torrent, rl_download_enforced = True, rl_scoped_enforced = False,
      rl_note = Some ''engine applies one session-wide rate'',
      rl_note_code = Some ''torrent_session_rate''\<rparr>,
     \<lparr>rl_kind = Media, rl_download_enforced = True, rl_scoped_enforced = False,
      rl_note = Some ''yt-dlp takes one rate per job (--limit-rate)'',
      rl_note_code = Some ''media_job_rate''\<rparr>,
     \<lparr>rl_kind = Gallery, rl_download_enforced = True, rl_scoped_enforced = False,
      rl_note = Some ''gallery-dl takes one rate per job (--limit-rate)'',
      rl_note_code = Some ''gallery_job_rate''\<rparr>,
     \<lparr>rl_kind = Record, rl_download_enforced = False, rl_scoped_enforced = False,
      rl_note = Some ''streamlink has no rate limit; a live recording cannot be slowed'',
      rl_note_code = Some ''record_no_rate''\<rparr>]"

section \<open>Buckets\<close>

definition PIECE_BYTES :: u32 where
  "PIECE_BYTES = 64 * 1024"

text \<open>A rate limiter is an object: \<open>al_limiter\<close> is its identity.\<close>

record active_limit =
  al_limiter :: nat
  al_capacity :: u32

text \<open>The store of shared cells: their contents, the next free address, the limiters made so far.\<close>

record limiters =
  lm_cell :: "nat \<Rightarrow> active_limit option"
  lm_cells :: nat
  lm_made :: nat

definition capacity_of :: "u64 \<Rightarrow> u32" where
  "capacity_of rate = (if unat rate < 2 ^ 32 then ucast rate else - 1)"

definition set_limit :: "nat \<Rightarrow> u64 option \<Rightarrow> 'a limiters_scheme \<Rightarrow> 'a limiters_scheme" where
  "set_limit c bytes_per_second h =
     (let next = (case bytes_per_second of
                    Some rate \<Rightarrow>
                      if rate > 0 then
                        let capacity = capacity_of rate
                        in if capacity = 0 then None
                           else Some \<lparr>al_limiter = lm_made h, al_capacity = capacity\<rparr>
                      else None
                  | None \<Rightarrow> None)
      in h\<lparr>lm_cell := (lm_cell h)(c := next), lm_made := lm_made h + 1\<rparr>)"

definition bandwidth_limiter_new :: "u64 option \<Rightarrow> 'a limiters_scheme \<Rightarrow> nat \<times> 'a limiters_scheme" where
  "bandwidth_limiter_new bytes_per_second h =
     (let c = lm_cells h
      in (c, set_limit c bytes_per_second (h\<lparr>lm_cell := (lm_cell h)(c := None), lm_cells := c + 1\<rparr>)))"

definition limit :: "nat \<Rightarrow> 'a limiters_scheme \<Rightarrow> u64 option" where
  "limit c h = map_option (\<lambda>l. ucast (al_capacity l)) (lm_cell h c)"

lemma piece_unat:
  "unat (ucast (min remaining (ucast (min PIECE_BYTES (cap :: u32)))) :: u32)
   = min (unat (remaining :: u64)) (min 65536 (unat cap))"
proof -
  have c: "unat (ucast (min PIECE_BYTES cap) :: u64) = min 65536 (unat cap)"
    by (auto simp: PIECE_BYTES_def min_def word_le_nat_alt)
  have m: "unat (min remaining (ucast (min PIECE_BYTES cap))) = min (unat remaining) (min 65536 (unat cap))"
    using c by (auto simp: min_def word_le_nat_alt)
  then have "unat (min remaining (ucast (min PIECE_BYTES cap))) < 2 ^ 32" by simp
  then show ?thesis using m by (subst unat_cast) simp_all
qed

datatype acquire_error = ZeroPiece | QuotaCapacity

text \<open>
  One request at one bucket, from reading \<open>n\<close> on. The cell is read for every piece; the piece then waits
  for its turn at the limiter that was read, also when the cell has changed by then. \<open>ready l n\<close> says
  whether a rate limiter serves \<open>n\<close> units at all. The result is the pieces taken, each with the limiter it
  was taken from, and the number of the next reading.
\<close>

function acquire ::
    "(active_limit \<Rightarrow> u32 \<Rightarrow> bool) \<Rightarrow> (nat \<Rightarrow> 'a limiters_scheme) \<Rightarrow> nat \<Rightarrow> nat \<Rightarrow> u64
     \<Rightarrow> (acquire_error + (active_limit \<times> u32) list) \<times> nat" where
  "acquire ready hist c n remaining =
     (if remaining > 0 then
        case lm_cell (hist n) c of
          None \<Rightarrow> (Inr [], Suc n)
        | Some active \<Rightarrow>
            let piece = ucast (min remaining (ucast (min PIECE_BYTES (al_capacity active)))) :: u32
            in if piece = 0 then (Inl ZeroPiece, Suc n)
               else if \<not> ready active piece then (Inl QuotaCapacity, Suc n)
               else (case acquire ready hist c (Suc n) (remaining - ucast piece) of
                       (Inl e, n) \<Rightarrow> (Inl e, n)
                     | (Inr taken, n) \<Rightarrow> (Inr ((active, piece) # taken), n))
      else (Inr [], n))"
  by pat_completeness auto

termination
proof (relation "measure (\<lambda>(ready, hist, c, n, remaining). unat remaining)")
  fix ready and hist :: "nat \<Rightarrow> 'a limiters_scheme" and c n limit x and remaining :: u64
  assume r: "0 < remaining" and x: "x = (ucast (min remaining (ucast (min PIECE_BYTES (al_capacity limit)))) :: u32)"
    and nz: "x \<noteq> 0"
  have u: "unat (ucast x :: u64) = unat x" by simp
  have "unat x \<le> unat remaining" unfolding x by (simp add: piece_unat)
  moreover have "unat x \<noteq> 0" using nz by (simp add: unat_eq_0)
  ultimately have "unat (remaining - ucast x) = unat remaining - unat x"
    using u by (subst unat_sub) (auto simp: word_le_nat_alt)
  with \<open>unat x \<noteq> 0\<close> \<open>unat x \<le> unat remaining\<close> show "((ready, hist, c, Suc n, remaining - ucast x), ready, hist, c, n, remaining)
    \<in> measure (\<lambda>(ready, hist, c, n, remaining). unat remaining)"
    by simp
qed simp

declare acquire.simps [simp del]

section \<open>The registry\<close>

text \<open>The registry's state on top of the store its cells live in.\<close>

record registry = limiters +
  rs_manual :: "nat option"
  rs_global :: "nat option"
  rs_scoped :: "limit_scope \<rightharpoonup> nat"
  rs_packages :: "package_id \<rightharpoonup> nat"
  rs_upload_manual :: nat
  rs_upload_global :: nat

definition limiter_registry_new :: registry where
  "limiter_registry_new =
     \<lparr>lm_cell = (\<lambda>_. None), lm_cells = 2, lm_made = 0, rs_manual = None, rs_global = None,
      rs_scoped = Map.empty, rs_packages = Map.empty, rs_upload_manual = 0, rs_upload_global = 1\<rparr>"

definition set_global :: "u64 option \<Rightarrow> registry \<Rightarrow> registry" where
  "set_global rate st =
     (case rs_global st of
        Some c \<Rightarrow> set_limit c rate st
      | None \<Rightarrow> (case bandwidth_limiter_new rate st of (c, st') \<Rightarrow> st'\<lparr>rs_global := Some c\<rparr>))"

definition set_scoped :: "limit_scope \<times> u64 \<Rightarrow> registry \<Rightarrow> registry" where
  "set_scoped entry st =
     (case rs_scoped st (fst entry) of
        Some c \<Rightarrow> set_limit c (Some (snd entry)) st
      | None \<Rightarrow> (case bandwidth_limiter_new (Some (snd entry)) st of
                   (c, st') \<Rightarrow> st'\<lparr>rs_scoped := (rs_scoped st')(fst entry \<mapsto> c)\<rparr>))"

definition registry_apply :: "u64 option \<Rightarrow> (limit_scope \<times> u64) list \<Rightarrow> registry \<Rightarrow> registry" where
  "registry_apply global scoped st =
     (let st = set_global global st;
          st = st\<lparr>rs_scoped := (\<lambda>scope. if list_ex (\<lambda>(other, _). other = scope) scoped
                                     then rs_scoped st scope else None)\<rparr>
      in fold set_scoped scoped st)"

definition set_manual_limit :: "u64 option \<Rightarrow> registry \<Rightarrow> registry" where
  "set_manual_limit rate st =
     (case rs_manual st of
        Some c \<Rightarrow> set_limit c rate st
      | None \<Rightarrow> (case bandwidth_limiter_new rate st of (c, st') \<Rightarrow> st'\<lparr>rs_manual := Some c\<rparr>))"

definition set_package :: "package_id \<times> u64 \<Rightarrow> registry \<Rightarrow> registry" where
  "set_package entry st =
     (case rs_packages st (fst entry) of
        Some c \<Rightarrow> set_limit c (Some (snd entry)) st
      | None \<Rightarrow> (case bandwidth_limiter_new (Some (snd entry)) st of
                   (c, st') \<Rightarrow> st'\<lparr>rs_packages := (rs_packages st')(fst entry \<mapsto> c)\<rparr>))"

definition set_package_limits :: "(package_id \<times> u64) list \<Rightarrow> registry \<Rightarrow> registry" where
  "set_package_limits limits st =
     fold set_package limits
       (st\<lparr>rs_packages := (\<lambda>package. if list_ex (\<lambda>(other, _). other = package) limits
                                  then rs_packages st package else None)\<rparr>)"

definition apply_upload :: "u64 option \<Rightarrow> registry \<Rightarrow> registry" where
  "apply_upload rate st = set_limit (rs_upload_global st) rate st"

definition set_manual_upload_limit :: "u64 option \<Rightarrow> registry \<Rightarrow> registry" where
  "set_manual_upload_limit rate st = set_limit (rs_upload_manual st) rate st"

definition upload_chain :: "registry \<Rightarrow> (limit_source \<times> nat) list" where
  "upload_chain st = [(SrcManual, rs_upload_manual st), (SrcGlobal, rs_upload_global st)]"

definition chain :: "transfer_scope \<Rightarrow> registry \<Rightarrow> (limit_source \<times> nat) list" where
  "chain scope st =
     pushed (\<lambda>c. (SrcManual, c)) (rs_manual st)
     @ pushed (\<lambda>c. (SrcGlobal, c)) (rs_global st)
     @ concat (map (\<lambda>(source, key). pushed (\<lambda>c. (source, c)) (rs_scoped st key)) (scope_keys scope))
     @ pushed (\<lambda>c. (SrcPackage, c)) (Option.bind (ts_package_id scope) (rs_packages st))"

record binding_limit =
  bi_bytes_per_second :: u64
  bi_source :: limit_source

definition strictest :: "(limit_source \<times> nat) list \<Rightarrow> registry \<Rightarrow> binding_limit option" where
  "strictest cells st =
     min_by_key bi_bytes_per_second
       (List.map_filter
          (\<lambda>(source, c). map_option (\<lambda>b. \<lparr>bi_bytes_per_second = b, bi_source = source\<rparr>) (limit c st))
          cells)"

fun acquire_all ::
    "(active_limit \<Rightarrow> u32 \<Rightarrow> bool) \<Rightarrow> (nat \<Rightarrow> 'a limiters_scheme) \<Rightarrow> (limit_source \<times> nat) list \<Rightarrow> nat \<Rightarrow> u64
     \<Rightarrow> acquire_error + (nat \<times> nat \<times> (active_limit \<times> u32) list) list" where
  "acquire_all ready hist [] n bytes = Inr []"
| "acquire_all ready hist ((source, c) # cells) n bytes =
     (case acquire ready hist c n bytes of
        (Inl e, _) \<Rightarrow> Inl e
      | (Inr taken, later) \<Rightarrow>
          (case acquire_all ready hist cells later bytes of
             Inl e \<Rightarrow> Inl e
           | Inr rest \<Rightarrow> Inr ((c, n, taken) # rest)))"

datatype direction = Download | Upload

definition handle_chain :: "direction \<Rightarrow> transfer_scope \<Rightarrow> registry \<Rightarrow> (limit_source \<times> nat) list" where
  "handle_chain d scope st = (case d of Download \<Rightarrow> chain scope st | Upload \<Rightarrow> upload_chain st)"

text \<open>The chain is read off the registry once, then the limits as the pieces come.\<close>

definition scoped_acquire ::
    "(active_limit \<Rightarrow> u32 \<Rightarrow> bool) \<Rightarrow> (nat \<Rightarrow> registry) \<Rightarrow> direction \<Rightarrow> transfer_scope \<Rightarrow> u64
     \<Rightarrow> acquire_error + (nat \<times> nat \<times> (active_limit \<times> u32) list) list" where
  "scoped_acquire ready hist d scope bytes = acquire_all ready hist (handle_chain d scope (hist 0)) 1 bytes"

definition scoped_binding_limit :: "direction \<Rightarrow> transfer_scope \<Rightarrow> registry \<Rightarrow> binding_limit option" where
  "scoped_binding_limit d scope st = strictest (handle_chain d scope st) st"

section \<open>The places that hold a bucket\<close>

datatype slot =
    ManualSlot | GlobalSlot | ScopeSlot limit_scope | PackageSlot package_id
  | UploadManualSlot | UploadGlobalSlot

fun cell_of :: "registry \<Rightarrow> slot \<Rightarrow> nat option" where
  "cell_of st ManualSlot = rs_manual st"
| "cell_of st GlobalSlot = rs_global st"
| "cell_of st (ScopeSlot s) = rs_scoped st s"
| "cell_of st (PackageSlot p) = rs_packages st p"
| "cell_of st UploadManualSlot = Some (rs_upload_manual st)"
| "cell_of st UploadGlobalSlot = Some (rs_upload_global st)"

text \<open>The registry read as what the user set: a rate for every place.\<close>

definition rate_of :: "registry \<Rightarrow> slot \<Rightarrow> u64 option" where
  "rate_of st s = Option.bind (cell_of st s) (\<lambda>c. limit c st)"

text \<open>Zero means unlimited, and a bucket holds 32 bits.\<close>

definition granted :: "u64 option \<Rightarrow> u64 option" where
  "granted rate = (case rate of Some r \<Rightarrow> if r = 0 then None else Some (min r 0xFFFFFFFF) | None \<Rightarrow> None)"

definition registry_ok :: "registry \<Rightarrow> bool" where
  "registry_ok st \<longleftrightarrow>
     (\<forall>s c. cell_of st s = Some c \<longrightarrow> c < lm_cells st)
     \<and> (\<forall>s t c. cell_of st s = Some c \<longrightarrow> cell_of st t = Some c \<longrightarrow> s = t)
     \<and> (\<forall>c l. lm_cell st c = Some l \<longrightarrow> al_capacity l \<noteq> 0)"

lemma unat_capacity_of: "unat (capacity_of rate) = min (unat rate) 0xFFFFFFFF"
  by (auto simp: capacity_of_def unat_cast unat_max)

lemma capacity_of_pos: "rate \<noteq> 0 \<Longrightarrow> capacity_of rate \<noteq> 0"
  using unat_capacity_of [of rate] by (auto simp: min_def unat_eq_0 split: if_splits)

lemma capacity_of_min: "ucast (capacity_of rate) = min rate 0xFFFFFFFF"
  using unat_capacity_of [of rate]
  by (intro word_unat_eq_iff [THEN iffD2]) (auto simp: min_def word_le_nat_alt)

lemma set_limit_cell:
  "lm_cell (set_limit c rate st) d =
     (if d = c then map_option (\<lambda>r. \<lparr>al_limiter = lm_made st, al_capacity = capacity_of r\<rparr>)
                      (case rate of Some r \<Rightarrow> if r = 0 then None else Some r | None \<Rightarrow> None)
      else lm_cell st d)"
  by (auto simp: set_limit_def Let_def capacity_of_pos word_gt_0 split: option.splits)

lemma limit_set_limit [state_simps]:
  "limit d (set_limit c rate st) = (if d = c then granted rate else limit d st)"
  by (auto simp: limit_def set_limit_cell granted_def capacity_of_min split: option.splits)

lemma set_limit_frame [state_simps]:
  "lm_cells (set_limit c rate st) = lm_cells st"
  "rs_manual (set_limit c rate st') = rs_manual st'" "rs_global (set_limit c rate st') = rs_global st'"
  "rs_scoped (set_limit c rate st') = rs_scoped st'" "rs_packages (set_limit c rate st') = rs_packages st'"
  "rs_upload_manual (set_limit c rate st') = rs_upload_manual st'"
  "rs_upload_global (set_limit c rate st') = rs_upload_global st'"
  by (simp_all add: set_limit_def Let_def)

lemma cell_of_set_limit [state_simps]: "cell_of (set_limit c rate st) s = cell_of st s"
  by (cases s) (simp_all add: state_simps)

lemma rate_of_set_limit:
  assumes "registry_ok st" and "cell_of st s = Some c"
  shows "rate_of (set_limit c rate st) = (rate_of st)(s := granted rate)"
proof
  fix t
  show "rate_of (set_limit c rate st) t = ((rate_of st)(s := granted rate)) t"
  proof (cases "t = s")
    case True
    then show ?thesis using assms(2) by (simp add: rate_of_def state_simps)
  next
    case False
    then have "cell_of st t \<noteq> Some c" using assms by (auto simp: registry_ok_def)
    then show ?thesis using False by (cases "cell_of st t") (auto simp: rate_of_def state_simps)
  qed
qed

lemma registry_ok_set_limit:
  assumes "registry_ok st"
  shows "registry_ok (set_limit c rate st)"
  unfolding registry_ok_def cell_of_set_limit set_limit_frame
proof (intro conjI allI impI)
  fix d l
  assume "lm_cell (set_limit c rate st) d = Some l"
  then show "al_capacity l \<noteq> 0"
    using assms by (auto simp: set_limit_cell registry_ok_def capacity_of_pos split: if_splits option.splits)
qed (use assms in \<open>auto simp: registry_ok_def\<close>)

text \<open>
  The contract of a place that may be empty: what it means to store a new cell there. From it
  follows what setting the place's limit does -- to the cell in place, or to a new one.
\<close>

locale bucket =
  fixes slot :: slot and store :: "nat \<Rightarrow> registry \<Rightarrow> registry"
  assumes cell_of_store: "cell_of (store c st) = (cell_of st)(slot := Some c)"
    and store_heap: "lm_cell (store c st) = lm_cell st \<and> lm_cells (store c st) = lm_cells st"
begin

definition put :: "u64 option \<Rightarrow> registry \<Rightarrow> registry" where
  "put rate st =
     (case cell_of st slot of
        Some c \<Rightarrow> set_limit c rate st
      | None \<Rightarrow> (case bandwidth_limiter_new rate st of (c, st') \<Rightarrow> store c st'))"

lemma put_new:
  assumes "registry_ok st" and "cell_of st slot = None"
  shows "rate_of (put rate st) = (rate_of st)(slot := granted rate)"
    and "registry_ok (put rate st)"
    and "cell_of (put rate st) = (cell_of st)(slot := Some (lm_cells st))"
proof -
  let ?c = "lm_cells st"
  let ?h = "st\<lparr>lm_cell := (lm_cell st)(?c := None), lm_cells := Suc ?c\<rparr>"
  let ?st = "store ?c (set_limit ?c rate ?h)"
  have p: "put rate st = ?st" using assms(2) by (simp add: put_def bandwidth_limiter_new_def Let_def)
  have cells: "cell_of ?h t = cell_of st t" for t by (cases t) simp_all
  have c: "cell_of ?st = (cell_of st)(slot := Some ?c)"
    unfolding cell_of_store by (intro ext) (simp add: cell_of_set_limit cells)
  have new: "cell_of st t = Some d \<Longrightarrow> d < ?c" for t d using assms(1) by (auto simp: registry_ok_def)
  have lim: "limit d ?st = limit d (set_limit ?c rate ?h)" for d by (simp add: limit_def store_heap)
  show "rate_of (put rate st) = (rate_of st)(slot := granted rate)"
  proof
    fix t
    show "rate_of (put rate st) t = ((rate_of st)(slot := granted rate)) t"
    proof (cases "t = slot")
      case True
      then show ?thesis unfolding p by (simp add: rate_of_def c lim limit_set_limit)
    next
      case False
      have "limit d (set_limit ?c rate ?h) = limit d st" if "cell_of st t = Some d" for d
        using new [OF that] by (simp add: limit_set_limit) (simp add: limit_def)
      then show ?thesis unfolding p using False
        by (cases "cell_of st t") (simp_all add: rate_of_def c lim)
    qed
  qed
  have h: "lm_cell ?st = lm_cell (set_limit ?c rate ?h)" "lm_cells ?st = Suc ?c"
    by (simp_all add: store_heap set_limit_frame)
  show "registry_ok (put rate st)"
    unfolding registry_ok_def p c h
  proof (intro conjI allI impI)
    fix d l
    assume "lm_cell (set_limit ?c rate ?h) d = Some l"
    then show "al_capacity l \<noteq> 0"
      using assms(1) by (auto simp: set_limit_cell registry_ok_def capacity_of_pos split: if_splits option.splits)
  next
    fix s t d
    assume "((cell_of st)(slot := Some ?c)) s = Some d" "((cell_of st)(slot := Some ?c)) t = Some d"
    then show "s = t"
      using assms(1) new [of s d] new [of t d] by (auto simp: registry_ok_def split: if_splits)
  next
    fix s d
    assume "((cell_of st)(slot := Some ?c)) s = Some d"
    then show "d < Suc ?c" using new [of s d] by (auto split: if_splits)
  qed
  show "cell_of (put rate st) = (cell_of st)(slot := Some ?c)" unfolding p by (rule c)
qed

lemma put_elsewhere:
  assumes "c < lm_cells st" and "cell_of st slot \<noteq> Some c"
  shows "lm_cell (put rate st) c = lm_cell st c \<and> c < lm_cells (put rate st)
    \<and> (cell_of (put rate st) s = Some c \<longrightarrow> cell_of st s = Some c)"
proof (cases "cell_of st slot")
  case None
  have "cell_of (st\<lparr>lm_cell := (lm_cell st)(lm_cells st := None), lm_cells := Suc (lm_cells st)\<rparr>) s = cell_of st s"
    by (cases s) simp_all
  then show ?thesis using assms None
    by (simp add: put_def bandwidth_limiter_new_def Let_def store_heap cell_of_store set_limit_cell
        set_limit_frame cell_of_set_limit)
next
  case (Some d)
  then show ?thesis using assms
    by (simp add: put_def set_limit_cell set_limit_frame cell_of_set_limit)
qed

lemma put_rate: "registry_ok st \<Longrightarrow> rate_of (put rate st) = (rate_of st)(slot := granted rate)"
  using put_new(1) rate_of_set_limit by (cases "cell_of st slot") (auto simp: put_def)

lemma put_ok [step_invs]: "registry_ok st \<Longrightarrow> registry_ok (put rate st)"
  using put_new(2) registry_ok_set_limit by (cases "cell_of st slot") (auto simp: put_def)

lemma put_keeps: "registry_ok st \<Longrightarrow> cell_of st s = Some c \<Longrightarrow> cell_of (put rate st) s = Some c"
  using put_new(3) [of st rate] by (cases "cell_of st slot") (auto simp: put_def cell_of_set_limit)

end

interpretation manual_slot: bucket ManualSlot "\<lambda>c st. st\<lparr>rs_manual := Some c\<rparr>"
proof
  show "cell_of (st\<lparr>rs_manual := Some c\<rparr>) = (cell_of st)(ManualSlot \<mapsto> c)" for c st
    by (rule ext, rename_tac s, case_tac s) simp_all
qed simp

interpretation global_slot: bucket GlobalSlot "\<lambda>c st. st\<lparr>rs_global := Some c\<rparr>"
proof
  show "cell_of (st\<lparr>rs_global := Some c\<rparr>) = (cell_of st)(GlobalSlot \<mapsto> c)" for c st
    by (rule ext, rename_tac s, case_tac s) simp_all
qed simp

interpretation scope_slot: bucket "ScopeSlot k" "\<lambda>c st. st\<lparr>rs_scoped := (rs_scoped st)(k \<mapsto> c)\<rparr>" for k
proof
  show "cell_of (st\<lparr>rs_scoped := (rs_scoped st)(k \<mapsto> c)\<rparr>) = (cell_of st)(ScopeSlot k \<mapsto> c)" for c st
    by (rule ext, rename_tac s, case_tac s) simp_all
qed simp

interpretation package_slot: bucket "PackageSlot k" "\<lambda>c st. st\<lparr>rs_packages := (rs_packages st)(k \<mapsto> c)\<rparr>" for k
proof
  show "cell_of (st\<lparr>rs_packages := (rs_packages st)(k \<mapsto> c)\<rparr>) = (cell_of st)(PackageSlot k \<mapsto> c)" for c st
    by (rule ext, rename_tac s, case_tac s) simp_all
qed simp

lemma puts:
  "set_manual_limit rate st = manual_slot.put rate st"
  "set_global rate st = global_slot.put rate st"
  "set_scoped (k, r) st = scope_slot.put k (Some r) st"
  "set_package (p, r) st = package_slot.put p (Some r) st"
  by (simp_all add: set_manual_limit_def manual_slot.put_def set_global_def global_slot.put_def
      set_scoped_def scope_slot.put_def set_package_def package_slot.put_def
      split: option.split)

section \<open>What the registry's operations do to the rates set\<close>

text \<open>Dropping the places that are not listed.\<close>

lemma retain:
  assumes "registry_ok st" and c: "\<And>t. cell_of st' t = (if keep t then cell_of st t else None)"
    and h: "lm_cell st' = lm_cell st" "lm_cells st' = lm_cells st"
  shows "registry_ok st'" and "rate_of st' = (\<lambda>t. if keep t then rate_of st t else None)"
proof -
  have sub: "cell_of st' t = Some d \<Longrightarrow> cell_of st t = Some d" for t d
    unfolding c by (auto split: if_splits)
  show "registry_ok st'" using assms(1) sub unfolding registry_ok_def h by blast
  show "rate_of st' = (\<lambda>t. if keep t then rate_of st t else None)"
    by (rule ext) (simp add: rate_of_def c limit_def h)
qed

lemma listed: "list_ex (\<lambda>(other, _). other = s) xs \<longleftrightarrow> s \<in> fst ` set xs"
  by (force simp: list_ex_iff)

lemma fold_set_scoped:
  "registry_ok st \<Longrightarrow> registry_ok (fold set_scoped xs st)
     \<and> rate_of (fold set_scoped xs st) = fold (\<lambda>(k, r) m. m(ScopeSlot k := granted (Some r))) xs (rate_of st)
     \<and> (\<forall>t c. cell_of st t = Some c \<longrightarrow> cell_of (fold set_scoped xs st) t = Some c)"
proof (induction xs arbitrary: st)
  case (Cons x xs)
  obtain k r where x: "x = (k, r)" by (cases x)
  show ?case
    using Cons.IH [OF scope_slot.put_ok [OF Cons.prems, of k "Some r"]]
      scope_slot.put_rate [OF Cons.prems, of k "Some r"] scope_slot.put_keeps [OF Cons.prems, of _ _ k "Some r"]
    by (simp add: x puts)
qed simp

lemma fold_set_package:
  "registry_ok st \<Longrightarrow> registry_ok (fold set_package xs st)
     \<and> rate_of (fold set_package xs st) = fold (\<lambda>(k, r) m. m(PackageSlot k := granted (Some r))) xs (rate_of st)"
proof (induction xs arbitrary: st)
  case (Cons x xs)
  obtain k r where x: "x = (k, r)" by (cases x)
  show ?case
    using Cons.IH [OF package_slot.put_ok [OF Cons.prems, of k "Some r"]]
      package_slot.put_rate [OF Cons.prems, of k "Some r"]
    by (simp add: x puts)
qed simp

text \<open>A list of entries written one after the other is its last entry for every key.\<close>

lemma fold_scope_entries:
  "fold (\<lambda>(k, r) m. m(ScopeSlot k := granted (Some r))) xs m =
    (\<lambda>t. case t of
       ScopeSlot k \<Rightarrow> (case map_of (rev xs) k of Some r \<Rightarrow> granted (Some r) | None \<Rightarrow> m t)
     | _ \<Rightarrow> m t)"
proof (induction xs rule: rev_induct)
  case (snoc x xs)
  then show ?case by (cases x) (auto simp: fun_eq_iff split: slot.split)
qed (auto simp: fun_eq_iff split: slot.split)

lemma fold_package_entries:
  "fold (\<lambda>(k, r) m. m(PackageSlot k := granted (Some r))) xs m =
    (\<lambda>t. case t of
       PackageSlot k \<Rightarrow> (case map_of (rev xs) k of Some r \<Rightarrow> granted (Some r) | None \<Rightarrow> m t)
     | _ \<Rightarrow> m t)"
proof (induction xs rule: rev_induct)
  case (snoc x xs)
  then show ?case by (cases x) (auto simp: fun_eq_iff split: slot.split)
qed (auto simp: fun_eq_iff split: slot.split)

lemma map_of_rev_listed: "k \<in> fst ` set xs \<Longrightarrow> \<exists>r. map_of (rev xs) k = Some r"
  by (metis map_of_eq_None_iff not_None_eq set_rev)

lemma map_of_rev_unlisted: "k \<notin> fst ` set xs \<Longrightarrow> map_of (rev xs) k = None"
  by (simp add: map_of_eq_None_iff)

lemma registry_apply_facts:
  assumes "registry_ok st"
  shows "registry_ok (registry_apply global scoped st)"
    and "rate_of (registry_apply global scoped st) =
      (\<lambda>t. case t of
         GlobalSlot \<Rightarrow> granted global
       | ScopeSlot k \<Rightarrow> granted (map_of (rev scoped) k)
       | _ \<Rightarrow> rate_of st t)"
    and "cell_of st t = Some c \<Longrightarrow> (\<And>k. t = ScopeSlot k \<Longrightarrow> k \<in> fst ` set scoped) \<Longrightarrow>
      cell_of (registry_apply global scoped st) t = Some c"
proof -
  let ?st = "set_global global st"
  let ?kept = "?st\<lparr>rs_scoped := (\<lambda>s. if list_ex (\<lambda>(other, _). other = s) scoped then rs_scoped ?st s else None)\<rparr>"
  let ?keep = "\<lambda>t. case t of ScopeSlot s \<Rightarrow> s \<in> fst ` set scoped | _ \<Rightarrow> True"
  have e: "registry_apply global scoped st = fold set_scoped scoped ?kept"
    by (simp add: registry_apply_def Let_def)
  have g: "registry_ok ?st" "rate_of ?st = (rate_of st)(GlobalSlot := granted global)"
    using global_slot.put_ok [OF assms] global_slot.put_rate [OF assms] by (simp_all add: puts)
  have kc: "cell_of ?kept t = (if ?keep t then cell_of ?st t else None)" for t
    by (cases t) (simp_all add: listed)
  note k = retain [OF g(1) kc, simplified]
  note f = fold_set_scoped [OF k(1), of scoped]
  show "registry_ok (registry_apply global scoped st)" using f e by simp
  show "rate_of (registry_apply global scoped st) =
      (\<lambda>t. case t of
         GlobalSlot \<Rightarrow> granted global
       | ScopeSlot k \<Rightarrow> granted (map_of (rev scoped) k)
       | _ \<Rightarrow> rate_of st t)"
  proof
    fix t
    have r: "rate_of (registry_apply global scoped st) = fold (\<lambda>(k, r) m. m(ScopeSlot k := granted (Some r))) scoped (rate_of ?kept)"
      using f e by simp
    have n: "granted None = None" by (simp add: granted_def)
    show "rate_of (registry_apply global scoped st) t = (case t of
         GlobalSlot \<Rightarrow> granted global
       | ScopeSlot k \<Rightarrow> granted (map_of (rev scoped) k)
       | _ \<Rightarrow> rate_of st t)"
    proof (cases t)
      case (ScopeSlot s)
      then show ?thesis
        unfolding r fold_scope_entries k(2)
        using map_of_rev_listed [of s scoped]
        by (cases "map_of (rev scoped) s"; cases "s \<in> fst ` set scoped") (simp_all add: n)
    qed (simp_all add: r fold_scope_entries k(2) g(2))
  qed
  assume c: "cell_of st t = Some c" and l: "\<And>k. t = ScopeSlot k \<Longrightarrow> k \<in> fst ` set scoped"
  have "cell_of ?st t = Some c" using global_slot.put_keeps [OF assms c] by (simp add: puts)
  then have "cell_of ?kept t = Some c" unfolding kc using l by (cases t) auto
  then show "cell_of (registry_apply global scoped st) t = Some c" using f e by simp
qed

text \<open>A profile switch means exactly the new limit set: read as rates, it replaces the
  profile's download limit and every scoped limit (of entries for one scope, the last), and
  leaves the hand-set limits, the packages' own and the upload limits alone; and a bucket whose
  scope stays listed is the same bucket, so transfers waiting on it go on under the new quota.\<close>

lemma profile_switch_replaces_its_limits:
  assumes "registry_ok st"
  shows "rate_of (registry_apply global scoped st) =
      (\<lambda>t. case t of
         GlobalSlot \<Rightarrow> granted global
       | ScopeSlot k \<Rightarrow> granted (map_of (rev scoped) k)
       | _ \<Rightarrow> rate_of st t)
    \<and> registry_ok (registry_apply global scoped st)
    \<and> (\<forall>t c. cell_of st t = Some c \<and> (\<forall>k. t = ScopeSlot k \<longrightarrow> k \<in> fst ` set scoped) \<longrightarrow>
          cell_of (registry_apply global scoped st) t = Some c)"
  using registry_apply_facts [OF assms] by blast

lemma registry_ok_new: "registry_ok limiter_registry_new"
  unfolding registry_ok_def
proof (intro conjI allI impI)
  fix s t c
  assume "cell_of limiter_registry_new s = Some c" "cell_of limiter_registry_new t = Some c"
  then show "s = t" by (cases s; cases t) (auto simp: limiter_registry_new_def)
next
  fix s c
  assume "cell_of limiter_registry_new s = Some c"
  then show "c < lm_cells limiter_registry_new" by (cases s) (auto simp: limiter_registry_new_def)
qed (simp add: limiter_registry_new_def)

lemma profile_switch_replaces_its_limits_sample:
  "rate_of (registry_apply (Some 500) [(Protocol Http, 7), (Protocol Http, 9)] limiter_registry_new)
     (ScopeSlot (Protocol Http)) = Some 9"
  using profile_switch_replaces_its_limits [OF registry_ok_new, of "Some 500" "[(Protocol Http, 7), (Protocol Http, 9)]"]
  by (simp add: granted_def)

lemma set_package_limits_facts:
  assumes "registry_ok st"
  shows "registry_ok (set_package_limits limits st)"
    and "rate_of (set_package_limits limits st) =
      (\<lambda>t. case t of PackageSlot p \<Rightarrow> granted (map_of (rev limits) p) | _ \<Rightarrow> rate_of st t)"
proof -
  let ?kept = "st\<lparr>rs_packages := (\<lambda>s. if list_ex (\<lambda>(other, _). other = s) limits then rs_packages st s else None)\<rparr>"
  let ?keep = "\<lambda>t. case t of PackageSlot s \<Rightarrow> s \<in> fst ` set limits | _ \<Rightarrow> True"
  have kc: "cell_of ?kept t = (if ?keep t then cell_of st t else None)" for t
    by (cases t) (simp_all add: listed)
  note k = retain [OF assms kc, simplified]
  note f = fold_set_package [OF k(1), of limits]
  show "registry_ok (set_package_limits limits st)" using f by (simp add: set_package_limits_def)
  have r: "rate_of (set_package_limits limits st) =
      fold (\<lambda>(k, r) m. m(PackageSlot k := granted (Some r))) limits (rate_of ?kept)"
    using f by (simp add: set_package_limits_def)
  show "rate_of (set_package_limits limits st) =
      (\<lambda>t. case t of PackageSlot p \<Rightarrow> granted (map_of (rev limits) p) | _ \<Rightarrow> rate_of st t)"
  proof
    fix t
    have n: "granted None = None" by (simp add: granted_def)
    show "rate_of (set_package_limits limits st) t =
        (case t of PackageSlot p \<Rightarrow> granted (map_of (rev limits) p) | _ \<Rightarrow> rate_of st t)"
    proof (cases t)
      case (PackageSlot s)
      then show ?thesis
        unfolding r fold_package_entries k(2)
        using map_of_rev_listed [of s limits]
        by (cases "map_of (rev limits) s"; cases "s \<in> fst ` set limits") (simp_all add: n)
    qed (simp_all add: r fold_package_entries k(2))
  qed
qed

text \<open>The limits set outside a profile stay apart from it and from one another: loading the
  packages' limits replaces exactly those, setting a limit by hand changes exactly that one, and
  the registry stays consistent -- every place has a cell of its own and no bucket has room for
  nothing.\<close>

lemma hand_set_limits_stay_apart:
  assumes "registry_ok st"
  shows "rate_of (set_package_limits limits st) =
      (\<lambda>t. case t of PackageSlot p \<Rightarrow> granted (map_of (rev limits) p) | _ \<Rightarrow> rate_of st t)
    \<and> rate_of (set_manual_limit rate st) = (rate_of st)(ManualSlot := granted rate)
    \<and> rate_of (set_manual_upload_limit rate st) = (rate_of st)(UploadManualSlot := granted rate)
    \<and> rate_of (apply_upload rate st) = (rate_of st)(UploadGlobalSlot := granted rate)
    \<and> registry_ok (set_package_limits limits st) \<and> registry_ok (set_manual_limit rate st)
    \<and> registry_ok (set_manual_upload_limit rate st) \<and> registry_ok (apply_upload rate st)"
  using set_package_limits_facts [OF assms] manual_slot.put_rate [OF assms] manual_slot.put_ok [OF assms]
    registry_ok_set_limit [OF assms] rate_of_set_limit [OF assms, of UploadManualSlot]
    rate_of_set_limit [OF assms, of UploadGlobalSlot]
  by (simp add: puts set_manual_upload_limit_def apply_upload_def)

lemma hand_set_limits_stay_apart_sample:
  "rate_of (set_manual_limit (Some 300) limiter_registry_new) ManualSlot = Some 300"
  using hand_set_limits_stay_apart [OF registry_ok_new, of "[]" "Some 300"] by (simp add: granted_def)

section \<open>A bucket the new profile does not list\<close>

lemma fold_set_scoped_elsewhere:
  "c < lm_cells st \<Longrightarrow> (\<And>s. cell_of st s \<noteq> Some c) \<Longrightarrow> lm_cell (fold set_scoped xs st) c = lm_cell st c"
proof (induction xs arbitrary: st)
  case (Cons x xs)
  obtain k r where x: "x = (k, r)" by (cases x)
  note e = scope_slot.put_elsewhere [OF Cons.prems(1) Cons.prems(2), of k "Some r"]
  have "lm_cell (fold set_scoped xs (scope_slot.put k (Some r) st)) c = lm_cell (scope_slot.put k (Some r) st) c"
    using Cons.IH e Cons.prems(2) by blast
  then show ?case using e by (simp add: x puts)
qed simp

text \<open>
  A switch does not lift a bucket it drops: the registry forgets it, but its cell keeps the limit
  it had, and a request that is waiting on it goes on at the old rate.
\<close>

lemma dropped_bucket_keeps_its_limit:
  assumes "registry_ok st" and "cell_of st (ScopeSlot k) = Some c" and "k \<notin> fst ` set scoped"
  shows "lm_cell (registry_apply global scoped st) c = lm_cell st c"
proof -
  let ?st = "set_global global st"
  let ?kept = "?st\<lparr>rs_scoped := (\<lambda>s. if list_ex (\<lambda>(other, _). other = s) scoped then rs_scoped ?st s else None)\<rparr>"
  have c: "c < lm_cells st" "cell_of st s = Some c \<Longrightarrow> s = ScopeSlot k" for s
    using assms(1,2) unfolding registry_ok_def by blast+
  have g: "lm_cell ?st c = lm_cell st c \<and> c < lm_cells ?st \<and> (cell_of ?st s = Some c \<longrightarrow> cell_of st s = Some c)" for s
    using global_slot.put_elsewhere [OF c(1), of global s] c(2) [of GlobalSlot] by (auto simp: puts)
  have "cell_of ?kept s \<noteq> Some c" for s
  proof
    assume k: "cell_of ?kept s = Some c"
    then have "cell_of ?st s = Some c" by (cases s) (simp_all split: if_splits)
    then have "s = ScopeSlot k" using g c(2) by blast
    then show False using k assms(3) by (simp add: listed split: if_splits)
  qed
  then have "lm_cell (fold set_scoped scoped ?kept) c = lm_cell ?kept c"
    using g by (intro fold_set_scoped_elsewhere) simp_all
  then show ?thesis using g by (simp add: registry_apply_def Let_def)
qed

section \<open>The binding limit\<close>

text \<open>The places a transfer passes, broadest first.\<close>

definition applicable :: "direction \<Rightarrow> transfer_scope \<Rightarrow> (limit_source \<times> slot) list" where
  "applicable d scope =
     (case d of
        Upload \<Rightarrow> [(SrcManual, UploadManualSlot), (SrcGlobal, UploadGlobalSlot)]
      | Download \<Rightarrow>
          [(SrcManual, ManualSlot), (SrcGlobal, GlobalSlot)]
          @ map (\<lambda>(source, key). (source, ScopeSlot key)) (scope_keys scope)
          @ pushed (\<lambda>p. (SrcPackage, PackageSlot p)) (ts_package_id scope))"

definition cells_at :: "registry \<Rightarrow> (limit_source \<times> slot) list \<Rightarrow> (limit_source \<times> nat) list" where
  "cells_at st slots = concat (map (\<lambda>(source, s). pushed (\<lambda>c. (source, c)) (cell_of st s)) slots)"

definition limits_at :: "registry \<Rightarrow> (limit_source \<times> slot) list \<Rightarrow> binding_limit list" where
  "limits_at st slots = concat (map (\<lambda>(source, s).
     pushed (\<lambda>b. \<lparr>bi_bytes_per_second = b, bi_source = source\<rparr>) (rate_of st s)) slots)"

lemma handle_chain_cells: "handle_chain d scope st = cells_at st (applicable d scope)"
proof (cases d)
  case Download
  have "concat (map (\<lambda>(source, key). pushed (\<lambda>c. (source, c)) (rs_scoped st key)) keys)
      = cells_at st (map (\<lambda>(source, key). (source, ScopeSlot key)) keys)" for keys
    by (induction keys) (auto simp: cells_at_def)
  then show ?thesis using Download
    by (auto simp: handle_chain_def applicable_def chain_def cells_at_def pushed_def split: option.splits)
next
  case Upload
  then show ?thesis
    by (simp add: handle_chain_def applicable_def upload_chain_def cells_at_def pushed_def)
qed

lemma strictest_cells_at:
  "strictest (cells_at st slots) st = min_by_key bi_bytes_per_second (limits_at st slots)"
proof -
  have "List.map_filter
          (\<lambda>(source, c). map_option (\<lambda>b. \<lparr>bi_bytes_per_second = b, bi_source = source\<rparr>) (limit c st))
          (cells_at st slots) = limits_at st slots"
    by (induction slots)
      (auto simp: cells_at_def limits_at_def pushed_def rate_of_def map_filter_simps split: option.splits)
  then show ?thesis by (simp add: strictest_def)
qed

lemma limits_at_append: "limits_at st (xs @ ys) = limits_at st xs @ limits_at st ys"
  by (simp add: limits_at_def)

lemma in_limits_at:
  "b \<in> set (limits_at st slots) \<longleftrightarrow>
   (\<exists>s. (bi_source b, s) \<in> set slots \<and> rate_of st s = Some (bi_bytes_per_second b))"
  by (cases b) (force simp: limits_at_def pushed_def split: option.splits)

lemma limits_at_split:
  "limits_at st slots = pre @ b # post \<Longrightarrow>
   \<exists>before s after. slots = before @ (bi_source b, s) # after
     \<and> rate_of st s = Some (bi_bytes_per_second b)
     \<and> limits_at st before = pre \<and> limits_at st after = post"
proof (induction slots arbitrary: pre)
  case Nil
  then show ?case by (simp add: limits_at_def)
next
  case (Cons x slots)
  obtain source s where x: "x = (source, s)" by (cases x)
  show ?case
  proof (cases "rate_of st s")
    case None
    then have "limits_at st slots = pre @ b # post"
      using Cons.prems x by (simp add: limits_at_def pushed_def)
    from Cons.IH [OF this] obtain before t after where
      "slots = before @ (bi_source b, t) # after" "rate_of st t = Some (bi_bytes_per_second b)"
      "limits_at st before = pre" "limits_at st after = post" by blast
    then show ?thesis using x None
      by (intro exI [of _ "x # before"] exI [of _ t] exI [of _ after]) (simp add: limits_at_def pushed_def)
  next
    case (Some r)
    then have l: "\<lparr>bi_bytes_per_second = r, bi_source = source\<rparr> # limits_at st slots = pre @ b # post"
      using Cons.prems x by (simp add: limits_at_def pushed_def)
    show ?thesis
    proof (cases pre)
      case Nil
      then have "b = \<lparr>bi_bytes_per_second = r, bi_source = source\<rparr>" "limits_at st slots = post"
        using l by auto
      then show ?thesis using x Some Nil
        by (intro exI [of _ "[]"] exI [of _ s] exI [of _ slots]) (simp add: limits_at_def)
    next
      case (Cons y pre')
      then have y: "y = \<lparr>bi_bytes_per_second = r, bi_source = source\<rparr>" "limits_at st slots = pre' @ b # post"
        using l by auto
      from Cons.IH [OF y(2)] obtain before t after where
        "slots = before @ (bi_source b, t) # after" "rate_of st t = Some (bi_bytes_per_second b)"
        "limits_at st before = pre'" "limits_at st after = post" by blast
      then show ?thesis using x Some Cons y(1)
        by (intro exI [of _ "x # before"] exI [of _ t] exI [of _ after]) (simp add: limits_at_def pushed_def)
    qed
  qed
qed

text \<open>The limit named as binding is the strictest: none is named exactly when no place the
  transfer passes has a rate; otherwise it is the rate of one of them, no other of them is
  lower, and of equal ones the broadest is named.\<close>

lemma binding_limit_is_strictest:
  "case scoped_binding_limit d scope st of
     None \<Rightarrow> \<forall>(source, s) \<in> set (applicable d scope). rate_of st s = None
   | Some b \<Rightarrow> \<exists>before s after. applicable d scope = before @ (bi_source b, s) # after
       \<and> rate_of st s = Some (bi_bytes_per_second b)
       \<and> (\<forall>(source, t) \<in> set before. \<forall>r. rate_of st t = Some r \<longrightarrow> bi_bytes_per_second b < r)
       \<and> (\<forall>(source, t) \<in> set after. \<forall>r. rate_of st t = Some r \<longrightarrow> bi_bytes_per_second b \<le> r)"
proof -
  have e: "scoped_binding_limit d scope st = min_by_key bi_bytes_per_second (limits_at st (applicable d scope))"
    by (simp add: scoped_binding_limit_def handle_chain_cells strictest_cells_at)
  show ?thesis
  proof (cases "scoped_binding_limit d scope st")
    case None
    then have "limits_at st (applicable d scope) = []" by (simp add: e)
    then show ?thesis using None by (auto simp: limits_at_def pushed_def split: option.splits)
  next
    case (Some b)
    obtain pre post where p: "limits_at st (applicable d scope) = pre @ b # post"
      "\<forall>x \<in> set pre. bi_bytes_per_second b < bi_bytes_per_second x"
      "\<forall>x \<in> set post. bi_bytes_per_second b \<le> bi_bytes_per_second x"
      using min_by_key_first Some e by metis
    obtain before s after where
      q: "applicable d scope = before @ (bi_source b, s) # after" "rate_of st s = Some (bi_bytes_per_second b)"
      "limits_at st before = pre" "limits_at st after = post"
      using limits_at_split [OF p(1)] by blast
    have m: "\<lparr>bi_bytes_per_second = r, bi_source = source\<rparr> \<in> set (limits_at st slots)"
      if "(source, t) \<in> set slots" "rate_of st t = Some r" for source t r slots
      using that by (auto simp: in_limits_at)
    have "\<forall>(source, t) \<in> set before. \<forall>r. rate_of st t = Some r \<longrightarrow> bi_bytes_per_second b < r"
      using m [of _ _ before] p(2) unfolding q(3) by fastforce
    moreover have "\<forall>(source, t) \<in> set after. \<forall>r. rate_of st t = Some r \<longrightarrow> bi_bytes_per_second b \<le> r"
      using m [of _ _ after] p(3) unfolding q(4) by fastforce
    ultimately show ?thesis using Some q(1,2) by auto
  qed
qed

lemma binding_limit_is_strictest_sample:
  "\<exists>b before s after. scoped_binding_limit Upload default_scope (set_manual_upload_limit (Some 7) limiter_registry_new) = Some b
     \<and> applicable Upload default_scope = before @ (bi_source b, s) # after
     \<and> rate_of (set_manual_upload_limit (Some 7) limiter_registry_new) s = Some (bi_bytes_per_second b)"
proof -
  let ?st = "set_manual_upload_limit (Some 7) limiter_registry_new"
  have "rate_of ?st UploadManualSlot = Some 7"
    by (simp add: rate_of_def set_manual_upload_limit_def limiter_registry_new_def set_limit_def limit_def capacity_of_def)
  moreover have "(SrcManual, UploadManualSlot) \<in> set (applicable Upload default_scope)" by (simp add: applicable_def)
  ultimately show ?thesis
    using binding_limit_is_strictest [of Upload default_scope ?st] by (auto split: option.splits)
qed

section \<open>Taking bytes\<close>

text \<open>The documented promise of the rate limiter: it serves every request up to its capacity.\<close>

definition serves_capacity :: "(active_limit \<Rightarrow> u32 \<Rightarrow> bool) \<Rightarrow> bool" where
  "serves_capacity ready \<longleftrightarrow> (\<forall>l n. n \<le> al_capacity l \<longrightarrow> ready l n)"

definition taken_bytes :: "(active_limit \<times> u32) list \<Rightarrow> nat" where
  "taken_bytes taken = sum_list (map (\<lambda>(l, n). unat n) taken)"

lemma acquire_step:
  assumes ready: "serves_capacity ready" and rem: "remaining \<noteq> 0" and l: "lm_cell (hist n) c = Some l" "al_capacity l \<noteq> 0"
  obtains p where "p \<noteq> 0" and "unat p \<le> 65536" and "p \<le> al_capacity l" and "unat p \<le> unat remaining"
    and "unat (remaining - ucast p) = unat remaining - unat p"
    and "\<And>taken later. acquire ready hist c (Suc n) (remaining - ucast p) = (Inr taken, later) \<Longrightarrow>
      acquire ready hist c n remaining = (Inr ((l, p) # taken), later)"
proof
  let ?p = "ucast (min remaining (ucast (min PIECE_BYTES (al_capacity l)))) :: u32"
  have p: "unat ?p = min (unat remaining) (min 65536 (unat (al_capacity l)))" by (rule piece_unat)
  have "unat ?p \<noteq> 0" using p rem l(2) by (simp add: unat_gt_0)
  then show nz: "?p \<noteq> 0" by (simp add: unat_eq_0)
  show "unat ?p \<le> 65536" using p by simp
  show le: "unat ?p \<le> unat remaining" using p by simp
  show "unat (remaining - ucast ?p) = unat remaining - unat ?p"
    using le by (simp only: unat_sub word_le_nat_alt unat_widen)
  show cap: "?p \<le> al_capacity l" using p by (simp only: word_le_nat_alt)
  then have served: "ready l ?p" using ready by (simp add: serves_capacity_def)
  fix taken later
  assume "acquire ready hist c (Suc n) (remaining - ucast ?p) = (Inr taken, later)"
  then show "acquire ready hist c n remaining = (Inr ((l, ?p) # taken), later)"
    using rem l(1) nz served by (subst acquire.simps) (simp only: Let_def word_gt_0 if_True option.case
        not_False_eq_True if_False sum.case prod.case simp_thms eq_commute [of 0 remaining])
qed

lemma taken_bytes_simps [simp]:
  "taken_bytes [] = 0" "taken_bytes ((l, n) # taken) = unat n + taken_bytes taken"
  by (simp_all add: taken_bytes_def)

text \<open>Pieces at a bucket from a reading on: each from the limit that reading saw, not empty, of at most
  64 KiB and within the bucket.\<close>

definition in_turn :: "(nat \<Rightarrow> 'a limiters_scheme) \<Rightarrow> nat \<Rightarrow> nat \<Rightarrow> (active_limit \<times> u32) list \<Rightarrow> bool" where
  "in_turn hist c n taken \<longleftrightarrow>
     (\<forall>k < length taken. lm_cell (hist (n + k)) c = Some (fst (taken ! k))
        \<and> snd (taken ! k) \<noteq> 0 \<and> unat (snd (taken ! k)) \<le> 65536 \<and> snd (taken ! k) \<le> al_capacity (fst (taken ! k)))"

lemma in_turn_Cons:
  "in_turn hist c n ((l, p) # taken) \<longleftrightarrow>
     lm_cell (hist n) c = Some l \<and> p \<noteq> 0 \<and> unat p \<le> 65536 \<and> p \<le> al_capacity l \<and> in_turn hist c (Suc n) taken"
  by (auto simp: in_turn_def All_less_Suc2)

lemma acquire_takes:
  assumes "serves_capacity ready" and "\<forall>j c l. lm_cell (hist j) c = Some l \<longrightarrow> al_capacity l \<noteq> 0"
  shows "\<exists>taken later. acquire ready hist c n remaining = (Inr taken, later) \<and> in_turn hist c n taken
     \<and> n + length taken \<le> later
     \<and> (taken_bytes taken = unat remaining
        \<or> taken_bytes taken < unat remaining \<and> lm_cell (hist (n + length taken)) c = None)"
proof (induction "unat remaining" arbitrary: n remaining rule: less_induct)
  case less
  show ?case
  proof (cases "remaining = 0")
    case True
    then show ?thesis by (subst acquire.simps) (simp add: in_turn_def)
  next
    case False
    then have pos: "0 < unat remaining" by (simp add: unat_gt_0)
    show ?thesis
    proof (cases "lm_cell (hist n) c")
      case None
      then show ?thesis using pos by (subst acquire.simps) (simp add: in_turn_def)
    next
      case (Some l)
      obtain p where p: "p \<noteq> 0" "unat p \<le> 65536" "p \<le> al_capacity l" "unat p \<le> unat remaining"
        "unat (remaining - ucast p) = unat remaining - unat p"
        "\<And>taken later. acquire ready hist c (Suc n) (remaining - ucast p) = (Inr taken, later) \<Longrightarrow>
          acquire ready hist c n remaining = (Inr ((l, p) # taken), later)"
        using acquire_step [of ready remaining hist n c l, OF assms(1) False Some] assms(2) Some by blast
      have p0: "0 < unat p" using p(1) by (simp add: unat_gt_0)
      then have "unat (remaining - ucast p) < unat remaining" using p(4,5) by simp
      from less [OF this, of "Suc n"] obtain taken later where
        t: "acquire ready hist c (Suc n) (remaining - ucast p) = (Inr taken, later)" "in_turn hist c (Suc n) taken"
        "Suc n + length taken \<le> later"
        "taken_bytes taken = unat (remaining - ucast p)
         \<or> taken_bytes taken < unat (remaining - ucast p) \<and> lm_cell (hist (Suc n + length taken)) c = None" by blast
      have "in_turn hist c n ((l, p) # taken)" using Some p(1-3) t(2) by (simp add: in_turn_Cons)
      moreover have "taken_bytes ((l, p) # taken) = unat remaining
         \<or> taken_bytes ((l, p) # taken) < unat remaining \<and> lm_cell (hist (n + length ((l, p) # taken))) c = None"
        using t(4) p(4) unfolding p(5) by auto
      ultimately show ?thesis using p(6) [OF t(1)] t(3) by (intro exI [of _ "(l, p) # taken"] exI [of _ later]) simp
    qed
  qed
qed

lemma acquire_all_takes:
  assumes "serves_capacity ready" and "\<forall>j c l. lm_cell (hist j) c = Some l \<longrightarrow> al_capacity l \<noteq> 0"
  shows "\<exists>log. acquire_all ready hist cells n bytes = Inr log \<and> map fst log = map snd cells
     \<and> sorted (map (fst \<circ> snd) log) \<and> (\<forall>(c, at, taken) \<in> set log. n \<le> at \<and> in_turn hist c at taken
          \<and> (taken_bytes taken = unat bytes
             \<or> taken_bytes taken < unat bytes \<and> lm_cell (hist (at + length taken)) c = None))"
proof (induction cells arbitrary: n)
  case (Cons x cells)
  obtain source c where x: "x = (source, c)" by (cases x)
  obtain taken later where a: "acquire ready hist c n bytes = (Inr taken, later)" "in_turn hist c n taken"
    "n + length taken \<le> later" "taken_bytes taken = unat bytes
        \<or> taken_bytes taken < unat bytes \<and> lm_cell (hist (n + length taken)) c = None"
    using acquire_takes [where hist = hist and c = c and n = n and remaining = bytes, OF assms] by blast
  obtain log where l: "acquire_all ready hist cells later bytes = Inr log" "map fst log = map snd cells"
    "sorted (map (fst \<circ> snd) log)" "\<forall>(c, at, taken) \<in> set log. later \<le> at \<and> in_turn hist c at taken
          \<and> (taken_bytes taken = unat bytes
             \<or> taken_bytes taken < unat bytes \<and> lm_cell (hist (at + length taken)) c = None)" using Cons.IH by blast
  have "n \<le> later" using a(3) by simp
  define good where "good = (\<lambda>(c, at, taken). in_turn hist c at taken
     \<and> (taken_bytes taken = unat bytes \<or> taken_bytes taken < unat bytes \<and> lm_cell (hist (at + length taken)) c = None))"
  have e: "later \<le> fst (snd y) \<and> good y" if "y \<in> set log" for y
    using l(4) that by (cases y) (force simp: good_def)
  have "acquire_all ready hist (x # cells) n bytes = Inr ((c, n, taken) # log)" by (simp add: x a(1) l(1))
  moreover have "map fst ((c, n, taken) # log) = map snd (x # cells)" using l(2) by (simp add: x)
  moreover have "sorted (map (fst \<circ> snd) ((c, n, taken) # log))"
    using l(3) e \<open>n \<le> later\<close> by (auto intro: order_trans)
  moreover have "\<forall>y \<in> set ((c, n, taken) # log). n \<le> fst (snd y) \<and> good y"
    using e \<open>n \<le> later\<close> a(2,4) by (auto simp: good_def intro: order_trans)
  ultimately show ?case by (intro exI [of _ "(c, n, taken) # log"]) (simp add: good_def split_def comp_def)
qed simp

text \<open>What other tasks do to the registry: load a profile, set a limit by hand, load the packages' limits.\<close>

inductive registry_step :: "registry \<Rightarrow> registry \<Rightarrow> bool" where
  profile: "registry_step st (registry_apply global scoped st)"
| by_hand: "registry_step st (set_manual_limit rate st)"
| packages: "registry_step st (set_package_limits limits st)"
| upload: "registry_step st (apply_upload rate st)"
| upload_by_hand: "registry_step st (set_manual_upload_limit rate st)"

lemma registry_step_ok: "registry_step st st' \<Longrightarrow> registry_ok st \<Longrightarrow> registry_ok st'"
  by (induction rule: registry_step.induct) (simp_all add: registry_apply_facts(1) hand_set_limits_stay_apart)

lemma registry_steps_ok: "registry_step\<^sup>*\<^sup>* st st' \<Longrightarrow> registry_ok st \<Longrightarrow> registry_ok st'"
  by (induction rule: rtranclp_induct) (simp_all add: registry_step_ok)

text \<open>Property C35. A request never fails and passes every bucket of its chain, whatever profile switches
  and changes of limits happen to the registry between its readings: it goes through the buckets of the
  places that apply to the transfer, in their order and one after the other. At each it is taken in
  pieces that are not empty, of at most 64 KiB and within the bucket, each from the limit that bucket's
  cell held when it was read for that piece (the code reads it before the piece waits for its turn; a
  bucket a profile switch drops keeps the limit it had). The pieces make up the whole request unless a
  reading found the bucket unlimited, which lets the rest through. The one thing taken from outside is
  the promise of the rate limiter library to serve every request up to its capacity.\<close>

theorem request_passes_every_bucket:
  assumes "serves_capacity ready"
    and "registry_step\<^sup>*\<^sup>* limiter_registry_new (hist 0)" and "\<And>n. registry_step\<^sup>*\<^sup>* (hist n) (hist (Suc n))"
  shows "\<exists>log. scoped_acquire ready hist d scope bytes = Inr log
     \<and> map fst log = map snd (cells_at (hist 0) (applicable d scope))
     \<and> sorted (map (fst \<circ> snd) log)
     \<and> (\<forall>(c, n, taken) \<in> set log.
          (\<forall>k < length taken. lm_cell (hist (n + k)) c = Some (fst (taken ! k))
             \<and> snd (taken ! k) \<noteq> 0 \<and> unat (snd (taken ! k)) \<le> 65536 \<and> snd (taken ! k) \<le> al_capacity (fst (taken ! k)))
          \<and> (taken_bytes taken = unat bytes
             \<or> taken_bytes taken < unat bytes \<and> lm_cell (hist (n + length taken)) c = None))"
proof -
  have "registry_ok (hist n)" for n
    using assms(2,3) registry_ok_new by (induction n) (auto intro: registry_steps_ok)
  then have "\<forall>j c l. lm_cell (hist j) c = Some l \<longrightarrow> al_capacity l \<noteq> 0" by (auto simp: registry_ok_def)
  from acquire_all_takes [where hist = hist and cells = "handle_chain d scope (hist 0)" and n = 1 and bytes = bytes, OF assms(1) this]
  show ?thesis unfolding scoped_acquire_def in_turn_def handle_chain_cells by fast
qed

theorem request_passes_every_bucket_witness:
  "\<exists>log. scoped_acquire (\<lambda>l n. n \<le> al_capacity l)
      (\<lambda>n. if n < 3 then set_manual_upload_limit (Some 10) limiter_registry_new
           else set_manual_upload_limit None (set_manual_upload_limit (Some 10) limiter_registry_new))
      Upload default_scope 25 = Inr log \<and> length log = 2"
proof -
  let ?ready = "\<lambda>l n. n \<le> al_capacity l"
  let ?a = "set_manual_upload_limit (Some 10) limiter_registry_new"
  let ?hist = "\<lambda>n. if n < (3 :: nat) then ?a else set_manual_upload_limit None ?a"
  have "serves_capacity ?ready" by (simp add: serves_capacity_def)
  moreover have "registry_step\<^sup>*\<^sup>* limiter_registry_new (?hist 0)"
    by (simp add: r_into_rtranclp registry_step.upload_by_hand)
  moreover have "registry_step\<^sup>*\<^sup>* (?hist n) (?hist (Suc n))" for n
    by (auto intro: r_into_rtranclp registry_step.upload_by_hand)
  ultimately obtain log where l: "scoped_acquire ?ready ?hist Upload default_scope 25 = Inr log"
    "map fst log = map snd (cells_at (?hist 0) (applicable Upload default_scope))"
    using request_passes_every_bucket [of ?ready ?hist Upload default_scope 25] by blast
  have "length log = length (map snd (cells_at (?hist 0) (applicable Upload default_scope)))"
    using arg_cong [OF l(2), of length] by simp
  then have "length log = 2" by (simp add: cells_at_def applicable_def pushed_def)
  with l(1) show ?thesis by blast
qed

end
