(* ===== verification/Conditions.thy ===== *)
theory Conditions
  imports Prelude
begin

text \<open>
  Automation conditions (\<open>rd-automation/src/condition.rs\<close>, \<open>admission.rs\<close>): a tree of
  comparisons evaluated against a normalised event.

  The regular-expression engine is a library: \<open>regex\<close> maps a pattern to its matcher, or to
  \<open>None\<close> where it does not compile. The process-wide cache of compiled patterns is state the
  evaluation threads through, in the order the code evaluates; \<open>pattern_source\<close> is the contract
  under which a lookup may go through such a cache.
\<close>

datatype field =
    FldSource | FldDomain | FldExtension | FldName | FldCategory | FldState | FldFailureCode
  | FldSizeBytes | FldKind | FldChange | FldStorageTarget

definition is_numeric :: "field \<Rightarrow> bool" where
  "is_numeric f = (f = FldSizeBytes)"

datatype operator = Equals | Contains | StartsWith | EndsWith | Matches | GreaterThan | LessThan

record predicate =
  pr_field :: field
  pr_operator :: operator
  pr_value :: string

datatype condition_node =
    Always
  | All "condition_node list"
  | Any "condition_node list"
  | Not condition_node
  | Predicate predicate

datatype condition_error =
    RegexError string
  | OperatorError field operator
  | NumberError string
  | EmptyGroup

text \<open>The debug names of fields and operators, as the error messages print them.\<close>

definition field_name :: "field \<Rightarrow> string" where
  "field_name f = (case f of
     FldSource \<Rightarrow> ''Source'' | FldDomain \<Rightarrow> ''Domain'' | FldExtension \<Rightarrow> ''Extension'' | FldName \<Rightarrow> ''Name''
   | FldCategory \<Rightarrow> ''Category'' | FldState \<Rightarrow> ''State'' | FldFailureCode \<Rightarrow> ''FailureCode''
   | FldSizeBytes \<Rightarrow> ''SizeBytes'' | FldKind \<Rightarrow> ''Kind'' | FldChange \<Rightarrow> ''Change''
   | FldStorageTarget \<Rightarrow> ''StorageTarget'')"

definition operator_name :: "operator \<Rightarrow> string" where
  "operator_name q = (case q of
     Equals \<Rightarrow> ''Equals'' | Contains \<Rightarrow> ''Contains'' | StartsWith \<Rightarrow> ''StartsWith'' | EndsWith \<Rightarrow> ''EndsWith''
   | Matches \<Rightarrow> ''Matches'' | GreaterThan \<Rightarrow> ''GreaterThan'' | LessThan \<Rightarrow> ''LessThan'')"

definition condition_error_text :: "condition_error \<Rightarrow> string" where
  "condition_error_text e = (case e of
     RegexError value \<Rightarrow> ''not a valid regular expression: '' @ value
   | OperatorError field operator \<Rightarrow> operator_name operator @ '' cannot be used on '' @ field_name field
   | NumberError value \<Rightarrow> ''not a number: '' @ value
   | EmptyGroup \<Rightarrow> ''a group needs at least one condition'')"

type_synonym regex_engine = "string \<Rightarrow> (string \<Rightarrow> bool) option"
type_synonym pattern_cache = "(string \<times> (string \<Rightarrow> bool)) list"

fun depth :: "condition_node \<Rightarrow> nat" where
  "depth Always = 1"
| "depth (Predicate p) = 1"
| "depth (Not node) = 1 + depth node"
| "depth (All nodes) = 1 + foldr max (map depth nodes) 0"
| "depth (Any nodes) = 1 + foldr max (map depth nodes) 0"

definition validate_predicate :: "regex_engine \<Rightarrow> predicate \<Rightarrow> condition_error + unit" where
  "validate_predicate regex p =
     (let numeric_operator = (pr_operator p = GreaterThan \<or> pr_operator p = LessThan) in
      if numeric_operator \<noteq> is_numeric (pr_field p) then Inl (OperatorError (pr_field p) (pr_operator p))
      else if numeric_operator \<and> parse_u64 (trim (pr_value p)) = None then Inl (NumberError (pr_value p))
      else if pr_operator p = Matches \<and> regex (pr_value p) = None then Inl (RegexError (pr_value p))
      else Inr ())"

text \<open>\<open>try_for_each\<close>: the first error, or none.\<close>

fun first_error :: "('e + unit) list \<Rightarrow> 'e + unit" where
  "first_error [] = Inr ()"
| "first_error (r # rs) = (case r of Inl e \<Rightarrow> Inl e | Inr _ \<Rightarrow> first_error rs)"

fun validate_node :: "regex_engine \<Rightarrow> condition_node \<Rightarrow> condition_error + unit" where
  "validate_node regex Always = Inr ()"
| "validate_node regex (Not node) = validate_node regex node"
| "validate_node regex (All nodes) =
     (if nodes = [] then Inl EmptyGroup else first_error (map (validate_node regex) nodes))"
| "validate_node regex (Any nodes) =
     (if nodes = [] then Inl EmptyGroup else first_error (map (validate_node regex) nodes))"
| "validate_node regex (Predicate p) = validate_predicate regex p"

fun mentions :: "field \<Rightarrow> condition_node \<Rightarrow> bool" where
  "mentions f Always = False"
| "mentions f (Not node) = mentions f node"
| "mentions f (All nodes) = list_ex (mentions f) nodes"
| "mentions f (Any nodes) = list_ex (mentions f) nodes"
| "mentions f (Predicate p) = (pr_field p = f)"

record event_context =
  ev_text :: "field \<rightharpoonup> string"
  ev_numbers :: "field \<rightharpoonup> u64"

definition set_field :: "field \<Rightarrow> string \<Rightarrow> event_context \<Rightarrow> event_context" where
  "set_field f value e = (if trim value \<noteq> [] then e\<lparr>ev_text := (ev_text e)(f \<mapsto> value)\<rparr> else e)"

definition set_number :: "field \<Rightarrow> u64 \<Rightarrow> event_context \<Rightarrow> event_context" where
  "set_number f value e = e\<lparr>ev_numbers := (ev_numbers e)(f \<mapsto> value)\<rparr>"

definition MAX_CACHED_PATTERNS :: nat where
  "MAX_CACHED_PATTERNS = 64"

definition pattern_matches ::
    "regex_engine \<Rightarrow> string \<Rightarrow> string \<Rightarrow> pattern_cache \<Rightarrow> bool \<times> pattern_cache" where
  "pattern_matches regex pattern txt cache =
     (case map_of cache pattern of
        Some is_match \<Rightarrow> (is_match txt, cache)
      | None \<Rightarrow>
          (case regex pattern of
             None \<Rightarrow> (False, cache)
           | Some is_match \<Rightarrow>
               let matched = is_match txt;
                   cache = (if length cache \<ge> MAX_CACHED_PATTERNS then [] else cache)
               in (matched, AList.update pattern is_match cache)))"

definition predicate_matches ::
    "regex_engine \<Rightarrow> predicate \<Rightarrow> event_context \<Rightarrow> pattern_cache \<Rightarrow> bool \<times> pattern_cache" where
  "predicate_matches regex p event cache =
     (if is_numeric (pr_field p) then
        (case ev_numbers event (pr_field p) of
           None \<Rightarrow> (False, cache)
         | Some actual \<Rightarrow>
             (case parse_u64 (trim (pr_value p)) of
                None \<Rightarrow> (False, cache)
              | Some expected \<Rightarrow>
                  (case pr_operator p of
                     GreaterThan \<Rightarrow> (actual > expected, cache)
                   | LessThan \<Rightarrow> (actual < expected, cache)
                   | _ \<Rightarrow> (False, cache))))
      else
        (case ev_text event (pr_field p) of
           None \<Rightarrow> (False, cache)
         | Some actual \<Rightarrow>
             let actual = lowercase actual; expected = lowercase (pr_value p)
             in (case pr_operator p of
                   Equals \<Rightarrow> (actual = expected, cache)
                 | Contains \<Rightarrow> (contains actual expected, cache)
                 | StartsWith \<Rightarrow> (starts_with actual expected, cache)
                 | EndsWith \<Rightarrow> (ends_with actual expected, cache)
                 | Matches \<Rightarrow> pattern_matches regex (pr_value p) actual cache
                 | GreaterThan \<Rightarrow> (False, cache)
                 | LessThan \<Rightarrow> (False, cache))))"

text \<open>\<open>all\<close> stops at the first node that fails, \<open>any\<close> at the first that holds.\<close>

fun cond_matches :: "regex_engine \<Rightarrow> condition_node \<Rightarrow> event_context \<Rightarrow> pattern_cache \<Rightarrow> bool \<times> pattern_cache"
  and all_match :: "regex_engine \<Rightarrow> condition_node list \<Rightarrow> event_context \<Rightarrow> pattern_cache \<Rightarrow> bool \<times> pattern_cache"
  and any_match :: "regex_engine \<Rightarrow> condition_node list \<Rightarrow> event_context \<Rightarrow> pattern_cache \<Rightarrow> bool \<times> pattern_cache"
  where
  "cond_matches regex Always event cache = (True, cache)"
| "cond_matches regex (Not node) event cache =
     (case cond_matches regex node event cache of (b, cache) \<Rightarrow> (\<not> b, cache))"
| "cond_matches regex (All nodes) event cache = all_match regex nodes event cache"
| "cond_matches regex (Any nodes) event cache = any_match regex nodes event cache"
| "cond_matches regex (Predicate p) event cache = predicate_matches regex p event cache"
| "all_match regex [] event cache = (True, cache)"
| "all_match regex (node # nodes) event cache =
     (case cond_matches regex node event cache of
        (b, cache) \<Rightarrow> if b then all_match regex nodes event cache else (False, cache))"
| "any_match regex [] event cache = (False, cache)"
| "any_match regex (node # nodes) event cache =
     (case cond_matches regex node event cache of
        (b, cache) \<Rightarrow> if b then (True, cache) else any_match regex nodes event cache)"

section \<open>What a condition means\<close>

text \<open>
  The reference: no cache, no order of evaluation, and no lower-cased copies -- two texts agree when they
  agree letter by letter up to their ASCII case. A pattern is no such text: it is compiled as written
  and put to the lower-cased value.
\<close>

definition same_letters :: "string \<Rightarrow> string \<Rightarrow> bool" where
  "same_letters a b \<longleftrightarrow> list_all2 (\<lambda>x y. lower_char x = lower_char y) a b"

definition predicate_holds :: "regex_engine \<Rightarrow> predicate \<Rightarrow> event_context \<Rightarrow> bool" where
  "predicate_holds regex p event =
     (if is_numeric (pr_field p) then
        (\<exists>actual \<in> set_option (ev_numbers event (pr_field p)).
         \<exists>expected \<in> set_option (parse_u64 (trim (pr_value p))).
           pr_operator p = GreaterThan \<and> actual > expected
           \<or> pr_operator p = LessThan \<and> actual < expected)
      else
        (\<exists>actual \<in> set_option (ev_text event (pr_field p)).
             pr_operator p = Equals \<and> same_letters actual (pr_value p)
             \<or> pr_operator p = Contains
                 \<and> (\<exists>before part after. actual = before @ part @ after \<and> same_letters part (pr_value p))
             \<or> pr_operator p = StartsWith \<and> (\<exists>part after. actual = part @ after \<and> same_letters part (pr_value p))
             \<or> pr_operator p = EndsWith \<and> (\<exists>before part. actual = before @ part \<and> same_letters part (pr_value p))
             \<or> pr_operator p = Matches \<and> (\<exists>m \<in> set_option (regex (pr_value p)). m (lowercase actual))))"

lemma same_letters_lowercase: "lowercase a = lowercase b \<longleftrightarrow> same_letters a b"
  by (auto simp: lowercase_def same_letters_def list_eq_iff_nth_eq list_all2_conv_all_nth)

lemma lowercase_append: "lowercase a = u @ v \<longleftrightarrow> (\<exists>b c. a = b @ c \<and> lowercase b = u \<and> lowercase c = v)"
  unfolding lowercase_def by (metis map_append map_eq_append_conv)

lemma contains_same_letters:
  "contains (lowercase a) (lowercase v) \<longleftrightarrow> (\<exists>before part after. a = before @ part @ after \<and> same_letters part v)"
  "starts_with (lowercase a) (lowercase v) \<longleftrightarrow> (\<exists>part after. a = part @ after \<and> same_letters part v)"
  "ends_with (lowercase a) (lowercase v) \<longleftrightarrow> (\<exists>before part. a = before @ part \<and> same_letters part v)"
  unfolding contains_iff starts_with_iff ends_with_iff lowercase_append same_letters_lowercase [symmetric] by blast+

fun holds :: "regex_engine \<Rightarrow> event_context \<Rightarrow> condition_node \<Rightarrow> bool" where
  "holds regex event Always \<longleftrightarrow> True"
| "holds regex event (Not node) \<longleftrightarrow> \<not> holds regex event node"
| "holds regex event (All nodes) \<longleftrightarrow> (\<forall>n \<in> set nodes. holds regex event n)"
| "holds regex event (Any nodes) \<longleftrightarrow> (\<exists>n \<in> set nodes. holds regex event n)"
| "holds regex event (Predicate p) \<longleftrightarrow> predicate_holds regex p event"

section \<open>Looking a pattern up through a cache\<close>

text \<open>
  The contract of a cached lookup \<open>find\<close> of a partial function \<open>f\<close>: on a cache that agrees with
  \<open>f\<close> it answers as \<open>f\<close> does and leaves such a cache.
\<close>

locale cached_lookup =
  fixes f :: "'k \<Rightarrow> 'v option" and ask :: "'v \<Rightarrow> 'a \<Rightarrow> bool"
    and find :: "'k \<Rightarrow> 'a \<Rightarrow> 'c \<Rightarrow> bool \<times> 'c" and sound :: "'c \<Rightarrow> bool"
  assumes find_answers: "sound c \<Longrightarrow> fst (find k x c) \<longleftrightarrow> (\<exists>v. f k = Some v \<and> ask v x)"
    and find_sound: "sound c \<Longrightarrow> sound (snd (find k x c))"
begin

text \<open>So any number of lookups one after the other answers as uncached lookups would.\<close>

fun find_all :: "('k \<times> 'a) list \<Rightarrow> 'c \<Rightarrow> bool list \<times> 'c" where
  "find_all [] c = ([], c)"
| "find_all ((k, x) # qs) c =
     (case find k x c of (b, c) \<Rightarrow> (case find_all qs c of (bs, c) \<Rightarrow> (b # bs, c)))"

lemma find_all_answers:
  "sound c \<Longrightarrow> fst (find_all qs c) = map (\<lambda>(k, x). \<exists>v. f k = Some v \<and> ask v x) qs \<and> sound (snd (find_all qs c))"
proof (induction qs arbitrary: c)
  case (Cons q qs)
  obtain k x where q: "q = (k, x)" by (cases q)
  obtain b c' where f: "find k x c = (b, c')" by (cases "find k x c")
  then have b: "b \<longleftrightarrow> (\<exists>v. f k = Some v \<and> ask v x)" and c': "sound c'"
    using find_answers [OF Cons.prems, of k x] find_sound [OF Cons.prems, of k x] by auto
  from Cons.IH [OF c'] show ?case
    by (cases "find_all qs c'") (simp add: q f b)
qed simp

end

definition cache_ok :: "regex_engine \<Rightarrow> pattern_cache \<Rightarrow> bool" where
  "cache_ok regex cache \<longleftrightarrow>
     distinct (map fst cache) \<and> length cache \<le> MAX_CACHED_PATTERNS
     \<and> (\<forall>(pattern, m) \<in> set cache. regex pattern = Some m)"

lemma length_update: "length (AList.update k v xs) \<le> Suc (length xs)"
  by (induction xs) auto

lemma set_update_subset: "set (AList.update k v xs) \<subseteq> insert (k, v) (set xs)"
  by (induction xs) auto

interpretation patterns: cached_lookup regex "\<lambda>m txt. m txt" "pattern_matches regex" "cache_ok regex" for regex
proof
  fix c :: pattern_cache and k x :: string
  assume ok: "cache_ok regex c"
  then have r: "map_of c k = Some m \<Longrightarrow> regex k = Some m" for m
    by (auto simp: cache_ok_def dest!: map_of_SomeD)
  show "fst (pattern_matches regex k x c) \<longleftrightarrow> (\<exists>v. regex k = Some v \<and> v x)"
    using r by (auto simp: pattern_matches_def Let_def split: option.splits)
  show "cache_ok regex (snd (pattern_matches regex k x c))"
  proof (cases "map_of c k = None \<and> regex k \<noteq> None")
    case True
    then obtain m where m: "regex k = Some m" by auto
    let ?c = "if length c \<ge> MAX_CACHED_PATTERNS then [] else c"
    have "distinct (map fst (AList.update k m ?c))" using ok by (intro distinct_update) (auto simp: cache_ok_def)
    moreover have "length (AList.update k m ?c) \<le> MAX_CACHED_PATTERNS"
      using length_update [of k m ?c] by (auto simp: MAX_CACHED_PATTERNS_def split: if_splits)
    moreover have "\<forall>(p, m) \<in> set (AList.update k m ?c). regex p = Some m"
      using set_update_subset [of k m ?c] ok m by (fastforce simp: cache_ok_def split: if_splits)
    ultimately show ?thesis using True m by (simp add: pattern_matches_def Let_def cache_ok_def)
  next
    case False
    then show ?thesis using ok by (auto simp: pattern_matches_def split: option.split)
  qed
qed

lemma predicate_matches_holds:
  assumes "cache_ok regex cache"
  shows "fst (predicate_matches regex p event cache) = predicate_holds regex p event
    \<and> cache_ok regex (snd (predicate_matches regex p event cache))"
proof (cases "is_numeric (pr_field p)")
  case True
  then show ?thesis using assms
    by (cases "pr_operator p")
      (auto simp: predicate_matches_def predicate_holds_def split: option.split)
next
  case False
  show ?thesis
  proof (cases "ev_text event (pr_field p)")
    case None
    then show ?thesis using False assms by (simp add: predicate_matches_def predicate_holds_def)
  next
    case (Some actual)
    then show ?thesis
      using False assms patterns.find_answers [OF assms, of "pr_value p" "lowercase actual"]
        patterns.find_sound [OF assms, of "pr_value p" "lowercase actual"]
      by (cases "pr_operator p")
        (auto simp: predicate_matches_def predicate_holds_def Let_def contains_same_letters same_letters_lowercase)
  qed
qed

lemma matches_holds:
  shows "cache_ok regex cache \<Longrightarrow> fst (cond_matches regex node event cache) = holds regex event node
      \<and> cache_ok regex (snd (cond_matches regex node event cache))"
    and "cache_ok regex cache \<Longrightarrow> fst (all_match regex nodes event cache) = (\<forall>n \<in> set nodes. holds regex event n)
      \<and> cache_ok regex (snd (all_match regex nodes event cache))"
    and "cache_ok regex cache \<Longrightarrow> fst (any_match regex nodes event cache) = (\<exists>n \<in> set nodes. holds regex event n)
      \<and> cache_ok regex (snd (any_match regex nodes event cache))"
proof (induction regex node event cache and regex nodes event cache and regex nodes event cache
    rule: cond_matches_all_match_any_match.induct)
  case (5 regex p event cache)
  then show ?case using predicate_matches_holds by simp
qed (auto split: prod.split)

text \<open>Property C39. Evaluating a condition answers what the code's rules make of it, whatever the pattern
  cache holds from earlier evaluations, and leaves the cache sound and at most 64 long: every \<open>all\<close>,
  some \<open>any\<close>, the opposite of \<open>not\<close>, and a comparison only where the event carries the field. Texts are
  compared up to the case of their (ASCII) letters, as a whole, as a part, at the start or at the end;
  a pattern is not: it is used as written, against the value in lower case, so that one with a capital
  letter in it does not match what the module's documentation promises.\<close>

theorem matching_means_the_condition:
  assumes "cache_ok regex cache"
  shows "fst (cond_matches regex node event cache) = holds regex event node
    \<and> cache_ok regex (snd (cond_matches regex node event cache))"
  by (rule matches_holds(1) [OF assms])

theorem matching_means_the_condition_witness:
  "fst (cond_matches (\<lambda>_. None)
     (All [Not (Predicate \<lparr>pr_field = FldName, pr_operator = Contains, pr_value = ''SAMPLE''\<rparr>)])
     \<lparr>ev_text = [FldName \<mapsto> ''movie.sample.mkv''], ev_numbers = Map.empty\<rparr> []) = False"
proof -
  have ok: "cache_ok (\<lambda>_. None) []" by (simp add: cache_ok_def)
  have "''movie.sample.mkv'' = ''movie.'' @ ''sample'' @ ''.mkv''" by simp
  moreover have "same_letters ''sample'' ''SAMPLE''" by code_simp
  ultimately have c: "\<exists>before part after. ''movie.sample.mkv'' = before @ part @ after \<and> same_letters part ''SAMPLE''"
    by blast
  show ?thesis
    unfolding conjunct1 [OF matching_means_the_condition [OF ok]]
    using c by (simp add: predicate_holds_def is_numeric_def)
qed

text \<open>
  The pattern \<open>S0[12]E\<close>, as an engine that knows the case reads it, does not match \<open>Show.S01E02\<close>: the
  capitals of the pattern meet a value that has none.
\<close>

lemma capital_pattern_matches_nothing:
  "(let engine = (\<lambda>pattern. if pattern = ''S0[12]E''
          then Some (\<lambda>txt. contains txt ''S01E'' \<or> contains txt ''S02E'') else None);
        event = \<lparr>ev_text = [FldName \<mapsto> ''Show.S01E02''], ev_numbers = Map.empty\<rparr>;
        rule = Predicate \<lparr>pr_field = FldName, pr_operator = Matches, pr_value = ''S0[12]E''\<rparr>
    in fst (cond_matches engine rule event [])) = False"
  by code_simp

section \<open>Which fields a condition looks at\<close>

lemma predicate_holds_frame:
  "ev_text e (pr_field p) = ev_text e' (pr_field p) \<Longrightarrow> ev_numbers e (pr_field p) = ev_numbers e' (pr_field p) \<Longrightarrow>
   predicate_holds regex p e = predicate_holds regex p e'"
  by (simp add: predicate_holds_def)

lemma holds_frame:
  "(\<And>f. mentions f node \<Longrightarrow> ev_text e f = ev_text e' f \<and> ev_numbers e f = ev_numbers e' f) \<Longrightarrow>
   holds regex e node = holds regex e' node"
proof (induction node)
  case (All nodes)
  have "holds regex e n = holds regex e' n" if "n \<in> set nodes" for n
    using that by (intro All.IH All.prems) (auto simp: list_ex_iff)
  then show ?case by simp
next
  case (Any nodes)
  have "holds regex e n = holds regex e' n" if "n \<in> set nodes" for n
    using that by (intro Any.IH Any.prems) (auto simp: list_ex_iff)
  then show ?case by simp
next
  case (Predicate p)
  have m: "mentions (pr_field p) (Predicate p)" by simp
  have "predicate_holds regex p e = predicate_holds regex p e'"
    by (rule predicate_holds_frame) (use Predicate.prems [OF m] in simp_all)
  then show ?case by simp
qed auto

section \<open>What validation lets through\<close>

definition predicate_ok :: "regex_engine \<Rightarrow> predicate \<Rightarrow> bool" where
  "predicate_ok regex p \<longleftrightarrow>
     (pr_operator p \<in> {GreaterThan, LessThan} \<longleftrightarrow> is_numeric (pr_field p))
     \<and> (is_numeric (pr_field p) \<longrightarrow> parse_u64 (trim (pr_value p)) \<noteq> None)
     \<and> (pr_operator p = Matches \<longrightarrow> regex (pr_value p) \<noteq> None)"

fun tree_ok :: "regex_engine \<Rightarrow> condition_node \<Rightarrow> bool" where
  "tree_ok regex Always \<longleftrightarrow> True"
| "tree_ok regex (Not node) \<longleftrightarrow> tree_ok regex node"
| "tree_ok regex (All nodes) \<longleftrightarrow> nodes \<noteq> [] \<and> (\<forall>n \<in> set nodes. tree_ok regex n)"
| "tree_ok regex (Any nodes) \<longleftrightarrow> nodes \<noteq> [] \<and> (\<forall>n \<in> set nodes. tree_ok regex n)"
| "tree_ok regex (Predicate p) \<longleftrightarrow> predicate_ok regex p"

lemma first_error_Inr [simp]: "first_error rs = Inr u \<longleftrightarrow> (\<forall>r \<in> set rs. r = Inr ())"
  by (induction rs) (auto split: sum.splits)

lemma validate_predicate_ok: "validate_predicate regex p = Inr () \<longleftrightarrow> predicate_ok regex p"
  by (auto simp: validate_predicate_def predicate_ok_def Let_def)

lemma validate_node_ok: "validate_node regex node = Inr () \<longleftrightarrow> tree_ok regex node"
  by (induction node) (auto simp: validate_predicate_ok)

end
