(* ===== verification/Schedule.thy ===== *)
theory Schedule
  imports Budget
begin

text \<open>
  The weekly clock of \<open>rd-limits\<close>: \<open>schedule.rs\<close> (windows, the active profile, its next change),
  \<open>quiet.rs\<close> (quiet hours), \<open>manual.rs\<close> (a profile switched on by hand), \<open>download_window.rs\<close> and
  the window type of \<open>rd-core/src/download_window.rs\<close>.

  The time zone database is a library: a zone is the map from UTC instants to wall-clock time
  (nanoseconds of a clock without a zone since 1970-01-01), and back to the earliest instant that
  shows a wall-clock time, if any. The calendar is proleptic Gregorian, so the weekday and the
  minute of the day are arithmetic on the wall-clock time. \<open>whole_minutes\<close> is the one fact of
  real zones used: an offset from UTC is a whole number of minutes and changes at whole minutes.

  Two functions walk the clock minute by minute to the next change of an answer; the locale
  \<open>first_change\<close> is what such a walk promises, and both are interpretations of it.
\<close>

record zone =
  zn_local :: "instant \<Rightarrow> int"
  zn_earliest :: "int \<Rightarrow> instant option"

definition utc_zone :: zone where
  "utc_zone = \<lparr>zn_local = (\<lambda>t. t), zn_earliest = Some\<rparr>"

definition whole_minutes :: "zone \<Rightarrow> bool" where
  "whole_minutes z \<longleftrightarrow> (\<forall>t. zn_local z t div nanos_per_minute
      = zn_local z (t - t mod nanos_per_minute) div nanos_per_minute)"

lemma utc_whole_minutes: "whole_minutes utc_zone"
  by (simp add: whole_minutes_def utc_zone_def minus_mod_eq_div_mult)

section \<open>Days and windows\<close>

text \<open>A weekday is its number of days from Monday.\<close>

type_synonym weekday = nat

definition weekday_pred :: "weekday \<Rightarrow> weekday" where
  "weekday_pred d = (d + 6) mod 7"

type_synonym day_set = u8

definition EVERY_DAY :: day_set where
  "EVERY_DAY = 0b1111111"

definition day_contains :: "day_set \<Rightarrow> weekday \<Rightarrow> bool" where
  "day_contains days d = (days AND push_bit d 1 \<noteq> 0)"

definition day_is_empty :: "day_set \<Rightarrow> bool" where
  "day_is_empty days = (days AND EVERY_DAY = 0)"

definition covers_local :: "day_set \<Rightarrow> u16 \<Rightarrow> u16 \<Rightarrow> weekday \<Rightarrow> u16 \<Rightarrow> bool" where
  "covers_local days start_minute end_minute weekday minute =
     (if day_is_empty days then False
      else if start_minute < end_minute
      then day_contains days weekday \<and> start_minute \<le> minute \<and> minute < end_minute
      else day_contains days weekday \<and> minute \<ge> start_minute
         \<or> day_contains days (weekday_pred weekday) \<and> minute < end_minute)"

text \<open>The weekday and minute of the day a wall-clock time shows; 1970-01-01 was a Thursday.\<close>

definition local_position :: "zone \<Rightarrow> instant \<Rightarrow> weekday \<times> u16" where
  "local_position z now =
     (let m = zn_local z now div nanos_per_minute
      in (nat ((m div 1440 + 3) mod 7), word_of_int (m mod 1440)))"

record schedule_window =
  sw_id :: ident
  sw_profile_id :: profile_id
  sw_days :: day_set
  sw_start_minute :: u16
  sw_end_minute :: u16
  sw_priority :: int
  sw_enabled :: bool

definition window_covers :: "schedule_window \<Rightarrow> weekday \<Rightarrow> u16 \<Rightarrow> bool" where
  "window_covers w weekday minute =
     (sw_enabled w \<and> covers_local (sw_days w) (sw_start_minute w) (sw_end_minute w) weekday minute)"

record weekly_schedule =
  ws_timezone :: zone
  ws_default_profile_id :: "profile_id option"
  ws_windows :: "schedule_window list"

definition default_schedule :: weekly_schedule where
  "default_schedule = \<lparr>ws_timezone = utc_zone, ws_default_profile_id = None, ws_windows = []\<rparr>"

definition window_rank :: "schedule_window \<Rightarrow> int \<times> u16 \<times> ident" where
  "window_rank w = (sw_priority w, sw_start_minute w, sw_id w)"

definition active_at :: "weekly_schedule \<Rightarrow> instant \<Rightarrow> profile_id option" where
  "active_at s now =
     (case local_position (ws_timezone s) now of (weekday, minute) \<Rightarrow>
        (case max_by_key window_rank (filter (\<lambda>w. window_covers w weekday minute) (ws_windows s)) of
           Some w \<Rightarrow> Some (sw_profile_id w)
         | None \<Rightarrow> ws_default_profile_id s))"

section \<open>Walking to the next change\<close>

definition LOOKAHEAD_DAYS :: int where
  "LOOKAHEAD_DAYS = 8"

text \<open>An instant with its seconds and nanoseconds set to zero.\<close>

definition floor_minute :: "instant \<Rightarrow> instant" where
  "floor_minute now = now - now mod nanos_per_minute"

text \<open>The loop both walks run: a minute on, ask, until the deadline.\<close>

function minute_walk :: "(instant \<Rightarrow> bool) \<Rightarrow> instant \<Rightarrow> instant \<Rightarrow> instant option" where
  "minute_walk stop cursor deadline =
     (if cursor < deadline
      then let next = cursor + of_minutes 1
           in if stop next then Some next else minute_walk stop next deadline
      else None)"
  by pat_completeness auto
termination
  by (relation "measure (\<lambda>(stop, cursor, deadline). nat (deadline - cursor))") (auto simp: span_defs)

declare minute_walk.simps [simp del]

definition next_switch_after :: "weekly_schedule \<Rightarrow> instant \<Rightarrow> instant option" where
  "next_switch_after s now =
     minute_walk (\<lambda>cursor. active_at s cursor \<noteq> active_at s now)
       (floor_minute now) (now + of_days LOOKAHEAD_DAYS)"

record quiet_window =
  qw_days :: day_set
  qw_start_minute :: u16
  qw_end_minute :: u16

record quiet_hours =
  qh_enabled :: bool
  qh_windows :: "quiet_window list"

definition is_quiet :: "quiet_hours \<Rightarrow> zone \<Rightarrow> instant \<Rightarrow> bool" where
  "is_quiet q z now =
     (if \<not> qh_enabled q then False
      else case local_position z now of (weekday, minute) \<Rightarrow>
        list_ex (\<lambda>w. covers_local (qw_days w) (qw_start_minute w) (qw_end_minute w) weekday minute)
          (qh_windows q))"

definition ends_after :: "quiet_hours \<Rightarrow> zone \<Rightarrow> instant \<Rightarrow> instant option" where
  "ends_after q z now =
     (if \<not> is_quiet q z now then None
      else minute_walk (\<lambda>cursor. \<not> is_quiet q z cursor) (floor_minute now) (now + of_days 8))"

section \<open>A profile switched on by hand\<close>

datatype manual_end = NextSwitch | At | Never

record manual_profile =
  mp_profile_id :: "profile_id option"
  mp_ends :: manual_end
  mp_until :: "instant option"
  mp_switched_at :: instant

definition manual_profile_new ::
    "profile_id option \<Rightarrow> manual_end \<Rightarrow> instant option \<Rightarrow> weekly_schedule \<Rightarrow> instant \<Rightarrow> manual_profile" where
  "manual_profile_new profile ends at schedule now =
     \<lparr>mp_profile_id = profile, mp_ends = ends,
      mp_until = (case ends of
                    NextSwitch \<Rightarrow> next_switch_after schedule now
                  | At \<Rightarrow> at
                  | Never \<Rightarrow> None),
      mp_switched_at = now\<rparr>"

definition in_force :: "manual_profile \<Rightarrow> instant \<Rightarrow> bool" where
  "in_force p now = (case mp_until p of None \<Rightarrow> True | Some u \<Rightarrow> now < u)"

section \<open>Download windows\<close>

record weekly_window =
  ww_days :: u8
  ww_start_minute :: u16
  ww_end_minute :: u16

record download_window =
  dw_windows :: "weekly_window list"
  dw_ignore_schedule_pause :: bool

definition effective_window ::
    "download_window option \<Rightarrow> download_window option \<Rightarrow> download_window option" where
  "effective_window package category = (case package of Some w \<Rightarrow> Some w | None \<Rightarrow> category)"

datatype download_hold = HoldWindow | HoldSchedule

definition window_open :: "download_window \<Rightarrow> zone \<Rightarrow> instant \<Rightarrow> bool" where
  "window_open w z now =
     (if dw_windows w = [] then True
      else case local_position z now of (weekday, minute) \<Rightarrow>
        list_ex (\<lambda>s. covers_local (ww_days s) (ww_start_minute s) (ww_end_minute s) weekday minute)
          (dw_windows w))"

definition package_hold ::
    "download_window option \<Rightarrow> bool \<Rightarrow> zone \<Rightarrow> instant \<Rightarrow> download_hold option" where
  "package_hold window schedule_pauses z now =
     (if (case window of Some w \<Rightarrow> \<not> window_open w z now | None \<Rightarrow> False) then Some HoldWindow
      else
        let ignores = (case window of Some w \<Rightarrow> dw_ignore_schedule_pause w | None \<Rightarrow> False)
        in if schedule_pauses \<and> \<not> ignores then Some HoldSchedule else None)"

section \<open>What the walk finds\<close>

lemma minute_pos: "0 < of_minutes 1"
  by (simp add: span_defs)

lemma walk_Some:
  "minute_walk stop cursor deadline = Some r \<Longrightarrow>
   \<exists>k \<ge> 1. r = cursor + of_minutes (int k) \<and> cursor + of_minutes (int k - 1) < deadline \<and> stop r
     \<and> (\<forall>j. 1 \<le> j \<longrightarrow> j < k \<longrightarrow> \<not> stop (cursor + of_minutes (int j)))"
proof (induction stop cursor deadline rule: minute_walk.induct)
  case (1 stop cursor deadline)
  let ?next = "cursor + of_minutes 1"
  have go: "cursor < deadline"
    using "1.prems" by (subst (asm) minute_walk.simps) (auto split: if_splits)
  show ?case
  proof (cases "stop ?next")
    case True
    then have "r = ?next"
      using "1.prems" go by (subst (asm) minute_walk.simps) (simp add: Let_def)
    with True go show ?thesis by (intro exI [of _ 1]) (auto simp: span_defs)
  next
    case False
    then have w: "minute_walk stop ?next deadline = Some r"
      using "1.prems" go by (subst (asm) minute_walk.simps) (simp add: Let_def)
    obtain k where k: "k \<ge> 1" "r = ?next + of_minutes (int k)" "?next + of_minutes (int k - 1) < deadline"
      "stop r" "\<And>j. 1 \<le> j \<Longrightarrow> j < k \<Longrightarrow> \<not> stop (?next + of_minutes (int j))"
      using "1.IH" [OF go refl False w] by blast
    have "\<not> stop (cursor + of_minutes (int j))" if "1 \<le> j" "j < Suc k" for j
    proof (cases "j = 1")
      case True
      with False show ?thesis by simp
    next
      case neq: False
      then have "\<not> stop (?next + of_minutes (int (j - 1)))" using that by (intro k(5)) auto
      then show ?thesis using that by (simp add: span_defs algebra_simps of_nat_diff)
    qed
    then show ?thesis
      using k(1-4) by (intro exI [of _ "Suc k"]) (auto simp: span_defs algebra_simps)
  qed
qed

lemma walk_None:
  "minute_walk stop cursor deadline = None \<Longrightarrow> 1 \<le> k \<Longrightarrow>
   cursor + of_minutes (int k - 1) < deadline \<Longrightarrow> \<not> stop (cursor + of_minutes (int k))"
proof (induction stop cursor deadline arbitrary: k rule: minute_walk.induct)
  case (1 stop cursor deadline)
  let ?next = "cursor + of_minutes 1"
  have go: "cursor < deadline" using "1.prems"(2,3) by (simp add: span_defs)
  have s: "\<not> stop ?next" and w: "minute_walk stop ?next deadline = None"
    using "1.prems"(1) go by (subst (asm) minute_walk.simps, simp add: Let_def split: if_splits)+
  show ?case
  proof (cases "k = 1")
    case True
    with s show ?thesis by simp
  next
    case False
    then have k: "1 \<le> k - 1" "?next + of_minutes (int (k - 1) - 1) < deadline"
      using "1.prems"(2,3) by (auto simp: span_defs algebra_simps of_nat_diff)
    have "\<not> stop (?next + of_minutes (int (k - 1)))"
      by (rule "1.IH" [OF go refl s w k])
    then show ?thesis using "1.prems"(2) by (simp add: span_defs algebra_simps of_nat_diff)
  qed
qed

lemma floor_minute_le: "floor_minute t \<le> t" "t < floor_minute t + of_minutes 1"
  by (auto simp: floor_minute_def span_defs pos_mod_bound)

lemma floor_minute_idem [simp]: "floor_minute (floor_minute t) = floor_minute t"
  by (simp add: floor_minute_def minus_mod_eq_div_mult)

text \<open>The whole minutes after an instant are the ones the walk from its floor visits.\<close>

lemma minute_steps:
  assumes "floor_minute t = t" and "floor_minute now < t"
  obtains k where "k \<ge> 1" and "t = floor_minute now + of_minutes (int k)"
proof -
  define a where "a = t div nanos_per_minute"
  define b where "b = now div nanos_per_minute"
  have t: "t = a * nanos_per_minute"
    using assms(1) by (simp add: floor_minute_def a_def minus_mod_eq_div_mult)
  have n: "floor_minute now = b * nanos_per_minute"
    by (simp add: floor_minute_def b_def minus_mod_eq_div_mult)
  have "b < a" using assms(2) unfolding t n by simp
  then show thesis
    using t n by (intro that [of "nat (a - b)"]) (auto simp: span_defs algebra_simps)
qed

lemma minute_steps_floor: "floor_minute (floor_minute now + of_minutes k) = floor_minute now + of_minutes k"
  by (simp add: floor_minute_def span_defs minus_mod_eq_div_mult flip: mod_mult_self1)

text \<open>
  What a walk to the first change promises of the answer \<open>obs\<close> it watches, where the answer at
  the start is one it looks for the end of.
\<close>

locale first_change =
  fixes obs :: "instant \<Rightarrow> 'a"
    and watched :: "'a \<Rightarrow> bool"
    and next_at :: "instant \<Rightarrow> instant option"
  assumes changes: "next_at now = Some r \<Longrightarrow> obs r \<noteq> obs now \<and> watched (obs now)"
    and ahead: "next_at now = Some r \<Longrightarrow>
      floor_minute now < r \<and> floor_minute r = r \<and> r < now + of_days 8 + of_minutes 1"
    and first: "next_at now = Some r \<Longrightarrow> floor_minute t = t \<Longrightarrow> floor_minute now < t \<Longrightarrow> t < r \<Longrightarrow>
      obs t = obs now"
    and never: "next_at now = None \<Longrightarrow> watched (obs now) \<Longrightarrow> floor_minute t = t \<Longrightarrow>
      floor_minute now < t \<Longrightarrow> t - of_minutes 1 < now + of_days 8 \<Longrightarrow> obs t = obs now"
begin

definition minute_grained :: bool where
  "minute_grained \<longleftrightarrow> (\<forall>t. obs (floor_minute t) = obs t)"

lemma strictly_ahead:
  assumes "next_at now = Some r"
  shows "now < r"
proof -
  have r: "floor_minute now < r" "floor_minute r = r" using ahead [OF assms] by auto
  then obtain k where "k \<ge> 1" "r = floor_minute now + of_minutes (int k)"
    using minute_steps by blast
  then have "floor_minute now + of_minutes 1 \<le> r" by (simp add: span_defs)
  then show ?thesis using floor_minute_le(2) [of now] by simp
qed

lemma constant_until:
  assumes fine: "minute_grained" and at: "next_at now = Some r" and t: "now \<le> t" "t < r"
  shows "obs t = obs now"
proof (cases "floor_minute t = floor_minute now")
  case True
  then show ?thesis using fine by (metis minute_grained_def)
next
  case False
  have "floor_minute now \<le> floor_minute t"
    using t(1) floor_minute_le [of t] floor_minute_le [of now]
    by (auto simp: floor_minute_def minus_mod_eq_div_mult zdiv_mono1)
  then have "floor_minute now < floor_minute t" using False by simp
  moreover have "floor_minute t < r" using t(2) floor_minute_le(1) [of t] by simp
  ultimately have "obs (floor_minute t) = obs now" using first [OF at] by simp
  then show ?thesis using fine by (simp add: minute_grained_def)
qed

lemma constant_throughout:
  assumes fine: "minute_grained" and none: "next_at now = None" and w: "watched (obs now)"
    and t: "now \<le> t" "t < now + of_days 8"
  shows "obs t = obs now"
proof (cases "floor_minute t = floor_minute now")
  case True
  then show ?thesis using fine by (metis minute_grained_def)
next
  case False
  have "floor_minute now \<le> floor_minute t"
    using t(1) by (auto simp: floor_minute_def minus_mod_eq_div_mult zdiv_mono1)
  then have "floor_minute now < floor_minute t" using False by simp
  moreover have "floor_minute t - of_minutes 1 < now + of_days 8"
    using t(2) floor_minute_le(1) [of t] minute_pos by simp
  ultimately have "obs (floor_minute t) = obs now" using never [OF none w] by simp
  then show ?thesis using fine by (simp add: minute_grained_def)
qed

end

lemma walk_ahead:
  assumes "minute_walk stop (floor_minute now) (now + of_days 8) = Some r"
  shows "stop r \<and> floor_minute now < r \<and> floor_minute r = r \<and> r < now + of_days 8 + of_minutes 1"
proof -
  obtain k where k: "k \<ge> 1" "r = floor_minute now + of_minutes (int k)"
    "floor_minute now + of_minutes (int k - 1) < now + of_days 8" "stop r"
    using walk_Some [OF assms] by blast
  then show ?thesis by (simp add: minute_steps_floor) (simp add: span_defs algebra_simps)
qed

lemma walk_first:
  assumes "minute_walk stop (floor_minute now) d = Some r"
    and "floor_minute t = t" and "floor_minute now < t" and "t < r"
  shows "\<not> stop t"
proof -
  obtain k where k: "r = floor_minute now + of_minutes (int k)"
    "\<And>j. 1 \<le> j \<Longrightarrow> j < k \<Longrightarrow> \<not> stop (floor_minute now + of_minutes (int j))"
    using walk_Some [OF assms(1)] by blast
  obtain j where j: "j \<ge> 1" "t = floor_minute now + of_minutes (int j)"
    using minute_steps [OF assms(2,3)] by blast
  then have "j < k" using assms(4) k(1) by (simp add: span_defs)
  then show ?thesis using j k(2) by simp
qed

lemma walk_never:
  assumes "minute_walk stop (floor_minute now) d = None"
    and "floor_minute t = t" and "floor_minute now < t" and "t - of_minutes 1 < d"
  shows "\<not> stop t"
proof -
  obtain j where j: "j \<ge> 1" "t = floor_minute now + of_minutes (int j)"
    using minute_steps [OF assms(2,3)] by blast
  then have "floor_minute now + of_minutes (int j - 1) < d"
    using assms(4) by (simp add: span_defs algebra_simps)
  then show ?thesis using walk_None [OF assms(1) j(1)] j(2) by simp
qed

interpretation switch: first_change "active_at s" "\<lambda>_. True" "next_switch_after s" for s
proof
  fix now r t
  assume "next_switch_after s now = Some r"
  note w = this [unfolded next_switch_after_def LOOKAHEAD_DAYS_def]
  show "active_at s r \<noteq> active_at s now \<and> True" using walk_ahead [OF w] by simp
  show "floor_minute now < r \<and> floor_minute r = r \<and> r < now + of_days 8 + of_minutes 1"
    using walk_ahead [OF w] by simp
  show "floor_minute t = t \<Longrightarrow> floor_minute now < t \<Longrightarrow> t < r \<Longrightarrow> active_at s t = active_at s now"
    using walk_first [OF w] by blast
next
  fix now t
  assume "next_switch_after s now = None"
  note w = this [unfolded next_switch_after_def LOOKAHEAD_DAYS_def]
  show "floor_minute t = t \<Longrightarrow> floor_minute now < t \<Longrightarrow> t - of_minutes 1 < now + of_days 8 \<Longrightarrow>
      active_at s t = active_at s now"
    using walk_never [OF w] by blast
qed

interpretation quiet: first_change "is_quiet q z" "\<lambda>b. b" "ends_after q z" for q z
proof
  fix now r t
  assume "ends_after q z now = Some r"
  then have q: "is_quiet q z now"
    and w: "minute_walk (\<lambda>c. \<not> is_quiet q z c) (floor_minute now) (now + of_days 8) = Some r"
    by (auto simp: ends_after_def split: if_splits)
  show "is_quiet q z r \<noteq> is_quiet q z now \<and> is_quiet q z now" using walk_ahead [OF w] q by simp
  show "floor_minute now < r \<and> floor_minute r = r \<and> r < now + of_days 8 + of_minutes 1"
    using walk_ahead [OF w] by simp
  show "floor_minute t = t \<Longrightarrow> floor_minute now < t \<Longrightarrow> t < r \<Longrightarrow> is_quiet q z t = is_quiet q z now"
    using walk_first [OF w] q by blast
next
  fix now t
  assume "ends_after q z now = None" and q: "is_quiet q z now"
  then have w: "minute_walk (\<lambda>c. \<not> is_quiet q z c) (floor_minute now) (now + of_days 8) = None"
    by (auto simp: ends_after_def split: if_splits)
  show "floor_minute t = t \<Longrightarrow> floor_minute now < t \<Longrightarrow> t - of_minutes 1 < now + of_days 8 \<Longrightarrow>
      is_quiet q z t = is_quiet q z now"
    using walk_never [OF w] q by blast
qed

section \<open>Answers are minute-grained in a zone of whole minutes\<close>

lemma local_position_floor:
  "whole_minutes z \<Longrightarrow> local_position z (floor_minute t) = local_position z t"
  unfolding whole_minutes_def local_position_def floor_minute_def by (simp add: Let_def)

lemma active_minute_grained:
  "whole_minutes (ws_timezone s) \<Longrightarrow> switch.minute_grained s"
  by (simp add: switch.minute_grained_def active_at_def local_position_floor)

lemma quiet_minute_grained: "whole_minutes z \<Longrightarrow> quiet.minute_grained q z"
  by (simp add: quiet.minute_grained_def is_quiet_def local_position_floor)

section \<open>Windows as sets of minutes of the week\<close>

text \<open>
  A window read without the clock: on each of its days it opens at its start and stays open for
  its length, around midnight and around the end of the week.
\<close>

definition window_length :: "u16 \<Rightarrow> u16 \<Rightarrow> nat" where
  "window_length start_minute end_minute =
     (if start_minute < end_minute then unat end_minute - unat start_minute
      else 1440 - unat start_minute + unat end_minute)"

definition open_since :: "day_set \<Rightarrow> u16 \<Rightarrow> u16 \<Rightarrow> nat \<Rightarrow> bool" where
  "open_since days start_minute end_minute week_minute \<longleftrightarrow>
     (\<exists>d < 7. day_contains days d \<and> (\<exists>k < window_length start_minute end_minute.
        (d * 1440 + unat start_minute + k) mod 10080 = week_minute))"

lemma empty_days: "day_is_empty days \<Longrightarrow> d < 7 \<Longrightarrow> \<not> day_contains days d"
proof -
  assume e: "day_is_empty days" and d: "d < 7"
  have "EVERY_DAY AND push_bit d 1 = push_bit d (1 :: u8)"
    using d by (auto simp: EVERY_DAY_def numeral_eq_Suc less_Suc_eq)
  then have "days AND push_bit d 1 = (days AND EVERY_DAY) AND push_bit d 1"
    by (simp add: and.assoc)
  then show ?thesis using e by (simp add: day_contains_def day_is_empty_def)
qed

lemma day_before:
  assumes "wd < (7 :: nat)"
  shows "wd = 0 \<and> (wd + 6) mod 7 = 6 \<or> wd > 0 \<and> (wd + 6) mod 7 = wd - 1"
proof (cases wd)
  case (Suc n)
  then have "(wd + 6) mod 7 = (n + 7) mod 7" by (simp add: add.commute)
  then show ?thesis using Suc assms by simp
qed simp

lemma base_1440: "y < 1440 \<Longrightarrow> m < 1440 \<Longrightarrow> d * 1440 + y = e * 1440 + m \<longleftrightarrow> d = e \<and> y = m" for d :: nat
proof -
  assume y: "y < 1440" and m: "m < 1440"
  have "y = m \<and> d = e" if e: "d * 1440 + y = e * 1440 + m"
  proof -
    have "(d * 1440 + y) mod 1440 = y" and "(e * 1440 + m) mod 1440 = m" using y m by simp_all
    then have "y = m" using e by simp
    then show ?thesis using e by simp
  qed
  then show ?thesis by blast
qed

lemma week_position:
  fixes d wd m y :: nat
  assumes "d < 7" and "wd < 7" and "m < 1440" and "y < 2880"
  shows "(d * 1440 + y) mod 10080 = wd * 1440 + m \<longleftrightarrow>
    y < 1440 \<and> d = wd \<and> y = m \<or> y \<ge> 1440 \<and> d = (wd + 6) mod 7 \<and> y = m + 1440"
proof (cases "d * 1440 + y < 10080")
  case True
  have w: "wd = 0 \<and> (wd + 6) mod 7 = 6 \<or> wd > 0 \<and> (wd + 6) mod 7 = wd - 1"
    by (rule day_before [OF assms(2)])
  have "d * 1440 + y = wd * 1440 + m \<longleftrightarrow>
      y < 1440 \<and> d = wd \<and> y = m \<or> y \<ge> 1440 \<and> Suc d = wd \<and> y = m + 1440"
  proof (cases "y < 1440")
    case True
    then show ?thesis using base_1440 [OF True assms(3)] by auto
  next
    case False
    then have "y - 1440 < 1440" using assms(4) by simp
    from base_1440 [OF this assms(3), of "Suc d" wd] False show ?thesis by auto
  qed
  moreover have "d = (wd + 6) mod 7 \<and> y \<ge> 1440 \<longleftrightarrow> Suc d = wd \<and> y \<ge> 1440"
    using w True by auto
  ultimately show ?thesis using True by auto
next
  case False
  then have d: "d = 6" "y \<ge> 1440" using assms(1,4) by linarith+
  have "(d * 1440 + y) mod 10080 = y - 1440"
    using d assms(4) by (subst mod_if) simp
  moreover have "y - 1440 = wd * 1440 + m \<longleftrightarrow> wd = 0 \<and> y = m + 1440"
    using base_1440 [of "y - 1440" m 0 wd] d(2) assms(3,4) by auto
  moreover have "(wd + 6) mod 7 = 6 \<longleftrightarrow> wd = 0"
    using day_before [OF assms(2)] assms(2) by auto
  ultimately show ?thesis using d by auto
qed

text \<open>Property C38. A weekly window belongs to the day it starts on: the local test of a weekday and a
  minute is exactly membership in the set of minutes of the week the window opens, windows that
  wrap past midnight (or past Sunday) and windows of a whole day included.\<close>

theorem covers_local_is_open_since:
  assumes "weekday < 7" and "unat minute < 1440"
    and "unat start_minute \<le> 1440" and "unat end_minute \<le> 1440"
  shows "covers_local days start_minute end_minute weekday minute \<longleftrightarrow>
    open_since days start_minute end_minute (weekday * 1440 + unat minute)"
proof -
  let ?s = "unat start_minute" and ?e = "unat end_minute" and ?m = "unat minute"
  let ?L = "window_length start_minute end_minute"
  have pos: "(d * 1440 + ?s + k) mod 10080 = weekday * 1440 + ?m \<longleftrightarrow>
      ?s + k < 1440 \<and> d = weekday \<and> ?s + k = ?m
      \<or> ?s + k \<ge> 1440 \<and> d = weekday_pred weekday \<and> ?s + k = ?m + 1440"
    if "d < 7" "k < ?L" for d k
  proof -
    have "?s + k < 2880"
      using that(2) assms(3,4) by (auto simp: window_length_def split: if_splits)
    then show ?thesis
      using week_position [OF that(1) assms(1,2), of "?s + k"]
      by (simp add: weekday_pred_def add.assoc)
  qed
  have pred: "weekday_pred weekday < 7" by (simp add: weekday_pred_def)
  have none: "day_is_empty days \<Longrightarrow> \<not> open_since days start_minute end_minute w" for w
    using empty_days by (auto simp: open_since_def)
  show ?thesis
  proof (cases "start_minute < end_minute")
    case True
    then have L: "?L = ?e - ?s" and se: "?s < ?e" by (auto simp: window_length_def word_less_nat_alt)
    have "open_since days start_minute end_minute (weekday * 1440 + ?m) \<longleftrightarrow>
        day_contains days weekday \<and> ?s \<le> ?m \<and> ?m < ?e"
    proof
      assume "open_since days start_minute end_minute (weekday * 1440 + ?m)"
      then obtain d k where dk: "d < 7" "k < ?L" "day_contains days d"
        "(d * 1440 + ?s + k) mod 10080 = weekday * 1440 + ?m" by (auto simp: open_since_def)
      then have "d = weekday" "?s + k = ?m" using pos [OF dk(1,2)] L assms(4) by auto
      then show "day_contains days weekday \<and> ?s \<le> ?m \<and> ?m < ?e" using dk(2,3) L by auto
    next
      assume c: "day_contains days weekday \<and> ?s \<le> ?m \<and> ?m < ?e"
      then have "?m - ?s < ?L" using L by auto
      then show "open_since days start_minute end_minute (weekday * 1440 + ?m)"
        unfolding open_since_def
        using c assms(1,2) pos [OF assms(1), of "?m - ?s"] by fastforce
    qed
    then show ?thesis
      using True none by (auto simp: covers_local_def word_less_nat_alt word_le_nat_alt)
  next
    case False
    then have L: "?L = 1440 - ?s + ?e" by (simp add: window_length_def)
    have se: "?e \<le> ?s" using False by (simp add: word_less_nat_alt)
    have "open_since days start_minute end_minute (weekday * 1440 + ?m) \<longleftrightarrow>
        day_contains days weekday \<and> ?s \<le> ?m \<or> day_contains days (weekday_pred weekday) \<and> ?m < ?e"
    proof
      assume "open_since days start_minute end_minute (weekday * 1440 + ?m)"
      then obtain d k where dk: "d < 7" "k < ?L" "day_contains days d"
        "(d * 1440 + ?s + k) mod 10080 = weekday * 1440 + ?m" by (auto simp: open_since_def)
      then show "day_contains days weekday \<and> ?s \<le> ?m \<or> day_contains days (weekday_pred weekday) \<and> ?m < ?e"
        using pos [OF dk(1,2)] L assms(3) by auto
    next
      assume "day_contains days weekday \<and> ?s \<le> ?m \<or> day_contains days (weekday_pred weekday) \<and> ?m < ?e"
      then consider "day_contains days weekday" "?s \<le> ?m"
        | "day_contains days (weekday_pred weekday)" "?m < ?e" by blast
      then show "open_since days start_minute end_minute (weekday * 1440 + ?m)"
      proof cases
        case 1
        then have "?m - ?s < ?L" using L assms(2) by auto
        then show ?thesis unfolding open_since_def
          using 1 assms(1,2) pos [OF assms(1), of "?m - ?s"] by fastforce
      next
        case 2
        then have k: "?m + 1440 - ?s < ?L" using L assms(3) by auto
        have "?s + (?m + 1440 - ?s) = ?m + 1440" using assms(3) by simp
        then show ?thesis unfolding open_since_def
          using 2 k pred pos [OF pred k] by fastforce
      qed
    qed
    then show ?thesis
      using False none by (auto simp: covers_local_def word_less_nat_alt word_le_nat_alt)
  qed
qed

theorem covers_local_is_open_since_witness:
  "covers_local 0b0010000 1320 120 5 60 \<longleftrightarrow> open_since 0b0010000 1320 120 (5 * 1440 + 60)"
  using covers_local_is_open_since [of 5 60 1320 120 "0b0010000"] by simp

section \<open>The properties of the clock\<close>

text \<open>The same set of windows always activates the same profile: as long as the windows
  carry different ids, the order they are stored or listed in has no influence.\<close>

lemma active_profile_ignores_window_order:
  assumes "set ws = set ws'" and "\<And>v w. v \<in> set ws \<Longrightarrow> w \<in> set ws \<Longrightarrow> sw_id v = sw_id w \<Longrightarrow> v = w"
  shows "active_at (s\<lparr>ws_windows := ws\<rparr>) now = active_at (s\<lparr>ws_windows := ws'\<rparr>) now"
proof -
  obtain wd m where p: "local_position (ws_timezone s) now = (wd, m)" by (cases "local_position (ws_timezone s) now")
  let ?in = "\<lambda>w. window_covers w wd m"
  have "max_by_key window_rank (filter ?in ws) = max_by_key window_rank (filter ?in ws')"
  proof (rule greatest.pick_order_free)
    show "set (filter ?in ws) = set (filter ?in ws')" using assms(1) by auto
  next
    fix v w
    assume "v \<in> set (filter ?in ws)" "w \<in> set (filter ?in ws)" "v \<noteq> w"
    then have "sw_id v \<noteq> sw_id w" using assms(2) by auto
    then have "window_rank v \<noteq> window_rank w" by (simp add: window_rank_def)
    then show "window_rank w < window_rank v \<or> window_rank v < window_rank w" by (metis neqE)
  qed
  then show ?thesis by (simp add: active_at_def p split: option.split)
qed

definition night :: schedule_window where
  "night = \<lparr>sw_id = ''a'', sw_profile_id = ''slow'', sw_days = EVERY_DAY, sw_start_minute = 1320,
            sw_end_minute = 360, sw_priority = 0, sw_enabled = True\<rparr>"

definition noon :: schedule_window where
  "noon = \<lparr>sw_id = ''b'', sw_profile_id = ''fast'', sw_days = EVERY_DAY, sw_start_minute = 720,
           sw_end_minute = 780, sw_priority = 5, sw_enabled = True\<rparr>"

lemma active_profile_ignores_window_order_sample:
  "active_at (default_schedule\<lparr>ws_windows := [night, noon]\<rparr>) 0
   = active_at (default_schedule\<lparr>ws_windows := [noon, night]\<rparr>) 0"
  by (rule active_profile_ignores_window_order) (auto simp: night_def noon_def)

text \<open>Property C37. The announced switch is the next change and nothing changes before it: in a zone of
  whole minutes the active profile is the same at every instant up to the announced one and a
  different one there; and where no switch is announced, nothing changes for eight days.\<close>

theorem next_switch_is_the_next_change:
  assumes "whole_minutes (ws_timezone s)"
  shows "(\<forall>r. next_switch_after s now = Some r \<longrightarrow>
            now < r \<and> active_at s r \<noteq> active_at s now
            \<and> (\<forall>t. now \<le> t \<and> t < r \<longrightarrow> active_at s t = active_at s now))
       \<and> (next_switch_after s now = None \<longrightarrow>
            (\<forall>t. now \<le> t \<and> t < now + of_days 8 \<longrightarrow> active_at s t = active_at s now))"
proof (intro conjI allI impI)
  fix r
  assume r: "next_switch_after s now = Some r"
  show "now < r" by (rule switch.strictly_ahead [OF r])
  show "active_at s r \<noteq> active_at s now" using switch.changes [OF r] by (rule conjunct1)
  fix t
  assume "now \<le> t \<and> t < r"
  then show "active_at s t = active_at s now"
    using switch.constant_until [OF active_minute_grained [OF assms] r] by blast
next
  fix t
  assume n: "next_switch_after s now = None" and "now \<le> t \<and> t < now + of_days 8"
  then show "active_at s t = active_at s now"
    using switch.constant_throughout [OF active_minute_grained [OF assms] n] by blast
qed

text \<open>A profile switched on by hand until the schedule's next change holds exactly while
  the schedule would have kept its answer: in force, nothing has changed; at its end, the
  schedule's answer differs from the one at the switch.\<close>

lemma manual_switch_ends_with_the_schedule:
  assumes "whole_minutes (ws_timezone s)" and "now \<le> t"
    and "p = manual_profile_new profile NextSwitch at s now"
    and "mp_until p = Some u"
  shows "(in_force p t \<longrightarrow> active_at s t = active_at s now) \<and> \<not> in_force p u
    \<and> active_at s u \<noteq> active_at s now"
proof -
  have u: "next_switch_after s now = Some u" using assms(3,4) by (simp add: manual_profile_new_def)
  have f: "in_force p x \<longleftrightarrow> x < u" for x using assms(4) by (simp add: in_force_def)
  have "in_force p t \<longrightarrow> active_at s t = active_at s now"
    using switch.constant_until [OF active_minute_grained [OF assms(1)] u assms(2)] f by blast
  moreover have "active_at s u \<noteq> active_at s now" using switch.changes [OF u] by (rule conjunct1)
  ultimately show ?thesis using f by simp
qed

definition one_minute :: weekly_schedule where
  "one_minute = default_schedule\<lparr>ws_windows := [noon\<lparr>sw_start_minute := 0, sw_end_minute := 1\<rparr>]\<rparr>"

lemma one_minute_switch: "next_switch_after one_minute 0 = Some (of_minutes 1)"
  unfolding next_switch_after_def
  by (subst minute_walk.simps)
    (simp add: one_minute_def default_schedule_def noon_def active_at_def local_position_def utc_zone_def
      window_covers_def covers_local_def day_is_empty_def day_contains_def EVERY_DAY_def floor_minute_def
      LOOKAHEAD_DAYS_def span_defs Let_def)

theorem next_switch_is_the_next_change_witness:
  "active_at one_minute (of_minutes 1) \<noteq> active_at one_minute 0
   \<and> active_at one_minute (of_seconds 59) = active_at one_minute 0"
proof -
  have "whole_minutes (ws_timezone one_minute)"
    using utc_whole_minutes by (simp only: one_minute_def default_schedule_def weekly_schedule.simps)
  moreover have "0 \<le> of_seconds 59 \<and> of_seconds 59 < of_minutes 1" by (simp add: span_defs)
  ultimately show ?thesis using next_switch_is_the_next_change [of one_minute 0] one_minute_switch by blast
qed

lemma manual_switch_ends_with_the_schedule_sample:
  "active_at one_minute (of_minutes 1) \<noteq> active_at one_minute 0"
proof -
  let ?p = "manual_profile_new None NextSwitch None one_minute 0"
  have "mp_until ?p = Some (of_minutes 1)" by (simp add: manual_profile_new_def one_minute_switch)
  then show ?thesis
    using manual_switch_ends_with_the_schedule [of one_minute 0 0 ?p None None "of_minutes 1"]
      utc_whole_minutes
    by (simp add: one_minute_def default_schedule_def)
qed

text \<open>Quiet hours end when they say: while a quiet period is in force, every instant
  before the reported end is quiet and the end itself is not; outside quiet hours no end is
  reported.\<close>

lemma quiet_period_ends_as_reported:
  assumes "whole_minutes z"
  shows "case ends_after q z now of
      Some r \<Rightarrow> now < r \<and> \<not> is_quiet q z r \<and> (\<forall>t. now \<le> t \<and> t < r \<longrightarrow> is_quiet q z t)
    | None \<Rightarrow> \<not> is_quiet q z now \<or> (\<forall>t. now \<le> t \<and> t < now + of_days 8 \<longrightarrow> is_quiet q z t)"
proof (cases "ends_after q z now")
  case None
  have "is_quiet q z t = is_quiet q z now" if "is_quiet q z now" "now \<le> t \<and> t < now + of_days 8" for t
    using quiet.constant_throughout [OF quiet_minute_grained [OF assms] None that(1)] that(2) by blast
  then have "\<not> is_quiet q z now \<or> (\<forall>t. now \<le> t \<and> t < now + of_days 8 \<longrightarrow> is_quiet q z t)" by blast
  then show ?thesis by (simp only: None option.case)
next
  case (Some r)
  have q: "is_quiet q z r \<noteq> is_quiet q z now" "is_quiet q z now"
    using quiet.changes [OF Some] by (rule conjunct1, rule conjunct2)
  have "is_quiet q z t" if "now \<le> t \<and> t < r" for t
    using quiet.constant_until [OF quiet_minute_grained [OF assms] Some] that q(2) by blast
  then show ?thesis using Some q quiet.strictly_ahead [OF Some] by auto
qed

definition first_minute_quiet :: quiet_hours where
  "first_minute_quiet = \<lparr>qh_enabled = True,
     qh_windows = [\<lparr>qw_days = EVERY_DAY, qw_start_minute = 0, qw_end_minute = 1\<rparr>]\<rparr>"

lemma first_minute_quiet_ends: "ends_after first_minute_quiet utc_zone 0 = Some (of_minutes 1)"
  unfolding ends_after_def
  by (subst minute_walk.simps)
    (simp add: first_minute_quiet_def is_quiet_def local_position_def utc_zone_def covers_local_def
      day_is_empty_def day_contains_def EVERY_DAY_def floor_minute_def span_defs Let_def)

lemma quiet_period_ends_as_reported_sample:
  "\<not> is_quiet first_minute_quiet utc_zone (of_minutes 1)
   \<and> is_quiet first_minute_quiet utc_zone (of_seconds 59)"
proof -
  have "0 \<le> of_seconds 59 \<and> of_seconds 59 < of_minutes 1" by (simp add: span_defs)
  then show ?thesis
    using quiet_period_ends_as_reported [OF utc_whole_minutes, of first_minute_quiet 0]
    unfolding first_minute_quiet_ends option.case by blast
qed

text \<open>What holds a package back: its window is closed; or the schedule pauses downloads and
  the window that applies -- its own as a whole, else its category's -- does not ignore that; and
  nothing else.\<close>

lemma package_hold_reasons:
  "package_hold window pauses z now =
     (if \<exists>w. window = Some w \<and> dw_windows w \<noteq> [] \<and> \<not> window_open w z now then Some HoldWindow
      else if pauses \<and> \<not> (\<exists>w. window = Some w \<and> dw_ignore_schedule_pause w) then Some HoldSchedule
      else None)"
proof (cases window)
  case None
  then show ?thesis by (simp add: package_hold_def)
next
  case (Some w)
  have "dw_windows w = [] \<Longrightarrow> window_open w z now" by (simp add: window_open_def)
  then show ?thesis using Some by (auto simp: package_hold_def)
qed

end
