(* ===== verification/Automations.thy ===== *)
theory Automations
  imports Conditions Lifecycle Schedule
begin

text \<open>
  Automations (\<open>rd-automation\<close>): \<open>model.rs\<close> (triggers and actions), \<open>admission.rs\<close> (which events
  reach a condition), \<open>validation.rs\<close> (what may be stored), \<open>schedule.rs\<close> (when a time trigger is
  due) and the idempotency keys of \<open>lib.rs\<close>.

  Parameters: the URL parser (the scheme of an absolute address, or \<open>None\<close>), the regular
  expression engine, the cron library -- an expression to its next time strictly after an
  instant in a zone, or the text of an error -- and the calendar rendering of a wall-clock time.
\<close>

definition MAX_ACTIONS :: nat where
  "MAX_ACTIONS = 10"

definition MAX_CONDITION_DEPTH :: nat where
  "MAX_CONDITION_DEPTH = 6"

definition MAX_ACTION_LINKS :: nat where
  "MAX_ACTION_LINKS = 50"

definition MAX_LINK_LEN :: nat where
  "MAX_LINK_LEN = 2048"

definition MAX_NOTIFY_MESSAGE :: nat where
  "MAX_NOTIFY_MESSAGE = 500"

datatype trigger =
    IntakeReceived | DownloadResolved | DownloadStarted | DownloadCompleted | DownloadFailed
  | PackageCompleted | PackageFailed | ExtractionFinished | ScriptFinished | UploadFinished
  | StorageThreshold | SubscriptionItem | UsenetJobHopeless | ScheduleTrigger | QueuePaused
  | QueueResumed | QueueFinished

definition all_triggers :: "trigger list" where
  "all_triggers =
     [IntakeReceived, DownloadResolved, DownloadStarted, DownloadCompleted, DownloadFailed,
      PackageCompleted, PackageFailed, ExtractionFinished, ScriptFinished, UploadFinished,
      StorageThreshold, SubscriptionItem, UsenetJobHopeless, ScheduleTrigger, QueuePaused,
      QueueResumed, QueueFinished]"

definition is_queue_moment :: "trigger \<Rightarrow> bool" where
  "is_queue_moment t = (t = QueuePaused \<or> t = QueueResumed \<or> t = QueueFinished)"

datatype link_destination = LinkGrabber | Downloads

datatype automation_action =
    Webhook ident
  | Script string
  | SetCategory category_id
  | PausePackage
  | ResumePackage
  | SetPriority download_priority
  | PauseQueue
  | StartQueue
  | ExtractPackage
  | Notify ident string
  | AddLinks "string list" link_destination

definition action_kind :: "automation_action \<Rightarrow> string" where
  "action_kind a = (case a of
     Webhook _ \<Rightarrow> ''webhook'' | Script _ \<Rightarrow> ''script'' | SetCategory _ \<Rightarrow> ''set_category''
   | PausePackage \<Rightarrow> ''pause_package'' | ResumePackage \<Rightarrow> ''resume_package''
   | SetPriority _ \<Rightarrow> ''set_priority'' | PauseQueue \<Rightarrow> ''pause_queue'' | StartQueue \<Rightarrow> ''start_queue''
   | ExtractPackage \<Rightarrow> ''extract_package'' | Notify _ _ \<Rightarrow> ''notify'' | AddLinks _ _ \<Rightarrow> ''add_links'')"

definition needs_package :: "automation_action \<Rightarrow> bool" where
  "needs_package a = (case a of
     SetCategory _ \<Rightarrow> True | PausePackage \<Rightarrow> True | ResumePackage \<Rightarrow> True | SetPriority _ \<Rightarrow> True
   | ExtractPackage \<Rightarrow> True | _ \<Rightarrow> False)"

datatype definition_error =
    NameError | ActionCount | ConditionDepth | PredicateError string | ScriptName
  | ScheduleInvalid string | NeedsPackage | NotifyMessage | Links | LinksLoop

definition definition_error_code :: "definition_error \<Rightarrow> string" where
  "definition_error_code e = (case e of
     NameError \<Rightarrow> ''automation.name_invalid''
   | ActionCount \<Rightarrow> ''automation.action_count_invalid''
   | ConditionDepth \<Rightarrow> ''automation.condition_too_deep''
   | PredicateError _ \<Rightarrow> ''automation.predicate_invalid''
   | ScriptName \<Rightarrow> ''automation.script_name_invalid''
   | ScheduleInvalid _ \<Rightarrow> ''automation.schedule_invalid''
   | NeedsPackage \<Rightarrow> ''automation.action_needs_package''
   | NotifyMessage \<Rightarrow> ''automation.notify_message_invalid''
   | Links \<Rightarrow> ''automation.links_invalid''
   | LinksLoop \<Rightarrow> ''automation.links_loop'')"

section \<open>Admission\<close>

definition DEFAULT_STORAGE_CHANGE :: string where
  "DEFAULT_STORAGE_CHANGE = ''blocked''"

definition admits ::
    "regex_engine \<Rightarrow> trigger \<Rightarrow> condition_node \<Rightarrow> event_context \<Rightarrow> pattern_cache \<Rightarrow> bool \<times> pattern_cache" where
  "admits regex trigger condition event cache =
     (if trigger = StorageThreshold \<and> \<not> mentions FldChange condition
         \<and> ev_text event FldChange \<noteq> Some DEFAULT_STORAGE_CHANGE
      then (False, cache)
      else cond_matches regex condition event cache)"

section \<open>Schedules\<close>

definition GRACE_SECONDS :: int where
  "GRACE_SECONDS = 120"

definition MAX_CRON_LEN :: nat where
  "MAX_CRON_LEN = 120"

definition MAX_INTERVAL_MINUTES :: u32 where
  "MAX_INTERVAL_MINUTES = 1440"

datatype schedule = Interval u32 | Cron string

record slot_time =
  sl_at :: instant
  sl_local :: int

type_synonym cron_entry = "zone \<Rightarrow> instant \<Rightarrow> string + instant"
type_synonym cron_parser = "string \<Rightarrow> string + cron_entry"

text \<open>Wall-clock time floored to a multiple of the interval counted from midnight.\<close>

definition floor_minutes :: "int \<Rightarrow> u32 \<Rightarrow> int" where
  "floor_minutes local minutes =
     (let minutes = uint (max 1 (min minutes MAX_INTERVAL_MINUTES));
          midnight = local - local mod of_days 1;
          since_midnight = (local - midnight) div of_minutes 1
      in midnight + of_minutes (since_midnight - since_midnight mod minutes))"

definition interval_slot_at_or_before :: "u32 \<Rightarrow> instant \<Rightarrow> zone \<Rightarrow> slot_time option" where
  "interval_slot_at_or_before minutes now z =
     (let local = floor_minutes (zn_local z now) minutes
      in map_option (\<lambda>at. \<lparr>sl_at = at, sl_local = local\<rparr>) (zn_earliest z local))"

definition parse_cron :: "cron_parser \<Rightarrow> string \<Rightarrow> string + cron_entry" where
  "parse_cron cron expression =
     (let expression = trim expression in
      if expression = [] \<or> length expression > MAX_CRON_LEN
      then Inl (''schedule must be a cron expression of at most '' @ dec MAX_CRON_LEN @ '' bytes'')
      else (case cron expression of
              Inl error \<Rightarrow> Inl (''schedule is not a cron expression: '' @ error)
            | Inr entry \<Rightarrow> Inr entry))"

definition validate_schedule :: "cron_parser \<Rightarrow> schedule \<Rightarrow> instant \<Rightarrow> zone \<Rightarrow> string + unit" where
  "validate_schedule cron s now z =
     (case s of
        Interval minutes \<Rightarrow>
          if 1 \<le> minutes \<and> minutes \<le> MAX_INTERVAL_MINUTES then Inr ()
          else Inl (''interval must be 1 to '' @ dec (unat MAX_INTERVAL_MINUTES) @ '' minutes'')
      | Cron expression \<Rightarrow>
          (case parse_cron cron expression of
             Inl e \<Rightarrow> Inl e
           | Inr entry \<Rightarrow>
               (case entry z now of
                  Inr _ \<Rightarrow> Inr ()
                | Inl error \<Rightarrow> Inl (''schedule names no future time: '' @ error))))"

text \<open>The newest of at most \<open>n\<close> occurrences from a cursor on that are not in the future.\<close>

fun newest_occurrence :: "nat \<Rightarrow> (instant \<Rightarrow> string + instant) \<Rightarrow> instant \<Rightarrow> instant \<Rightarrow> instant option \<Rightarrow> instant option" where
  "newest_occurrence 0 occurrence now cursor newest = newest"
| "newest_occurrence (Suc n) occurrence now cursor newest =
     (case occurrence cursor of
        Inl _ \<Rightarrow> newest
      | Inr next \<Rightarrow>
          if next > now then newest
          else newest_occurrence n occurrence now next (Some next))"

definition due_slot :: "cron_parser \<Rightarrow> schedule \<Rightarrow> instant \<Rightarrow> zone \<Rightarrow> slot_time option" where
  "due_slot cron s now z =
     (let window_start = now - of_seconds GRACE_SECONDS;
          slot = (case s of
            Interval minutes \<Rightarrow> interval_slot_at_or_before minutes now z
          | Cron expression \<Rightarrow>
              (case parse_cron cron expression of
                 Inl _ \<Rightarrow> None
               | Inr entry \<Rightarrow>
                   map_option (\<lambda>next. \<lparr>sl_at = next, sl_local = zn_local z next\<rparr>)
                     (newest_occurrence 8 (entry z) now window_start None)))
      in case slot of
           None \<Rightarrow> None
         | Some slot \<Rightarrow> if sl_at slot > window_start \<and> sl_at slot \<le> now then Some slot else None)"

fun interval_steps :: "nat \<Rightarrow> span \<Rightarrow> int \<Rightarrow> instant \<Rightarrow> zone \<Rightarrow> instant option" where
  "interval_steps 0 step local after z = None"
| "interval_steps (Suc n) step local after z =
     (let local = local + step in
      case zn_earliest z local of
        Some at \<Rightarrow> if at > after then Some at else interval_steps n step local after z
      | None \<Rightarrow> interval_steps n step local after z)"

definition next_after :: "cron_parser \<Rightarrow> schedule \<Rightarrow> instant \<Rightarrow> zone \<Rightarrow> instant option" where
  "next_after cron s after z =
     (case s of
        Interval minutes \<Rightarrow>
          let step = of_minutes (uint (max minutes 1))
          in interval_steps 4 step (floor_minutes (zn_local z after) minutes) after z
      | Cron expression \<Rightarrow>
          (case parse_cron cron expression of
             Inl _ \<Rightarrow> None
           | Inr entry \<Rightarrow> (case entry z after of Inl _ \<Rightarrow> None | Inr next \<Rightarrow> Some next)))"

section \<open>Validation\<close>

definition is_script_name :: "string \<Rightarrow> bool" where
  "is_script_name name =
     (let name = trim name in
      name \<noteq> [] \<and> length name \<le> 128 \<and> \<not> starts_with name ''.''
      \<and> list_all (\<lambda>c. alpha_char c \<or> digit_char c \<or> c = CHR ''.'' \<or> c = CHR ''_'' \<or> c = CHR ''-'') name)"

fun links_ok :: "(string \<Rightarrow> string option) \<Rightarrow> link_destination \<Rightarrow> string list \<Rightarrow> definition_error + unit" where
  "links_ok parse destination [] = Inr ()"
| "links_ok parse destination (link # links) =
     (let link = trim link in
      if link = [] \<or> length link > MAX_LINK_LEN then Inl Links
      else case parse link of
             None \<Rightarrow> Inl Links
           | Some scheme \<Rightarrow>
               if destination = Downloads \<and> \<not> (scheme = ''http'' \<or> scheme = ''https'') then Inl Links
               else links_ok parse destination links)"

definition validate_links :: "(string \<Rightarrow> string option) \<Rightarrow> string list \<Rightarrow> link_destination \<Rightarrow> definition_error + unit" where
  "validate_links parse links destination =
     (if links = [] \<or> length links > MAX_ACTION_LINKS then Inl Links
      else links_ok parse destination links)"

definition validate_condition :: "regex_engine \<Rightarrow> condition_node \<Rightarrow> definition_error + unit" where
  "validate_condition regex condition =
     (if depth condition > MAX_CONDITION_DEPTH then Inl ConditionDepth
      else case validate_node regex condition of
             Inl detail \<Rightarrow> Inl (PredicateError (condition_error_text detail))
           | Inr _ \<Rightarrow> Inr ())"

definition validate_action :: "(string \<Rightarrow> string option) \<Rightarrow> automation_action \<Rightarrow> definition_error + unit" where
  "validate_action parse a =
     (case a of
        Script name \<Rightarrow> if \<not> is_script_name name then Inl ScriptName else Inr ()
      | Notify _ message \<Rightarrow>
          let n = length (trim message)
          in if n = 0 \<or> n > MAX_NOTIFY_MESSAGE then Inl NotifyMessage else Inr ()
      | AddLinks links destination \<Rightarrow> validate_links parse links destination
      | _ \<Rightarrow> Inr ())"

definition validate_definition ::
    "regex_engine \<Rightarrow> (string \<Rightarrow> string option) \<Rightarrow> string \<Rightarrow> condition_node \<Rightarrow> automation_action list
     \<Rightarrow> definition_error + unit" where
  "validate_definition regex parse name condition actions =
     (let trimmed = trim name in
      if trimmed = [] \<or> length trimmed > 100 then Inl NameError
      else if actions = [] \<or> length actions > MAX_ACTIONS then Inl ActionCount
      else case validate_condition regex condition of
             Inl e \<Rightarrow> Inl e
           | Inr _ \<Rightarrow> first_error (map (validate_action parse) actions))"

definition validate_trigger ::
    "cron_parser \<Rightarrow> trigger \<Rightarrow> schedule option \<Rightarrow> automation_action list \<Rightarrow> instant \<Rightarrow> zone
     \<Rightarrow> definition_error + unit" where
  "validate_trigger cron trigger schedule actions now z =
     (if trigger = IntakeReceived
         \<and> list_ex (\<lambda>a. case a of AddLinks _ destination \<Rightarrow> destination = LinkGrabber | _ \<Rightarrow> False) actions
      then Inl LinksLoop
      else if is_queue_moment trigger \<and> list_ex needs_package actions then Inl NeedsPackage
      else if trigger \<noteq> ScheduleTrigger then Inr ()
      else case schedule of
             None \<Rightarrow> Inl (ScheduleInvalid ''a time trigger needs a schedule'')
           | Some s \<Rightarrow>
               (case validate_schedule cron s now z of
                  Inl e \<Rightarrow> Inl (ScheduleInvalid e)
                | Inr _ \<Rightarrow> if list_ex needs_package actions then Inl NeedsPackage else Inr ()))"

section \<open>Idempotency keys\<close>

definition slot_label :: "(int \<Rightarrow> string) \<Rightarrow> slot_time \<Rightarrow> string" where
  "slot_label render slot = render (sl_local slot)"

definition idempotency_key :: "ident \<Rightarrow> ident \<Rightarrow> string" where
  "idempotency_key version_id event_id = version_id @ '':'' @ event_id"

definition schedule_key :: "(int \<Rightarrow> string) \<Rightarrow> ident \<Rightarrow> slot_time \<Rightarrow> string" where
  "schedule_key render automation_id slot = automation_id @ '':schedule:'' @ slot_label render slot"

section \<open>What may be stored\<close>

definition action_ok :: "(string \<Rightarrow> string option) \<Rightarrow> automation_action \<Rightarrow> bool" where
  "action_ok parse a \<longleftrightarrow>
     (case a of
        Script name \<Rightarrow> is_script_name name
      | Notify _ message \<Rightarrow> 1 \<le> length (trim message) \<and> length (trim message) \<le> 500
      | AddLinks links destination \<Rightarrow>
          1 \<le> length links \<and> length links \<le> 50
          \<and> (\<forall>link \<in> set links. trim link \<noteq> [] \<and> length (trim link) \<le> 2048
               \<and> (\<exists>scheme. parse (trim link) = Some scheme
                    \<and> (destination = Downloads \<longrightarrow> scheme = ''http'' \<or> scheme = ''https'')))
      | _ \<Rightarrow> True)"

lemma links_ok_iff:
  "links_ok parse destination links = Inr () \<longleftrightarrow>
   (\<forall>link \<in> set links. trim link \<noteq> [] \<and> length (trim link) \<le> 2048
      \<and> (\<exists>scheme. parse (trim link) = Some scheme
           \<and> (destination = Downloads \<longrightarrow> scheme = ''http'' \<or> scheme = ''https'')))"
proof (induction links)
  case (Cons link links)
  show ?case
  proof (cases "parse (trim link)")
    case None
    then show ?thesis by (simp add: Let_def)
  next
    case (Some scheme)
    then show ?thesis using Cons.IH by (simp add: Let_def MAX_LINK_LEN_def)
  qed
qed simp

lemma validate_action_ok: "validate_action parse a = Inr () \<longleftrightarrow> action_ok parse a"
proof (cases a)
  case (AddLinks links destination)
  then show ?thesis
    using links_ok_iff [of parse destination links]
    by (cases links) (simp_all add: validate_action_def action_ok_def validate_links_def MAX_ACTION_LINKS_def
        del: links_ok.simps(2))
qed (auto simp: validate_action_def action_ok_def MAX_NOTIFY_MESSAGE_def Let_def Suc_le_eq)

lemma validate_condition_ok:
  "validate_condition regex c = Inr () \<longleftrightarrow> depth c \<le> 6 \<and> tree_ok regex c"
  using validate_node_ok [of regex c]
  by (cases "validate_node regex c") (auto simp: validate_condition_def MAX_CONDITION_DEPTH_def)

text \<open>Exactly the definitions that can be evaluated are stored: a name of 1 to 100
  characters, 1 to 10 actions each of which can run, and a condition of at most six levels with
  no empty group and no comparison its field, operator or pattern makes meaningless.\<close>

lemma stored_definitions_can_run:
  "validate_definition regex parse name condition actions = Inr () \<longleftrightarrow>
     1 \<le> length (trim name) \<and> length (trim name) \<le> 100
     \<and> 1 \<le> length actions \<and> length actions \<le> 10
     \<and> depth condition \<le> 6 \<and> tree_ok regex condition
     \<and> (\<forall>a \<in> set actions. action_ok parse a)"
  using validate_condition_ok [of regex condition] validate_action_ok
  by (cases "validate_condition regex condition")
    (auto simp: validate_definition_def Let_def MAX_ACTIONS_def Suc_le_eq)

lemma stored_definitions_can_run_sample:
  "validate_definition (\<lambda>_. None) (\<lambda>_. None) ''night'' Always [PauseQueue] = Inr ()"
proof -
  have "trim ''night'' = ''night''" by code_simp
  then show ?thesis unfolding stored_definitions_can_run by (simp add: action_ok_def)
qed

section \<open>Which events reach an automation\<close>

text \<open>An automation runs for an event exactly when its condition holds of it -- except that
  a storage rule whose condition never names the change hears of the block only; and what it
  decides depends on nothing but the fields its condition names (and the change, for a storage
  rule).\<close>

lemma admission_hears_the_block_only:
  assumes "cache_ok regex cache" and "cache_ok regex cache'"
  shows "(fst (admits regex trigger condition event cache) \<longleftrightarrow>
      holds regex event condition
      \<and> (trigger = StorageThreshold \<and> \<not> mentions FldChange condition \<longrightarrow>
           ev_text event FldChange = Some ''blocked''))
    \<and> ((\<forall>f. mentions f condition \<or> f = FldChange \<longrightarrow>
           ev_text event f = ev_text event' f \<and> ev_numbers event f = ev_numbers event' f) \<longrightarrow>
      fst (admits regex trigger condition event cache) = fst (admits regex trigger condition event' cache'))"
proof (intro conjI impI)
  have m: "fst (admits regex trigger condition e c) \<longleftrightarrow> holds regex e condition
      \<and> (trigger = StorageThreshold \<and> \<not> mentions FldChange condition \<longrightarrow> ev_text e FldChange = Some ''blocked'')"
    if "cache_ok regex c" for e c
    using matches_holds(1) [OF that, of condition e]
    by (auto simp: admits_def DEFAULT_STORAGE_CHANGE_def)
  show "fst (admits regex trigger condition event cache) \<longleftrightarrow>
      holds regex event condition
      \<and> (trigger = StorageThreshold \<and> \<not> mentions FldChange condition \<longrightarrow>
           ev_text event FldChange = Some ''blocked'')"
    by (rule m [OF assms(1)])
  assume same: "\<forall>f. mentions f condition \<or> f = FldChange \<longrightarrow>
      ev_text event f = ev_text event' f \<and> ev_numbers event f = ev_numbers event' f"
  have "holds regex event condition = holds regex event' condition"
    using same by (intro holds_frame) blast
  then show "fst (admits regex trigger condition event cache) = fst (admits regex trigger condition event' cache')"
    using m [OF assms(1)] m [OF assms(2)] same [THEN spec, of FldChange] by simp
qed

lemma admission_hears_the_block_only_sample:
  "\<not> fst (admits (\<lambda>_. None) StorageThreshold Always \<lparr>ev_text = [FldChange \<mapsto> ''released''], ev_numbers = Map.empty\<rparr> [])"
proof -
  have ok: "cache_ok (\<lambda>_. None) []" by (simp add: cache_ok_def)
  show ?thesis
    using admission_hears_the_block_only [OF ok ok, of StorageThreshold Always
        "\<lparr>ev_text = [FldChange \<mapsto> ''released''], ev_numbers = Map.empty\<rparr>"] by simp
qed

section \<open>Interval slots\<close>

text \<open>The wall-clock times an interval names: its multiples counted from midnight.\<close>

definition on_grid :: "nat \<Rightarrow> int \<Rightarrow> bool" where
  "on_grid m t \<longleftrightarrow> (\<exists>d k. t = of_days d + of_minutes k \<and> 0 \<le> k \<and> k < 1440 \<and> int m dvd k)"

abbreviation valid_interval :: "u32 \<Rightarrow> bool" where
  "valid_interval m \<equiv> 1 \<le> m \<and> m \<le> MAX_INTERVAL_MINUTES"

lemma interval_bounds:
  assumes "valid_interval m"
  shows "uint (max 1 (min m MAX_INTERVAL_MINUTES)) = uint m" and "1 \<le> uint m" and "uint m \<le> 1440"
    and "uint (max m 1) = uint m"
proof -
  show "1 \<le> uint m" and "uint m \<le> 1440"
    using assms by (auto simp: word_le_def MAX_INTERVAL_MINUTES_def)
  have "min m MAX_INTERVAL_MINUTES = m" "max 1 m = m" "max m 1 = m" using assms by auto
  then show "uint (max 1 (min m MAX_INTERVAL_MINUTES)) = uint m" and "uint (max m 1) = uint m" by simp_all
qed

text \<open>A wall-clock time taken apart: its day, its minute of the day, the rest.\<close>

lemma clock_parts:
  obtains d k r where "t = of_days d + of_minutes k + r" and "0 \<le> k" and "k < 1440"
    and "0 \<le> r" and "r < of_minutes 1"
    and "t - t mod of_days 1 = of_days d" and "(t mod of_days 1) div of_minutes 1 = k"
proof
  let ?d = "t div of_days 1" and ?m = "t mod of_days 1"
  have pos: "0 < of_days 1" "0 < of_minutes 1" and day: "of_days 1 = 1440 * of_minutes 1"
    by (simp_all add: span_defs)
  have m: "0 \<le> ?m" "?m < of_days 1" using pos by simp_all
  show "t - ?m = of_days ?d" by (simp add: minus_mod_eq_div_mult span_defs)
  then show "t = of_days ?d + of_minutes (?m div of_minutes 1) + ?m mod of_minutes 1"
    using div_mult_mod_eq [of ?m "of_minutes 1"] by (simp add: of_minutes_def)
  show "0 \<le> ?m div of_minutes 1" using m pos by (simp add: pos_imp_zdiv_nonneg_iff)
  have "(?m div of_minutes 1) * of_minutes 1 \<le> ?m"
    using div_mult_mod_eq [of ?m "of_minutes 1"] pos_mod_sign [OF pos(2), of ?m] by linarith
  then have "(?m div of_minutes 1) * of_minutes 1 < 1440 * of_minutes 1" using m(2) unfolding day by linarith
  then show "?m div of_minutes 1 < 1440" using pos(2) by simp
  show "0 \<le> ?m mod of_minutes 1" "?m mod of_minutes 1 < of_minutes 1" using pos by simp_all
qed simp

lemma floor_minutes_parts:
  assumes "valid_interval m" and "t = of_days d + of_minutes k + r" "0 \<le> k" "k < 1440" "0 \<le> r" "r < of_minutes 1"
  shows "floor_minutes t m = of_days d + of_minutes (k - k mod uint m)"
proof -
  have x: "of_minutes k + r < of_days 1" "0 \<le> of_minutes k + r"
    using assms(3-6) by (simp_all add: span_defs)
  have "t mod of_days 1 = (of_minutes k + r) mod of_days 1"
    using assms(2) mod_mult_self2 [of "of_minutes k + r" "of_days 1" d] by (simp add: span_defs algebra_simps)
  then have m: "t mod of_days 1 = of_minutes k + r" using x by simp
  have "(of_minutes k + r) div of_minutes 1 = k"
    using assms(5,6) by (simp add: of_minutes_def div_add1_eq)
  moreover have "t - (of_minutes k + r) = of_days d" and "t - of_days d = of_minutes k + r"
    using assms(2) by simp_all
  ultimately show ?thesis
    by (simp only: floor_minutes_def Let_def interval_bounds(1) [OF assms(1)] m)
qed

text \<open>The floor is the newest point of the grid.\<close>

lemma floor_minutes_newest:
  assumes m: "valid_interval m"
  shows "on_grid (unat m) (floor_minutes t m)" and "floor_minutes t m \<le> t"
    and "on_grid (unat m) u \<Longrightarrow> u \<le> t \<Longrightarrow> u \<le> floor_minutes t m"
    and "t < floor_minutes t m + of_minutes (uint m)"
proof -
  obtain d k r where p: "t = of_days d + of_minutes k + r" "0 \<le> k" "k < 1440" "0 \<le> r" "r < of_minutes 1"
    using clock_parts [of t] by metis
  define g where "g = floor_minutes t m"
  have f: "g = of_days d + of_minutes (k - k mod uint m)"
    unfolding g_def by (rule floor_minutes_parts [OF m p])
  have t: "t = g + of_minutes (k mod uint m) + r"
    unfolding p(1) f by (simp add: span_defs algebra_simps)
  have um: "int (unat m) = uint m" by simp
  have pos: "0 < uint m" using interval_bounds(2) [OF m] by simp
  have q: "0 \<le> k mod uint m" "k mod uint m < uint m" "0 \<le> k - k mod uint m"
    using pos p(2) by (simp_all add: minus_mod_eq_div_mult pos_imp_zdiv_nonneg_iff)
  have dv: "uint m dvd k - k mod uint m" by (rule dvd_minus_mod)
  have "on_grid (unat m) g"
    unfolding on_grid_def f um using q dv p(3) by (intro exI [of _ d] exI [of _ "k - k mod uint m"]) simp
  then show "on_grid (unat m) (floor_minutes t m)" by (simp add: g_def)
  have "g \<le> t" unfolding t using q(1) p(4) by (simp add: of_minutes_def)
  then show "floor_minutes t m \<le> t" by (simp add: g_def)
  have "of_minutes (k mod uint m) + r < of_minutes (uint m)"
    using q(2) p(5) by (simp add: of_minutes_def)
  then have "t < g + of_minutes (uint m)" unfolding t by simp
  then show "t < floor_minutes t m + of_minutes (uint m)" by (simp add: g_def)
  assume "on_grid (unat m) u" and le: "u \<le> t"
  then obtain d' k' where u: "u = of_days d' + of_minutes k'" "0 \<le> k'" "k' < 1440" "uint m dvd k'"
    by (auto simp: on_grid_def)
  have "(d' * 1440 + k') * nanos_per_minute < (d * 1440 + k + 1) * nanos_per_minute"
    using le p(5) unfolding u(1) p(1) by (simp add: span_defs)
  then have le': "d' * 1440 + k' \<le> d * 1440 + k" by simp
  have "d' * 1440 + k' \<le> d * 1440 + (k - k mod uint m)"
  proof (cases "d' = d")
    case True
    then have "k' \<le> k" using le' by simp
    then have "k' \<le> k - k mod uint m"
      using u(4) pos by (metis dvd_imp_mod_0 minus_mod_eq_div_mult zdiv_mono1 mult_right_mono
          less_imp_le dvd_div_mult_self)
    then show ?thesis using True by simp
  next
    case False
    then have "d' < d" using le' u(2) p(3) by linarith
    then show ?thesis using u(3) q(3) by linarith
  qed
  then have "(d' * 1440 + k') * nanos_per_minute \<le> (d * 1440 + (k - k mod uint m)) * nanos_per_minute" by simp
  then have "u \<le> g" unfolding u(1) f by (simp add: span_defs algebra_simps)
  then show "u \<le> floor_minutes t m" by (simp add: g_def)
qed

text \<open>In a clock without shifts an interval is due exactly on its grid: a slot is due if and
  only if it is the newest multiple of the interval counted from midnight and not yet two minutes
  old -- a slot missed for longer is never caught up.\<close>

lemma interval_due_on_its_grid:
  assumes "valid_interval m"
  shows "due_slot cron (Interval m) now utc_zone = Some s \<longleftrightarrow>
     s = \<lparr>sl_at = sl_at s, sl_local = sl_at s\<rparr>
     \<and> on_grid (unat m) (sl_at s) \<and> now - of_seconds 120 < sl_at s \<and> sl_at s \<le> now
     \<and> (\<forall>t. on_grid (unat m) t \<and> t \<le> now \<longrightarrow> t \<le> sl_at s)"
proof -
  let ?g = "floor_minutes now m"
  note f = floor_minutes_newest [OF assms, of now]
  have A: "due_slot cron (Interval m) now utc_zone =
      (if ?g > now - of_seconds 120 then Some \<lparr>sl_at = ?g, sl_local = ?g\<rparr> else None)"
    using f(2) by (simp add: due_slot_def interval_slot_at_or_before_def utc_zone_def GRACE_SECONDS_def Let_def)
  have B: "(on_grid (unat m) a \<and> a \<le> now \<and> (\<forall>t. on_grid (unat m) t \<and> t \<le> now \<longrightarrow> t \<le> a)) \<longleftrightarrow> a = ?g" for a
  proof
    assume a: "on_grid (unat m) a \<and> a \<le> now \<and> (\<forall>t. on_grid (unat m) t \<and> t \<le> now \<longrightarrow> t \<le> a)"
    then have "a \<le> ?g" using floor_minutes_newest(3) [OF assms, of a now] by blast
    moreover have "?g \<le> a" using a f(1,2) by blast
    ultimately show "a = ?g" by simp
  next
    assume "a = ?g"
    then show "on_grid (unat m) a \<and> a \<le> now \<and> (\<forall>t. on_grid (unat m) t \<and> t \<le> now \<longrightarrow> t \<le> a)"
      using f(1,2) floor_minutes_newest(3) [OF assms, of _ now] by blast
  qed
  have C: "(if c < a then Some \<lparr>sl_at = a, sl_local = a\<rparr> else None) = Some s
      \<longleftrightarrow> s = \<lparr>sl_at = sl_at s, sl_local = sl_at s\<rparr> \<and> c < sl_at s \<and> sl_at s = a" for c a
    by (cases s) auto
  show ?thesis unfolding A C using B [of "sl_at s"] by blast
qed

lemma interval_due_on_its_grid_sample:
  "on_grid (unat (30 :: u32)) (of_minutes 90) \<and> \<not> on_grid (unat (30 :: u32)) (of_minutes 91)"
proof -
  have v: "valid_interval 30" by (simp add: MAX_INTERVAL_MINUTES_def)
  have "due_slot cron (Interval 30) (of_minutes 91) utc_zone = Some \<lparr>sl_at = of_minutes 90, sl_local = of_minutes 90\<rparr>"
    for cron :: cron_parser
    by (simp add: due_slot_def interval_slot_at_or_before_def floor_minutes_def utc_zone_def
        GRACE_SECONDS_def MAX_INTERVAL_MINUTES_def span_defs Let_def)
  note due = interval_due_on_its_grid [OF v, THEN iffD1, OF this, unfolded slot_time.select_convs]
  have "\<not> of_minutes 91 \<le> of_minutes 90" by (simp add: span_defs)
  then show ?thesis using due by blast
qed

lemma four_steps: "interval_steps 4 step local after z =
    (case zn_earliest z (local + step) of
       Some at \<Rightarrow> if at > after then Some at else interval_steps 3 step (local + step) after z
     | None \<Rightarrow> interval_steps 3 step (local + step) after z)"
proof -
  have four: "4 = Suc 3" by simp
  show ?thesis by (simp only: four interval_steps.simps Let_def)
qed

text \<open>The announced next slot of an interval that divides the day is the next point of its
  grid: nothing is due between now and then.\<close>

lemma next_interval_slot_is_next:
  assumes "valid_interval m" and "uint m dvd 1440"
  shows "\<exists>r. next_after cron (Interval m) now utc_zone = Some r \<and> now < r \<and> on_grid (unat m) r
    \<and> (\<forall>t. on_grid (unat m) t \<and> now < t \<longrightarrow> r \<le> t)"
proof -
  let ?r = "floor_minutes now m + of_minutes (uint m)"
  note f = floor_minutes_newest [OF assms(1), of now]
  have pos: "0 < uint m" using interval_bounds(2) [OF assms(1)] by simp
  have "next_after cron (Interval m) now utc_zone = Some ?r"
    using f(4) by (simp add: next_after_def utc_zone_def interval_bounds(4) [OF assms(1)] four_steps Let_def)
  moreover obtain d k where g: "floor_minutes now m = of_days d + of_minutes k" "0 \<le> k" "k < 1440" "uint m dvd k"
    using f(1) by (auto simp: on_grid_def)
  have minutes: "on_grid (unat m) t \<longleftrightarrow> (\<exists>n. t = of_minutes (n * uint m))" for t
  proof
    assume "on_grid (unat m) t"
    then obtain d' k' where "t = of_days d' + of_minutes k'" "uint m dvd k'" by (auto simp: on_grid_def)
    then have "t = of_minutes (d' * 1440 + k')" "uint m dvd d' * 1440 + k'"
      using assms(2) by (simp_all add: span_defs algebra_simps)
    then show "\<exists>n. t = of_minutes (n * uint m)" by (metis dvd_div_mult_self)
  next
    assume "\<exists>n. t = of_minutes (n * uint m)"
    then obtain n where t: "t = of_minutes (n * uint m)" by blast
    let ?j = "n * uint m"
    have "t = of_days (?j div 1440) + of_minutes (?j mod 1440)"
    proof -
      have "of_minutes (x * 1440 + y) = of_days x + of_minutes y" for x y by (simp add: span_defs algebra_simps)
      from this [of "?j div 1440" "?j mod 1440"] show ?thesis unfolding t div_mult_mod_eq .
    qed
    moreover have "uint m dvd ?j mod 1440" using assms(2) by (simp add: dvd_mod)
    ultimately show "on_grid (unat m) t"
      unfolding on_grid_def by (intro exI [of _ "?j div 1440"] exI [of _ "?j mod 1440"]) simp
  qed
  obtain n where n: "floor_minutes now m = of_minutes (n * uint m)" using f(1) minutes by blast
  have r: "?r = of_minutes ((n + 1) * uint m)" by (simp add: n span_defs algebra_simps)
  have "?r \<le> t" if t: "on_grid (unat m) t" "now < t" for t
  proof -
    obtain j where j: "t = of_minutes (j * uint m)" using t(1) minutes by blast
    have "of_minutes (n * uint m) < of_minutes (j * uint m)" using f(2) t(2) n j by simp
    then have "n < j" using pos by (simp add: span_defs)
    then have "(n + 1) * uint m \<le> j * uint m" using pos by (intro mult_right_mono) auto
    then show ?thesis unfolding r j by (simp add: span_defs)
  qed
  ultimately show ?thesis using f(4) minutes r by blast
qed

lemma next_interval_slot_is_next_sample:
  "\<exists>r. next_after (\<lambda>_. Inl []) (Interval 360) (of_minutes 5) utc_zone = Some r \<and> of_minutes 5 < r"
  using next_interval_slot_is_next [of 360 "\<lambda>_. Inl []" "of_minutes 5"] by (auto simp: MAX_INTERVAL_MINUTES_def)

text \<open>
  Where the interval does not divide the day, the announced slot and the due slot disagree: just
  before midnight, an interval of seven minutes announces 00:02, while the slot that comes due is
  the one at midnight.
\<close>

lemma next_after_skips_midnight:
  "next_after cron (Interval 7) (of_minutes 1438) utc_zone = Some (of_minutes 1442)
   \<and> due_slot cron (Interval 7) (of_minutes 1440) utc_zone
     = Some \<lparr>sl_at = of_minutes 1440, sl_local = of_minutes 1440\<rparr>"
  by (simp add: next_after_def due_slot_def interval_slot_at_or_before_def floor_minutes_def utc_zone_def
      GRACE_SECONDS_def MAX_INTERVAL_MINUTES_def span_defs four_steps Let_def)

text \<open>A slot runs once: as long as the calendar rendering tells minutes apart, two slots of
  an interval get the same key only if they belong to the same automation and are the same
  instant -- whichever versions of the schedule and whatever moments of looking found them.\<close>

lemma slot_key_names_one_instant:
  assumes "due_slot cron (Interval m) now z = Some s" and "due_slot cron (Interval m') now' z = Some s'"
    and "inj render" and "CHR '':'' \<notin> set a" and "CHR '':'' \<notin> set a'"
    and "schedule_key render a s = schedule_key render a' s'"
  shows "a = a' \<and> s = s'"
proof -
  have split: "x = y \<and> v = w" if "x @ CHR '':'' # v = y @ CHR '':'' # w" "CHR '':'' \<notin> set x" "CHR '':'' \<notin> set y"
    for x y v w :: string
    using that
  proof (induction x arbitrary: y)
    case Nil
    then show ?case by (cases y) auto
  next
    case (Cons c x)
    then show ?case by (cases y) auto
  qed
  have k: "a = a' \<and> ''schedule:'' @ slot_label render s = ''schedule:'' @ slot_label render s'"
    using assms(6) by (intro split) (auto simp: schedule_key_def assms(4,5))
  then have "sl_local s = sl_local s'" using assms(3) by (simp add: slot_label_def inj_eq)
  moreover have at: "zn_earliest z (sl_local u) = Some (sl_at u)" if "due_slot cron (Interval n) t z = Some u" for n t u
    using that by (auto simp: due_slot_def interval_slot_at_or_before_def Let_def split: option.splits if_splits)
  ultimately have "sl_at s = sl_at s'" using at [OF assms(1)] at [OF assms(2)] by simp
  then show ?thesis using k \<open>sl_local s = sl_local s'\<close> by (cases s; cases s') simp
qed

lemma slot_key_names_one_instant_sample:
  "due_slot (\<lambda>_. Inl []) (Interval 60) (of_minutes 61) utc_zone
     = due_slot (\<lambda>_. Inl []) (Interval 30) (of_minutes 61) utc_zone"
proof -
  let ?cron = "\<lambda>_. Inl [] :: string + cron_entry"
  have d: "due_slot ?cron (Interval n) (of_minutes 61) utc_zone = Some \<lparr>sl_at = of_minutes 60, sl_local = of_minutes 60\<rparr>"
    if "n = 60 \<or> n = 30" for n
    using that by (auto simp: due_slot_def interval_slot_at_or_before_def floor_minutes_def utc_zone_def
        GRACE_SECONDS_def MAX_INTERVAL_MINUTES_def span_defs Let_def)
  define code :: "int \<Rightarrow> int" where "code i = (if i < 0 then - 2 * i - 1 else 2 * i)" for i
  define render :: "int \<Rightarrow> string" where "render i = replicate (nat (code i)) CHR ''x''" for i
  have code: "0 \<le> code i" for i by (simp add: code_def)
  have "inj render"
  proof (rule injI)
    fix i j
    assume "render i = render j"
    then have "length (render i) = length (render j)" by simp
    then have "code i = code j" using code [of i] code [of j] by (simp add: render_def)
    then show "i = j" unfolding code_def by presburger
  qed
  then show ?thesis
    using slot_key_names_one_instant [OF d [of 60] d [of 30], of render "''a''" "''a''"] d [of 60] d [of 30] by simp
qed

end
