(* ===== verification/Store.thy ===== *)
theory Store
  imports Lifecycle Schedule
begin

text \<open>
  The queue's tables and the writer's operations on them (\<open>rd-db\<close>): \<open>writer/download_rows.rs\<close> (the
  one transition path), \<open>writer_jobs.rs\<close> (failures, completion, removal), \<open>writer_jobs_package.rs\<close>
  (the package state), \<open>writer_jobs_package_reset.rs\<close>, \<open>writer_jobs_state_batch.rs\<close> (pause and
  resume of many), \<open>writer_jobs_maintenance.rs\<close> (recovery at start), \<open>auto_retry_store.rs\<close> and the
  PAR2 verdicts of \<open>nzb_queue_verdict.rs\<close>.

  One serialized writer runs every operation, so an operation is a function from the store to the
  store; a transaction that is rolled back leaves it unchanged. An \<open>UPDATE\<close> is \<open>update_rows\<close>. The
  clock reading is the argument \<open>now\<close>. The events an operation publishes and the statistics it adds
  are appended to the store's logs; of a history entry the outcome and its time are kept. Input
  and output errors of the database are not modelled. \<open>redact\<close> stands for the redaction of
  failure texts (\<open>rd-core/src/redact.rs\<close>).
\<close>

section \<open>Tables\<close>

datatype package_state = PkgQueued | PkgDownloading | PkgPostprocessing | PkgCompleted | PkgFailed

record download_row = download_file +
  dr_limit_waits :: nat
  dr_auto_retry_rounds :: nat
  dr_block_reason :: "string option"
  dr_recovery :: bool
  dr_nzb_file_id :: "ident option"
  dr_updated_at :: instant

record package_row =
  pk_id :: package_id
  pk_state :: package_state
  pk_kind :: download_kind
  pk_nzb_import_id :: "ident option"
  pk_stage :: "string option"
  pk_percent :: "u8 option"
  pk_current :: "string option"
  pk_completed_at :: "instant option"
  pk_updated_at :: instant
  pk_destination :: string
  pk_category_id :: "category_id option"
  pk_priority :: download_priority
  pk_position :: int
  pk_created_at :: instant
  pk_start_after :: "instant option"
  pk_download_window :: "download_window option"

datatype transfer_outcome = OutCompleted u64 nat | OutRetried | OutFailed

datatype history_outcome = HistCompleted | HistFailed

datatype store_event =
    DownloadMoved download_id "download_state option" download_state "failure option"
  | RowsMoved "download_id list" download_state
  | RowsRemoved "download_id list"
  | RetryScheduled download_id "instant option"
  | Requeued download_id bool
  | RowReset download_id download_state
  | PackageMoved package_id package_state package_state "(nat \<times> nat) option"

record store =
  st_downloads :: "download_row list"
  st_packages :: "package_row list"
  st_step_owners :: "ident list"              \<comment> \<open>the owner of every post-processing step\<close>
  st_announces_par2 :: "ident \<Rightarrow> bool"        \<comment> \<open>an NZB import whose subjects name a PAR2 file\<close>
  st_events :: "store_event list"
  st_statistics :: "(download_kind \<times> account_id option \<times> transfer_outcome) list"
  st_history :: "package_id \<rightharpoonup> history_outcome \<times> instant"

datatype store_error =
    NotFound string
  | WrongState string
  | InvalidTransition download_state download_state
  | NotReady
  | InvalidRow string

definition update_rows :: "(download_row \<Rightarrow> bool) \<Rightarrow> (download_row \<Rightarrow> download_row) \<Rightarrow> store \<Rightarrow> store" where
  "update_rows P f st = st\<lparr>st_downloads := map (\<lambda>r. if P r then f r else r) (st_downloads st)\<rparr>"

definition get_download :: "download_id \<Rightarrow> store \<Rightarrow> download_row option" where
  "get_download i st = find (\<lambda>r. df_id r = i) (st_downloads st)"

definition get_package :: "package_id \<Rightarrow> store \<Rightarrow> package_row option" where
  "get_package p st = find (\<lambda>r. pk_id r = p) (st_packages st)"

definition package_downloads :: "package_id \<Rightarrow> store \<Rightarrow> download_row list" where
  "package_downloads p st = filter (\<lambda>r. df_package_id r = p) (st_downloads st)"

definition publish :: "store_event \<Rightarrow> store \<Rightarrow> store" where
  "publish e st = st\<lparr>st_events := st_events st @ [e]\<rparr>"

definition count_transfer :: "download_row \<Rightarrow> transfer_outcome \<Rightarrow> store \<Rightarrow> store" where
  "count_transfer r outcome st =
     st\<lparr>st_statistics := st_statistics st @ [(df_kind r, df_account_id r, outcome)]\<rparr>"

text \<open>A code quoted in a failure's JSON: as its code, or as any of its texts.\<close>

definition quotes_code :: "string \<Rightarrow> failure option \<Rightarrow> bool" where
  "quotes_code code f =
     (case f of
        None \<Rightarrow> False
      | Some f \<Rightarrow> fl_code f = Some code \<or> fl_message f = code \<or> list_ex (\<lambda>(k, v). k = code \<or> v = code) (fl_params f))"

section \<open>The state of a package\<close>

definition SETTLED_FAILED :: "download_state list" where
  "SETTLED_FAILED = [Failed, Blocked, Cancelled, Skipped]"

text \<open>The upsert of a history entry; a package that is gone writes none.\<close>

definition history_record :: "package_id \<Rightarrow> history_outcome \<Rightarrow> instant \<Rightarrow> store \<Rightarrow> store" where
  "history_record p outcome now st =
     (if get_package p st = None then st
      else st\<lparr>st_history := (st_history st)(p \<mapsto> (outcome, now))\<rparr>)"

definition record_if_settled_failed :: "package_id \<Rightarrow> instant \<Rightarrow> store \<Rightarrow> store" where
  "record_if_settled_failed p now st =
     (let states = map df_state (package_downloads p st);
          settled = list_all (\<lambda>s. s \<in> set SETTLED_FAILED) states
      in if \<not> settled \<or> \<not> list_ex (\<lambda>s. s = Failed) states then st
         else history_record p HistFailed now st)"

definition set_package_state ::
    "package_id \<Rightarrow> package_state \<Rightarrow> string option \<Rightarrow> u8 option \<Rightarrow> string option \<Rightarrow> instant \<Rightarrow> store \<Rightarrow> store" where
  "set_package_state p state stage percent current now st =
     (let previous = map_option pk_state (get_package p st);
          counts = (if state = PkgCompleted \<or> state = PkgFailed
                    then Some (length (package_downloads p st),
                               length (filter (\<lambda>r. df_state r = Failed) (package_downloads p st)))
                    else None);
          completed_at = (if state = PkgCompleted then Some now else None);
          st = st\<lparr>st_packages := map (\<lambda>k. if pk_id k = p
                 then k\<lparr>pk_state := state, pk_stage := stage, pk_percent := percent, pk_current := current,
                        pk_completed_at := completed_at, pk_updated_at := now\<rparr> else k) (st_packages st)\<rparr>;
          st = (case state of
                  PkgCompleted \<Rightarrow> history_record p HistCompleted now st
                | PkgFailed \<Rightarrow> history_record p HistFailed now st
                | _ \<Rightarrow> st)
      in case previous of
           Some previous \<Rightarrow> publish (PackageMoved p previous state counts) st
         | None \<Rightarrow> st)"

definition HOPELESS :: string where
  "HOPELESS = ''usenet.job_hopeless''"

definition gave_up :: "(download_state \<times> failure option) list \<Rightarrow> bool" where
  "gave_up rows =
     (list_all (\<lambda>(state, _). state \<in> {Completed, Failed, Cancelled, Skipped}) rows
      \<and> list_ex (\<lambda>(state, last_error). state = Failed \<and> quotes_code HOPELESS last_error) rows)"

definition refresh_package_state :: "package_id \<Rightarrow> instant \<Rightarrow> store \<Rightarrow> store" where
  "refresh_package_state p now st =
     (case get_package p st of
        None \<Rightarrow> st
      | Some package \<Rightarrow>
          let current = pk_state package;
              rows = map (\<lambda>r. (df_state r, df_last_error r)) (package_downloads p st);
              states = map fst rows;
              active = list_ex (\<lambda>s. s \<in> {Resolving, Downloading, Verifying, Repairing}) states;
              all_completed = (list_ex (\<lambda>s. s = Completed) states
                               \<and> list_all (\<lambda>s. s \<in> {Completed, Skipped}) states);
              all_failed = (pk_kind package \<noteq> Usenet \<and> list_ex (\<lambda>s. s = Failed) states
                            \<and> list_all (\<lambda>s. s \<in> set SETTLED_FAILED) states)
          in if \<not> active \<and> (all_completed \<or> current = PkgPostprocessing) then st
             else
               let next = (if active then PkgDownloading
                           else if all_failed \<or> gave_up rows then PkgFailed
                           else PkgQueued)
               in if next = current then st else set_package_state p next None None None now st)"

section \<open>PAR2 verdicts\<close>

definition AWAITING_PAR2 :: string where
  "AWAITING_PAR2 = ''usenet.segments_missing_awaiting_par2''"

definition ON_THE_WAY :: "download_state list" where
  "ON_THE_WAY = [Queued, Resolving, Downloading, RetryWait, Verifying, Repairing]"

definition parse_usize :: "string \<Rightarrow> nat option" where
  "parse_usize s = map_option unat (parse_u64 s)"

definition awaiting_missing :: "failure option \<Rightarrow> nat option" where
  "awaiting_missing last_error =
     (case last_error of
        None \<Rightarrow> None
      | Some f \<Rightarrow>
          if fl_code f \<noteq> Some AWAITING_PAR2 then None
          else Some (case Option.bind (map_of (fl_params f) ''missing'') parse_usize of Some n \<Rightarrow> n | None \<Rightarrow> 0))"

definition awaiting :: "download_row \<Rightarrow> nat option" where
  "awaiting r = (if df_state r = Verifying then awaiting_missing (df_last_error r) else None)"

definition defer_par2_verdict :: "(failure \<Rightarrow> failure) \<Rightarrow> download_id \<Rightarrow> nat \<Rightarrow> instant \<Rightarrow> store \<Rightarrow> store" where
  "defer_par2_verdict redact i missing now st =
     (let f = redact (with_param ''missing'' (dec missing) (failure_coded (Transient None) AWAITING_PAR2
                (dec missing @ '' segment(s) were unavailable on every server; the verdict waits until the rest of the set has arrived'')))
      in update_rows (\<lambda>r. df_id r = i) (\<lambda>r. r\<lparr>df_last_error := Some f, dr_updated_at := now\<rparr>) st)"

definition coalesced_total :: "download_row \<Rightarrow> u64" where
  "coalesced_total r = max (case df_total_bytes r of Some t \<Rightarrow> t | None \<Rightarrow> 0) (df_committed_bytes r)"

definition no_par2_failure :: "(failure \<Rightarrow> failure) \<Rightarrow> nat \<Rightarrow> failure" where
  "no_par2_failure redact missing =
     redact (with_param ''missing'' (dec missing) (failure_coded Permanent ''usenet.segments_missing_no_par2''
       (dec missing @ '' segment(s) were unavailable on every server and the NZB contains no PAR2 repair data'')))"

definition decide_verdict ::
    "(failure \<Rightarrow> failure) \<Rightarrow> bool \<Rightarrow> download_row list \<Rightarrow> instant \<Rightarrow> download_row \<Rightarrow> store \<Rightarrow> store" where
  "decide_verdict redact announced rows now row st =
     (let missing = (case awaiting row of Some n \<Rightarrow> n | None \<Rightarrow> 0);
          has_par2 = (announced \<or> list_ex (\<lambda>other. df_id other \<noteq> df_id row \<and> dr_recovery other) rows)
      in if has_par2 then
           publish (DownloadMoved (df_id row) (Some Verifying) Completed None)
             (update_rows (\<lambda>r. df_id r = df_id row)
               (\<lambda>r. r\<lparr>df_state := Completed, df_last_error := None, df_next_retry_at := None,
                      df_total_bytes := Some (coalesced_total r), df_committed_bytes := coalesced_total r,
                      dr_updated_at := now\<rparr>) st)
         else
           let f = no_par2_failure redact missing
           in publish (DownloadMoved (df_id row) (Some Verifying) Failed (Some f))
                (update_rows (\<lambda>r. df_id r = df_id row)
                  (\<lambda>r. r\<lparr>df_state := Failed, df_last_error := Some f, df_next_retry_at := None,
                         dr_updated_at := now\<rparr>) st))"

definition settle_par2_verdicts :: "(failure \<Rightarrow> failure) \<Rightarrow> package_id \<Rightarrow> instant \<Rightarrow> store \<Rightarrow> store" where
  "settle_par2_verdicts redact p now st =
     (let rows = package_downloads p st in
      if list_all (\<lambda>r. awaiting r = None) rows then st
      else if list_ex (\<lambda>r. awaiting r = None \<and> df_state r \<in> set ON_THE_WAY) rows then st
      else
        let announced = (case Option.bind (get_package p st) pk_nzb_import_id of
                           Some import_id \<Rightarrow> st_announces_par2 st import_id | None \<Rightarrow> False)
        in fold (decide_verdict redact announced rows now) (filter (\<lambda>r. awaiting r \<noteq> None) rows) st)"

definition settle_package_after_download :: "(failure \<Rightarrow> failure) \<Rightarrow> package_id \<Rightarrow> instant \<Rightarrow> store \<Rightarrow> store" where
  "settle_package_after_download redact p now st =
     refresh_package_state p now (settle_par2_verdicts redact p now st)"

section \<open>Moving one row\<close>

definition transition_download_with_reason ::
    "(failure \<Rightarrow> failure) \<Rightarrow> download_id \<Rightarrow> download_state \<Rightarrow> string option \<Rightarrow> instant \<Rightarrow> store
     \<Rightarrow> store_error + download_row \<times> store" where
  "transition_download_with_reason redact i next reason now st =
     (case get_download i st of
        None \<Rightarrow> Inl (NotFound ''download not found'')
      | Some row \<Rightarrow>
          let current = df_state row in
          if \<not> can_transition_to current next then Inl (InvalidTransition current next)
          else
            let f = (\<lambda>r. r\<lparr>df_state := next,
                           df_last_error := (if next = Queued then None else df_last_error r),
                           dr_block_reason := reason, dr_updated_at := now\<rparr>);
                st = publish (DownloadMoved i (Some current) next None) (update_rows (\<lambda>r. df_id r = i) f st)
            in Inr (f row, settle_package_after_download redact (df_package_id row) now st))"

definition transition_download ::
    "(failure \<Rightarrow> failure) \<Rightarrow> download_id \<Rightarrow> download_state \<Rightarrow> instant \<Rightarrow> store \<Rightarrow> store_error + download_row \<times> store" where
  "transition_download redact i next now st = transition_download_with_reason redact i next None now st"

definition block_download ::
    "(failure \<Rightarrow> failure) \<Rightarrow> download_id \<Rightarrow> string \<Rightarrow> instant \<Rightarrow> store \<Rightarrow> store_error + download_row \<times> store" where
  "block_download redact i reason now st =
     transition_download_with_reason redact i Blocked (Some reason) now st"

definition join_queue :: "download_id \<Rightarrow> instant \<Rightarrow> instant \<Rightarrow> store \<Rightarrow> store_error + download_row \<times> store" where
  "join_queue i created_at now st =
     (let P = (\<lambda>r. df_id r = i \<and> df_state r = Paused \<and> dr_updated_at r = created_at);
          joined = list_ex P (st_downloads st);
          st = update_rows P (\<lambda>r. r\<lparr>df_state := Queued, dr_updated_at := now\<rparr>) st;
          st = (if joined then publish (RowsMoved [i] Queued) st else st)
      in case get_download i st of
           None \<Rightarrow> Inl (NotFound ''download not found'')
         | Some row \<Rightarrow> Inr (row, st))"

definition failure_state :: "failure \<Rightarrow> instant option \<Rightarrow> download_state" where
  "failure_state f retry_at =
     (if retry_at \<noteq> None then RetryWait
      else if fl_category f \<in> {AuthRequired, AccountInvalid, NeedsCaptcha, Unsupported} then Blocked
      else Failed)"

definition record_failure ::
    "(failure \<Rightarrow> failure) \<Rightarrow> download_id \<Rightarrow> failure \<Rightarrow> instant option \<Rightarrow> instant \<Rightarrow> store
     \<Rightarrow> store_error + download_row \<times> store" where
  "record_failure redact i failure retry_at now st =
     (case get_download i st of
        None \<Rightarrow> Inl (NotFound ''download not found'')
      | Some current \<Rightarrow>
          let failure = redact failure;
              next = failure_state failure retry_at;
              limit_wait = (retry_at \<noteq> None \<and> is_limit (fl_category failure));
              f = (\<lambda>r. r\<lparr>df_state := next,
                         df_retry_count := df_retry_count r + (if limit_wait then 0 else 1),
                         dr_limit_waits := (if limit_wait then dr_limit_waits r + 1 else 0),
                         df_next_retry_at := retry_at,
                         df_last_error := Some failure,
                         dr_updated_at := now\<rparr>);
              st = update_rows (\<lambda>r. df_id r = i) f st;
              st = count_transfer current (if retry_at \<noteq> None then OutRetried else OutFailed) st;
              st = (if next = Failed then record_if_settled_failed (df_package_id current) now st else st);
              st = publish (DownloadMoved i None next (Some failure)) st
          in Inr (f current, settle_package_after_download redact (df_package_id current) now st))"

definition complete_download ::
    "(failure \<Rightarrow> failure) \<Rightarrow> download_id \<Rightarrow> string \<Rightarrow> instant \<Rightarrow> store \<Rightarrow> store_error + download_row \<times> store" where
  "complete_download redact i final_name now st =
     (case get_download i st of
        None \<Rightarrow> Inl (NotFound ''download not found'')
      | Some current \<Rightarrow>
          if \<not> can_transition_to (df_state current) Completed then Inl NotReady
          else
            let f = (\<lambda>r. r\<lparr>df_state := Completed, df_file_name := final_name, df_next_retry_at := None,
                           df_total_bytes := Some (coalesced_total r), df_committed_bytes := coalesced_total r,
                           dr_updated_at := now\<rparr>);
                seconds = nat ((now - df_created_at current) div nanos_per_second);
                st = update_rows (\<lambda>r. df_id r = i) f st;
                st = count_transfer current (OutCompleted (df_committed_bytes (f current)) seconds) st;
                st = publish (DownloadMoved i None Completed None) st
            in Inr (f current, settle_package_after_download redact (df_package_id current) now st))"

section \<open>The automatic retry's writes\<close>

definition schedule_auto_retry :: "download_id \<Rightarrow> instant option \<Rightarrow> store \<Rightarrow> bool \<times> store" where
  "schedule_auto_retry i at st =
     (let P = (\<lambda>r. df_id r = i \<and> df_state r = Failed \<and> df_next_retry_at r \<noteq> at) in
      if \<not> list_ex P (st_downloads st) then (False, st)
      else (True, publish (RetryScheduled i at) (update_rows P (\<lambda>r. r\<lparr>df_next_retry_at := at\<rparr>) st)))"

definition fresh_budget :: "instant \<Rightarrow> download_row \<Rightarrow> download_row" where
  "fresh_budget now r =
     r\<lparr>df_state := Queued, df_retry_count := 0, dr_limit_waits := 0, df_next_retry_at := None,
       df_last_error := None, dr_block_reason := None, dr_updated_at := now\<rparr>"

definition requeue_failed ::
    "(failure \<Rightarrow> failure) \<Rightarrow> download_id \<Rightarrow> bool \<Rightarrow> instant \<Rightarrow> store \<Rightarrow> download_row option \<times> store" where
  "requeue_failed redact i auto now st =
     (let P = (\<lambda>r. df_id r = i \<and> df_state r = Failed) in
      if \<not> list_ex P (st_downloads st) then (None, st)
      else
        let f = (\<lambda>r. (fresh_budget now r)\<lparr>dr_auto_retry_rounds := dr_auto_retry_rounds r + (if auto then 1 else 0)\<rparr>);
            st = publish (Requeued i auto) (update_rows P f st)
        in case get_download i st of
             None \<Rightarrow> (None, st)
           | Some updated \<Rightarrow> (Some updated, settle_package_after_download redact (df_package_id updated) now st))"

end
