(* ===== verification/StoreBatch.thy ===== *)
theory StoreBatch
  imports Store
begin

text \<open>
  The writer's operations on many rows: pausing and resuming a batch
  (\<open>writer_jobs_state_batch.rs\<close>), removal (\<open>writer_jobs.rs\<close>), resets
  (\<open>writer_jobs_package_reset.rs\<close>, \<open>reset_download\<close>) and the recovery at start
  (\<open>writer_jobs_maintenance.rs\<close>). A batch answers one outcome per id, in order; its rows are
  written one after the other, its packages settled once at the end.
\<close>

datatype move = Pause | Resume

definition move_next :: "move \<Rightarrow> download_state" where
  "move_next m = (case m of Pause \<Rightarrow> Paused | Resume \<Rightarrow> Queued)"

text \<open>One id of a batch: the outcome, and the row's new content where it moves.\<close>

datatype 'a row_step = Answer "store_error + bool" | Write 'a

definition move_step :: "move \<Rightarrow> instant \<Rightarrow> download_row option \<Rightarrow> download_row row_step" where
  "move_step change now row =
     (case row of
        None \<Rightarrow> Answer (Inl (NotFound ''download not found''))
      | Some r \<Rightarrow>
          let current = df_state r; next = move_next change in
          if change = Pause \<and> \<not> (current = Queued \<or> current = RetryWait) then Answer (Inr False)
          else if change = Resume \<and> current = Skipped \<and> df_mirror_group r \<noteq> None then Answer (Inr False)
          else if change = Resume \<and> current = Failed then Write (fresh_budget now r)
          else if \<not> can_transition_to current next then Answer (Inl (InvalidTransition current next))
          else Write (r\<lparr>df_state := next,
                        df_last_error := (if next = Queued then None else df_last_error r),
                        dr_block_reason := None, dr_updated_at := now\<rparr>))"

text \<open>The loop over the ids: outcomes, moved ids and packages in order of first mention.\<close>

fun move_rows ::
    "move \<Rightarrow> instant \<Rightarrow> download_id list \<Rightarrow> download_id list \<Rightarrow> package_id list \<Rightarrow> store
     \<Rightarrow> (store_error + bool) list \<times> download_id list \<times> package_id list \<times> store" where
  "move_rows change now [] moved packages st = ([], moved, packages, st)"
| "move_rows change now (i # ids) moved packages st =
     (let row = get_download i st in
      case move_step change now row of
        Answer outcome \<Rightarrow>
          (case move_rows change now ids moved packages st of
             (outcomes, moved, packages, st) \<Rightarrow> (outcome # outcomes, moved, packages, st))
      | Write r \<Rightarrow>
          let p = df_package_id r;
              st = update_rows (\<lambda>x. df_id x = i) (\<lambda>_. r) st;
              moved = (if i \<in> set moved then moved else moved @ [i]);
              packages = (if p \<in> set packages then packages else packages @ [p])
          in (case move_rows change now ids moved packages st of
                (outcomes, moved, packages, st) \<Rightarrow> (Inr True # outcomes, moved, packages, st)))"

definition settle_all :: "(failure \<Rightarrow> failure) \<Rightarrow> instant \<Rightarrow> package_id list \<Rightarrow> store \<Rightarrow> store" where
  "settle_all redact now packages st = fold (\<lambda>p. settle_package_after_download redact p now) packages st"

definition move_downloads ::
    "(failure \<Rightarrow> failure) \<Rightarrow> move \<Rightarrow> download_id list \<Rightarrow> instant \<Rightarrow> store \<Rightarrow> (store_error + bool) list \<times> store" where
  "move_downloads redact change ids now st =
     (case move_rows change now ids [] [] st of
        (outcomes, moved, packages, st) \<Rightarrow>
          let st = (if moved \<noteq> [] then publish (RowsMoved moved (move_next change)) st else st)
          in (outcomes, settle_all redact now packages st))"

definition pause_downloads where
  "pause_downloads redact ids now st = move_downloads redact Pause ids now st"

definition resume_downloads where
  "resume_downloads redact ids now st = move_downloads redact Resume ids now st"

section \<open>Removal\<close>

text \<open>A package goes when no file points at it, with its post-processing steps.\<close>

definition remove_package_if_empty :: "package_id \<Rightarrow> store \<Rightarrow> bool \<times> store" where
  "remove_package_if_empty p st =
     (if get_package p st = None \<or> package_downloads p st \<noteq> [] then (False, st)
      else (True, st\<lparr>st_packages := filter (\<lambda>k. pk_id k \<noteq> p) (st_packages st),
                     st_step_owners := filter (\<lambda>ow. ow \<noteq> p) (st_step_owners st)\<rparr>))"

definition delete_row :: "download_id \<Rightarrow> store \<Rightarrow> store" where
  "delete_row i st = st\<lparr>st_downloads := filter (\<lambda>r. df_id r \<noteq> i) (st_downloads st)\<rparr>"

definition delete_download :: "(failure \<Rightarrow> failure) \<Rightarrow> download_id \<Rightarrow> instant \<Rightarrow> store \<Rightarrow> store_error + store" where
  "delete_download redact i now st =
     (case get_download i st of
        None \<Rightarrow> Inl (NotFound ''download not found'')
      | Some current \<Rightarrow>
          if is_working (df_state current)
          then Inl (WrongState ''active download must be paused or cancelled before removal'')
          else
            (case remove_package_if_empty (df_package_id current) (delete_row i st) of
               (gone, st) \<Rightarrow>
                 let st = publish (RowsRemoved [i]) st
                 in Inr (if gone then st else settle_package_after_download redact (df_package_id current) now st)))"

fun delete_rows ::
    "download_id list \<Rightarrow> download_id list \<Rightarrow> package_id list \<Rightarrow> store
     \<Rightarrow> (store_error + unit) list \<times> download_id list \<times> package_id list \<times> store" where
  "delete_rows [] removed packages st = ([], removed, packages, st)"
| "delete_rows (i # ids) removed packages st =
     (case get_download i st of
        None \<Rightarrow>
          (case delete_rows ids removed packages st of
             (outcomes, rest) \<Rightarrow> (Inl (NotFound ''download not found'') # outcomes, rest))
      | Some current \<Rightarrow>
          if is_working (df_state current) then
            (case delete_rows ids removed packages st of
               (outcomes, rest) \<Rightarrow>
                 (Inl (WrongState ''active download must be paused or cancelled before removal'') # outcomes, rest))
          else
            let p = df_package_id current in
            (case delete_rows ids (removed @ [i]) (if p \<in> set packages then packages else packages @ [p])
                    (delete_row i st) of
               (outcomes, rest) \<Rightarrow> (Inr () # outcomes, rest)))"

fun remove_empty_packages :: "package_id list \<Rightarrow> store \<Rightarrow> package_id list \<times> store" where
  "remove_empty_packages [] st = ([], st)"
| "remove_empty_packages (p # ps) st =
     (case remove_package_if_empty p st of
        (gone, st) \<Rightarrow>
          (case remove_empty_packages ps st of
             (remaining, st) \<Rightarrow> (if gone then remaining else p # remaining, st)))"

definition delete_downloads ::
    "(failure \<Rightarrow> failure) \<Rightarrow> download_id list \<Rightarrow> instant \<Rightarrow> store \<Rightarrow> (store_error + unit) list \<times> store" where
  "delete_downloads redact ids now st =
     (case delete_rows ids [] [] st of
        (outcomes, removed, packages, st) \<Rightarrow>
          (case remove_empty_packages packages st of
             (remaining, st) \<Rightarrow>
               let st = (if removed \<noteq> [] then publish (RowsRemoved removed) st else st)
               in (outcomes, settle_all redact now remaining st)))"

section \<open>Resets\<close>

definition refuse_unresettable :: "download_row \<Rightarrow> store_error + unit" where
  "refuse_unresettable current =
     (if is_working (df_state current)
      then Inl (WrongState ''active download must be paused or cancelled before it can be reset'')
      else if df_kind current = Usenet \<and> dr_nzb_file_id current = None
      then Inl (WrongState ''a usenet download whose NZB was dropped cannot be fetched again'')
      else Inr ())"

definition reset_fields :: "instant \<Rightarrow> download_row \<Rightarrow> download_row" where
  "reset_fields now r =
     r\<lparr>df_state := Queued, df_committed_bytes := 0, df_total_bytes := None, df_retry_count := 0,
       df_next_retry_at := None, df_last_error := None, dr_limit_waits := 0, dr_auto_retry_rounds := 0,
       dr_updated_at := now\<rparr>"

definition reset_row :: "download_id \<Rightarrow> instant \<Rightarrow> store \<Rightarrow> store" where
  "reset_row i now st = update_rows (\<lambda>r. df_id r = i) (reset_fields now) st"

definition delete_for_owner :: "ident \<Rightarrow> store \<Rightarrow> store" where
  "delete_for_owner owner st = st\<lparr>st_step_owners := filter (\<lambda>ow. ow \<noteq> owner) (st_step_owners st)\<rparr>"

definition reset_download :: "download_id \<Rightarrow> instant \<Rightarrow> store \<Rightarrow> store_error + store" where
  "reset_download i now st =
     (case get_download i st of
        None \<Rightarrow> Inl (NotFound ''download not found'')
      | Some current \<Rightarrow>
          (case refuse_unresettable current of
             Inl e \<Rightarrow> Inl e
           | Inr _ \<Rightarrow>
               let p = df_package_id current;
                   st = publish (RowReset i (df_state current)) (delete_for_owner p (reset_row i now st));
                   st = (case map_option pk_state (get_package p st) of
                           Some s \<Rightarrow> if s = PkgCompleted \<or> s = PkgPostprocessing
                                     then set_package_state p PkgQueued None None None now st else st
                         | None \<Rightarrow> st)
               in Inr (refresh_package_state p now st)))"

definition reset_package :: "package_id \<Rightarrow> instant \<Rightarrow> store \<Rightarrow> store_error + store" where
  "reset_package p now st =
     (case get_package p st of
        None \<Rightarrow> Inl (NotFound ''package not found'')
      | Some package \<Rightarrow>
          let files = sort_key (\<lambda>r. (df_position r, df_created_at r)) (package_downloads p st) in
          (case filter (\<lambda>r. refuse_unresettable r \<noteq> Inr ()) files of
             r # _ \<Rightarrow> (case refuse_unresettable r of Inl e \<Rightarrow> Inl e | Inr _ \<Rightarrow> Inl NotReady)
           | [] \<Rightarrow>
               let st = delete_for_owner p (fold (\<lambda>r. reset_row (df_id r) now) files st);
                   st = st\<lparr>st_packages := map (\<lambda>k. if pk_id k = p
                          then k\<lparr>pk_state := PkgQueued, pk_stage := None, pk_percent := None, pk_current := None,
                                 pk_completed_at := None, pk_updated_at := now\<rparr> else k) (st_packages st)\<rparr>
               in Inr (publish (PackageMoved p (pk_state package) PkgQueued None)
                         (fold (\<lambda>r. publish (RowReset (df_id r) (df_state r))) files st))))"

section \<open>Recovery at start\<close>

definition interrupted :: "download_row \<Rightarrow> bool" where
  "interrupted r =
     (df_state r \<in> {Resolving, Downloading, Repairing}
      \<or> df_state r = Verifying \<and> \<not> quotes_code AWAITING_PAR2 (df_last_error r))"

definition packages_awaiting_par2_verdict :: "store \<Rightarrow> package_id list" where
  "packages_awaiting_par2_verdict st =
     remdups (map df_package_id (filter (\<lambda>r. df_state r = Verifying
       \<and> quotes_code AWAITING_PAR2 (df_last_error r)) (st_downloads st)))"

definition recover_interrupted :: "(failure \<Rightarrow> failure) \<Rightarrow> instant \<Rightarrow> store \<Rightarrow> nat \<times> store" where
  "recover_interrupted redact now st =
     (let affected = length (filter interrupted (st_downloads st));
          st = update_rows interrupted (\<lambda>r. r\<lparr>df_state := Queued, dr_updated_at := now\<rparr>) st;
          st = update_rows (\<lambda>r. df_state r = Extracting)
                 (\<lambda>r. r\<lparr>df_state := Completed, dr_updated_at := now\<rparr>) st;
          empty = map pk_id (filter (\<lambda>k. package_downloads (pk_id k) st = []) (st_packages st));
          st = fold (\<lambda>p st. snd (remove_package_if_empty p st)) empty st
      in (affected, settle_all redact now (packages_awaiting_par2_verdict st) st))"

end
