(* ===== verification/StoreFacts.thy ===== *)
theory StoreFacts
  imports StoreBatch
begin

text \<open>
  What the writer's operations keep: the identity of the rows, the moves rows can make, and what
  settling a package may change. The contract every operation's tail shares is the relation
  \<open>settles\<close> between a row before and after.
\<close>

section \<open>Rows under updates\<close>

definition store_ok :: "store \<Rightarrow> bool" where
  "store_ok st \<longleftrightarrow> distinct (map df_id (st_downloads st)) \<and> distinct (map pk_id (st_packages st))"

definition state_of :: "store \<Rightarrow> download_id \<Rightarrow> download_state option" where
  "state_of st i = map_option df_state (get_download i st)"

lemma get_download_Some: "get_download i st = Some r \<Longrightarrow> r \<in> set (st_downloads st) \<and> df_id r = i"
  by (auto simp: get_download_def find_Some_iff)

lemma get_download_None: "get_download i st = None \<longleftrightarrow> i \<notin> df_id ` set (st_downloads st)"
  by (auto simp: get_download_def find_None_iff)

lemma find_unique: "distinct (map f xs) \<Longrightarrow> x \<in> set xs \<Longrightarrow> find (\<lambda>y. f y = f x) xs = Some x"
  by (induction xs) (auto simp: rev_image_eqI)

lemma get_download_in: "store_ok st \<Longrightarrow> r \<in> set (st_downloads st) \<Longrightarrow> get_download (df_id r) st = Some r"
  by (simp add: get_download_def store_ok_def find_unique)

lemma find_map: "(\<And>x. f (g x) = f x) \<Longrightarrow> find (\<lambda>y. f y = i) (map g xs) = map_option g (find (\<lambda>y. f y = i) xs)"
  by (induction xs) auto

lemma update_rows_simps [state_simps]:
  "st_downloads (update_rows P f st) = map (\<lambda>r. if P r then f r else r) (st_downloads st)"
  "st_packages (update_rows P f st) = st_packages st"
  "st_events (update_rows P f st) = st_events st"
  "st_statistics (update_rows P f st) = st_statistics st"
  "st_history (update_rows P f st) = st_history st"
  by (simp_all add: update_rows_def)

lemma log_simps [state_simps]:
  "st_downloads (publish e st) = st_downloads st" "st_packages (publish e st) = st_packages st"
  "st_events (publish e st) = st_events st @ [e]"
  "st_downloads (count_transfer r q st) = st_downloads st" "st_packages (count_transfer r q st) = st_packages st"
  "st_events (count_transfer r q st) = st_events st"
  by (simp_all add: publish_def count_transfer_def)

lemma history_simps [state_simps]:
  "st_downloads (history_record p q now st) = st_downloads st"
  "st_packages (history_record p q now st) = st_packages st"
  "st_events (history_record p q now st) = st_events st"
  "st_downloads (record_if_settled_failed p now st) = st_downloads st"
  "st_packages (record_if_settled_failed p now st) = st_packages st"
  by (simp_all add: history_record_def record_if_settled_failed_def Let_def)

lemma package_state_rows [state_simps]:
  "st_downloads (set_package_state p s a b c now st) = st_downloads st"
  by (simp add: set_package_state_def Let_def state_simps split: option.split package_state.split)

lemma refresh_rows [state_simps]: "st_downloads (refresh_package_state p now st) = st_downloads st"
  by (simp add: refresh_package_state_def Let_def state_simps split: option.split)

lemma get_download_rows: "st_downloads st = st_downloads st' \<Longrightarrow> get_download i st = get_download i st'"
  by (simp add: get_download_def)

lemma package_ids [state_simps]:
  "map pk_id (st_packages (set_package_state p s a b c now st)) = map pk_id (st_packages st)"
  by (auto simp: set_package_state_def Let_def state_simps o_def split: option.split package_state.split)

lemma refresh_package_ids [state_simps]:
  "map pk_id (st_packages (refresh_package_state p now st)) = map pk_id (st_packages st)"
  by (simp add: refresh_package_state_def Let_def state_simps split: option.split)

section \<open>Settling\<close>

text \<open>What a verdict makes of a row.\<close>

definition verdict_row ::
    "(failure \<Rightarrow> failure) \<Rightarrow> bool \<Rightarrow> download_row list \<Rightarrow> instant \<Rightarrow> download_row \<Rightarrow> download_row \<Rightarrow> download_row" where
  "verdict_row redact announced rows now row r =
     (if announced \<or> list_ex (\<lambda>other. df_id other \<noteq> df_id row \<and> dr_recovery other) rows
      then r\<lparr>df_state := Completed, df_last_error := None, df_next_retry_at := None,
             df_total_bytes := Some (coalesced_total r), df_committed_bytes := coalesced_total r,
             dr_updated_at := now\<rparr>
      else r\<lparr>df_state := Failed,
             df_last_error := Some (no_par2_failure redact (case awaiting row of Some n \<Rightarrow> n | None \<Rightarrow> 0)),
             df_next_retry_at := None, dr_updated_at := now\<rparr>)"

lemma verdict_row_keeps [simp]:
  "df_id (verdict_row redact a rows now row r) = df_id r"
  "df_package_id (verdict_row redact a rows now row r) = df_package_id r"
  "dr_block_reason (verdict_row redact a rows now row r) = dr_block_reason r"
  "dr_recovery (verdict_row redact a rows now row r) = dr_recovery r"
  "df_mirror_group (verdict_row redact a rows now row r) = df_mirror_group r"
  by (simp_all add: verdict_row_def)

lemma verdict_row_state: "df_state (verdict_row redact a rows now row r) \<in> {Completed, Failed}"
  by (simp add: verdict_row_def)

lemma decide_verdict_facts:
  "st_downloads (decide_verdict redact a rows now row st) =
     map (\<lambda>r. if df_id r = df_id row then verdict_row redact a rows now row r else r) (st_downloads st)"
  "st_packages (decide_verdict redact a rows now row st) = st_packages st"
  by (simp_all add: decide_verdict_def verdict_row_def Let_def state_simps cong: if_cong)

lemma fold_verdicts:
  "distinct (map df_id ws) \<Longrightarrow>
   st_downloads (fold (decide_verdict redact a rows now) ws st) =
     map (\<lambda>r. case find (\<lambda>w. df_id w = df_id r) ws of
            Some w \<Rightarrow> verdict_row redact a rows now w r | None \<Rightarrow> r) (st_downloads st)
   \<and> st_packages (fold (decide_verdict redact a rows now) ws st) = st_packages st"
proof (induction ws arbitrary: st)
  case (Cons w ws)
  have w: "find (\<lambda>v. df_id v = df_id w) ws = None" using Cons.prems by (auto simp: find_None_iff) (metis imageI)
  have "st_downloads (fold (decide_verdict redact a rows now) ws (decide_verdict redact a rows now w st)) =
      map (\<lambda>r. case find (\<lambda>v. df_id v = df_id r) ws of
            Some v \<Rightarrow> verdict_row redact a rows now v r | None \<Rightarrow> r)
        (map (\<lambda>r. if df_id r = df_id w then verdict_row redact a rows now w r else r) (st_downloads st))"
    using Cons.IH [of "decide_verdict redact a rows now w st"] Cons.prems by (simp add: decide_verdict_facts)
  moreover have "st_packages (fold (decide_verdict redact a rows now) ws (decide_verdict redact a rows now w st)) = st_packages st"
    using Cons.IH [of "decide_verdict redact a rows now w st"] Cons.prems by (simp add: decide_verdict_facts)
  ultimately show ?case using w by (auto simp: o_def)
qed simp

text \<open>Whether a package's held-back verdicts are due.\<close>

definition set_settled :: "package_id \<Rightarrow> store \<Rightarrow> bool" where
  "set_settled p st \<longleftrightarrow>
     (\<forall>r \<in> set (package_downloads p st). awaiting r = None \<longrightarrow> df_state r \<notin> set ON_THE_WAY)"

definition announces :: "package_id \<Rightarrow> store \<Rightarrow> bool" where
  "announces p st =
     (case Option.bind (get_package p st) pk_nzb_import_id of
        Some import_id \<Rightarrow> st_announces_par2 st import_id | None \<Rightarrow> False)"

lemma awaiting_rows: "r \<in> set (package_downloads p st) \<Longrightarrow> awaiting r \<noteq> None \<Longrightarrow> store_ok st \<Longrightarrow>
  find (\<lambda>w. df_id w = df_id r) (filter (\<lambda>r. awaiting r \<noteq> None) (package_downloads p st)) = Some r"
  by (rule find_unique) (auto simp: package_downloads_def store_ok_def intro!: distinct_map_filter)

lemma settle_par2_rows:
  assumes "store_ok st"
  shows "st_downloads (settle_par2_verdicts redact p now st) =
      map (\<lambda>r. if df_package_id r = p \<and> awaiting r \<noteq> None \<and> set_settled p st
               then verdict_row redact (announces p st) (package_downloads p st) now r r else r) (st_downloads st)"
    and "st_packages (settle_par2_verdicts redact p now st) = st_packages st"
proof -
  let ?rows = "package_downloads p st" and ?ws = "filter (\<lambda>r. awaiting r \<noteq> None) (package_downloads p st)"
  consider "list_all (\<lambda>r. awaiting r = None) ?rows" | "\<not> list_all (\<lambda>r. awaiting r = None) ?rows" "\<not> set_settled p st"
    | "\<not> list_all (\<lambda>r. awaiting r = None) ?rows" "set_settled p st" by blast
  then have "st_downloads (settle_par2_verdicts redact p now st) =
      map (\<lambda>r. if df_package_id r = p \<and> awaiting r \<noteq> None \<and> set_settled p st
               then verdict_row redact (announces p st) ?rows now r r else r) (st_downloads st)
    \<and> st_packages (settle_par2_verdicts redact p now st) = st_packages st"
  proof cases
    case 1
    then have "r \<in> set (st_downloads st) \<Longrightarrow> df_package_id r = p \<Longrightarrow> awaiting r = None" for r
      by (auto simp: list_all_iff package_downloads_def)
    then show ?thesis using 1 by (auto simp: settle_par2_verdicts_def Let_def intro!: map_idI [symmetric])
  next
    case 2
    then show ?thesis
      by (auto simp: settle_par2_verdicts_def Let_def set_settled_def list_ex_iff intro!: map_idI [symmetric])
  next
    case 3
    then have e: "settle_par2_verdicts redact p now st = fold (decide_verdict redact (announces p st) ?rows now) ?ws st"
      by (auto simp: settle_par2_verdicts_def Let_def set_settled_def list_ex_iff announces_def)
    have d: "distinct (map df_id ?ws)"
      using assms by (auto simp: store_ok_def package_downloads_def intro!: distinct_map_filter)
    have f: "(case find (\<lambda>w. df_id w = df_id r) ?ws of
          Some w \<Rightarrow> verdict_row redact (announces p st) ?rows now w r | None \<Rightarrow> r) =
        (if df_package_id r = p \<and> awaiting r \<noteq> None \<and> set_settled p st
         then verdict_row redact (announces p st) ?rows now r r else r)" if r: "r \<in> set (st_downloads st)" for r
    proof (cases "df_package_id r = p \<and> awaiting r \<noteq> None")
      case True
      then have "find (\<lambda>w. df_id w = df_id r) ?ws = Some r"
        using r assms by (intro awaiting_rows) (auto simp: package_downloads_def)
      then show ?thesis using True 3(2) by simp
    next
      case False
      have "find (\<lambda>w. df_id w = df_id r) ?ws = None"
      proof (rule ccontr)
        assume "find (\<lambda>w. df_id w = df_id r) ?ws \<noteq> None"
        then obtain w where "w \<in> set ?ws" "df_id w = df_id r" by (auto simp: find_None_iff)
        moreover from this have "w = r"
          using assms r by (auto simp: store_ok_def package_downloads_def distinct_map inj_on_def)
        ultimately show False using False by (auto simp: package_downloads_def)
      qed
      then show ?thesis using False by auto
    qed
    show ?thesis using fold_verdicts [OF d, of redact "announces p st" ?rows now st] f by (simp add: e cong: map_cong)
  qed
  then show "st_downloads (settle_par2_verdicts redact p now st) =
      map (\<lambda>r. if df_package_id r = p \<and> awaiting r \<noteq> None \<and> set_settled p st
               then verdict_row redact (announces p st) (package_downloads p st) now r r else r) (st_downloads st)"
    and "st_packages (settle_par2_verdicts redact p now st) = st_packages st" by simp_all
qed

section \<open>What the tail of an operation may change\<close>

definition settles :: "download_row \<Rightarrow> download_row \<Rightarrow> bool" where
  "settles r r' \<longleftrightarrow> r' = r \<or>
     (awaiting r \<noteq> None \<and> df_state r' \<in> {Completed, Failed}
      \<and> df_id r' = df_id r \<and> df_package_id r' = df_package_id r \<and> dr_block_reason r' = dr_block_reason r
      \<and> df_mirror_group r' = df_mirror_group r \<and> df_retry_count r' = df_retry_count r
      \<and> dr_limit_waits r' = dr_limit_waits r)"

lemma awaiting_verifying: "awaiting r \<noteq> None \<Longrightarrow> df_state r = Verifying"
  by (simp add: awaiting_def split: if_splits)

lemma settles_refl [simp]: "settles r r"
  by (simp add: settles_def)

lemma settles_trans: "settles r r' \<Longrightarrow> settles r' r'' \<Longrightarrow> settles r r''"
  unfolding settles_def using awaiting_verifying [of r'] by auto

lemma settles_id: "settles r r' \<Longrightarrow> df_id r' = df_id r \<and> df_package_id r' = df_package_id r"
  by (auto simp: settles_def)

lemma settles_state: "settles r r' \<Longrightarrow> df_state r' = df_state r \<or> df_state r = Verifying \<and> df_state r' \<in> {Completed, Failed}"
  using awaiting_verifying by (auto simp: settles_def)

lemma list_all2_map2_refl: "(\<And>r. r \<in> set xs \<Longrightarrow> P r (f r)) \<Longrightarrow> list_all2 P xs (map f xs)"
  by (simp add: list_all2_map2 list_all2_same)

definition same_rows :: "store \<Rightarrow> store \<Rightarrow> bool" where
  "same_rows st st' \<longleftrightarrow> list_all2 settles (st_downloads st) (st_downloads st')
     \<and> map pk_id (st_packages st') = map pk_id (st_packages st)"

lemma all2_ids: "list_all2 settles xs ys \<Longrightarrow> map df_id ys = map df_id xs"
  by (induction rule: list_all2_induct) (auto dest: settles_id)

lemma same_rows_ok: "same_rows st st' \<Longrightarrow> store_ok st \<Longrightarrow> store_ok st'"
  by (auto simp: same_rows_def store_ok_def dest: all2_ids)

lemma same_rows_trans: "same_rows a b \<Longrightarrow> same_rows b c \<Longrightarrow> same_rows a c"
  unfolding same_rows_def by (auto intro: list_all2_trans [where ?P1.0 = settles and ?P2.0 = settles] settles_trans)

lemma settle_same_rows [step_invs]:
  assumes "store_ok st"
  shows "same_rows st (settle_package_after_download redact p now st)"
proof -
  have "settles r (verdict_row redact a rows now r r)" if "awaiting r \<noteq> None" for r a rows
    using that verdict_row_state [of redact a rows now r r] by (auto simp: settles_def verdict_row_def)
  then have "list_all2 settles (st_downloads st) (st_downloads (settle_par2_verdicts redact p now st))"
    unfolding settle_par2_rows(1) [OF assms] by (intro list_all2_map2_refl) simp
  then show ?thesis
    using settle_par2_rows(2) [OF assms]
    by (simp add: same_rows_def settle_package_after_download_def state_simps)
qed

lemma settle_all_same_rows [step_invs]:
  "store_ok st \<Longrightarrow> same_rows st (settle_all redact now ps st)"
proof (induction ps arbitrary: st)
  case Nil
  then show ?case by (simp add: settle_all_def same_rows_def list_all2_same)
next
  case (Cons p ps)
  note h = settle_same_rows [OF Cons.prems, of redact p now]
  from same_rows_trans [OF h Cons.IH [OF same_rows_ok [OF h Cons.prems]]]
  show ?case by (simp add: settle_all_def)
qed

text \<open>Reading a row after the tail.\<close>

lemma all2_find:
  "list_all2 settles xs ys \<Longrightarrow>
   case find (\<lambda>r. df_id r = i) xs of
     None \<Rightarrow> find (\<lambda>r. df_id r = i) ys = None
   | Some r \<Rightarrow> \<exists>r'. find (\<lambda>r. df_id r = i) ys = Some r' \<and> settles r r'"
  by (induction rule: list_all2_induct) (auto dest: settles_id split: option.splits)

lemma same_rows_get:
  assumes "same_rows st st'"
  shows "get_download i st = Some r \<Longrightarrow> \<exists>r'. get_download i st' = Some r' \<and> settles r r'"
    and "get_download i st = None \<Longrightarrow> get_download i st' = None"
  using assms all2_find [of "st_downloads st" "st_downloads st'" i]
  by (auto simp: same_rows_def get_download_def)

text \<open>Rows moved by one operation and then settled.\<close>

lemma get_update:
  assumes "\<And>r. df_id (f r) = df_id r"
  shows "get_download i (update_rows P f st) = map_option (\<lambda>r. if P r then f r else r) (get_download i st)"
  unfolding get_download_def update_rows_simps by (rule find_map) (simp add: assms)

lemma store_ok_update: "store_ok st \<Longrightarrow> (\<And>r. df_id (f r) = df_id r) \<Longrightarrow> store_ok (update_rows P f st)"
  by (simp add: store_ok_def state_simps o_def if_distrib cong: if_cong)

lemma store_ok_log [simp]:
  "store_ok (publish e st) = store_ok st" "store_ok (count_transfer r q st) = store_ok st"
  "store_ok (record_if_settled_failed p now st) = store_ok st"
  by (simp_all add: store_ok_def state_simps)

lemma get_log [simp]:
  "get_download i (publish e st) = get_download i st" "get_download i (count_transfer r q st) = get_download i st"
  "get_download i (record_if_settled_failed p now st) = get_download i st"
  by (simp_all add: get_download_def state_simps)

section \<open>One row at a time\<close>

text \<open>An operation that writes one row and settles its package.\<close>

lemma write_and_settle:
  assumes ok: "store_ok st" and row: "get_download i st = Some row" and f: "\<And>r. df_id (f r) = df_id r"
    and w: "st_downloads w = map (\<lambda>r. if df_id r = i then f r else r) (st_downloads st)"
      "map pk_id (st_packages w) = map pk_id (st_packages st)"
  shows "store_ok (settle_package_after_download redact p now w)"
    and "get_download i (settle_package_after_download redact p now w) = Some r' \<Longrightarrow> settles (f row) r'"
    and "\<exists>r'. get_download i (settle_package_after_download redact p now w) = Some r' \<and> settles (f row) r'"
    and "j \<noteq> i \<Longrightarrow> get_download j st = Some r \<Longrightarrow>
      \<exists>r'. get_download j (settle_package_after_download redact p now w) = Some r' \<and> settles r r'"
    and "get_download j st = None \<Longrightarrow> get_download j (settle_package_after_download redact p now w) = None"
proof -
  have okw: "store_ok w"
    using ok by (simp add: store_ok_def w o_def if_distrib f cong: if_cong)
  note same = settle_same_rows [OF okw, of redact p now]
  show "store_ok (settle_package_after_download redact p now w)" by (rule same_rows_ok [OF same okw])
  have g: "get_download j w = map_option (\<lambda>r. if df_id r = i then f r else r) (get_download j st)" for j
    unfolding get_download_def w(1) by (rule find_map) (simp add: f)
  have i: "get_download i w = Some (f row)" using g [of i] row get_download_Some [OF row] by simp
  show e: "\<exists>r'. get_download i (settle_package_after_download redact p now w) = Some r' \<and> settles (f row) r'"
    by (rule same_rows_get(1) [OF same i])
  then show "get_download i (settle_package_after_download redact p now w) = Some r' \<Longrightarrow> settles (f row) r'" by auto
  show "\<exists>r'. get_download j (settle_package_after_download redact p now w) = Some r' \<and> settles r r'"
    if "j \<noteq> i" "get_download j st = Some r"
  proof (rule same_rows_get(1) [OF same])
    show "get_download j w = Some r" using g [of j] that get_download_Some [OF that(2)] by simp
  qed
  show "get_download j (settle_package_after_download redact p now w) = None" if "get_download j st = None"
    by (rule same_rows_get(2) [OF same]) (simp add: g that)
qed

section \<open>Batches\<close>

text \<open>What one mention in a batch makes of a row; a second mention changes nothing more.\<close>

definition moves :: "move \<Rightarrow> instant \<Rightarrow> download_row \<Rightarrow> download_row" where
  "moves change now r = (case move_step change now (Some r) of Write r' \<Rightarrow> r' | Answer _ \<Rightarrow> r)"

definition writes :: "move \<Rightarrow> instant \<Rightarrow> download_row \<Rightarrow> bool" where
  "writes change now r \<longleftrightarrow> (\<exists>r'. move_step change now (Some r) = Write r')"

lemma move_step_Write:
  "move_step change now (Some r) = Write r' \<Longrightarrow>
     df_id r' = df_id r \<and> df_package_id r' = df_package_id r \<and> df_mirror_group r' = df_mirror_group r
     \<and> df_state r' = move_next change \<and> can_transition_to (df_state r) (move_next change) \<and> dr_block_reason r' = None"
  by (cases change)
    (auto simp: move_step_def move_next_def fresh_budget_def can_transition_to_def Let_def split: if_splits)

lemma moves_keeps [simp]: "df_id (moves change now r) = df_id r" "df_package_id (moves change now r) = df_package_id r"
  by (auto simp: moves_def dest: move_step_Write split: row_step.split)

lemma moves_idem [simp]: "moves change now (moves change now r) = moves change now r"
proof (cases "move_step change now (Some r)")
  case (Write r')
  then show ?thesis
    by (cases change)
      (auto simp: moves_def move_step_def move_next_def fresh_budget_def Let_def split: if_splits)
qed (simp add: moves_def)

lemma move_rows_facts:
  assumes "store_ok st" and "distinct moved"
  shows "case move_rows change now ids moved packages st of (outcomes, moved', packages', st') \<Rightarrow>
     length outcomes = length ids
     \<and> st_downloads st' = map (\<lambda>r. if df_id r \<in> set ids then moves change now r else r) (st_downloads st)
     \<and> st_packages st' = st_packages st \<and> st_events st' = st_events st
     \<and> distinct moved'
     \<and> set moved' = set moved \<union> {df_id r | r. r \<in> set (st_downloads st) \<and> df_id r \<in> set ids \<and> writes change now r}"
  using assms
proof (induction ids arbitrary: moved packages st)
  case (Cons i ids)
  show ?case
  proof (cases "move_step change now (get_download i st)")
    case (Answer outcome)
    have same: "moves change now r = r" "\<not> writes change now r" if "r \<in> set (st_downloads st)" "df_id r = i" for r
      using get_download_in [OF Cons.prems(1) that(1)] that(2) Answer by (auto simp: moves_def writes_def)
    have "map (\<lambda>r. if df_id r \<in> set ids then moves change now r else r) (st_downloads st) =
        map (\<lambda>r. if df_id r \<in> set (i # ids) then moves change now r else r) (st_downloads st)"
      using same(1) by (auto intro!: map_cong)
    moreover have "{df_id r | r. r \<in> set (st_downloads st) \<and> df_id r \<in> set ids \<and> writes change now r} =
        {df_id r | r. r \<in> set (st_downloads st) \<and> df_id r \<in> set (i # ids) \<and> writes change now r}"
      using same(2) by auto
    ultimately show ?thesis
      using Cons.IH [OF Cons.prems, of packages] by (simp add: Answer split: prod.splits)
  next
    case (Write r)
    then obtain q where q: "get_download i st = Some q"
      by (cases "get_download i st") (auto simp: move_step_def)
    then have q': "q \<in> set (st_downloads st)" "df_id q = i" using get_download_Some by auto
    have w: "move_step change now (Some q) = Write r" using Write q by simp
    have r: "r = moves change now q" "df_id r = i" "writes change now q"
      using w q'(2) move_step_Write [OF w] by (auto simp: moves_def writes_def)
    let ?st = "update_rows (\<lambda>x. df_id x = i) (\<lambda>_. r) st"
    have u: "x = q" if "x \<in> set (st_downloads st)" "df_id x = i" for x
      using get_download_in [OF Cons.prems(1) that(1)] that(2) q by simp
    have d: "st_downloads ?st = map (\<lambda>x. if df_id x = i then moves change now x else x) (st_downloads st)"
      using u r(1) by (auto simp: state_simps intro!: map_cong)
    have "map df_id (st_downloads ?st) = map df_id (st_downloads st)" unfolding d by simp
    moreover have "st_packages ?st = st_packages st" by (simp add: state_simps)
    ultimately have ok: "store_ok ?st" using Cons.prems(1) unfolding store_ok_def by (simp only:)
    let ?moved = "if i \<in> set moved then moved else moved @ [i]"
    have dm: "distinct ?moved" "set ?moved = insert i (set moved)" using Cons.prems(2) by auto
    have rows: "map (\<lambda>x. if df_id x \<in> set ids then moves change now x else x) (st_downloads ?st) =
        map (\<lambda>x. if df_id x \<in> set (i # ids) then moves change now x else x) (st_downloads st)"
      unfolding d by (auto simp: o_def)
    have wr: "insert i (set moved) \<union> {df_id x | x. x \<in> set (st_downloads ?st) \<and> df_id x \<in> set ids \<and> writes change now x}
        = set moved \<union> {df_id x | x. x \<in> set (st_downloads st) \<and> df_id x \<in> set (i # ids) \<and> writes change now x}"
    proof -
      have in_st: "j \<in> {df_id x | x. x \<in> set (st_downloads ?st) \<and> df_id x \<in> set ids \<and> writes change now x}
          \<longleftrightarrow> j \<in> {df_id x | x. x \<in> set (st_downloads st) \<and> df_id x \<in> set ids \<and> writes change now x}" if "j \<noteq> i" for j
        unfolding d using that by (auto split: if_splits)
      show ?thesis
      proof (rule set_eqI)
        fix j
        show "j \<in> insert i (set moved) \<union> {df_id x | x. x \<in> set (st_downloads ?st) \<and> df_id x \<in> set ids \<and> writes change now x}
          \<longleftrightarrow> j \<in> set moved \<union> {df_id x | x. x \<in> set (st_downloads st) \<and> df_id x \<in> set (i # ids) \<and> writes change now x}"
        proof (cases "j = i")
          case True
          have "i \<in> {df_id x | x. x \<in> set (st_downloads st) \<and> df_id x \<in> set (i # ids) \<and> writes change now x}"
            using q' r(3) by (intro CollectI exI [of _ q]) simp
          then show ?thesis unfolding True by blast
        next
          case False
          then show ?thesis using in_st [OF False] by auto
        qed
      qed
    qed
    let ?packages = "if df_package_id r \<in> set packages then packages else packages @ [df_package_id r]"
    obtain os mv ps st' where mr: "move_rows change now ids ?moved ?packages ?st = (os, mv, ps, st')"
      by (cases "move_rows change now ids ?moved ?packages ?st")
    note ih = Cons.IH [OF ok dm(1), of ?packages, unfolded mr prod.case rows dm(2) wr]
    have "move_rows change now (i # ids) moved packages st = (Inr True # os, mv, ps, st')"
      using mr by (simp add: Write Let_def del: if_split)
    then show ?thesis using ih by (simp add: state_simps)
  qed
qed simp

text \<open>What settling publishes: moves of single rows and packages only.\<close>

definition batch_events :: "store \<Rightarrow> store_event list" where
  "batch_events st = filter (\<lambda>e. case e of RowsMoved _ _ \<Rightarrow> True | RowsRemoved _ \<Rightarrow> True | _ \<Rightarrow> False) (st_events st)"

lemma batch_events_simps [state_simps]:
  "batch_events (update_rows P f st) = batch_events st"
  "batch_events (set_package_state p s a b c now st) = batch_events st"
  "batch_events (refresh_package_state p now st) = batch_events st"
  "batch_events (decide_verdict redact x rows now row st) = batch_events st"
proof -
  show u: "batch_events (update_rows P f st) = batch_events st" for P f and st :: store
    by (simp add: batch_events_def state_simps)
  have h: "batch_events (history_record p q now st) = batch_events st" for p q now st
    by (simp add: batch_events_def state_simps)
  have pk: "batch_events (st\<lparr>st_packages := ks\<rparr>) = batch_events st" for ks and st :: store
    by (simp add: batch_events_def)
  have pub: "batch_events (publish (PackageMoved p a s c) st) = batch_events st"
    "batch_events (publish (DownloadMoved i b t f) st) = batch_events st" for p a s c i b t f st
    by (simp_all add: batch_events_def state_simps)
  show s: "batch_events (set_package_state p s a b c now st) = batch_events st" for p s a b c now st
    by (simp add: set_package_state_def Let_def h pk pub split: option.split package_state.split)
  show "batch_events (refresh_package_state p now st) = batch_events st"
    by (simp add: refresh_package_state_def Let_def s split: option.split)
  show "batch_events (decide_verdict redact x rows now row st) = batch_events st"
    by (simp add: decide_verdict_def Let_def u pub)
qed

lemma batch_events_settle_all: "batch_events (settle_all redact now ps st) = batch_events st"
proof (induction ps arbitrary: st)
  case (Cons p ps)
  have "batch_events (fold (decide_verdict redact x rows now) ws st) = batch_events st" for x rows ws st
    by (induction ws arbitrary: st) (simp_all add: state_simps)
  then have "batch_events (settle_package_after_download redact p now st) = batch_events st" for p st
    by (simp add: settle_package_after_download_def settle_par2_verdicts_def Let_def state_simps)
  with Cons show ?case by (simp add: settle_all_def)
qed (simp add: settle_all_def)

lemma find_state: "map_option df_state (find (\<lambda>r. df_id r = i) (map g xs)) = map_option (df_state o g) (find (\<lambda>r. df_id r = i) xs)"
  if "\<And>r. df_id (g r) = df_id r" for g :: "download_row \<Rightarrow> download_row"
  by (simp add: find_map that option.map_comp)

lemma move_downloads_facts:
  assumes ok: "store_ok st" and m: "move_downloads redact change ids now st = (outcomes, st')"
  defines "moved_to \<equiv> st\<lparr>st_downloads := map (\<lambda>r. if df_id r \<in> set ids then moves change now r else r) (st_downloads st)\<rparr>"
  shows "length outcomes = length ids" and "same_rows moved_to st'"
    and "\<exists>moved. distinct moved
       \<and> set moved = {df_id r | r. r \<in> set (st_downloads st) \<and> df_id r \<in> set ids \<and> writes change now r}
       \<and> batch_events st' = batch_events st @ (if moved = [] then [] else [RowsMoved moved (move_next change)])"
proof -
  obtain moved packages w where r: "move_rows change now ids [] [] st = (outcomes, moved, packages, w)"
    and s: "st' = settle_all redact now packages (if moved \<noteq> [] then publish (RowsMoved moved (move_next change)) w else w)"
    using m by (auto simp: move_downloads_def Let_def split: prod.splits)
  note f = move_rows_facts [OF ok, where moved = "[]" and packages = "[]" and ids = ids and change = change and now = now, unfolded r, simplified]
  show "length outcomes = length ids" using f by blast
  let ?w = "if moved \<noteq> [] then publish (RowsMoved moved (move_next change)) w else w"
  have d: "st_downloads ?w = st_downloads moved_to" "st_packages ?w = st_packages moved_to"
    using f by (simp_all add: moved_to_def state_simps)
  have "map df_id (st_downloads moved_to) = map df_id (st_downloads st)" by (simp add: moved_to_def)
  then have "store_ok ?w" using ok by (simp add: store_ok_def d) (simp add: moved_to_def)
  from settle_all_same_rows [OF this, of redact now packages]
  show "same_rows moved_to st'" unfolding s same_rows_def d .
  have "batch_events st' = batch_events ?w" unfolding s by (rule batch_events_settle_all)
  also have "\<dots> = batch_events st @ (if moved = [] then [] else [RowsMoved moved (move_next change)])"
    using f by (simp add: batch_events_def state_simps)
  finally show "\<exists>moved. distinct moved
       \<and> set moved = {df_id r | r. r \<in> set (st_downloads st) \<and> df_id r \<in> set ids \<and> writes change now r}
       \<and> batch_events st' = batch_events st @ (if moved = [] then [] else [RowsMoved moved (move_next change)])"
    using f by blast
qed

lemma writes_pause: "writes Pause now r \<longleftrightarrow> df_state r \<in> {Queued, RetryWait}"
  by (auto simp: writes_def move_step_def move_next_def can_transition_to_def Let_def)

lemma moves_pause_state:
  "df_state (moves Pause now r) = (if df_state r \<in> {Queued, RetryWait} then Paused else df_state r)"
  by (auto simp: moves_def move_step_def move_next_def can_transition_to_def Let_def)

section \<open>A small queue\<close>

definition a_url :: url where
  "a_url = \<lparr>url_text = ''http://h/f'', url_scheme = ''http'', url_host = Some ''h''\<rparr>"

definition a_row :: "download_id \<Rightarrow> download_state \<Rightarrow> download_row" where
  "a_row i s = \<lparr>df_id = i, df_package_id = ''p'', df_source = a_url, df_file_name = ''f'', df_state = s,
     df_total_bytes = None, df_committed_bytes = 0, df_retry_count = 0, df_next_retry_at = None,
     df_last_error = None, df_account_id = None, df_mirror_group = None, df_position = 1, df_kind = Http,
     df_created_at = 0, dr_limit_waits = 0, dr_auto_retry_rounds = 0, dr_block_reason = None,
     dr_recovery = False, dr_nzb_file_id = None, dr_updated_at = 0\<rparr>"

definition a_package :: package_row where
  "a_package = \<lparr>pk_id = ''p'', pk_state = PkgQueued, pk_kind = Http, pk_nzb_import_id = None, pk_stage = None,
     pk_percent = None, pk_current = None, pk_completed_at = None, pk_updated_at = 0,
     pk_destination = ''/d'', pk_category_id = None, pk_priority = Normal, pk_position = 1, pk_created_at = 0,
     pk_start_after = None, pk_download_window = None\<rparr>"

definition a_store :: "download_row list \<Rightarrow> store" where
  "a_store rows = \<lparr>st_downloads = rows, st_packages = [a_package], st_step_owners = [],
     st_announces_par2 = (\<lambda>_. False), st_events = [], st_statistics = [], st_history = Map.empty\<rparr>"

lemmas sample_defs = a_row_def a_package_def a_store_def a_url_def

end
