(* ===== verification/StoreProps.thy ===== *)
theory StoreProps
  imports StoreFacts
begin

text \<open>
  The promises of the writer: which moves its operations make, how failures count, when a set's
  held-back verdict is taken, when a package reads as failed, what a restart leaves behind, and
  what removal removes.
\<close>

section \<open>Legal moves\<close>

text \<open>A legal move, possibly into \<open>verifying\<close> and on with the verdict the move makes due.\<close>

definition moved :: "download_state \<Rightarrow> download_state \<Rightarrow> bool" where
  "moved s s' \<longleftrightarrow> can_transition_to s s' \<or> can_transition_to s Verifying \<and> s' \<in> {Completed, Failed}"

definition legal_moves :: "store \<Rightarrow> store \<Rightarrow> bool" where
  "legal_moves st st' \<longleftrightarrow> (\<forall>i. case (state_of st i, state_of st' i) of
      (Some s, Some s') \<Rightarrow> moved s s' | (None, None) \<Rightarrow> True | _ \<Rightarrow> False)"

lemma settles_moved: "can_transition_to s (df_state r) \<Longrightarrow> settles r r' \<Longrightarrow> moved s (df_state r')"
  using settles_state [of r r'] by (auto simp: moved_def)

lemma one_row_moves_legally:
  assumes "store_ok st" and "get_download i st = Some row" and "\<And>r. df_id (f r) = df_id r"
    and "can_transition_to (df_state row) (df_state (f row))"
    and "st_downloads w = map (\<lambda>r. if df_id r = i then f r else r) (st_downloads st)"
    and "map pk_id (st_packages w) = map pk_id (st_packages st)"
  shows "legal_moves st (settle_package_after_download redact p now w)"
  unfolding legal_moves_def
proof
  fix j
  note ws = write_and_settle [OF assms(1,2,3,5,6), where redact = redact and p = p and now = now]
  show "case (state_of st j, state_of (settle_package_after_download redact p now w) j) of
      (Some s, Some s') \<Rightarrow> moved s s' | (None, None) \<Rightarrow> True | _ \<Rightarrow> False"
  proof (cases "get_download j st")
    case None
    then show ?thesis using ws(5) [OF None] by (simp add: state_of_def)
  next
    case (Some r)
    show ?thesis
    proof (cases "j = i")
      case True
      then have "r = row" using Some assms(2) by simp
      then show ?thesis using ws(3) True Some settles_moved [OF assms(4)] by (auto simp: state_of_def)
    next
      case False
      then show ?thesis using ws(4) [OF False Some] Some settles_moved [OF can_transition_refl]
        by (auto simp: state_of_def)
    qed
  qed
qed

lemma transition_moves_legally:
  assumes "store_ok st" and "transition_download_with_reason redact i next reason now st = Inr (row, st')"
  shows "legal_moves st st' \<and> store_ok st' \<and> state_of st' i \<noteq> None
    \<and> (\<forall>s. state_of st i = Some s \<longrightarrow> can_transition_to s next)"
proof -
  let ?f = "\<lambda>r. r\<lparr>df_state := next, df_last_error := (if next = Queued then None else df_last_error r),
                    dr_block_reason := reason, dr_updated_at := now\<rparr>"
  obtain r where r: "get_download i st = Some r" "can_transition_to (df_state r) next"
    "st' = settle_package_after_download redact (df_package_id r) now
       (publish (DownloadMoved i (Some (df_state r)) next None) (update_rows (\<lambda>r. df_id r = i) ?f st))"
    using assms(2) by (auto simp: transition_download_with_reason_def Let_def split: option.splits if_splits)
  let ?w = "publish (DownloadMoved i (Some (df_state r)) next None) (update_rows (\<lambda>r. df_id r = i) ?f st)"
  have w: "st_downloads ?w = map (\<lambda>r. if df_id r = i then ?f r else r) (st_downloads st)"
    "map pk_id (st_packages ?w) = map pk_id (st_packages st)" by (simp_all add: state_simps)
  note ws = write_and_settle [OF assms(1) r(1) _ w, where redact = redact and p = "df_package_id r" and now = now]
  have "legal_moves st st'"
    unfolding r(3) by (rule one_row_moves_legally [OF assms(1) r(1) _ _ w]) (simp_all add: r(2))
  then show ?thesis using ws(1,3) r by (auto simp: state_of_def)
qed

lemma complete_moves_legally:
  assumes "store_ok st" and "complete_download redact i name now st = Inr (row, st')"
  shows "legal_moves st st'"
proof -
  let ?f = "\<lambda>r. r\<lparr>df_state := Completed, df_file_name := name, df_next_retry_at := None,
                  df_total_bytes := Some (coalesced_total r), df_committed_bytes := coalesced_total r,
                  dr_updated_at := now\<rparr>"
  obtain r where r: "get_download i st = Some r" "can_transition_to (df_state r) Completed"
    using assms(2) by (auto simp: complete_download_def Let_def split: option.splits if_splits)
  then obtain q where q: "st' = settle_package_after_download redact (df_package_id r) now
       (publish (DownloadMoved i None Completed None) (count_transfer r q (update_rows (\<lambda>r. df_id r = i) ?f st)))"
    using assms(2) by (auto simp: complete_download_def Let_def)
  show ?thesis
    unfolding q by (rule one_row_moves_legally [OF assms(1) r(1), where f = ?f]) (simp_all add: r(2) state_simps)
qed

lemma batch_moves_legally:
  assumes "store_ok st" and "move_downloads redact change ids now st = (outcomes, st')"
  shows "legal_moves st st'"
  unfolding legal_moves_def
proof
  fix i
  let ?to = "st\<lparr>st_downloads := map (\<lambda>r. if df_id r \<in> set ids then moves change now r else r) (st_downloads st)\<rparr>"
  note f = move_downloads_facts(2) [OF assms]
  have g: "get_download i ?to = map_option (\<lambda>r. if df_id r \<in> set ids then moves change now r else r) (get_download i st)"
    unfolding get_download_def by (simp add: find_map)
  have m: "can_transition_to (df_state r) (df_state (moves change now r))" for r
    by (auto simp: moves_def dest: move_step_Write split: row_step.split)
  show "case (state_of st i, state_of st' i) of (Some s, Some s') \<Rightarrow> moved s s' | (None, None) \<Rightarrow> True | _ \<Rightarrow> False"
  proof (cases "get_download i st")
    case None
    then show ?thesis using same_rows_get(2) [OF f, of i] g by (simp add: state_of_def)
  next
    case (Some r)
    let ?r = "if df_id r \<in> set ids then moves change now r else r"
    obtain r' where "get_download i st' = Some r'" "settles ?r r'"
      using same_rows_get(1) [OF f, of i ?r] g Some by auto
    moreover have "can_transition_to (df_state r) (df_state ?r)" using m by simp
    ultimately show ?thesis using Some settles_moved by (auto simp: state_of_def)
  qed
qed

text \<open>Property C1. Every state the writer's transitions, completions and batches leave behind is reached
  by a legal move: a row goes where its state allows or stays where it is, at most through
  \<open>verifying\<close> to the verdict that falls due; no row appears or disappears; and a move the state
  does not allow is refused.\<close>

theorem writer_moves_are_legal:
  assumes "store_ok st"
  shows "(\<forall>row st'. transition_download_with_reason redact i next reason now st = Inr (row, st') \<longrightarrow>
           legal_moves st st' \<and> (\<forall>s. state_of st i = Some s \<longrightarrow> can_transition_to s next))
    \<and> (\<forall>row st'. complete_download redact i name now st = Inr (row, st') \<longrightarrow> legal_moves st st')
    \<and> legal_moves st (snd (pause_downloads redact ids now st))
    \<and> legal_moves st (snd (resume_downloads redact ids now st))"
proof (intro conjI allI impI)
  fix row st'
  assume t: "transition_download_with_reason redact i next reason now st = Inr (row, st')"
  show "legal_moves st st'" using transition_moves_legally [OF assms t] by blast
  fix s
  assume "state_of st i = Some s"
  then show "can_transition_to s next" using transition_moves_legally [OF assms t] by blast
next
  fix row st'
  assume "complete_download redact i name now st = Inr (row, st')"
  then show "legal_moves st st'" by (rule complete_moves_legally [OF assms])
next
  show "legal_moves st (snd (pause_downloads redact ids now st))"
    using batch_moves_legally [OF assms] unfolding pause_downloads_def by (metis prod.collapse)
  show "legal_moves st (snd (resume_downloads redact ids now st))"
    using batch_moves_legally [OF assms] unfolding resume_downloads_def by (metis prod.collapse)
qed

theorem writer_moves_are_legal_witness:
  "legal_moves (a_store [a_row ''a'' Queued]) (snd (pause_downloads id [''a''] 5 (a_store [a_row ''a'' Queued])))"
proof -
  have "store_ok (a_store [a_row ''a'' Queued])" by (simp add: store_ok_def sample_defs)
  from writer_moves_are_legal [OF this, of id] show ?thesis by blast
qed

section \<open>Counting failures\<close>

text \<open>Failures of one download recorded one after the other, each with its time and retry.\<close>

fun record_failures :: "(failure \<Rightarrow> failure) \<Rightarrow> download_id \<Rightarrow> (failure \<times> instant option \<times> instant) list \<Rightarrow> store \<Rightarrow> store" where
  "record_failures redact i [] st = st"
| "record_failures redact i ((f, retry_at, now) # fs) st =
     (case record_failure redact i f retry_at now st of
        Inl _ \<Rightarrow> st
      | Inr (_, st) \<Rightarrow> record_failures redact i fs st)"

definition waits_out_limit :: "failure \<times> instant option \<times> instant \<Rightarrow> bool" where
  "waits_out_limit = (\<lambda>(f, retry_at, now). retry_at \<noteq> None \<and> is_limit (fl_category f))"

lemma record_failure_row:
  assumes "store_ok st" and "get_download i st = Some r" and "fl_category (redact f) = fl_category f"
  obtains r' st' row where "record_failure redact i f retry_at now st = Inr (row, st')" and "store_ok st'"
    and "get_download i st' = Some r'"
    and "df_retry_count r' = df_retry_count r + (if waits_out_limit (f, retry_at, now) then 0 else 1)"
    and "dr_limit_waits r' = (if waits_out_limit (f, retry_at, now) then dr_limit_waits r + 1 else 0)"
    and "df_state r' = failure_state f retry_at" and "df_next_retry_at r' = retry_at"
proof -
  let ?lw = "waits_out_limit (f, retry_at, now)"
  let ?f = "\<lambda>r. r\<lparr>df_state := failure_state f retry_at,
      df_retry_count := df_retry_count r + (if ?lw then 0 else 1),
      dr_limit_waits := (if ?lw then dr_limit_waits r + 1 else 0),
      df_next_retry_at := retry_at, df_last_error := Some (redact f), dr_updated_at := now\<rparr>"
  have st: "failure_state (redact f) retry_at = failure_state f retry_at"
    using assms(3) by (simp add: failure_state_def)
  have lw: "(retry_at \<noteq> None \<and> is_limit (fl_category (redact f))) = ?lw"
    using assms(3) by (simp add: waits_out_limit_def)
  obtain w where w: "record_failure redact i f retry_at now st =
      Inr (?f r, settle_package_after_download redact (df_package_id r) now w)"
    "st_downloads w = map (\<lambda>r. if df_id r = i then ?f r else r) (st_downloads st)"
    "map pk_id (st_packages w) = map pk_id (st_packages st)"
    using assms(2) unfolding record_failure_def st lw Let_def
    by (simp add: state_simps st lw cong: if_cong)
  note ws = write_and_settle [OF assms(1,2) _ w(2,3), where redact = redact and p = "df_package_id r" and now = now]
  obtain r' where r': "get_download i (settle_package_after_download redact (df_package_id r) now w) = Some r'"
    "settles (?f r) r'" using ws(3) by auto
  have "df_state (?f r) \<noteq> Verifying" by (simp add: failure_state_def)
  then have "r' = ?f r" using r'(2) awaiting_verifying by (fastforce simp: settles_def)
  then show thesis using that [OF w(1)] ws(1) r'(1) by simp
qed

text \<open>The waits at the end of a run of failures, and the attempts in it.\<close>

lemma record_failures_counts:
  "store_ok st \<Longrightarrow> get_download i st = Some r \<Longrightarrow> (\<And>f. fl_category (redact f) = fl_category f) \<Longrightarrow>
   \<exists>r'. get_download i (record_failures redact i fs st) = Some r'
     \<and> df_retry_count r' = df_retry_count r + of_nat (length (filter (\<lambda>x. \<not> waits_out_limit x) fs))
     \<and> dr_limit_waits r' = (if list_all waits_out_limit fs then dr_limit_waits r + length fs
                           else length (takeWhile waits_out_limit (rev fs)))"
proof (induction fs arbitrary: st r)
  case (Cons x fs)
  obtain f retry_at now where x: "x = (f, retry_at, now)" by (cases x)
  obtain r1 st1 row where one: "record_failure redact i f retry_at now st = Inr (row, st1)" "store_ok st1"
    "get_download i st1 = Some r1"
    "df_retry_count r1 = df_retry_count r + (if waits_out_limit x then 0 else 1)"
    "dr_limit_waits r1 = (if waits_out_limit x then dr_limit_waits r + 1 else 0)"
    using record_failure_row [OF Cons.prems(1,2), of redact f retry_at now] Cons.prems(3) x by metis
  obtain r' where r': "get_download i (record_failures redact i fs st1) = Some r'"
    "df_retry_count r' = df_retry_count r1 + of_nat (length (filter (\<lambda>x. \<not> waits_out_limit x) fs))"
    "dr_limit_waits r' = (if list_all waits_out_limit fs then dr_limit_waits r1 + length fs
        else length (takeWhile waits_out_limit (rev fs)))"
    using Cons.IH [OF one(2,3) Cons.prems(3)] by blast
  have t: "takeWhile waits_out_limit (rev (x # fs)) =
      (if list_all waits_out_limit fs then rev fs @ (if waits_out_limit x then [x] else [])
       else takeWhile waits_out_limit (rev fs))"
    by (auto simp: list_all_iff takeWhile_append)
  have "df_retry_count r' = df_retry_count r + of_nat (length (filter (\<lambda>x. \<not> waits_out_limit x) (x # fs)))"
    using r'(2) one(4) by (simp add: add.assoc)
  moreover have "dr_limit_waits r' = (if list_all waits_out_limit (x # fs) then dr_limit_waits r + length (x # fs)
      else length (takeWhile waits_out_limit (rev (x # fs))))"
    unfolding t using r'(3) one(5) by auto
  ultimately show ?case using r'(1) by (auto simp: x one(1))
qed simp

text \<open>Property C2. The two budgets of a download are counted apart: over any run of failures the attempts
  grow by exactly the failures that were not a wait for the hoster's limit, and the limit waits
  are the unbroken run of such waits at the end -- any other outcome starts them again.\<close>

theorem failures_count_attempts_and_waits:
  assumes "store_ok st" and "get_download i st = Some r" and "\<And>f. fl_category (redact f) = fl_category f"
  shows "\<exists>r'. get_download i (record_failures redact i fs st) = Some r'
     \<and> df_retry_count r' = df_retry_count r + of_nat (length (filter (\<lambda>x. \<not> waits_out_limit x) fs))
     \<and> dr_limit_waits r' = (if list_all waits_out_limit fs then dr_limit_waits r + length fs
                           else length (takeWhile waits_out_limit (rev fs)))"
  by (rule record_failures_counts [OF assms])

theorem failures_count_attempts_and_waits_witness:
  "\<exists>r'. get_download ''a'' (record_failures id ''a''
       [(failure_new Offline ''x'', Some 9, 1), (failure_new (IpBlocked None) ''y'', Some 9, 2)]
       (a_store [a_row ''a'' Downloading])) = Some r' \<and> df_retry_count r' = 1 \<and> dr_limit_waits r' = 1"
proof -
  have ok: "store_ok (a_store [a_row ''a'' Downloading])" by (simp add: store_ok_def sample_defs)
  have g: "get_download ''a'' (a_store [a_row ''a'' Downloading]) = Some (a_row ''a'' Downloading)"
    by (simp add: get_download_def sample_defs)
  show ?thesis
    using failures_count_attempts_and_waits [OF ok g, of id
        "[(failure_new Offline ''x'', Some 9, 1), (failure_new (IpBlocked None) ''y'', Some 9, 2)]"]
    by (simp add: waits_out_limit_def is_limit_def failure_new_def a_row_def)
qed

section \<open>The held-back verdict\<close>

lemma settle_rows:
  "store_ok st \<Longrightarrow> st_downloads (settle_package_after_download redact p now st) =
      map (\<lambda>r. if df_package_id r = p \<and> awaiting r \<noteq> None \<and> set_settled p st
               then verdict_row redact (announces p st) (package_downloads p st) now r r else r) (st_downloads st)"
  by (simp add: settle_package_after_download_def state_simps settle_par2_rows)

text \<open>Property C3. A finished file with holes waits for its set and no longer: while another file of the
  package is on its way nothing is decided; once none is, every held-back file is decided at once
  -- completed where the NZB announces PAR2 data or another file of the package is recovery data,
  failed otherwise -- and no other row of the queue is touched.\<close>

theorem par2_verdict_waits_for_the_set:
  assumes "store_ok st" and "get_download i st = Some r"
  shows "\<exists>r'. get_download i (settle_package_after_download redact p now st) = Some r'
    \<and> (if df_package_id r = p \<and> awaiting r \<noteq> None
           \<and> (\<forall>q \<in> set (package_downloads p st). awaiting q = None \<longrightarrow>
                 df_state q \<notin> {Queued, Resolving, Downloading, RetryWait, Verifying, Repairing})
       then awaiting r' = None
         \<and> df_state r' = (if announces p st
               \<or> (\<exists>q \<in> set (package_downloads p st). df_id q \<noteq> i \<and> dr_recovery q) then Completed else Failed)
       else r' = r)"
proof -
  have id: "df_id r = i" using get_download_Some [OF assms(2)] by simp
  let ?v = "\<lambda>r. if df_package_id r = p \<and> awaiting r \<noteq> None \<and> set_settled p st
      then verdict_row redact (announces p st) (package_downloads p st) now r r else r"
  have g: "get_download i (settle_package_after_download redact p now st) = Some (?v r)"
    using assms(2) unfolding get_download_def settle_rows [OF assms(1)] by (subst find_map) simp_all
  have s: "set_settled p st \<longleftrightarrow> (\<forall>q \<in> set (package_downloads p st). awaiting q = None \<longrightarrow>
      df_state q \<notin> {Queued, Resolving, Downloading, RetryWait, Verifying, Repairing})"
    by (simp add: set_settled_def ON_THE_WAY_def)
  have v: "df_state (verdict_row redact a rows now r r) =
      (if a \<or> (\<exists>q \<in> set rows. df_id q \<noteq> i \<and> dr_recovery q) then Completed else Failed)"
    "awaiting (verdict_row redact a rows now r r) = None" for a rows
    using id by (auto simp: verdict_row_def list_ex_iff awaiting_def)
  show ?thesis unfolding s [symmetric] using g v by (intro exI [of _ "?v r"]) auto
qed

definition held_back :: failure where
  "held_back = failure_coded (Transient None) AWAITING_PAR2 ''held''"

theorem par2_verdict_waits_for_the_set_witness:
  "\<exists>r'. get_download ''a'' (settle_package_after_download id ''p'' 5
      (a_store [(a_row ''a'' Verifying)\<lparr>df_last_error := Some held_back\<rparr>])) = Some r' \<and> df_state r' = Failed"
proof -
  let ?r = "(a_row ''a'' Verifying)\<lparr>df_last_error := Some held_back\<rparr>"
  have ok: "store_ok (a_store [?r])" by (simp add: store_ok_def sample_defs)
  have g: "get_download ''a'' (a_store [?r]) = Some ?r" by (simp add: get_download_def sample_defs)
  have p: "package_downloads ''p'' (a_store [?r]) = [?r]" "announces ''p'' (a_store [?r]) = False"
    by (simp_all add: package_downloads_def announces_def get_package_def sample_defs)
  have a: "awaiting ?r \<noteq> None" "df_package_id ?r = ''p''" "dr_recovery ?r = False"
    by (simp_all add: awaiting_def awaiting_missing_def held_back_def a_row_def)
  from par2_verdict_waits_for_the_set [OF ok g, of id "''p''" 5] show ?thesis
    unfolding p using a by auto
qed

section \<open>When a package reads as failed\<close>

lemma get_package_set_state:
  assumes "get_package p st = Some k"
  shows "map_option pk_state (get_package p (set_package_state p s a b c now st)) = Some s"
proof -
  let ?g = "\<lambda>k. if pk_id k = p then k\<lparr>pk_state := s, pk_stage := a, pk_percent := b, pk_current := c,
      pk_completed_at := (if s = PkgCompleted then Some now else None), pk_updated_at := now\<rparr> else k"
  have "st_packages (set_package_state p s a b c now st) = map ?g (st_packages st)"
    by (simp add: set_package_state_def Let_def state_simps split: option.split package_state.split)
  moreover have "find (\<lambda>k. pk_id k = p) (map ?g (st_packages st)) = map_option ?g (find (\<lambda>k. pk_id k = p) (st_packages st))"
    by (rule find_map) simp
  moreover have "pk_id k = p" using assms by (auto simp: get_package_def find_Some_iff)
  ultimately show ?thesis using assms by (simp add: get_package_def)
qed



section \<open>After a restart\<close>

lemma remove_package_if_empty_facts:
  "st_downloads (snd (remove_package_if_empty p st)) = st_downloads st"
  "st_packages (snd (remove_package_if_empty p st)) =
     (if package_downloads p st = [] then filter (\<lambda>k. pk_id k \<noteq> p) (st_packages st) else st_packages st)"
  "fst (remove_package_if_empty p st) \<longleftrightarrow> p \<in> pk_id ` set (st_packages st) \<and> package_downloads p st = []"
proof -
  show "st_downloads (snd (remove_package_if_empty p st)) = st_downloads st"
    by (simp add: remove_package_if_empty_def)
  have n: "get_package p st = None \<longleftrightarrow> p \<notin> pk_id ` set (st_packages st)"
    by (auto simp: get_package_def find_None_iff)
  have "filter (\<lambda>k. pk_id k \<noteq> p) (st_packages st) = st_packages st" if "p \<notin> pk_id ` set (st_packages st)"
    using that by (intro filter_True) auto
  then show "st_packages (snd (remove_package_if_empty p st)) =
     (if package_downloads p st = [] then filter (\<lambda>k. pk_id k \<noteq> p) (st_packages st) else st_packages st)"
    using n by (auto simp: remove_package_if_empty_def)
  show "fst (remove_package_if_empty p st) \<longleftrightarrow> p \<in> pk_id ` set (st_packages st) \<and> package_downloads p st = []"
    using n by (auto simp: remove_package_if_empty_def)
qed

lemma package_downloads_cong: "st_downloads st = st_downloads st' \<Longrightarrow> package_downloads p st = package_downloads p st'"
  by (simp add: package_downloads_def)

lemma fold_remove_packages:
  "st_downloads (fold (\<lambda>p st. snd (remove_package_if_empty p st)) ps st) = st_downloads st
   \<and> st_packages (fold (\<lambda>p st. snd (remove_package_if_empty p st)) ps st) =
      filter (\<lambda>k. pk_id k \<notin> set ps \<or> package_downloads (pk_id k) st \<noteq> []) (st_packages st)"
proof (induction ps arbitrary: st)
  case (Cons p ps)
  let ?st = "snd (remove_package_if_empty p st)"
  have d: "package_downloads q ?st = package_downloads q st" for q
    by (rule package_downloads_cong) (rule remove_package_if_empty_facts)
  show ?case
    using Cons.IH [of ?st]
    by (auto simp: remove_package_if_empty_facts d intro!: filter_cong)
qed simp

lemma same_rows_package: "same_rows st st' \<Longrightarrow> (package_downloads p st' = []) = (package_downloads p st = [])"
proof -
  have "list_all2 settles xs ys \<Longrightarrow> map df_package_id ys = map df_package_id xs" for xs ys
    by (induction rule: list_all2_induct) (auto dest: settles_id)
  moreover have "(filter (\<lambda>r. df_package_id r = p) xs = []) = (p \<notin> set (map df_package_id xs))" for xs :: "download_row list"
    by (auto simp: filter_empty_conv)
  ultimately show "same_rows st st' \<Longrightarrow> (package_downloads p st' = []) = (package_downloads p st = [])"
    unfolding package_downloads_def same_rows_def by metis
qed

text \<open>The state a restart gives a row, before verdicts.\<close>

definition restarted :: "instant \<Rightarrow> download_row \<Rightarrow> download_row" where
  "restarted now r =
     (if interrupted r then r\<lparr>df_state := Queued, dr_updated_at := now\<rparr>
      else if df_state r = Extracting then r\<lparr>df_state := Completed, dr_updated_at := now\<rparr> else r)"

lemma restarted_simps [simp]: "df_id (restarted now r) = df_id r" "df_package_id (restarted now r) = df_package_id r"
  by (simp_all add: restarted_def)

lemma recover_facts:
  assumes ok: "store_ok st" and r: "recover_interrupted redact now st = (n, st')"
  shows "n = length (filter interrupted (st_downloads st))"
    and "\<exists>w. st_downloads w = map (restarted now) (st_downloads st) \<and> same_rows w st' \<and> store_ok w
        \<and> st_packages w = filter (\<lambda>k. package_downloads (pk_id k) w \<noteq> []) (st_packages st)"
proof -
  let ?a = "update_rows (\<lambda>r. df_state r = Extracting) (\<lambda>r. r\<lparr>df_state := Completed, dr_updated_at := now\<rparr>)
      (update_rows interrupted (\<lambda>r. r\<lparr>df_state := Queued, dr_updated_at := now\<rparr>) st)"
  let ?empty = "map pk_id (filter (\<lambda>k. package_downloads (pk_id k) ?a = []) (st_packages ?a))"
  define w where "w = fold (\<lambda>p st. snd (remove_package_if_empty p st)) ?empty ?a"
  have rec: "recover_interrupted redact now st =
      (length (filter interrupted (st_downloads st)), settle_all redact now (packages_awaiting_par2_verdict w) w)"
    by (simp only: recover_interrupted_def Let_def w_def)
  show "n = length (filter interrupted (st_downloads st))" using r rec by simp
  have i: "interrupted x \<Longrightarrow> df_state x \<noteq> Extracting" for x by (auto simp: interrupted_def)
  have a: "st_downloads ?a = map (restarted now) (st_downloads st)" "st_packages ?a = st_packages st"
    using i by (auto simp: state_simps restarted_def)
  have w1: "st_downloads w = map (restarted now) (st_downloads st)"
    using fold_remove_packages [of ?empty ?a] a(1) unfolding w_def by simp
  have pd: "package_downloads p w = package_downloads p ?a" for p
    by (rule package_downloads_cong) (simp only: w1 a(1))
  have w2: "st_packages w = filter (\<lambda>k. package_downloads (pk_id k) w \<noteq> []) (st_packages st)"
  proof -
    have "st_packages w = filter (\<lambda>k. pk_id k \<notin> set ?empty \<or> package_downloads (pk_id k) ?a \<noteq> []) (st_packages st)"
      using fold_remove_packages [of ?empty ?a] a(2) unfolding w_def by simp
    also have "\<dots> = filter (\<lambda>k. package_downloads (pk_id k) w \<noteq> []) (st_packages st)"
      unfolding pd by (rule filter_cong) (auto simp: a(2))
    finally show ?thesis .
  qed
  have ow: "store_ok w"
    using ok unfolding store_ok_def w1 w2 by (auto simp: o_def intro: distinct_map_filter)
  have "same_rows w st'" using settle_all_same_rows [OF ow] r rec by auto
  then show "\<exists>w. st_downloads w = map (restarted now) (st_downloads st) \<and> same_rows w st' \<and> store_ok w
        \<and> st_packages w = filter (\<lambda>k. package_downloads (pk_id k) w \<noteq> []) (st_packages st)"
    using w1 w2 ow by blast
qed

text \<open>Property C5. After a restart no row claims a worker that is gone: interrupted rows are queued again
  and counted, a row that was unpacking is finished and not fetched again, only a row whose
  verdict is held back may still be \<open>verifying\<close>, every row that was not running keeps its state,
  and no package is left without a file.\<close>

theorem restart_leaves_no_orphans:
  assumes "store_ok st" and "recover_interrupted redact now st = (n, st')"
  shows "n = length (filter interrupted (st_downloads st))
    \<and> (\<forall>i r. get_download i st = Some r \<longrightarrow>
         (\<exists>s'. state_of st' i = Some s'
           \<and> (interrupted r \<longrightarrow> s' = Queued)
           \<and> (df_state r = Extracting \<longrightarrow> s' = Completed)
           \<and> (\<not> is_working (df_state r) \<longrightarrow> s' = df_state r)
           \<and> s' \<notin> {Resolving, Downloading, Repairing, Extracting}
           \<and> (s' = Verifying \<longrightarrow> quotes_code AWAITING_PAR2 (df_last_error r))))
    \<and> (\<forall>k \<in> set (st_packages st'). package_downloads (pk_id k) st' \<noteq> [])"
proof -
  obtain w where w: "st_downloads w = map (restarted now) (st_downloads st)" "same_rows w st'"
    "st_packages w = filter (\<lambda>k. package_downloads (pk_id k) w \<noteq> []) (st_packages st)"
    using recover_facts(2) [OF assms] by blast
  have rows: "\<exists>s'. state_of st' i = Some s'
           \<and> (interrupted r \<longrightarrow> s' = Queued) \<and> (df_state r = Extracting \<longrightarrow> s' = Completed)
           \<and> (\<not> is_working (df_state r) \<longrightarrow> s' = df_state r)
           \<and> s' \<notin> {Resolving, Downloading, Repairing, Extracting}
           \<and> (s' = Verifying \<longrightarrow> quotes_code AWAITING_PAR2 (df_last_error r))"
    if g: "get_download i st = Some r" for i r
  proof -
    have "get_download i w = Some (restarted now r)"
      using g unfolding get_download_def w(1) by (subst find_map) simp_all
    then obtain r' where r': "get_download i st' = Some r'" "settles (restarted now r) r'"
      using same_rows_get(1) [OF w(2)] by blast
    have s: "df_state r' = df_state (restarted now r) \<or>
        df_state (restarted now r) = Verifying \<and> df_state r' \<in> {Completed, Failed}"
      by (rule settles_state [OF r'(2)])
    show ?thesis
      using s r'(1) by (cases "df_state r") (auto simp: state_of_def restarted_def interrupted_def is_working_def split: if_splits)
  qed
  have "package_downloads (pk_id k) st' \<noteq> []" if "k \<in> set (st_packages st')" for k
  proof -
    have "pk_id k \<in> set (map pk_id (st_packages w))"
      using that w(2) unfolding same_rows_def by (metis image_eqI list.set_map)
    then obtain k' where k': "k' \<in> set (st_packages w)" "pk_id k = pk_id k'" by auto
    have "\<forall>k \<in> set (st_packages w). package_downloads (pk_id k) w \<noteq> []" by (subst w(3)) simp
    then show ?thesis using k' same_rows_package [OF w(2), of "pk_id k"] by simp
  qed
  then show ?thesis using recover_facts(1) [OF assms] rows by blast
qed

theorem restart_leaves_no_orphans_witness:
  "state_of (snd (recover_interrupted id 9 (a_store [a_row ''a'' Downloading, a_row ''b'' Extracting]))) ''a'' = Some Queued"
proof -
  let ?st = "a_store [a_row ''a'' Downloading, a_row ''b'' Extracting]"
  have ok: "store_ok ?st" by (simp add: store_ok_def sample_defs)
  have g: "get_download ''a'' ?st = Some (a_row ''a'' Downloading)" by (simp add: get_download_def sample_defs)
  have i: "interrupted (a_row ''a'' Downloading)" by (simp add: interrupted_def a_row_def)
  obtain n st' where r: "recover_interrupted id 9 ?st = (n, st')" by fastforce
  from restart_leaves_no_orphans [OF ok r] g i show ?thesis unfolding r by fastforce
qed

section \<open>Removal\<close>

definition removable :: "download_id list \<Rightarrow> download_row \<Rightarrow> bool" where
  "removable ids r \<longleftrightarrow> df_id r \<in> set ids \<and> \<not> is_working (df_state r)"

lemma delete_rows_facts:
  "store_ok st \<Longrightarrow> case delete_rows ids removed packages st of (outcomes, removed', packages', st') \<Rightarrow>
     length outcomes = length ids
     \<and> st_downloads st' = filter (\<lambda>r. \<not> removable ids r) (st_downloads st)
     \<and> st_packages st' = st_packages st
     \<and> set packages' = set packages \<union> df_package_id ` {r \<in> set (st_downloads st). removable ids r}"
proof (induction ids arbitrary: removed packages st)
  case (Cons i ids)
  show ?case
  proof (cases "\<exists>r. get_download i st = Some r \<and> \<not> is_working (df_state r)")
    case False
    have n: "\<not> removable (i # ids) r = (\<not> removable ids r)" if "r \<in> set (st_downloads st)" for r
      using False get_download_in [OF Cons.prems that] by (auto simp: removable_def)
    have f: "filter (\<lambda>r. \<not> removable (i # ids) r) (st_downloads st) = filter (\<lambda>r. \<not> removable ids r) (st_downloads st)"
      using n by (intro filter_cong) auto
    have p: "{r \<in> set (st_downloads st). removable (i # ids) r} = {r \<in> set (st_downloads st). removable ids r}"
      using n by auto
    obtain os rm ps st' where d: "delete_rows ids removed packages st = (os, rm, ps, st')"
      by (cases "delete_rows ids removed packages st")
    show ?thesis
      using Cons.IH [OF Cons.prems, where removed = removed and packages = packages] False unfolding d f p
      by (cases "get_download i st") (auto simp: d)
  next
    case True
    then obtain r where r: "get_download i st = Some r" "\<not> is_working (df_state r)" by blast
    let ?ps = "if df_package_id r \<in> set packages then packages else packages @ [df_package_id r]"
    have u: "x = r" if "x \<in> set (st_downloads st)" "df_id x = i" for x
      using get_download_in [OF Cons.prems that(1)] that(2) r by simp
    have r': "r \<in> set (st_downloads st)" "df_id r = i" using get_download_Some [OF r(1)] by auto
    have ok: "store_ok (delete_row i st)"
      using Cons.prems by (auto simp: store_ok_def delete_row_def intro: distinct_map_filter)
    have f: "filter (\<lambda>x. \<not> removable ids x) (st_downloads (delete_row i st)) =
        filter (\<lambda>x. \<not> removable (i # ids) x) (st_downloads st)"
      unfolding delete_row_def using u r(2) by (auto simp: removable_def intro!: filter_cong)
    have p: "set ?ps \<union> df_package_id ` {x \<in> set (st_downloads (delete_row i st)). removable ids x}
        = set packages \<union> df_package_id ` {x \<in> set (st_downloads st). removable (i # ids) x}"
    proof -
      have "x \<in> {x \<in> set (st_downloads st). removable (i # ids) x}
          \<longleftrightarrow> x \<in> insert r {x \<in> set (st_downloads (delete_row i st)). removable ids x}" for x
      proof (cases "df_id x = i")
        case True
        have "x \<in> set (st_downloads st) \<longleftrightarrow> x = r" using u [of x] r' True by auto
        then show ?thesis using True r(2) by (auto simp: delete_row_def removable_def)
      next
        case False
        then have "x \<noteq> r" using r'(2) by auto
        then show ?thesis using False by (simp add: delete_row_def removable_def)
      qed
      then have "{x \<in> set (st_downloads st). removable (i # ids) x}
          = insert r {x \<in> set (st_downloads (delete_row i st)). removable ids x}" by (rule set_eqI)
      then show ?thesis by (auto simp add: insert_absorb)
    qed
    obtain os rm ps st' where d: "delete_rows ids (removed @ [i]) ?ps (delete_row i st) = (os, rm, ps, st')"
      by (cases "delete_rows ids (removed @ [i]) ?ps (delete_row i st)")
    have e: "delete_rows (i # ids) removed packages st = (Inr () # os, rm, ps, st')"
      using r d by (simp add: Let_def del: if_split)
    have k: "st_packages (delete_row i st) = st_packages st" by (simp add: delete_row_def)
    show ?thesis
      using Cons.IH [OF ok, where removed = "removed @ [i]" and packages = ?ps] unfolding d e prod.case f p k by simp
  qed
qed (simp add: removable_def)

lemma remove_empty_packages_facts:
  "st_downloads (snd (remove_empty_packages ps st)) = st_downloads st
   \<and> st_packages (snd (remove_empty_packages ps st)) =
      filter (\<lambda>k. pk_id k \<notin> set ps \<or> package_downloads (pk_id k) st \<noteq> []) (st_packages st)"
proof (induction ps arbitrary: st)
  case (Cons p ps)
  let ?st = "snd (remove_package_if_empty p st)"
  have s: "snd (remove_empty_packages (p # ps) st) = snd (remove_empty_packages ps ?st)"
    by (simp split: prod.splits)
  have d: "package_downloads q ?st = package_downloads q st" for q
    by (rule package_downloads_cong) (rule remove_package_if_empty_facts)
  show ?case
    using Cons.IH [of ?st] unfolding s
    by (auto simp: remove_package_if_empty_facts d intro!: filter_cong)
qed simp

lemma row_image:
  assumes "store_ok st" and "get_download i st = Some r"
  shows "i \<in> df_id ` {x \<in> set (st_downloads st). P x} \<longleftrightarrow> P r"
proof
  assume "i \<in> df_id ` {x \<in> set (st_downloads st). P x}"
  then obtain x where x: "x \<in> set (st_downloads st)" "P x" "df_id x = i" by auto
  then have "x = r" using get_download_in [OF assms(1) x(1)] assms(2) by simp
  then show "P r" using x(2) by simp
next
  assume "P r"
  then show "i \<in> df_id ` {x \<in> set (st_downloads st). P x}" using get_download_Some [OF assms(2)] by auto
qed

text \<open>Property C6. A batch removal removes exactly the named rows no worker holds -- one that is running
  stays, whatever else the batch removes -- with one answer per id; and a package goes with its
  last file and only then.\<close>

theorem batch_removal_spares_the_running:
  assumes "store_ok st" and "delete_downloads redact ids now st = (outcomes, st')"
  shows "length outcomes = length ids
    \<and> (\<forall>i. state_of st' i = None \<longleftrightarrow>
          state_of st i = None \<or> i \<in> set ids \<and> (\<forall>s. state_of st i = Some s \<longrightarrow> \<not> is_working s))
    \<and> (\<forall>p. p \<in> pk_id ` set (st_packages st') \<longleftrightarrow>
          p \<in> pk_id ` set (st_packages st)
          \<and> (package_downloads p st' \<noteq> [] \<or> (\<forall>r \<in> set (package_downloads p st). \<not> removable ids r)))"
proof -
  obtain os rm ps w where d: "delete_rows ids [] [] st = (os, rm, ps, w)" by (cases "delete_rows ids [] [] st")
  obtain remaining v where v: "remove_empty_packages ps w = (remaining, v)" by (cases "remove_empty_packages ps w")
  let ?v = "if rm \<noteq> [] then publish (RowsRemoved rm) v else v"
  have st': "outcomes = os" "st' = settle_all redact now remaining ?v"
    using assms(2) by (simp_all add: delete_downloads_def d v Let_def)
  note f = delete_rows_facts [OF assms(1), of ids "[]" "[]", unfolded d prod.case]
  have w: "st_downloads w = filter (\<lambda>r. \<not> removable ids r) (st_downloads st)" "st_packages w = st_packages st"
    "set ps = df_package_id ` {r \<in> set (st_downloads st). removable ids r}" "length os = length ids"
    using f by auto
  have dv: "st_downloads ?v = st_downloads w"
    "st_packages ?v = filter (\<lambda>k. pk_id k \<notin> set ps \<or> package_downloads (pk_id k) w \<noteq> []) (st_packages st)"
    using remove_empty_packages_facts [of ps w] by (simp_all add: v w(2) state_simps)
  have ok: "store_ok ?v"
    using assms(1) unfolding store_ok_def dv w(1) by (auto intro: distinct_map_filter)
  have same: "same_rows ?v st'" unfolding st' by (rule settle_all_same_rows [OF ok])
  have none: "get_download i ?v = None \<longleftrightarrow> get_download i st' = None" for i
    using same_rows_get [OF same, of i] by (cases "get_download i ?v") auto
  have gone: "state_of st' i = None \<longleftrightarrow>
      state_of st i = None \<or> i \<in> set ids \<and> (\<forall>s. state_of st i = Some s \<longrightarrow> \<not> is_working s)" for i
  proof -
    have "state_of st' i = None \<longleftrightarrow> get_download i ?v = None" by (simp only: state_of_def map_option_is_None none)
    also have "\<dots> \<longleftrightarrow> i \<notin> df_id ` {r \<in> set (st_downloads st). \<not> removable ids r}"
      unfolding get_download_None dv(1) w(1) by simp
    also have "\<dots> \<longleftrightarrow> state_of st i = None \<or> i \<in> set ids \<and> (\<forall>s. state_of st i = Some s \<longrightarrow> \<not> is_working s)"
    proof (cases "get_download i st")
      case None
      then show ?thesis using get_download_None [of i st] by (auto simp: state_of_def)
    next
      case (Some r)
      then show ?thesis using get_download_Some [OF Some]
        by (simp add: row_image [OF assms(1) Some] state_of_def removable_def)
    qed
    finally show ?thesis .
  qed
  have pids: "pk_id ` set (st_packages st') = pk_id ` set (st_packages ?v)"
    using same unfolding same_rows_def by (metis list.set_map)
  have pd: "package_downloads p st' = [] \<longleftrightarrow> package_downloads p w = []" for p
    using same_rows_package [OF same, of p] package_downloads_cong [OF dv(1), of p] by simp
  have pk: "p \<in> pk_id ` set (st_packages st') \<longleftrightarrow> p \<in> pk_id ` set (st_packages st)
      \<and> (package_downloads p st' \<noteq> [] \<or> (\<forall>r \<in> set (package_downloads p st). \<not> removable ids r))" for p
  proof -
    have "p \<notin> set ps \<longleftrightarrow> (\<forall>r \<in> set (package_downloads p st). \<not> removable ids r)"
      unfolding w(3) by (auto simp: package_downloads_def)
    moreover have "p \<in> pk_id ` set (st_packages ?v) \<longleftrightarrow>
        p \<in> pk_id ` set (st_packages st) \<and> (p \<notin> set ps \<or> package_downloads p w \<noteq> [])"
      unfolding dv(2) by auto
    ultimately show ?thesis unfolding pids pd by blast
  qed
  show ?thesis using w(4) st'(1) gone pk by blast
qed

theorem batch_removal_spares_the_running_witness:
  "state_of (snd (delete_downloads id [''a'', ''b''] 9 (a_store [a_row ''a'' Downloading, a_row ''b'' Failed]))) ''a'' \<noteq> None"
proof -
  let ?st = "a_store [a_row ''a'' Downloading, a_row ''b'' Failed]"
  have ok: "store_ok ?st" by (simp add: store_ok_def sample_defs)
  have g: "state_of ?st ''a'' = Some Downloading" by (simp add: state_of_def get_download_def sample_defs)
  obtain os st' where r: "delete_downloads id [''a'', ''b''] 9 ?st = (os, st')" by fastforce
  from batch_removal_spares_the_running [OF ok r] g show ?thesis unfolding r by (auto simp: is_working_def)
qed

section \<open>Why a row is blocked\<close>

definition reasons_ok :: "store \<Rightarrow> bool" where
  "reasons_ok st \<longleftrightarrow> (\<forall>r \<in> set (st_downloads st). dr_block_reason r \<noteq> None \<longrightarrow> df_state r = Blocked)"

lemma settles_reason: "settles r r' \<Longrightarrow> (dr_block_reason r \<noteq> None \<longrightarrow> df_state r = Blocked) \<Longrightarrow>
  dr_block_reason r' \<noteq> None \<longrightarrow> df_state r' = Blocked"
  using awaiting_verifying [of r] by (auto simp: settles_def)

lemma same_rows_reasons: "same_rows st st' \<Longrightarrow> reasons_ok st \<Longrightarrow> reasons_ok st'"
proof -
  have "list_all2 settles xs ys \<Longrightarrow> \<forall>r \<in> set xs. dr_block_reason r \<noteq> None \<longrightarrow> df_state r = Blocked \<Longrightarrow>
      \<forall>r \<in> set ys. dr_block_reason r \<noteq> None \<longrightarrow> df_state r = Blocked" for xs ys
    by (induction rule: list_all2_induct) (use settles_reason in auto)
  then show "same_rows st st' \<Longrightarrow> reasons_ok st \<Longrightarrow> reasons_ok st'"
    unfolding same_rows_def reasons_ok_def by blast
qed

lemma settle_reasons: "store_ok st \<Longrightarrow> reasons_ok st \<Longrightarrow> reasons_ok (settle_package_after_download redact p now st)"
  using same_rows_reasons [OF settle_same_rows] by blast

text \<open>Property C7. A row carries the reason of a block only while it is blocked: transitions, batches,
  the automatic retry's requeue and the recovery at start keep that.\<close>

theorem block_reason_never_outlives_the_block:
  assumes "store_ok st" and "reasons_ok st" and "reason \<noteq> None \<longrightarrow> next = Blocked"
  shows "(\<forall>row st'. transition_download_with_reason redact i next reason now st = Inr (row, st') \<longrightarrow> reasons_ok st')
    \<and> reasons_ok (snd (move_downloads redact change ids now st))
    \<and> reasons_ok (snd (requeue_failed redact i auto now st))
    \<and> reasons_ok (snd (recover_interrupted redact now st))"
proof (intro conjI allI impI)
  fix row st'
  let ?f = "\<lambda>r. r\<lparr>df_state := next, df_last_error := (if next = Queued then None else df_last_error r),
                    dr_block_reason := reason, dr_updated_at := now\<rparr>"
  assume "transition_download_with_reason redact i next reason now st = Inr (row, st')"
  then obtain r where "get_download i st = Some r"
    and r: "st' = settle_package_after_download redact (df_package_id r) now
       (publish (DownloadMoved i (Some (df_state r)) next None) (update_rows (\<lambda>r. df_id r = i) ?f st))"
    by (auto simp: transition_download_with_reason_def Let_def split: option.splits if_splits)
  have "store_ok (update_rows (\<lambda>r. df_id r = i) ?f st)" by (rule store_ok_update [OF assms(1)]) simp
  moreover have "reasons_ok (publish (DownloadMoved i (Some (df_state r)) next None) (update_rows (\<lambda>r. df_id r = i) ?f st))"
    using assms(2,3) by (auto simp: reasons_ok_def state_simps)
  ultimately show "reasons_ok st'" unfolding r by (intro settle_reasons) simp_all
next
  obtain os st' where m: "move_downloads redact change ids now st = (os, st')" by fastforce
  let ?to = "st\<lparr>st_downloads := map (\<lambda>r. if df_id r \<in> set ids then moves change now r else r) (st_downloads st)\<rparr>"
  have "dr_block_reason (moves change now r) \<noteq> None \<longrightarrow> df_state (moves change now r) = Blocked"
    if "dr_block_reason r \<noteq> None \<longrightarrow> df_state r = Blocked" for r
    using that by (auto simp: moves_def dest: move_step_Write split: row_step.split)
  then have "reasons_ok ?to" using assms(2) by (auto simp: reasons_ok_def)
  then show "reasons_ok (snd (move_downloads redact change ids now st))"
    using same_rows_reasons [OF move_downloads_facts(2) [OF assms(1) m]] m by simp
next
  let ?f = "\<lambda>r. (fresh_budget now r)\<lparr>dr_auto_retry_rounds := dr_auto_retry_rounds r + (if auto then 1 else 0)\<rparr>"
  let ?w = "publish (Requeued i auto) (update_rows (\<lambda>r. df_id r = i \<and> df_state r = Failed) ?f st)"
  have ok: "store_ok ?w" using store_ok_update [OF assms(1), of ?f] by (simp add: fresh_budget_def)
  have "reasons_ok ?w" using assms(2) by (auto simp: reasons_ok_def state_simps fresh_budget_def)
  note s = settle_reasons [OF ok this] this
  have e: "requeue_failed redact i auto now st =
      (if \<not> list_ex (\<lambda>r. df_id r = i \<and> df_state r = Failed) (st_downloads st) then (None, st)
       else case get_download i ?w of None \<Rightarrow> (None, ?w)
            | Some u \<Rightarrow> (Some u, settle_package_after_download redact (df_package_id u) now ?w))"
    by (simp only: requeue_failed_def Let_def)
  show "reasons_ok (snd (requeue_failed redact i auto now st))"
    unfolding e
    by (cases "list_ex (\<lambda>r. df_id r = i \<and> df_state r = Failed) (st_downloads st)"; cases "get_download i ?w")
      (simp_all only: if_True if_False option.case snd_conv not_True_eq_False not_False_eq_True s assms(2))
next
  obtain n st' where r: "recover_interrupted redact now st = (n, st')" by fastforce
  obtain w where w: "st_downloads w = map (restarted now) (st_downloads st)" "same_rows w st'"
    using recover_facts(2) [OF assms(1) r] by blast
  have "reasons_ok w" using assms(2) unfolding reasons_ok_def w(1)
    by (auto simp: restarted_def interrupted_def)
  then show "reasons_ok (snd (recover_interrupted redact now st))" using same_rows_reasons [OF w(2)] r by simp
qed

theorem block_reason_never_outlives_the_block_witness:
  "reasons_ok (snd (recover_interrupted id 9 (a_store [(a_row ''a'' Blocked)\<lparr>dr_block_reason := Some ''disk_full''\<rparr>])))"
proof -
  let ?st = "a_store [(a_row ''a'' Blocked)\<lparr>dr_block_reason := Some ''disk_full''\<rparr>]"
  have "store_ok ?st" "reasons_ok ?st" by (simp_all add: store_ok_def reasons_ok_def sample_defs)
  from block_reason_never_outlives_the_block [OF this, of None Queued id] show ?thesis by blast
qed

text \<open>A reset does not: it queues the row with the reason of the block still on it.\<close>

lemma reset_keeps_the_block_reason:
  "case reset_download ''a'' 9 (a_store [(a_row ''a'' Blocked)\<lparr>dr_block_reason := Some ''disk_full''\<rparr>]) of
     Inl _ \<Rightarrow> False
   | Inr st \<Rightarrow> map (\<lambda>r. (df_state r, dr_block_reason r)) (st_downloads st) = [(Queued, Some ''disk_full'')]"
  by (simp add: reset_download_def get_download_def refuse_unresettable_def is_working_def reset_row_def
      delete_for_owner_def reset_fields_def get_package_def sample_defs state_simps Let_def)

section \<open>Batches\<close>

text \<open>Pausing a batch pauses exactly the rows of it that wait -- every other row, running,
  finished or not named, stays where it is, save for a held-back PAR2 verdict that comes due --
  answers once per id, and announces the rows that moved in one event, each once.\<close>

lemma pause_batch_pauses_the_waiting:
  assumes "store_ok st" and "pause_downloads redact ids now st = (outcomes, st')"
  shows "length outcomes = length ids
    \<and> (\<forall>i. state_of st i \<noteq> Some Verifying \<longrightarrow>
         state_of st' i = (if i \<in> set ids \<and> state_of st i \<in> {Some Queued, Some RetryWait}
                           then Some Paused else state_of st i))
    \<and> (\<exists>moved. distinct moved \<and> set moved = {i \<in> set ids. state_of st i \<in> {Some Queued, Some RetryWait}}
         \<and> batch_events st' = batch_events st @ (if moved = [] then [] else [RowsMoved moved Paused]))"
proof -
  note f = move_downloads_facts [OF assms(1) assms(2) [unfolded pause_downloads_def]]
  have s: "state_of st' i = (if i \<in> set ids \<and> state_of st i \<in> {Some Queued, Some RetryWait}
      then Some Paused else state_of st i)" if v: "state_of st i \<noteq> Some Verifying" for i
  proof -
    let ?to = "st\<lparr>st_downloads := map (\<lambda>r. if df_id r \<in> set ids then moves Pause now r else r) (st_downloads st)\<rparr>"
    have g: "get_download i ?to = map_option (\<lambda>r. if df_id r \<in> set ids then moves Pause now r else r) (get_download i st)"
      unfolding get_download_def by (simp add: find_map)
    show ?thesis
    proof (cases "get_download i st")
      case None
      then have "get_download i st' = None" using g by (intro same_rows_get(2) [OF f(2)]) simp
      with None show ?thesis by (simp add: state_of_def)
    next
      case (Some r)
      let ?r = "if df_id r \<in> set ids then moves Pause now r else r"
      obtain r' where r': "get_download i st' = Some r'" "settles ?r r'"
        using same_rows_get(1) [OF f(2), of i ?r] g Some by auto
      have "df_state r \<noteq> Verifying" using v Some by (simp add: state_of_def)
      then have "df_state ?r \<noteq> Verifying" by (simp add: moves_pause_state)
      then have "df_state r' = df_state ?r" using settles_state [OF r'(2)] by auto
      then show ?thesis using r'(1) Some get_download_Some [OF Some] by (simp add: state_of_def moves_pause_state)
    qed
  qed
  have e: "{df_id r | r. r \<in> set (st_downloads st) \<and> df_id r \<in> set ids \<and> writes Pause now r}
      = {i \<in> set ids. state_of st i \<in> {Some Queued, Some RetryWait}}"
    using get_download_in [OF assms(1)] get_download_Some by (fastforce simp: writes_pause state_of_def)
  have n: "move_next Pause = Paused" by (simp add: move_next_def)
  show ?thesis using f(1) s f(3) [unfolded e n] by blast
qed

lemma pause_batch_pauses_the_waiting_sample:
  "state_of (snd (pause_downloads id [''a'', ''b''] 5 (a_store [a_row ''a'' Queued, a_row ''b'' Downloading]))) ''a'' = Some Paused
   \<and> state_of (snd (pause_downloads id [''a'', ''b''] 5 (a_store [a_row ''a'' Queued, a_row ''b'' Downloading]))) ''b'' = Some Downloading"
proof -
  let ?st = "a_store [a_row ''a'' Queued, a_row ''b'' Downloading]"
  have ok: "store_ok ?st" by (simp add: store_ok_def sample_defs)
  have g: "state_of ?st ''a'' = Some Queued" "state_of ?st ''b'' = Some Downloading"
    by (simp_all add: state_of_def get_download_def sample_defs)
  obtain os st' where p: "pause_downloads id [''a'', ''b''] 5 ?st = (os, st')" by fastforce
  have "state_of ?st i \<noteq> Some Verifying \<longrightarrow>
      state_of st' i = (if i \<in> set [''a'', ''b''] \<and> state_of ?st i \<in> {Some Queued, Some RetryWait}
                        then Some Paused else state_of ?st i)" for i
    using pause_batch_pauses_the_waiting [OF ok p] by blast
  from this [of "''a''"] this [of "''b''"] show ?thesis by (simp add: p g)
qed

end
