(* ===== verification/Retry.thy ===== *)
theory Retry
  imports Store
begin

text \<open>
  When a failed download is tried again: the retry budget and its stages (\<open>rd-scheduler/src/retry.rs\<close>)
  and the decisions of the automatic retry of failed downloads (\<open>rd-scheduler/src/auto_retry.rs\<close>;
  its pass over the queue is in \<open>Turns\<close>).

  \<open>latest\<close> is the last instant the calendar library represents: a due time past it is none.
\<close>

section \<open>The stages of the backoff\<close>

definition FAST_RETRIES :: u32 where
  "FAST_RETRIES = 5"

definition MIDDLE_WAIT_MS :: u64 where
  "MIDDLE_WAIT_MS = 60 * 1000"

definition MAX_BACKOFF_MS :: u64 where
  "MAX_BACKOFF_MS = 5 * 60 * 1000"

definition DEFAULT_IP_BLOCK :: u64 where
  "DEFAULT_IP_BLOCK = 15 * 60"

definition DEFAULT_RATE_LIMIT_WAIT :: u64 where
  "DEFAULT_RATE_LIMIT_WAIT = 60 * 60"

definition MAX_LIMIT_WAITS :: u32 where
  "MAX_LIMIT_WAITS = 48"

definition MAX_CAPTCHA_ATTEMPTS :: u32 where
  "MAX_CAPTCHA_ATTEMPTS = 2"

record retry_schedule =
  rt_max_retries :: u32
  rt_middle_attempts :: u32
  rt_long_wait_minutes :: u32

definition fast_backoff_ms :: "u32 \<Rightarrow> u64" where
  "fast_backoff_ms previous_attempts = exponential_backoff previous_attempts 1000 MAX_BACKOFF_MS"

definition backoff_ms :: "retry_schedule \<Rightarrow> u32 \<Rightarrow> u64" where
  "backoff_ms schedule previous_attempts =
     (if previous_attempts < FAST_RETRIES then fast_backoff_ms previous_attempts
      else
        let long = sat_mul (ucast (rt_long_wait_minutes schedule)) 60000;
            step = previous_attempts - FAST_RETRIES
        in if step < rt_middle_attempts schedule then exponential_backoff step MIDDLE_WAIT_MS long
           else long)"

section \<open>The next attempt\<close>

text \<open>The unspread backoff as a signed number of milliseconds.\<close>

definition backoff_of :: "retry_schedule \<Rightarrow> failure_kind \<Rightarrow> u32 \<Rightarrow> int" where
  "backoff_of schedule kind previous_attempts =
     (let b = uint (if is_limit kind then fast_backoff_ms previous_attempts
                    else backoff_ms schedule previous_attempts)
      in if b < 2 ^ 63 then b else 2 ^ 63 - 1)"

text \<open>The wait somebody stated, in seconds: the failure's own, or the default of a limit.\<close>

definition stated_wait :: "failure_kind \<Rightarrow> u64" where
  "stated_wait kind =
     (case map_option clamp_retry_after (retry_after kind) of
        Some delay \<Rightarrow> delay
      | None \<Rightarrow> (case kind of
                   IpBlocked _ \<Rightarrow> DEFAULT_IP_BLOCK
                 | RateLimited _ \<Rightarrow> DEFAULT_RATE_LIMIT_WAIT
                 | _ \<Rightarrow> 0))"

definition nanos_per_milli :: int where
  "nanos_per_milli = 1000000"

definition retry_at ::
    "instant \<Rightarrow> failure \<Rightarrow> u32 \<Rightarrow> u32 \<Rightarrow> retry_schedule \<Rightarrow> instant \<Rightarrow> instant option" where
  "retry_at latest failure previous_attempts limit_waits schedule now =
     (let kind = fl_category failure; max_retries = rt_max_retries schedule in
      if \<not> is_retryable kind \<or> max_retries = 0 then None
      else if (if is_limit kind then limit_waits \<ge> MAX_LIMIT_WAITS else previous_attempts \<ge> max_retries)
      then None
      else if kind = CaptchaFailed \<and> previous_attempts \<ge> MAX_CAPTCHA_ATTEMPTS then None
      else
        let b = backoff_of schedule kind previous_attempts;
            spread = jitter b RETRY_JITTER_PERCENT (subsec_nanos now);
            calculated = max 0 (sat_i64 (b + spread)) * nanos_per_milli;
            due = now + max calculated (of_seconds (uint (stated_wait kind)))
        in if due \<le> latest then Some due else None)"

definition limit_waits_spent :: "failure \<Rightarrow> u32 \<Rightarrow> bool" where
  "limit_waits_spent failure limit_waits =
     (is_limit (fl_category failure) \<and> limit_waits \<ge> MAX_LIMIT_WAITS)"

definition LIMIT_WAITS_EXHAUSTED_CODE :: string where
  "LIMIT_WAITS_EXHAUSTED_CODE = ''download.limit_waits_exhausted''"

definition limit_waits_exhausted :: "failure \<Rightarrow> u32 \<Rightarrow> failure" where
  "limit_waits_exhausted original waits =
     (let f = with_param ''reason'' (fl_message original)
                (with_param ''waits'' (dec (unat waits))
                  (failure_coded (fl_category original) LIMIT_WAITS_EXHAUSTED_CODE
                    (''the hoster's limit was still in place after '' @ dec (unat waits) @ '' waits: ''
                      @ fl_message original)))
      in case fl_code original of
           Some code \<Rightarrow> with_param ''reason_code'' code f
         | None \<Rightarrow> f)"

section \<open>The automatic retry of failed downloads\<close>

record auto_retry =
  ar_enabled :: bool
  ar_interval_hours :: u32
  ar_max_rounds :: u32

definition rounds_left :: "auto_retry \<Rightarrow> nat \<Rightarrow> bool" where
  "rounds_left settings spent \<longleftrightarrow> ar_max_rounds settings = 0 \<or> spent < unat (ar_max_rounds settings)"

definition auto_retry_interval :: "auto_retry \<Rightarrow> span" where
  "auto_retry_interval settings = of_hours (uint (ar_interval_hours settings))"

definition HANDOVER_CODE :: string where
  "HANDOVER_CODE = ''download.mirror_handover''"

definition may_pass_later :: "'a download_file_scheme \<Rightarrow> bool" where
  "may_pass_later file =
     (case df_last_error file of
        None \<Rightarrow> False
      | Some failure \<Rightarrow>
          if fl_code failure = Some HANDOVER_CODE then False
          else case fl_category failure of
                 Transient _ \<Rightarrow> True
               | Offline \<Rightarrow> True
               | RateLimited _ \<Rightarrow> True
               | IpBlocked _ \<Rightarrow> True
               | _ \<Rightarrow> False)"

section \<open>What the schedule promises\<close>

lemma unat_stated_wait: "unat (stated_wait kind) \<le> 86400"
  by (auto simp: stated_wait_def unat_clamp_retry_after DEFAULT_IP_BLOCK_def DEFAULT_RATE_LIMIT_WAIT_def
      split: option.split failure_kind.split)

lemma unat_fast_backoff:
  "1000 \<le> unat (fast_backoff_ms a)" "unat (fast_backoff_ms a) \<le> 300000"
proof -
  have e: "unat (fast_backoff_ms a) = min (1000 * 2 ^ min (unat a) 32) 300000"
    by (simp add: fast_backoff_ms_def unat_exponential_backoff MAX_BACKOFF_MS_def)
  have "1 \<le> (2::nat) ^ min (unat a) 32" by simp
  then show "1000 \<le> unat (fast_backoff_ms a)" unfolding e by simp
  show "unat (fast_backoff_ms a) \<le> 300000" unfolding e by simp
qed

lemma unat_long_wait: "unat (sat_mul (ucast m) 60000 :: u64) = unat m * 60000" for m :: u32
proof -
  have "unat m < 2 ^ 32" using unsigned_less [of m] by simp
  then show ?thesis by (simp add: unat_sat_mul)
qed

lemma unat_backoff_ms:
  "unat (backoff_ms s a) \<le> max 300000 (unat (rt_long_wait_minutes s) * 60000)"
  "0 < rt_long_wait_minutes s \<Longrightarrow> 1000 \<le> unat (backoff_ms s a)"
proof -
  let ?l = "unat (rt_long_wait_minutes s) * 60000"
  have c: "unat (backoff_ms s a) =
      (if a < FAST_RETRIES then unat (fast_backoff_ms a)
       else if a - FAST_RETRIES < rt_middle_attempts s
            then min (60000 * 2 ^ min (unat (a - FAST_RETRIES)) 32) ?l else ?l)"
    by (simp add: backoff_ms_def Let_def unat_exponential_backoff unat_long_wait MIDDLE_WAIT_MS_def)
  show "unat (backoff_ms s a) \<le> max 300000 ?l"
    unfolding c using unat_fast_backoff(2) [of a] by auto
  assume "0 < rt_long_wait_minutes s"
  then have "1 \<le> unat (rt_long_wait_minutes s)" by (simp add: word_less_nat_alt)
  moreover have "1 \<le> (2::nat) ^ min (unat (a - FAST_RETRIES)) 32" by simp
  ultimately show "1000 \<le> unat (backoff_ms s a)"
    unfolding c using unat_fast_backoff(1) [of a] by auto
qed

text \<open>The longest backoff a schedule can reach, in milliseconds.\<close>

definition longest_backoff :: "retry_schedule \<Rightarrow> int" where
  "longest_backoff s = max 300000 (uint (rt_long_wait_minutes s) * 60000)"

lemma backoff_of_bounds:
  "0 \<le> backoff_of s k a" "backoff_of s k a \<le> longest_backoff s" "backoff_of s k a < 2 ^ 50"
  "0 < rt_long_wait_minutes s \<Longrightarrow> 1000 \<le> backoff_of s k a"
proof -
  let ?b = "if is_limit k then fast_backoff_ms a else backoff_ms s a"
  have m: "unat (rt_long_wait_minutes s) < 4294967296" using unsigned_less [of "rt_long_wait_minutes s"] by simp
  have u: "unat ?b \<le> max 300000 (unat (rt_long_wait_minutes s) * 60000)"
    using unat_fast_backoff(2) [of a] unat_backoff_ms(1) [of s a] by auto
  then have i: "uint ?b \<le> longest_backoff s"
    unfolding longest_backoff_def uint_nat by linarith
  have "longest_backoff s < 1125899906842624" using m unfolding longest_backoff_def uint_nat by linarith
  then have "longest_backoff s < 2 ^ 50" by simp
  with i have e: "backoff_of s k a = uint ?b" "uint ?b < 2 ^ 50"
    unfolding backoff_of_def Let_def by (simp_all del: uint_nat)
  show "0 \<le> backoff_of s k a" "backoff_of s k a \<le> longest_backoff s" "backoff_of s k a < 2 ^ 50"
    using i e by simp_all
  assume "0 < rt_long_wait_minutes s"
  then have "1000 \<le> unat ?b" using unat_fast_backoff(1) [of a] unat_backoff_ms(2) [of s a] by simp
  then show "1000 \<le> backoff_of s k a" unfolding e uint_nat by linarith
qed

lemma spread_backoff:
  assumes "b = backoff_of s k a"
  shows "\<bar>jitter b RETRY_JITTER_PERCENT seed\<bar> \<le> b div 10"
    and "max 0 (sat_i64 (b + jitter b RETRY_JITTER_PERCENT seed)) = b + jitter b RETRY_JITTER_PERCENT seed"
proof -
  note b = backoff_of_bounds [of s k a, folded assms]
  have p: "uint RETRY_JITTER_PERCENT = 10" by (simp add: RETRY_JITTER_PERCENT_def)
  have "b * uint RETRY_JITTER_PERCENT < 2 ^ 63" unfolding p using b(3) by simp
  from jitter_band [OF b(1) this, of seed, unfolded p]
  show j: "\<bar>jitter b RETRY_JITTER_PERCENT seed\<bar> \<le> b div 10" by simp
  have "b div 10 \<le> b" using b(1) by simp
  then have "0 \<le> b + jitter b RETRY_JITTER_PERCENT seed" "b + jitter b RETRY_JITTER_PERCENT seed < 2 ^ 63 - 1"
    using j b(1) b(3) by simp_all
  then show "max 0 (sat_i64 (b + jitter b RETRY_JITTER_PERCENT seed)) = b + jitter b RETRY_JITTER_PERCENT seed"
    by (simp add: sat_i64_def)
qed

text \<open>Where a due time comes from.\<close>

lemma retry_at_Some:
  assumes "retry_at latest f a w s now = Some t"
  obtains "is_retryable (fl_category f)" "rt_max_retries s \<noteq> 0" "t \<le> latest"
    "is_limit (fl_category f) \<Longrightarrow> w < MAX_LIMIT_WAITS"
    "\<not> is_limit (fl_category f) \<Longrightarrow> a < rt_max_retries s"
    "fl_category f = CaptchaFailed \<Longrightarrow> a < MAX_CAPTCHA_ATTEMPTS"
    "t = now + max ((backoff_of s (fl_category f) a
                      + jitter (backoff_of s (fl_category f) a) RETRY_JITTER_PERCENT (subsec_nanos now))
                     * nanos_per_milli)
                   (of_seconds (uint (stated_wait (fl_category f))))"
  using assms
  by (simp add: retry_at_def Let_def spread_backoff(2) [OF refl] not_le split: if_splits)

text \<open>With the budget left and the calendar far away, there is a next attempt.\<close>

lemma retry_granted:
  assumes "is_retryable (fl_category f)" and "rt_max_retries s \<noteq> 0" and "fl_category f \<noteq> CaptchaFailed"
    and "if is_limit (fl_category f) then w < MAX_LIMIT_WAITS else a < rt_max_retries s"
    and far: "now + max (2 * longest_backoff s * nanos_per_milli) (of_days 1) \<le> latest"
  shows "\<exists>t. retry_at latest f a w s now = Some t"
proof -
  let ?b = "backoff_of s (fl_category f) a"
  let ?c = "?b + jitter ?b RETRY_JITTER_PERCENT (subsec_nanos now)"
  have "?c \<le> 2 * longest_backoff s"
    using spread_backoff(1) [OF refl, of s "fl_category f" a "subsec_nanos now"]
      backoff_of_bounds(1,2) [of s "fl_category f" a] by linarith
  then have "?c * nanos_per_milli \<le> 2 * longest_backoff s * nanos_per_milli" by (simp add: nanos_per_milli_def)
  moreover have "of_seconds (uint (stated_wait (fl_category f))) \<le> of_days 1"
    using unat_stated_wait [of "fl_category f"] unfolding span_defs uint_nat by linarith
  ultimately have "now + max (?c * nanos_per_milli) (of_seconds (uint (stated_wait (fl_category f)))) \<le> latest"
    using far by linarith
  with assms(1,2,3,4) show ?thesis
    unfolding retry_at_def Let_def spread_backoff(2) [OF refl] by (auto simp: not_le)
qed

lemma stated_wait_seconds:
  "uint (stated_wait kind) =
     (case retry_after kind of
        Some seconds \<Rightarrow> min (uint seconds) 86400
      | None \<Rightarrow> (case kind of IpBlocked _ \<Rightarrow> 900 | RateLimited _ \<Rightarrow> 3600 | _ \<Rightarrow> 0))"
proof -
  have "uint (clamp_retry_after x) = min (uint x) 86400" for x
    by (auto simp: clamp_retry_after_def MAX_RETRY_AFTER_SECONDS_def word_less_def)
  then show ?thesis
    by (simp add: stated_wait_def DEFAULT_IP_BLOCK_def DEFAULT_RATE_LIMIT_WAIT_def split: option.split failure_kind.split)
qed

text \<open>Property C32. A retry comes due in its window: never before the wait the hoster stated -- of which no
  more than a day (86400 seconds) counts, and which is 15 minutes for a blocked address and an hour for
  a rate limit where none is stated -- nor before nine tenths of the backoff, never later than the longer
  of that wait and eleven tenths of the backoff; and so within a day or eleven tenths of the longest
  backoff the schedule reaches, whichever is longer.\<close>

theorem retry_due_in_its_window:
  assumes "retry_at latest f a w s now = Some t"
    and "b = backoff_of s (fl_category f) a * nanos_per_milli"
    and "stated = of_seconds
      (case retry_after (fl_category f) of
         Some seconds \<Rightarrow> min (uint seconds) 86400
       | None \<Rightarrow> (case fl_category f of IpBlocked _ \<Rightarrow> 900 | RateLimited _ \<Rightarrow> 3600 | _ \<Rightarrow> 0))"
  shows "now + stated \<le> t \<and> now + (b - b div 10) \<le> t \<and> t \<le> now + max stated (b + b div 10)
    \<and> t \<le> now + max (of_days 1) (longest_backoff s * 11 * nanos_per_milli div 10)"
proof -
  note stated = assms(3) [folded stated_wait_seconds]
  let ?b = "backoff_of s (fl_category f) a"
  let ?j = "jitter ?b RETRY_JITTER_PERCENT (subsec_nanos now)"
  from assms(1) have t: "t = now + max ((?b + ?j) * nanos_per_milli) stated"
    by (rule retry_at_Some) (simp add: stated)
  have j: "\<bar>?j\<bar> \<le> ?b div 10" by (rule spread_backoff(1) [OF refl])
  have d: "?b div 10 * nanos_per_milli \<le> b div 10"
    unfolding assms(2) nanos_per_milli_def by simp
  have "\<bar>?j * nanos_per_milli\<bar> \<le> b div 10"
    using mult_right_mono [OF j, of nanos_per_milli] d by (simp add: abs_mult nanos_per_milli_def)
  then have m: "b - b div 10 \<le> (?b + ?j) * nanos_per_milli" "(?b + ?j) * nanos_per_milli \<le> b + b div 10"
    unfolding assms(2) by (simp_all add: algebra_simps abs_le_iff)
  have "stated \<le> of_days 1"
    using unat_stated_wait [of "fl_category f"] unfolding stated span_defs uint_nat by linarith
  moreover have "b + b div 10 \<le> longest_backoff s * 11 * nanos_per_milli div 10"
  proof -
    have "b \<le> longest_backoff s * nanos_per_milli"
      using backoff_of_bounds(2) [of s "fl_category f" a] unfolding assms(2) by (simp add: nanos_per_milli_def)
    then show ?thesis by (simp add: nanos_per_milli_def)
  qed
  ultimately have "(?b + ?j) * nanos_per_milli \<le> longest_backoff s * 11 * nanos_per_milli div 10" "stated \<le> of_days 1"
    using m(2) by simp_all
  then show ?thesis using m unfolding t by (auto simp: max_def)
qed

theorem retry_due_in_its_window_witness:
  "of_seconds 120 \<le> the (retry_at (of_days 400) (failure_new (RateLimited (Some 120)) ''busy'') 0 0
     \<lparr>rt_max_retries = 8, rt_middle_attempts = 3, rt_long_wait_minutes = 30\<rparr> 0)"
proof -
  let ?f = "failure_new (RateLimited (Some 120)) ''busy''"
  let ?s = "\<lparr>rt_max_retries = 8, rt_middle_attempts = 3, rt_long_wait_minutes = 30\<rparr>"
  have "\<exists>t. retry_at (of_days 400) ?f 0 0 ?s 0 = Some t"
    by (rule retry_granted)
      (simp_all add: failure_new_def is_retryable_def is_limit_def MAX_LIMIT_WAITS_def longest_backoff_def
        nanos_per_milli_def span_defs)
  then obtain t where t: "retry_at (of_days 400) ?f 0 0 ?s 0 = Some t" by blast
  from retry_due_in_its_window [OF t refl refl] show ?thesis
    unfolding t by (simp add: failure_new_def retry_after_def)
qed

end
