(* ===== verification/Mirrors.thy ===== *)
theory Mirrors
  imports Retry
begin

text \<open>
  Links of a package that point at the same file (\<open>rd-scheduler/src/mirrors.rs\<close>): which transports
  group at all, when a failed attempt hands the group's turn on, which member takes it, and what
  the states of the members mean for the group.
\<close>

section \<open>Handing over\<close>

definition groups_mirrors :: "download_kind \<Rightarrow> bool" where
  "groups_mirrors kind = (kind \<in> {Http, Plugin, Ftp, Sftp, ObjectStorage})"

definition LOCAL_IO_CODE :: string where
  "LOCAL_IO_CODE = ''download.local_io''"

definition LOCAL_PROMOTE_CODE :: string where
  "LOCAL_PROMOTE_CODE = ''download.local_promote_failed''"

definition CODE_COLLISION_SKIPPED :: string where
  "CODE_COLLISION_SKIPPED = ''download.collision_skipped''"

definition EXHAUSTED_CODE :: string where
  "EXHAUSTED_CODE = ''download.mirrors_exhausted''"

definition is_local :: "failure \<Rightarrow> bool" where
  "is_local failure =
     (fl_code failure \<in> {Some LOCAL_IO_CODE, Some LOCAL_PROMOTE_CODE, Some CODE_COLLISION_SKIPPED})"

definition hands_over :: "failure \<Rightarrow> instant option \<Rightarrow> bool" where
  "hands_over failure retry =
     (if is_local failure then False
      else if retry = None then True
      else \<not> (case fl_category failure of Transient _ \<Rightarrow> True | CaptchaFailed \<Rightarrow> True | _ \<Rightarrow> False))"

section \<open>The members of a group\<close>

definition candidate_key :: "'a download_file_scheme \<Rightarrow> bool \<times> bool \<times> int \<times> instant" where
  "candidate_key file =
     (df_last_error file \<noteq> None, df_account_id file = None, df_position file, df_created_at file)"

definition best_candidate :: "'a download_file_scheme list \<Rightarrow> 'a download_file_scheme option" where
  "best_candidate candidates = min_by_key candidate_key candidates"

definition siblings :: "'a download_file_scheme \<Rightarrow> 'a download_file_scheme list \<Rightarrow> 'a download_file_scheme list" where
  "siblings file downloads =
     (case df_mirror_group file of
        None \<Rightarrow> []
      | Some g \<Rightarrow>
          filter (\<lambda>other. df_id other \<noteq> df_id file \<and> df_package_id other = df_package_id file
                    \<and> df_mirror_group other = Some g) downloads)"

definition leader :: "'a download_file_scheme \<Rightarrow> 'a download_file_scheme list \<Rightarrow> 'a download_file_scheme" where
  "leader file downloads =
     (case min_by_key (\<lambda>member. (df_position member, df_created_at member)) (siblings file downloads @ [file]) of
        Some member \<Rightarrow> member
      | None \<Rightarrow> file)"

definition has_taken_the_turn :: "download_state \<Rightarrow> bool" where
  "has_taken_the_turn state = (holds_the_file state \<or> state = Completed)"

definition is_contending :: "download_state \<Rightarrow> bool" where
  "is_contending state = (state \<in> {Queued, RetryWait, Paused})"

definition holds_the_group_open :: "download_state \<Rightarrow> bool" where
  "holds_the_group_open state = (has_taken_the_turn state \<or> is_contending state \<or> state = Blocked)"

lemmas mirror_state_defs = has_taken_the_turn_def is_contending_def holds_the_group_open_def
  holds_the_file_def is_working_def

text \<open>The choice is the contract \<open>chooser\<close> at the key of a candidate.\<close>

interpretation mirror: chooser best_candidate "\<lambda>x y. candidate_key x < candidate_key y"
  by unfold_locales (auto simp: best_candidate_def dest: min_by_key_Some simp: not_less)

end
