(* ===== verification/Holds.thy ===== *)
theory Holds
  imports Mirrors Hosts
begin

text \<open>
  What holds queued files back in memory: the holds of the whole queue (\<open>rd-scheduler/src/holds.rs\<close>),
  hosters under an IP limit (\<open>hostblock.rs\<close>), accounts whose traffic is used up
  (\<open>account_traffic.rs\<close>) and the files on their way to their host's connections (\<open>host_wait.rs\<close>)
  under the per-host connection limit (\<open>rd-http/src/hostlimit.rs\<close>).

  Hosters and accounts share the contract \<open>timed_holds\<close>: a key is held until an instant, a further
  report can only move the end later, and forgetting what has ended changes nothing later.
\<close>

section \<open>Holds of the whole queue\<close>

datatype hold_source = QueuePause | AccountTraffic | Power | Reconnect

definition hold_sources :: "hold_source list" where
  "hold_sources = [QueuePause, AccountTraffic, Power, Reconnect]"

type_synonym holds = "hold_source \<Rightarrow> string option"

definition set_hold :: "hold_source \<Rightarrow> string option \<Rightarrow> holds \<Rightarrow> holds" where
  "set_hold source reason h = h(source := reason)"

text \<open>The first reason in the order of the sources.\<close>

definition hold_reason :: "holds \<Rightarrow> string option" where
  "hold_reason h = (case List.map_filter h hold_sources of reason # _ \<Rightarrow> Some reason | [] \<Rightarrow> None)"

lemma hold_reason_None: "hold_reason h = None \<longleftrightarrow> (\<forall>source. h source = None)"
proof
  assume "\<forall>source. h source = None"
  then show "hold_reason h = None" by (simp add: hold_reason_def hold_sources_def map_filter_simps)
next
  assume a: "hold_reason h = None"
  show "\<forall>source. h source = None"
  proof
    fix source
    show "h source = None"
      using a by (cases source)
        (auto simp: hold_reason_def hold_sources_def map_filter_simps split: option.splits)
  qed
qed

section \<open>Timed holds\<close>

locale timed_holds =
  fixes inv :: "'s \<Rightarrow> bool"
    and ends :: "'s \<Rightarrow> 'k \<Rightarrow> instant option"
    and extend :: "'k \<Rightarrow> instant \<Rightarrow> instant \<Rightarrow> 's \<Rightarrow> 's"
    and expire :: "instant \<Rightarrow> 's \<Rightarrow> 's"
  assumes inv_extend: "inv s \<Longrightarrow> inv (extend k until now s)"
    and inv_expire: "inv s \<Longrightarrow> inv (expire now s)"
    and ends_extend: "inv s \<Longrightarrow> ends (extend k until now s) =
      (ends s)(k \<mapsto> (case ends s k of Some u \<Rightarrow> max u until | None \<Rightarrow> until))"
    and ends_expire: "inv s \<Longrightarrow> ends (expire now s) k =
      Option.bind (ends s k) (\<lambda>u. if u > now then Some u else None)"
begin

definition held :: "'s \<Rightarrow> 'k \<Rightarrow> instant \<Rightarrow> bool" where
  "held s k now \<longleftrightarrow> (\<exists>u. ends s k = Some u \<and> now < u)"

lemma held_extend: "inv s \<Longrightarrow> held (extend k until t s) j now \<longleftrightarrow> held s j now \<or> j = k \<and> now < until"
  by (auto simp: held_def ends_extend split: option.split)

lemma held_expire: "inv s \<Longrightarrow> t \<le> now \<Longrightarrow> held (expire t s) j now \<longleftrightarrow> held s j now"
  by (cases "ends s j") (auto simp: held_def ends_expire)

text \<open>Reports and clean-ups one after the other: a key is held as long as one report still lasts.\<close>

fun run :: "('k \<times> instant) option list \<Rightarrow> instant list \<Rightarrow> 's \<Rightarrow> 's" where
  "run (Some (k, until) # es) (t # ts) s = run es ts (extend k until t s)"
| "run (None # es) (t # ts) s = run es ts (expire t s)"
| "run _ _ s = s"

lemma held_run:
  "inv s \<Longrightarrow> length ts = length es \<Longrightarrow> \<forall>t \<in> set ts. t \<le> now \<Longrightarrow>
   held (run es ts s) j now \<longleftrightarrow> held s j now \<or> (\<exists>until. Some (j, until) \<in> set es \<and> now < until)"
proof (induction es ts s rule: run.induct)
  case (1 k until es t ts s)
  then show ?case by (auto simp: held_extend inv_extend)
next
  case (2 es t ts s)
  then show ?case by (simp add: held_expire inv_expire)
qed auto

end

section \<open>Hosters under an IP limit\<close>

type_synonym host_blocks = "(string \<times> instant) list"

definition block_key :: "url \<Rightarrow> string option" where
  "block_key source = map_option host_key (url_host source)"

definition hb_hold :: "string \<Rightarrow> instant \<Rightarrow> host_blocks \<Rightarrow> host_blocks" where
  "hb_hold host until blocked =
     AList.update host (case map_of blocked host of Some current \<Rightarrow> max current until | None \<Rightarrow> until) blocked"

definition hb_block :: "url \<Rightarrow> instant \<Rightarrow> host_blocks \<Rightarrow> host_blocks" where
  "hb_block source until blocked =
     (case block_key source of None \<Rightarrow> blocked | Some host \<Rightarrow> hb_hold host until blocked)"

definition blocked_until :: "url \<Rightarrow> instant \<Rightarrow> host_blocks \<Rightarrow> instant option \<times> host_blocks" where
  "blocked_until source now blocked =
     (case block_key source of
        None \<Rightarrow> (None, blocked)
      | Some host \<Rightarrow>
          (case map_of blocked host of
             Some until \<Rightarrow> if until > now then (Some until, blocked) else (None, AList.delete host blocked)
           | None \<Rightarrow> (None, blocked)))"

definition hb_retain :: "instant \<Rightarrow> host_blocks \<Rightarrow> host_blocks" where
  "hb_retain now blocked = filter (\<lambda>(_, until). until > now) blocked"

definition hb_active :: "instant \<Rightarrow> host_blocks \<Rightarrow> (string \<times> instant) list \<times> host_blocks" where
  "hb_active now blocked =
     (let blocked = hb_retain now blocked
      in (sort_key (\<lambda>(host, until). (until, host)) blocked, blocked))"

definition hb_clear :: "host_blocks \<Rightarrow> host_blocks" where
  "hb_clear blocked = []"

definition keys_once :: "('k \<times> 'v) list \<Rightarrow> bool" where
  "keys_once xs \<longleftrightarrow> distinct (map fst xs)"

lemma keys_once_simps [simp]:
  "keys_once []" "keys_once xs \<Longrightarrow> keys_once (AList.update k v xs)"
  "keys_once xs \<Longrightarrow> keys_once (AList.delete k xs)" "keys_once xs \<Longrightarrow> keys_once (filter P xs)"
  by (simp_all add: keys_once_def distinct_update distinct_delete distinct_map_filter)

interpretation hosters: timed_holds keys_once map_of "\<lambda>host until now. hb_hold host until" hb_retain
proof
  fix s :: host_blocks and k until now
  assume s: "keys_once s"
  show "keys_once (hb_hold k until s)" using s by (simp add: hb_hold_def)
  show "keys_once (hb_retain now s)" using s by (simp add: hb_retain_def)
  show "map_of (hb_hold k until s) =
      (map_of s)(k \<mapsto> (case map_of s k of Some u \<Rightarrow> max u until | None \<Rightarrow> until))"
    by (simp add: hb_hold_def update_conv')
  show "map_of (hb_retain now s) k = Option.bind (map_of s k) (\<lambda>u. if u > now then Some u else None)"
    using map_of_filter_snd [of s "\<lambda>u. u > now" k] s
    by (simp add: hb_retain_def keys_once_def case_prod_beta')
qed

section \<open>Connections of one host\<close>

text \<open>
  A semaphore is its identity, its permits and how many of them are out; permits of a semaphore
  that was replaced by a changed limit belong to it until they are given back.
\<close>

definition MAX_CONNECTIONS_PER_HOST :: nat where
  "MAX_CONNECTIONS_PER_HOST = 32"

definition MAX_TRACKED_HOSTS :: nat where
  "MAX_TRACKED_HOSTS = 256"

record semaphore =
  sm_id :: nat
  sm_free :: nat

record host_limits =
  hl_limit :: nat
  hl_slots :: "(string \<times> semaphore) list"
  hl_users :: "nat \<Rightarrow> nat"           \<comment> \<open>permits out, by semaphore\<close>
  hl_made :: nat
  hl_ignores_ranges :: "string list"

definition host_limits_new :: "nat \<Rightarrow> host_limits" where
  "host_limits_new limit =
     \<lparr>hl_limit = min limit MAX_CONNECTIONS_PER_HOST, hl_slots = [], hl_users = (\<lambda>_. 0), hl_made = 0,
      hl_ignores_ranges = []\<rparr>"

definition hl_set_limit :: "nat \<Rightarrow> host_limits \<Rightarrow> host_limits" where
  "hl_set_limit limit h =
     (let limit = min limit MAX_CONNECTIONS_PER_HOST
      in if hl_limit h = limit then h else h\<lparr>hl_limit := limit, hl_slots := []\<rparr>)"

text \<open>
  The permit at once, where one is free: the semaphore it belongs to. A caller that has to wait
  (\<open>Some None\<close>) takes its permit when one comes back.
\<close>

definition hl_acquire :: "url \<Rightarrow> host_limits \<Rightarrow> nat option option \<times> host_limits" where
  "hl_acquire url h =
     (if hl_limit h = 0 then (None, h)
      else case block_key url of
             None \<Rightarrow> (None, h)
           | Some host \<Rightarrow>
               let slots = (if MAX_TRACKED_HOSTS \<le> length (hl_slots h)
                            then filter (\<lambda>(_, s). hl_users h (sm_id s) > 0) (hl_slots h) else hl_slots h);
                   h = (case map_of slots host of
                          Some _ \<Rightarrow> h\<lparr>hl_slots := slots\<rparr>
                        | None \<Rightarrow> h\<lparr>hl_slots := slots @ [(host, \<lparr>sm_id = hl_made h, sm_free = hl_limit h\<rparr>)],
                                   hl_made := hl_made h + 1\<rparr>)
               in case map_of (hl_slots h) host of
                    None \<Rightarrow> (Some None, h)
                  | Some s \<Rightarrow>
                      if sm_free s = 0 then (Some None, h)
                      else (Some (Some (sm_id s)),
                            h\<lparr>hl_slots := AList.update host (s\<lparr>sm_free := sm_free s - 1\<rparr>) (hl_slots h),
                              hl_users := (hl_users h)(sm_id s := hl_users h (sm_id s) + 1)\<rparr>))"

definition hl_release :: "nat \<Rightarrow> host_limits \<Rightarrow> host_limits" where
  "hl_release permit h =
     h\<lparr>hl_slots := map (\<lambda>(host, s). (host, if sm_id s = permit then s\<lparr>sm_free := sm_free s + 1\<rparr> else s)) (hl_slots h),
       hl_users := (hl_users h)(permit := hl_users h permit - 1)\<rparr>"

definition hl_free :: "url \<Rightarrow> host_limits \<Rightarrow> nat option" where
  "hl_free url h =
     (if hl_limit h = 0 then None
      else case block_key url of
             None \<Rightarrow> None
           | Some host \<Rightarrow> Some (case map_of (hl_slots h) host of None \<Rightarrow> hl_limit h | Some s \<Rightarrow> sm_free s))"

definition note_ranges_ignored :: "url \<Rightarrow> host_limits \<Rightarrow> host_limits" where
  "note_ranges_ignored url h =
     (case block_key url of
        None \<Rightarrow> h
      | Some host \<Rightarrow> h\<lparr>hl_ignores_ranges := List.insert host (hl_ignores_ranges h)\<rparr>)"

definition ignores_ranges :: "url \<Rightarrow> host_limits \<Rightarrow> bool" where
  "ignores_ranges url h =
     (case block_key url of None \<Rightarrow> False | Some host \<Rightarrow> host \<in> set (hl_ignores_ranges h))"

section \<open>Accounts whose traffic is used up\<close>

datatype account_traffic_action = Nothing | PauseAccount | PauseQueue

definition TRAFFIC_EXHAUSTED_SUFFIX :: string where
  "TRAFFIC_EXHAUSTED_SUFFIX = ''.traffic_exhausted''"

definition is_account_traffic_exhausted :: "failure \<Rightarrow> bool" where
  "is_account_traffic_exhausted failure =
     ((case fl_category failure of RateLimited _ \<Rightarrow> True | _ \<Rightarrow> False)
      \<and> (case fl_code failure of Some code \<Rightarrow> ends_with code TRAFFIC_EXHAUSTED_SUFFIX | None \<Rightarrow> False))"

definition TRAFFIC_CHECK_INTERVAL :: span where
  "TRAFFIC_CHECK_INTERVAL = of_minutes 15"

record account_held =
  ah_until :: instant
  ah_next_check_at :: instant

record traffic_holds =
  th_held :: "(account_id \<times> account_held) list"
  th_action :: account_traffic_action
  th_overrides :: "account_id \<rightharpoonup> account_traffic_action"
  th_queue_held :: bool

definition traffic_holds_new :: traffic_holds where
  "traffic_holds_new =
     \<lparr>th_held = [], th_action = PauseAccount, th_overrides = Map.empty, th_queue_held = False\<rparr>"

definition action_for :: "account_id \<Rightarrow> traffic_holds \<Rightarrow> account_traffic_action" where
  "action_for account h = (case th_overrides h account of Some action \<Rightarrow> action | None \<Rightarrow> th_action h)"

definition th_configure ::
    "account_traffic_action \<Rightarrow> (account_id \<rightharpoonup> account_traffic_action) \<Rightarrow> traffic_holds \<Rightarrow> traffic_holds" where
  "th_configure action overrides h = h\<lparr>th_action := action, th_overrides := overrides\<rparr>"

definition th_hold :: "account_id \<Rightarrow> instant \<Rightarrow> instant \<Rightarrow> traffic_holds \<Rightarrow> traffic_holds" where
  "th_hold account until now h =
     h\<lparr>th_held := AList.update account
          (case map_of (th_held h) account of
             Some held \<Rightarrow> held\<lparr>ah_until := max (ah_until held) until\<rparr>
           | None \<Rightarrow> \<lparr>ah_until = until, ah_next_check_at = now + TRAFFIC_CHECK_INTERVAL\<rparr>) (th_held h)\<rparr>"

definition holds_back :: "account_id \<Rightarrow> instant \<Rightarrow> traffic_holds \<Rightarrow> bool" where
  "holds_back account now h =
     ((case map_of (th_held h) account of Some held \<Rightarrow> ah_until held > now | None \<Rightarrow> False)
      \<and> action_for account h = PauseAccount)"

definition th_retain :: "instant \<Rightarrow> traffic_holds \<Rightarrow> traffic_holds" where
  "th_retain now h = h\<lparr>th_held := filter (\<lambda>(_, held). ah_until held > now) (th_held h)\<rparr>"

definition queue_wanted :: "traffic_holds \<Rightarrow> bool" where
  "queue_wanted h = list_ex (\<lambda>(account, _). action_for account h = PauseQueue) (th_held h)"

definition th_settle :: "instant \<Rightarrow> traffic_holds \<Rightarrow> bool option \<times> traffic_holds" where
  "th_settle now h =
     (let h = th_retain now h; wanted = queue_wanted h
      in if wanted \<noteq> th_queue_held h then (Some wanted, h\<lparr>th_queue_held := wanted\<rparr>) else (None, h))"

definition due_checks :: "instant \<Rightarrow> traffic_holds \<Rightarrow> account_id list \<times> traffic_holds" where
  "due_checks now h =
     (map fst (filter (\<lambda>(_, held). ah_next_check_at held \<le> now) (th_held h)),
      h\<lparr>th_held := map (\<lambda>(account, held). (account,
           if ah_next_check_at held \<le> now then held\<lparr>ah_next_check_at := now + TRAFFIC_CHECK_INTERVAL\<rparr> else held))
         (th_held h)\<rparr>)"

definition th_release :: "account_id \<Rightarrow> traffic_holds \<Rightarrow> bool \<times> traffic_holds" where
  "th_release account h =
     (map_of (th_held h) account \<noteq> None, h\<lparr>th_held := AList.delete account (th_held h)\<rparr>)"

definition th_release_all :: "traffic_holds \<Rightarrow> traffic_holds" where
  "th_release_all h = h\<lparr>th_held := []\<rparr>"

record account_traffic_hold =
  at_account_id :: account_id
  at_action :: account_traffic_action
  at_until :: instant
  at_next_check_at :: instant

definition th_list :: "instant \<Rightarrow> traffic_holds \<Rightarrow> account_traffic_hold list" where
  "th_list now h =
     sort_key (\<lambda>hold. (at_until hold, at_account_id hold))
       (map (\<lambda>(account, held). \<lparr>at_account_id = account, at_action = action_for account h,
                at_until = ah_until held, at_next_check_at = min (ah_next_check_at held) (ah_until held)\<rparr>)
         (filter (\<lambda>(_, held). ah_until held > now) (th_held h)))"

text \<open>Telling the queue: its hold is written on a change only.\<close>

definition TRAFFIC_HOLD_REASON :: string where
  "TRAFFIC_HOLD_REASON = ''account_traffic_exhausted''"

definition settle_account_traffic :: "instant \<Rightarrow> traffic_holds \<Rightarrow> holds \<Rightarrow> traffic_holds \<times> holds" where
  "settle_account_traffic now h q =
     (case th_settle now h of
        (Some held, h) \<Rightarrow> (h, set_hold AccountTraffic (if held then Some TRAFFIC_HOLD_REASON else None) q)
      | (None, h) \<Rightarrow> (h, q))"

definition account_end :: "traffic_holds \<Rightarrow> account_id \<Rightarrow> instant option" where
  "account_end h account = map_option ah_until (map_of (th_held h) account)"

interpretation accounts: timed_holds "\<lambda>h. keys_once (th_held h)" account_end th_hold th_retain
proof
  fix h :: traffic_holds and k until now
  assume h: "keys_once (th_held h)"
  show "keys_once (th_held (th_hold k until now h))" using h by (simp add: th_hold_def)
  show "keys_once (th_held (th_retain now h))" using h by (simp add: th_retain_def)
  show "account_end (th_hold k until now h) =
      (account_end h)(k \<mapsto> (case account_end h k of Some u \<Rightarrow> max u until | None \<Rightarrow> until))"
    by (auto simp: account_end_def th_hold_def update_conv' fun_eq_iff split: option.split)
  show "account_end (th_retain now h) k =
      Option.bind (account_end h k) (\<lambda>u. if u > now then Some u else None)"
    using map_of_filter_snd [of "th_held h" "\<lambda>held. ah_until held > now" k] h
    by (cases "map_of (th_held h) k") (simp_all add: account_end_def th_retain_def keys_once_def case_prod_beta')
qed

section \<open>Files on their way to their host\<close>

definition HANDOVER_GRACE :: span where
  "HANDOVER_GRACE = of_seconds 1"

definition START_GRACE :: span where
  "START_GRACE = of_seconds 30"

record host_claim =
  hc_host :: string
  hc_free :: nat
  hc_connections :: nat

record starting =
  sg_host :: string
  sg_connections :: nat
  sg_started :: instant
  sg_handed_over :: "instant option"

record host_admission =
  ha_starting :: "(download_id \<times> starting) list"
  ha_waiting :: "(download_id \<times> string) list"

definition starting_expired :: "instant \<Rightarrow> starting \<Rightarrow> bool" where
  "starting_expired now start =
     (max 0 (now - sg_started start) \<ge> START_GRACE
      \<or> (case sg_handed_over start of Some since \<Rightarrow> max 0 (now - since) \<ge> HANDOVER_GRACE | None \<Rightarrow> False))"

definition promised :: "string \<Rightarrow> instant \<Rightarrow> host_admission \<Rightarrow> nat" where
  "promised host now a =
     (\<Sum>start \<leftarrow> filter (\<lambda>start. sg_host start = host \<and> \<not> starting_expired now start) (map snd (ha_starting a)).
        sg_connections start)"

definition has_room :: "host_claim \<Rightarrow> instant \<Rightarrow> host_admission \<Rightarrow> bool" where
  "has_room claim now a = (hc_free claim > promised (hc_host claim) now a)"

definition ha_start :: "download_id \<Rightarrow> host_claim \<Rightarrow> instant \<Rightarrow> host_admission \<Rightarrow> host_admission" where
  "ha_start i claim now a =
     a\<lparr>ha_starting := AList.update i \<lparr>sg_host = hc_host claim, sg_connections = max (hc_connections claim) 1,
                                      sg_started = now, sg_handed_over = None\<rparr> (ha_starting a)\<rparr>"

definition ha_handed_over :: "download_id \<Rightarrow> instant \<Rightarrow> host_admission \<Rightarrow> host_admission" where
  "ha_handed_over i now a =
     a\<lparr>ha_starting := AList.map_entry i (\<lambda>start. start\<lparr>sg_handed_over := Some now\<rparr>) (ha_starting a)\<rparr>"

definition ha_turned_to :: "download_id \<Rightarrow> string \<Rightarrow> host_admission \<Rightarrow> host_admission" where
  "ha_turned_to i host a =
     (case map_of (ha_starting a) i of
        Some start \<Rightarrow> if sg_host start \<noteq> host then a\<lparr>ha_starting := AList.delete i (ha_starting a)\<rparr> else a
      | None \<Rightarrow> a)"

definition ha_finished :: "download_id \<Rightarrow> host_admission \<Rightarrow> host_admission" where
  "ha_finished i a = a\<lparr>ha_starting := AList.delete i (ha_starting a)\<rparr>"

definition ha_settle :: "(download_id \<times> string) list \<Rightarrow> instant \<Rightarrow> host_admission \<Rightarrow> host_admission" where
  "ha_settle waiting now a =
     a\<lparr>ha_starting := filter (\<lambda>(_, start). \<not> starting_expired now start) (ha_starting a), ha_waiting := waiting\<rparr>"

text \<open>
  What a file asks of its host: \<open>resolvable\<close> says whether a resolver plugin handles its address,
  \<open>chunks\<close> is the number of chunks a direct transfer opens.
\<close>

definition claim_of :: "(url \<Rightarrow> bool) \<Rightarrow> (url \<Rightarrow> nat) \<Rightarrow> host_limits \<Rightarrow> 'a download_file_scheme \<Rightarrow> host_claim option" where
  "claim_of resolvable chunks limits file =
     (if df_kind file \<noteq> Http then None
      else case hl_free (df_source file) limits of
             None \<Rightarrow> None
           | Some free \<Rightarrow>
               map_option (\<lambda>host. \<lparr>hc_host = host_key host, hc_free = free,
                   hc_connections = (if resolvable (df_source file) then 1 else chunks (df_source file))\<rparr>)
                 (url_host (df_source file)))"

end
