(* ===== verification/HoldsProps.thy ===== *)
theory HoldsProps
  imports Holds
begin

text \<open>
  Properties of the holds: how long a hoster stays held back, when the queue's hold for an account
  stands, and how many connections one host can see.
\<close>

section \<open>Hosters\<close>

text \<open>What happens to the blocks between two clearings, each with its clock reading.\<close>

datatype host_event = Reported url instant | Asked url | Listed

fun hb_step :: "host_event \<times> instant \<Rightarrow> host_blocks \<Rightarrow> host_blocks" where
  "hb_step (Reported source until, now) blocked = hb_block source until blocked"
| "hb_step (Asked source, now) blocked = snd (blocked_until source now blocked)"
| "hb_step (Listed, now) blocked = snd (hb_active now blocked)"

definition live :: "instant \<Rightarrow> host_blocks \<Rightarrow> string \<Rightarrow> instant option" where
  "live now blocked host = Option.bind (map_of blocked host) (\<lambda>u. if now < u then Some u else None)"

lemma blocked_until_live:
  "fst (blocked_until source now blocked) = Option.bind (block_key source) (live now blocked)"
  by (simp add: blocked_until_def live_def split: option.split)

lemma hb_step_facts:
  assumes "keys_once blocked" and "t \<le> now"
  shows "keys_once (hb_step (e, t) blocked)"
    and "live now (hb_step (e, t) blocked) host =
      (case e of
         Reported source until \<Rightarrow>
           if block_key source = Some host \<and> now < until
           then Some (case live now blocked host of Some u \<Rightarrow> max u until | None \<Rightarrow> until)
           else live now blocked host
       | _ \<Rightarrow> live now blocked host)"
proof -
  have r: "live now (hb_retain t blocked) host = live now blocked host"
    using hosters.ends_expire [OF assms(1), of t host] assms(2)
    by (cases "map_of blocked host") (auto simp: live_def)
  have a: "snd (hb_active t blocked) = hb_retain t blocked" by (simp add: hb_active_def Let_def)
  show "keys_once (hb_step (e, t) blocked)"
    using assms(1) hosters.inv_expire [OF assms(1), of t] a
    by (cases e) (auto simp: hb_block_def hb_hold_def blocked_until_def split: option.split)
  show "live now (hb_step (e, t) blocked) host =
      (case e of
         Reported source until \<Rightarrow>
           if block_key source = Some host \<and> now < until
           then Some (case live now blocked host of Some u \<Rightarrow> max u until | None \<Rightarrow> until)
           else live now blocked host
       | _ \<Rightarrow> live now blocked host)"
  proof (cases e)
    case (Reported source until)
    then show ?thesis
      by (cases "map_of blocked host") (auto simp: hb_block_def hb_hold_def live_def update_conv' max_def split: option.split)
  next
    case (Asked source)
    then show ?thesis
      using assms(2) by (auto simp: blocked_until_def live_def delete_conv' split: option.split)
  next
    case Listed
    then show ?thesis using r a by simp
  qed
qed

definition reported :: "(host_event \<times> instant) list \<Rightarrow> string \<Rightarrow> instant \<Rightarrow> instant set" where
  "reported es host now =
     {until. now < until \<and> (\<exists>source t. (Reported source until, t) \<in> set es \<and> block_key source = Some host)}"

lemma reported_snoc:
  "reported (es @ [(e, t)]) host now =
     (case e of Reported source until \<Rightarrow>
        if block_key source = Some host \<and> now < until then insert until (reported es host now) else reported es host now
      | _ \<Rightarrow> reported es host now)"
  by (cases e) (auto simp: reported_def)

lemma finite_reported: "finite (reported es host now)"
proof (rule finite_subset)
  show "reported es host now \<subseteq> (\<lambda>e. case fst e of Reported source until \<Rightarrow> until | _ \<Rightarrow> 0) ` set es"
    by (force simp: reported_def image_iff)
qed simp

lemma hb_run_facts:
  "\<forall>(e, t) \<in> set es. t \<le> now \<Longrightarrow>
   keys_once (fold hb_step es [])
   \<and> live now (fold hb_step es []) host =
      (if reported es host now = {} then None else Some (Max (reported es host now)))"
proof (induction es rule: rev_induct)
  case Nil
  then show ?case by (simp add: live_def reported_def)
next
  case (snoc x es)
  obtain e t where x: "x = (e, t)" by (cases x)
  have k: "keys_once (fold hb_step es [])" and t: "t \<le> now"
    and ih: "live now (fold hb_step es []) host =
      (if reported es host now = {} then None else Some (Max (reported es host now)))"
    using snoc x by auto
  note f = hb_step_facts [OF k t, of e]
  show ?case
    unfolding x reported_snoc fold_append fold.simps comp_apply id_apply f(2) ih
    using f(1) finite_reported [of es host now]
    by (auto simp: max.commute split: host_event.split)
qed

text \<open>A hoster that reported an IP limit is held back until the longest wait it reported,
  whatever was looked up or listed meanwhile and under whichever of its names: an anonymous link
  of it is told the latest end that still lies ahead, and no other hoster is held.\<close>

lemma hoster_held_for_the_longest_wait:
  assumes "\<forall>(e, t) \<in> set es. t \<le> now" and "block_key source = Some host"
  shows "fst (blocked_until source now (fold hb_step es [])) =
     (if reported es host now = {} then None else Some (Max (reported es host now)))"
  using hb_run_facts [OF assms(1), of host] by (simp add: blocked_until_live assms(2))

definition link :: "string \<Rightarrow> url" where
  "link host = \<lparr>url_text = host, url_scheme = ''https'', url_host = Some host\<rparr>"

lemma hoster_held_for_the_longest_wait_sample:
  "fst (blocked_until (link ''www.a.com'') 5
      (fold hb_step [(Reported (link ''a.com'') 9, 1), (Reported (link ''A.com'') 7, 2), (Asked (link ''a.com''), 3)] [])) = Some 9"
proof -
  let ?es = "[(Reported (link ''a.com'') 9, 1), (Reported (link ''A.com'') 7, 2), (Asked (link ''a.com''), 3)]"
  have k: "block_key (link ''www.a.com'') = Some ''a.com''" "block_key (link ''a.com'') = Some ''a.com''"
    "block_key (link ''A.com'') = Some ''a.com''" by code_simp+
  have "reported ?es ''a.com'' 5 = {9, 7}"
    unfolding reported_def using k(2,3) by auto
  then show ?thesis using hoster_held_for_the_longest_wait [of ?es 5, OF _ k(1)] by simp
qed

section \<open>Accounts\<close>

text \<open>The account holds beside the queue's: other sources set theirs at any time.\<close>

inductive traffic_step :: "traffic_holds \<times> holds \<Rightarrow> traffic_holds \<times> holds \<Rightarrow> bool" where
  Configure: "traffic_step (h, q) (th_configure action overrides h, q)"
| Hold: "traffic_step (h, q) (th_hold account until now h, q)"
| Check: "traffic_step (h, q) (snd (due_checks now h), q)"
| Release: "traffic_step (h, q) (snd (th_release account h), q)"
| Release_all: "traffic_step (h, q) (th_release_all h, q)"
| Settle: "traffic_step (h, q) (settle_account_traffic now h q)"
| Other: "source \<noteq> AccountTraffic \<Longrightarrow> traffic_step (h, q) (h, set_hold source reason q)"

inductive_cases traffic_stepE: "traffic_step (h, q) x"

definition in_step :: "traffic_holds \<times> holds \<Rightarrow> bool" where
  "in_step = (\<lambda>(h, q). keys_once (th_held h) \<and> (th_queue_held h \<longleftrightarrow> q AccountTraffic \<noteq> None))"

lemma queue_wanted_retain:
  assumes "keys_once (th_held h)"
  shows "queue_wanted (th_retain now h) \<longleftrightarrow>
    (\<exists>account. accounts.held h account now \<and> action_for account h = PauseQueue)"
proof -
  have a: "action_for account (h\<lparr>th_held := xs\<rparr>) = action_for account h" for account xs
    by (simp add: action_for_def split: option.split)
  have "queue_wanted (th_retain now h) \<longleftrightarrow>
      (\<exists>(account, held) \<in> set (th_held h). now < ah_until held \<and> action_for account h = PauseQueue)"
    by (auto simp: queue_wanted_def th_retain_def list_ex_iff a)
  also have "\<dots> \<longleftrightarrow> (\<exists>account held. map_of (th_held h) account = Some held \<and> now < ah_until held
      \<and> action_for account h = PauseQueue)"
    using assms by (auto simp: keys_once_def map_of_eq_Some_iff split: prod.splits)
  finally show ?thesis by (auto simp: accounts.held_def account_end_def)
qed

lemma settle_in_step:
  assumes "in_step (h, q)" and "settle_account_traffic now h q = (h', q')"
  shows "in_step (h', q') \<and> (q' AccountTraffic \<noteq> None \<longleftrightarrow> queue_wanted (th_retain now h))
    \<and> (\<forall>source. source = AccountTraffic \<or> q' source = q source)"
proof -
  have k: "keys_once (th_held (th_retain now h))"
    using assms(1) accounts.inv_expire by (simp add: in_step_def)
  show ?thesis
    using assms k
    by (cases "queue_wanted (th_retain now h)"; cases "th_queue_held h")
      (auto simp: in_step_def settle_account_traffic_def th_settle_def Let_def set_hold_def th_retain_def
        split: if_splits)
qed

lemma traffic_step_in_step: "traffic_step x y \<Longrightarrow> in_step x \<Longrightarrow> in_step y"
proof (induction rule: traffic_step.induct)
  case (Check h q now)
  have k: "map fst (th_held (snd (due_checks now h))) = map fst (th_held h)"
    by (auto simp: due_checks_def)
  have q: "th_queue_held (snd (due_checks now h)) = th_queue_held h" by (simp add: due_checks_def)
  show ?case using Check unfolding in_step_def keys_once_def prod.case k q .
next
  case (Settle h q now)
  then show ?case using settle_in_step [of h q now] by (cases "settle_account_traffic now h q") simp
qed (auto simp: in_step_def th_configure_def th_hold_def th_release_def th_release_all_def set_hold_def)

lemma traffic_reachable: "traffic_step\<^sup>*\<^sup>* (traffic_holds_new, \<lambda>_. None) x \<Longrightarrow> in_step x"
proof (induction rule: rtranclp_induct)
  case base
  show ?case by (simp add: in_step_def traffic_holds_new_def keys_once_def)
qed (rule traffic_step_in_step)

text \<open>Property C34. The queue's hold follows the accounts: however the holds came about and whoever else
  holds the queue, once they are settled the queue is held for an account's traffic exactly
  when an account whose setting pauses the queue still waits, and no other source's hold is
  touched.\<close>

theorem queue_hold_follows_the_accounts:
  assumes "traffic_step\<^sup>*\<^sup>* (traffic_holds_new, \<lambda>_. None) (h, q)"
    and "settle_account_traffic now h q = (h', q')"
  shows "(q' AccountTraffic \<noteq> None \<longleftrightarrow>
      (\<exists>account u. account_end h account = Some u \<and> now < u \<and> action_for account h = PauseQueue))
    \<and> (\<forall>source. source = AccountTraffic \<or> q' source = q source)"
proof -
  have s: "in_step (h, q)" by (rule traffic_reachable [OF assms(1)])
  then have "keys_once (th_held h)" by (simp add: in_step_def)
  from settle_in_step [OF s assms(2)] queue_wanted_retain [OF this, of now] show ?thesis
    by (auto simp: accounts.held_def)
qed

theorem queue_hold_follows_the_accounts_witness:
  "snd (settle_account_traffic 1 (th_hold ''a'' 9 0 (th_configure PauseQueue Map.empty traffic_holds_new)) (\<lambda>_. None))
     AccountTraffic \<noteq> None"
proof -
  let ?c = "th_configure PauseQueue Map.empty traffic_holds_new"
  let ?h = "th_hold ''a'' 9 0 ?c"
  have "traffic_step\<^sup>*\<^sup>* (traffic_holds_new, \<lambda>_. None) (?h, \<lambda>_. None)"
    by (rule rtranclp_trans [OF r_into_rtranclp r_into_rtranclp]) (rule Configure, rule Hold)
  moreover obtain h' q' where e: "settle_account_traffic 1 ?h (\<lambda>_. None) = (h', q')" by fastforce
  ultimately have "q' AccountTraffic \<noteq> None \<longleftrightarrow>
      (\<exists>account u. account_end ?h account = Some u \<and> 1 < u \<and> action_for account ?h = PauseQueue)"
    using queue_hold_follows_the_accounts [of ?h "\<lambda>_. None" 1 h' q'] by blast
  moreover have "account_end ?h ''a'' = Some 9 \<and> (1 :: int) < 9 \<and> action_for ''a'' ?h = PauseQueue"
    by (simp add: account_end_def th_hold_def th_configure_def traffic_holds_new_def action_for_def)
  ultimately have "q' AccountTraffic \<noteq> None" by blast
  then show ?thesis unfolding e by simp
qed

section \<open>Connections of one host\<close>

inductive host_step :: "host_limits \<Rightarrow> host_limits \<Rightarrow> bool" where
  Limit: "host_step h (hl_set_limit n h)"
| Acquire: "host_step h (snd (hl_acquire url h))"
| Give_back: "hl_users h permit > 0 \<Longrightarrow> host_step h (hl_release permit h)"
| Note_ranges: "host_step h (note_ranges_ignored url h)"

definition hl_ok :: "host_limits \<Rightarrow> bool" where
  "hl_ok h \<longleftrightarrow> hl_limit h \<le> 32 \<and> keys_once (hl_slots h)
     \<and> (\<forall>host s. map_of (hl_slots h) host = Some s \<longrightarrow>
          sm_id s < hl_made h \<and> hl_users h (sm_id s) + sm_free s = hl_limit h)
     \<and> (\<forall>a b s t. map_of (hl_slots h) a = Some s \<longrightarrow> map_of (hl_slots h) b = Some t \<longrightarrow> sm_id s = sm_id t \<longrightarrow> a = b)
     \<and> (\<forall>i. hl_made h \<le> i \<longrightarrow> hl_users h i = 0)"

lemma hl_okI:
  assumes "hl_limit h \<le> 32" and "keys_once (hl_slots h)"
    and "\<And>host s. map_of (hl_slots h) host = Some s \<Longrightarrow> sm_id s < hl_made h \<and> hl_users h (sm_id s) + sm_free s = hl_limit h"
    and "\<And>a b s t. map_of (hl_slots h) a = Some s \<Longrightarrow> map_of (hl_slots h) b = Some t \<Longrightarrow> sm_id s = sm_id t \<Longrightarrow> a = b"
    and "\<And>i. hl_made h \<le> i \<Longrightarrow> hl_users h i = 0"
  shows "hl_ok h"
  using assms unfolding hl_ok_def by blast

lemma hl_okD:
  assumes "hl_ok h"
  shows "hl_limit h \<le> 32" and "keys_once (hl_slots h)"
    and "map_of (hl_slots h) host = Some s \<Longrightarrow> sm_id s < hl_made h"
    and "map_of (hl_slots h) host = Some s \<Longrightarrow> hl_users h (sm_id s) + sm_free s = hl_limit h"
    and "map_of (hl_slots h) a = Some s \<Longrightarrow> map_of (hl_slots h) b = Some t \<Longrightarrow> sm_id s = sm_id t \<Longrightarrow> a = b"
    and "hl_made h \<le> i \<Longrightarrow> hl_users h i = 0"
  using assms unfolding hl_ok_def by blast+

lemma hl_ok_limit: "hl_ok h \<Longrightarrow> hl_ok (hl_set_limit n h)"
  by (auto simp: hl_set_limit_def Let_def hl_ok_def keys_once_def MAX_CONNECTIONS_PER_HOST_def)

lemma hl_ok_sweep:
  assumes "hl_ok h"
  shows "hl_ok (h\<lparr>hl_slots := filter (\<lambda>(_, s). P s) (hl_slots h)\<rparr>)"
proof -
  have m: "map_of (filter (\<lambda>(_, s). P s) (hl_slots h)) k = Some s \<Longrightarrow> map_of (hl_slots h) k = Some s" for k s
    using map_of_filter_snd [of "hl_slots h" P k] hl_okD(2) [OF assms]
    by (cases "map_of (hl_slots h) k") (auto simp: keys_once_def case_prod_beta' split: if_splits)
  show ?thesis
  proof (rule hl_okI)
    let ?h = "h\<lparr>hl_slots := filter (\<lambda>(_, s). P s) (hl_slots h)\<rparr>"
    show "hl_limit ?h \<le> 32" "keys_once (hl_slots ?h)" using hl_okD(1,2) [OF assms] by simp_all
    show "sm_id s < hl_made ?h \<and> hl_users ?h (sm_id s) + sm_free s = hl_limit ?h"
      if "map_of (hl_slots ?h) host = Some s" for host s
      using hl_okD(3,4) [OF assms, of host s] m [of host s] that by simp
    show "a = b" if "map_of (hl_slots ?h) a = Some s" "map_of (hl_slots ?h) b = Some t" "sm_id s = sm_id t" for a b s t
      using hl_okD(5) [OF assms, of a s b t] m [of a s] m [of b t] that by simp
    show "hl_users ?h i = 0" if "hl_made ?h \<le> i" for i
      using hl_okD(6) [OF assms, of i] that by simp
  qed
qed

lemma hl_ok_release:
  assumes "hl_ok h" and "hl_users h permit > 0"
  shows "hl_ok (hl_release permit h)"
proof -
  let ?f = "\<lambda>s. if sm_id s = permit then s\<lparr>sm_free := sm_free s + 1\<rparr> else s"
  have m: "map_of (hl_slots (hl_release permit h)) = map_option ?f \<circ> map_of (hl_slots h)"
    by (simp add: hl_release_def map_of_map)
  have i: "sm_id (?f s) = sm_id s" for s by simp
  show ?thesis
  proof (rule hl_okI)
    show "hl_limit (hl_release permit h) \<le> 32" using hl_okD(1) [OF assms(1)] by (simp add: hl_release_def)
    show "keys_once (hl_slots (hl_release permit h))"
      using hl_okD(2) [OF assms(1)] by (simp add: hl_release_def keys_once_def case_prod_beta' o_def)
    show "sm_id s < hl_made (hl_release permit h)
        \<and> hl_users (hl_release permit h) (sm_id s) + sm_free s = hl_limit (hl_release permit h)"
      if r: "map_of (hl_slots (hl_release permit h)) host = Some s" for host s
    proof -
      obtain s0 where s0: "map_of (hl_slots h) host = Some s0" "s = ?f s0"
        using r unfolding m by (cases "map_of (hl_slots h) host") simp_all
      show ?thesis
        using hl_okD(3,4) [OF assms(1) s0(1)] assms(2) by (auto simp: s0(2) hl_release_def)
    qed
    show "a = b" if "map_of (hl_slots (hl_release permit h)) a = Some s"
      "map_of (hl_slots (hl_release permit h)) b = Some t" "sm_id s = sm_id t" for a b s t
      using that hl_okD(5) [OF assms(1)] by (auto simp: m i split: if_splits)
    show "hl_users (hl_release permit h) i = 0" if "hl_made (hl_release permit h) \<le> i" for i
      using that hl_okD(6) [OF assms(1), of i] assms(2) by (auto simp: hl_release_def)
  qed
qed

lemma hl_ok_add:
  assumes "hl_ok h" and "map_of (hl_slots h) host = None"
  shows "hl_ok (h\<lparr>hl_slots := hl_slots h @ [(host, \<lparr>sm_id = hl_made h, sm_free = hl_limit h\<rparr>)], hl_made := hl_made h + 1\<rparr>)"
    (is "hl_ok ?h")
proof -
  have n: "host \<notin> fst ` set (hl_slots h)" using assms(2) by (simp add: map_of_eq_None_iff)
  have m: "map_of (hl_slots ?h) a = (if a = host then Some \<lparr>sm_id = hl_made h, sm_free = hl_limit h\<rparr> else map_of (hl_slots h) a)" for a
    using assms(2) by (auto simp: map_add_def split: option.split)
  have old: "sm_id s \<noteq> hl_made h" if "map_of (hl_slots h) a = Some s" for a s
    using hl_okD(3) [OF assms(1) that] by simp
  show ?thesis
  proof (rule hl_okI)
    show "hl_limit ?h \<le> 32" using hl_okD(1) [OF assms(1)] by simp
    show "keys_once (hl_slots ?h)" using hl_okD(2) [OF assms(1)] n by (auto simp: keys_once_def)
    show "sm_id s < hl_made ?h \<and> hl_users ?h (sm_id s) + sm_free s = hl_limit ?h" if "map_of (hl_slots ?h) a = Some s" for a s
      using that hl_okD(3,4) [OF assms(1), of a s] hl_okD(6) [OF assms(1), of "hl_made h"] unfolding m
      by (auto split: if_splits)
    show "a = b" if "map_of (hl_slots ?h) a = Some s" "map_of (hl_slots ?h) b = Some t" "sm_id s = sm_id t" for a b s t
      using that hl_okD(5) [OF assms(1), of a s b t] old [of a s] old [of b t] unfolding m by (auto split: if_splits)
    show "hl_users ?h i = 0" if "hl_made ?h \<le> i" for i using that hl_okD(6) [OF assms(1), of i] by simp
  qed
qed

lemma hl_ok_take:
  assumes "hl_ok h" and "map_of (hl_slots h) host = Some s" and "sm_free s \<noteq> 0"
  shows "hl_ok (h\<lparr>hl_slots := AList.update host (s\<lparr>sm_free := sm_free s - 1\<rparr>) (hl_slots h),
                   hl_users := (hl_users h)(sm_id s := hl_users h (sm_id s) + 1)\<rparr>)" (is "hl_ok ?h")
proof -
  have m: "map_of (hl_slots ?h) a = (if a = host then Some (s\<lparr>sm_free := sm_free s - 1\<rparr>) else map_of (hl_slots h) a)" for a
    by (simp add: update_conv')
  have other: "sm_id t \<noteq> sm_id s" if "map_of (hl_slots h) a = Some t" "a \<noteq> host" for a t
    using hl_okD(5) [OF assms(1) that(1) assms(2)] that(2) by auto
  show ?thesis
  proof (rule hl_okI)
    show "hl_limit ?h \<le> 32" using hl_okD(1) [OF assms(1)] by simp
    show "keys_once (hl_slots ?h)" using hl_okD(2) [OF assms(1)] by simp
    show "sm_id t < hl_made ?h \<and> hl_users ?h (sm_id t) + sm_free t = hl_limit ?h"
      if t: "map_of (hl_slots ?h) a = Some t" for a t
    proof (cases "a = host")
      case True
      then show ?thesis using t hl_okD(3,4) [OF assms(1,2)] assms(3) unfolding m by auto
    next
      case False
      then have "map_of (hl_slots h) a = Some t" using t unfolding m by simp
      then show ?thesis using hl_okD(3,4) [OF assms(1)] other [OF _ False] by simp
    qed
    show "a = b" if "map_of (hl_slots ?h) a = Some t" "map_of (hl_slots ?h) b = Some u" "sm_id t = sm_id u" for a b t u
      using that hl_okD(5) [OF assms(1), of a t b u] other [of a t] other [of b u] unfolding m by (auto split: if_splits)
    show "hl_users ?h i = 0" if "hl_made ?h \<le> i" for i
      using that hl_okD(6) [OF assms(1), of i] hl_okD(3) [OF assms(1,2)] by auto
  qed
qed

lemma hl_acquire_cases:
  assumes "hl_ok h"
  obtains "hl_acquire url h = (None, h)"
  | host g where "block_key url = Some host" "hl_limit h \<noteq> 0" "hl_ok g" "hl_limit g = hl_limit h"
      "hl_acquire url h = (Some None, g)"
  | host g s where "block_key url = Some host" "hl_limit h \<noteq> 0" "hl_ok g" "hl_limit g = hl_limit h"
      "map_of (hl_slots g) host = Some s" "sm_free s \<noteq> 0" "hl_users g = hl_users h"
      "hl_free url h = Some (sm_free s)"
      "hl_acquire url h = (Some (Some (sm_id s)),
         g\<lparr>hl_slots := AList.update host (s\<lparr>sm_free := sm_free s - 1\<rparr>) (hl_slots g),
           hl_users := (hl_users g)(sm_id s := hl_users g (sm_id s) + 1)\<rparr>)"
proof (cases "hl_limit h = 0 \<or> block_key url = None")
  case True
  then have "hl_acquire url h = (None, h)" by (auto simp: hl_acquire_def)
  then show thesis by (rule that(1))
next
  case False
  then obtain host where host: "block_key url = Some host" and l: "hl_limit h \<noteq> 0" by auto
  define slots where "slots = (if MAX_TRACKED_HOSTS \<le> length (hl_slots h)
      then filter (\<lambda>(_, s). hl_users h (sm_id s) > 0) (hl_slots h) else hl_slots h)"
  have swept: "hl_ok (h\<lparr>hl_slots := slots\<rparr>)"
    using assms hl_ok_sweep [OF assms, of "\<lambda>s. hl_users h (sm_id s) > 0"] unfolding slots_def by auto
  define g where "g = (case map_of slots host of
      Some _ \<Rightarrow> h\<lparr>hl_slots := slots\<rparr>
    | None \<Rightarrow> h\<lparr>hl_slots := slots @ [(host, \<lparr>sm_id = hl_made h, sm_free = hl_limit h\<rparr>)], hl_made := hl_made h + 1\<rparr>)"
  have g: "hl_ok g" "hl_limit g = hl_limit h" "hl_users g = hl_users h"
    using swept hl_ok_add [OF swept, of host] unfolding g_def by (auto split: option.split)
  have kept: "map_of slots host = (case map_of (hl_slots h) host of
      Some s \<Rightarrow> if MAX_TRACKED_HOSTS \<le> length (hl_slots h) \<and> hl_users h (sm_id s) = 0 then None else Some s
    | None \<Rightarrow> None)"
    using map_of_filter_snd [of "hl_slots h" "\<lambda>s. hl_users h (sm_id s) > 0" host] hl_okD(2) [OF assms]
    unfolding slots_def by (auto simp: keys_once_def case_prod_beta' split: option.split)
  have f: "hl_free url h = Some (sm_free s)" if "map_of (hl_slots g) host = Some s" for s
  proof (cases "map_of slots host")
    case None
    then have "s = \<lparr>sm_id = hl_made h, sm_free = hl_limit h\<rparr>" using that unfolding g_def by (simp add: map_add_def)
    then show ?thesis
      using None hl_okD(4) [OF assms, of host] l host unfolding kept hl_free_def
      by (auto split: option.splits if_splits)
  next
    case (Some t)
    then show ?thesis using that l host kept unfolding g_def hl_free_def by (auto split: option.splits if_splits)
  qed
  have a: "hl_acquire url h = (case map_of (hl_slots g) host of
      None \<Rightarrow> (Some None, g)
    | Some s \<Rightarrow> if sm_free s = 0 then (Some None, g)
        else (Some (Some (sm_id s)), g\<lparr>hl_slots := AList.update host (s\<lparr>sm_free := sm_free s - 1\<rparr>) (hl_slots g),
                hl_users := (hl_users g)(sm_id s := hl_users g (sm_id s) + 1)\<rparr>))"
    using l host unfolding hl_acquire_def Let_def g_def slots_def by simp
  show thesis
  proof (cases "\<exists>s. map_of (hl_slots g) host = Some s \<and> sm_free s \<noteq> 0")
    case True
    then obtain s where "map_of (hl_slots g) host = Some s" "sm_free s \<noteq> 0" by blast
    then show thesis using that(3) [OF host l g(1,2) _ _ g(3) f] a by simp
  next
    case False
    then show thesis using that(2) [OF host l g(1,2)] a by (auto split: option.splits)
  qed
qed

lemma host_step_ok: "host_step h h' \<Longrightarrow> hl_ok h \<Longrightarrow> hl_ok h'"
proof (induction rule: host_step.induct)
  case (Acquire h url)
  show ?case
  proof (rule hl_acquire_cases [OF Acquire, of url])
    fix host g s
    assume g: "hl_ok g" "map_of (hl_slots g) host = Some s" "sm_free s \<noteq> 0"
      and e: "hl_acquire url h = (Some (Some (sm_id s)),
         g\<lparr>hl_slots := AList.update host (s\<lparr>sm_free := sm_free s - 1\<rparr>) (hl_slots g),
           hl_users := (hl_users g)(sm_id s := hl_users g (sm_id s) + 1)\<rparr>)"
    show ?thesis unfolding e snd_conv by (rule hl_ok_take [OF g])
  qed (simp_all add: Acquire)
next
  case (Note_ranges h url)
  then show ?case by (auto simp: note_ranges_ignored_def hl_ok_def split: option.split)
qed (auto intro: hl_ok_limit hl_ok_release)

lemma host_reachable: "host_step\<^sup>*\<^sup>* (host_limits_new n) h \<Longrightarrow> hl_ok h"
proof (induction rule: rtranclp_induct)
  case base
  show ?case by (auto simp: hl_ok_def host_limits_new_def keys_once_def MAX_CONNECTIONS_PER_HOST_def)
qed (rule host_step_ok)

text \<open>Property C33. One host sees no more connections than the limit: whatever was asked for, given back
  and set before, a permit is handed out only while fewer than the limit in force -- at most
  32 -- are out on the host's present semaphore, and the number of free connections the
  dispatcher reads is the limit less those.\<close>

theorem host_sees_no_more_than_the_limit:
  assumes "host_step\<^sup>*\<^sup>* (host_limits_new n) h" and "hl_acquire url h = (Some (Some permit), h')"
  shows "hl_users h permit < hl_limit h \<and> hl_users h' permit = hl_users h permit + 1 \<and> hl_limit h \<le> 32
    \<and> hl_free url h = Some (hl_limit h - hl_users h permit)
    \<and> hl_free url h' = Some (hl_limit h - hl_users h' permit)"
proof -
  have ok: "hl_ok h" by (rule host_reachable [OF assms(1)])
  show ?thesis
  proof (rule hl_acquire_cases [OF ok, of url])
    fix host g s
    assume k: "block_key url = Some host" "hl_limit h \<noteq> 0" and g: "hl_ok g" "hl_limit g = hl_limit h"
      "map_of (hl_slots g) host = Some s" "sm_free s \<noteq> 0" "hl_users g = hl_users h"
      and f: "hl_free url h = Some (sm_free s)"
      and e: "hl_acquire url h = (Some (Some (sm_id s)),
         g\<lparr>hl_slots := AList.update host (s\<lparr>sm_free := sm_free s - 1\<rparr>) (hl_slots g),
           hl_users := (hl_users g)(sm_id s := hl_users g (sm_id s) + 1)\<rparr>)"
    have p: "permit = sm_id s" and h': "h' = g\<lparr>hl_slots := AList.update host (s\<lparr>sm_free := sm_free s - 1\<rparr>) (hl_slots g),
           hl_users := (hl_users g)(sm_id s := hl_users g (sm_id s) + 1)\<rparr>"
      using assms(2) unfolding e by auto
    have u: "hl_users h (sm_id s) + sm_free s = hl_limit h"
      using hl_okD(4) [OF g(1,3)] by (simp add: g(2,5))
    have "hl_free url h' = Some (sm_free s - 1)"
      using k g(2) by (simp add: h' hl_free_def update_conv')
    then show ?thesis using u f g(4,5) hl_okD(1) [OF ok] by (auto simp: p h')
  qed (use assms(2) in simp_all)
qed

theorem host_sees_no_more_than_the_limit_witness:
  "hl_free (link ''a.com'') (snd (hl_acquire (link ''a.com'') (host_limits_new 2))) = Some 1"
proof -
  have "fst (hl_acquire (link ''a.com'') (host_limits_new 2)) = Some (Some 0)" by code_simp
  then have "hl_acquire (link ''a.com'') (host_limits_new 2) =
      (Some (Some 0), snd (hl_acquire (link ''a.com'') (host_limits_new 2)))" by (metis prod.collapse)
  from host_sees_no_more_than_the_limit [OF rtranclp.rtrancl_refl this]
  show ?thesis by (simp add: host_limits_new_def MAX_CONNECTIONS_PER_HOST_def)
qed

end
