(* ===== verification/Queries.thy ===== *)
theory Queries
  imports StoreFacts
begin

text \<open>
  The queue read back in its order (\<open>rd-db/src/models_queries.rs\<close>): packages by priority, position
  and age, the files of a package by position and age. A file is listed through its package's row.
  Files equal in all of these keep the order they are stored in.
\<close>

definition queue_key :: "package_row \<Rightarrow> download_row \<Rightarrow> int \<times> int \<times> instant \<times> int \<times> instant" where
  "queue_key k r =
     (- sint (as_i32 (pk_priority k)), pk_position k, pk_created_at k, df_position r, df_created_at r)"

definition queued_under :: "store \<Rightarrow> download_row \<Rightarrow> int \<times> int \<times> instant \<times> int \<times> instant" where
  "queued_under st r =
     (case get_package (df_package_id r) st of
        Some k \<Rightarrow> queue_key k r
      | None \<Rightarrow> (0, 0, 0, df_position r, df_created_at r))"

definition in_queue_order :: "(download_row \<Rightarrow> bool) \<Rightarrow> store \<Rightarrow> download_row list" where
  "in_queue_order P st =
     sort_key (queued_under st)
       (filter (\<lambda>r. P r \<and> get_package (df_package_id r) st \<noteq> None) (st_downloads st))"

definition list_downloads :: "store \<Rightarrow> download_row list" where
  "list_downloads st = in_queue_order (\<lambda>_. True) (st\<lparr>st_downloads := sort_key df_id (st_downloads st)\<rparr>)"

definition downloads_for_package :: "package_id \<Rightarrow> store \<Rightarrow> download_row list" where
  "downloads_for_package p st = sort_key (\<lambda>r. (df_position r, df_created_at r)) (package_downloads p st)"

definition downloads_blocked_by :: "string \<Rightarrow> store \<Rightarrow> download_id list" where
  "downloads_blocked_by reason st =
     map df_id (filter (\<lambda>r. df_state r = Blocked \<and> dr_block_reason r = Some reason) (st_downloads st))"

definition startable_downloads :: "store \<Rightarrow> download_row list" where
  "startable_downloads st = in_queue_order (\<lambda>r. df_state r = Queued \<or> df_state r = RetryWait) st"

definition failed_downloads :: "store \<Rightarrow> download_row list" where
  "failed_downloads st = in_queue_order (\<lambda>r. df_state r = Failed) st"

section \<open>What the lists hold\<close>

lemma set_in_queue_order [simp]:
  "r \<in> set (in_queue_order P st) \<longleftrightarrow>
     r \<in> set (st_downloads st) \<and> P r \<and> get_package (df_package_id r) st \<noteq> None"
  by (auto simp: in_queue_order_def)

lemma set_downloads_for_package [simp]: "set (downloads_for_package p st) = set (package_downloads p st)"
  by (simp add: downloads_for_package_def)

lemma in_package [simp]: "r \<in> set (package_downloads p st) \<longleftrightarrow> r \<in> set (st_downloads st) \<and> df_package_id r = p"
  by (auto simp: package_downloads_def)

lemma distinct_in_queue_order: "store_ok st \<Longrightarrow> distinct (map df_id (in_queue_order P st))"
  by (simp add: in_queue_order_def store_ok_def distinct_map distinct_filter inj_on_def)

lemma distinct_downloads_for_package: "store_ok st \<Longrightarrow> distinct (map df_id (downloads_for_package p st))"
  by (simp add: downloads_for_package_def package_downloads_def store_ok_def distinct_map distinct_filter inj_on_def)

lemma in_queue_order_row:
  "store_ok st \<Longrightarrow> r \<in> set (in_queue_order P st) \<Longrightarrow> get_download (df_id r) st = Some r \<and> P r"
  by (simp add: get_download_in)

end
