(* ===== verification/Turns.thy ===== *)
theory Turns
  imports Queries Holds
begin

text \<open>
  What follows a failed attempt (\<open>rd-scheduler/src/failures.rs\<close>): the retry, the hoster's hold, and in
  a mirror group the handing on of the turn; the sweep that restarts stalled groups, the automatic
  retry's pass (\<open>auto_retry.rs\<close>), and the releases of \<open>account_traffic.rs\<close> and \<open>network.rs\<close>.

  The scheduler is the store and the holds kept in memory. A step that writes more than once keeps
  its earlier writes when a later one fails, so the outcome stands beside the state. One reading of
  the clock serves a step. The staging file a handover deletes is not part of the state.
\<close>

record scheduler =
  sc_store :: store
  sc_blocks :: host_blocks
  sc_traffic :: traffic_holds
  sc_holds :: holds

record scheduler_env =
  ev_redact :: "failure \<Rightarrow> failure"
  ev_latest :: instant
  ev_schedule :: retry_schedule

type_synonym 's outcome = "(store_error + unit) \<times> 's"

text \<open>One write of the store; an error leaves it as it was.\<close>

definition write_store :: "(store \<Rightarrow> store_error + 'a \<times> store) \<Rightarrow> 's scheduler_scheme \<Rightarrow> 's scheduler_scheme outcome" where
  "write_store f s =
     (case f (sc_store s) of
        Inl e \<Rightarrow> (Inl e, s)
      | Inr (_, st) \<Rightarrow> (Inr (), s\<lparr>sc_store := st\<rparr>))"

section \<open>What is recorded on a mirror\<close>

definition reason_code :: "string option \<Rightarrow> failure \<Rightarrow> failure" where
  "reason_code code f = (case code of Some c \<Rightarrow> with_param ''reason_code'' c f | None \<Rightarrow> f)"

definition handover :: "failure \<Rightarrow> string \<Rightarrow> failure" where
  "handover original took_over =
     reason_code (fl_code original)
       (with_param ''reason'' (fl_message original)
         (with_param ''mirror'' took_over
           (failure_coded (fl_category original) HANDOVER_CODE
             (''this mirror was given up and '' @ took_over @ '' took over: '' @ fl_message original))))"

definition exhausted_mirrors :: "failure \<Rightarrow> nat \<Rightarrow> failure" where
  "exhausted_mirrors chosen members =
     (let reason = (case map_of (fl_params chosen) ''reason'' of Some r \<Rightarrow> r | None \<Rightarrow> fl_message chosen);
          code = (case map_of (fl_params chosen) ''reason_code'' of Some c \<Rightarrow> Some c | None \<Rightarrow> fl_code chosen)
      in reason_code code
           (with_param ''reason'' reason
             (with_param ''mirrors'' (dec members)
               (failure_coded (fl_category chosen) EXHAUSTED_CODE
                 (''all '' @ dec members @ '' mirrors of this file failed; the chosen one reported: '' @ reason)))))"

definition size_mismatch :: "u64 \<Rightarrow> u64 \<Rightarrow> failure" where
  "size_mismatch announced offered =
     with_param ''offered_bytes'' (dec (unat offered))
       (with_param ''announced_bytes'' (dec (unat announced))
         (failure_coded Permanent ''download.size_mismatch''
           (''The server offered '' @ dec (unat offered) @ '' bytes for a file announced as ''
             @ dec (unat announced) @ '' bytes'')))"

section \<open>Handing on the turn\<close>

definition waiting_mirrors :: "download_row \<Rightarrow> download_row list \<Rightarrow> download_row list" where
  "waiting_mirrors file downloads = filter (\<lambda>r. df_state r = Skipped) (siblings file downloads)"

definition hand_over ::
    "scheduler_env \<Rightarrow> download_row \<Rightarrow> failure \<Rightarrow> instant option \<Rightarrow> instant
     \<Rightarrow> 's scheduler_scheme \<Rightarrow> 's scheduler_scheme outcome" where
  "hand_over env file failure retry now s =
     (let downloads = downloads_for_package (df_package_id file) (sc_store s) in
      case best_candidate (waiting_mirrors file downloads) of
        None \<Rightarrow>
          if retry \<noteq> None then write_store (record_failure (ev_redact env) (df_id file) failure retry now) s
          else
            let first = leader file downloads;
                members = length (siblings file downloads) + 1;
                verdict = exhausted_mirrors (case df_last_error first of Some f \<Rightarrow> f | None \<Rightarrow> failure) members
            in write_store (record_failure (ev_redact env) (df_id file) verdict None now) s
      | Some next_file \<Rightarrow>
          let took_over = (case url_host (df_source next_file) of Some h \<Rightarrow> h | None \<Rightarrow> ''another mirror'')
          in case write_store (record_failure (ev_redact env) (df_id file) (handover failure took_over) None now) s of
               (Inl e, s) \<Rightarrow> (Inl e, s)
             | (Inr _, s) \<Rightarrow> write_store (transition_download (ev_redact env) (df_id next_file) Queued now) s)"

definition note_account_traffic ::
    "download_row \<Rightarrow> failure \<Rightarrow> instant option \<Rightarrow> instant \<Rightarrow> 's scheduler_scheme \<Rightarrow> 's scheduler_scheme" where
  "note_account_traffic file failure retry now s =
     (case (df_account_id file, retry) of
        (Some account, Some until) \<Rightarrow>
          if \<not> is_account_traffic_exhausted failure then s
          else (case settle_account_traffic now (th_hold account until now (sc_traffic s)) (sc_holds s) of
                  (h, q) \<Rightarrow> s\<lparr>sc_traffic := h, sc_holds := q\<rparr>)
      | _ \<Rightarrow> s)"

definition limit_waits_of :: "failure \<Rightarrow> download_id \<Rightarrow> store \<Rightarrow> store_error + u32" where
  "limit_waits_of failure i st =
     (if \<not> is_limit (fl_category failure) then Inr 0
      else case get_download i st of
             None \<Rightarrow> Inr 0
           | Some r \<Rightarrow> if dr_limit_waits r < 2 ^ 32 then Inr (word_of_nat (dr_limit_waits r))
                       else Inl (InvalidRow ''invalid limit wait count''))"

definition record_error ::
    "scheduler_env \<Rightarrow> download_row \<Rightarrow> failure \<Rightarrow> instant \<Rightarrow> 's scheduler_scheme \<Rightarrow> 's scheduler_scheme outcome" where
  "record_error env file failure now s =
     (case limit_waits_of failure (df_id file) (sc_store s) of
        Inl e \<Rightarrow> (Inl e, s)
      | Inr limit_waits \<Rightarrow>
          let retry = retry_at (ev_latest env) failure (df_retry_count file) limit_waits (ev_schedule env) now;
              failure = (if retry = None \<and> limit_waits_spent failure limit_waits
                         then limit_waits_exhausted failure limit_waits else failure);
              s = note_account_traffic file failure retry now s;
              s = (case (fl_category failure, retry) of
                     (IpBlocked _, Some until) \<Rightarrow> s\<lparr>sc_blocks := hb_block (df_source file) until (sc_blocks s)\<rparr>
                   | _ \<Rightarrow> s)
          in if df_mirror_group file \<noteq> None \<and> hands_over failure retry
             then hand_over env file failure retry now s
             else write_store (record_failure (ev_redact env) (df_id file) failure retry now) s)"

text \<open>
  The counter \<open>resolver_refresh_count\<close> only ever goes from 0 to 1, so it is the set of the downloads
  whose one renewal of the resolved address has been claimed.
\<close>

definition claim_resolver_refresh ::
    "download_id \<Rightarrow> instant \<Rightarrow> download_id set \<Rightarrow> store \<Rightarrow> bool \<times> download_id set \<times> store" where
  "claim_resolver_refresh i now claimed st =
     (if i \<notin> claimed \<and> get_download i st \<noteq> None
      then (True, insert i claimed, update_rows (\<lambda>r. df_id r = i) (\<lambda>r. r\<lparr>dr_updated_at := now\<rparr>) st)
      else (False, claimed, st))"

text \<open>The answer of a hoster that wants a login renews the address once, without a wait.\<close>

definition record_http_error ::
    "scheduler_env \<Rightarrow> bool \<Rightarrow> download_row \<Rightarrow> failure \<Rightarrow> instant \<Rightarrow> download_id set \<Rightarrow> 's scheduler_scheme
     \<Rightarrow> (store_error + unit) \<times> download_id set \<times> 's scheduler_scheme" where
  "record_http_error env has_template file failure now claimed s =
     (let needs_resolver_refresh =
            (fl_category failure \<in> {AuthRequired, AccountInvalid} \<and> (df_account_id file \<noteq> None \<or> has_template))
      in case (if needs_resolver_refresh then claim_resolver_refresh (df_id file) now claimed (sc_store s)
               else (False, claimed, sc_store s)) of
           (True, claimed, st) \<Rightarrow>
             (case write_store (record_failure (ev_redact env) (df_id file) failure (Some now) now) (s\<lparr>sc_store := st\<rparr>) of
                (out, s) \<Rightarrow> (out, claimed, s))
         | (False, claimed, st) \<Rightarrow>
             (case record_error env file failure now s of (out, s) \<Rightarrow> (out, claimed, s)))"

definition wake_mirror ::
    "scheduler_env \<Rightarrow> download_row \<Rightarrow> instant \<Rightarrow> 's scheduler_scheme \<Rightarrow> 's scheduler_scheme outcome" where
  "wake_mirror env file now s =
     (if df_mirror_group file = None then (Inr (), s)
      else
        let downloads = downloads_for_package (df_package_id file) (sc_store s)
        in case best_candidate (waiting_mirrors file downloads) of
             None \<Rightarrow> (Inr (), s)
           | Some next_file \<Rightarrow> write_store (transition_download (ev_redact env) (df_id next_file) Queued now) s)"

section \<open>Restarting stalled groups\<close>

definition group_key :: "download_row \<Rightarrow> (package_id \<times> string) option" where
  "group_key r = map_option (\<lambda>g. (df_package_id r, g)) (df_mirror_group r)"

definition group_members :: "package_id \<times> string \<Rightarrow> download_row list \<Rightarrow> download_row list" where
  "group_members k downloads = filter (\<lambda>r. group_key r = Some k) downloads"

definition group_keys :: "download_row list \<Rightarrow> (package_id \<times> string) list" where
  "group_keys downloads = sort (remdups (List.map_filter group_key downloads))"

definition stalled_candidate :: "download_row list \<Rightarrow> download_row option" where
  "stalled_candidate members =
     (if list_ex (\<lambda>r. holds_the_group_open (df_state r)) members then None
      else best_candidate (filter (\<lambda>r. df_state r = Skipped) members))"

fun recover_groups ::
    "scheduler_env \<Rightarrow> download_row list \<Rightarrow> (package_id \<times> string) list \<Rightarrow> instant
     \<Rightarrow> 's scheduler_scheme \<Rightarrow> 's scheduler_scheme outcome" where
  "recover_groups env downloads [] now s = (Inr (), s)"
| "recover_groups env downloads (k # ks) now s =
     (case stalled_candidate (group_members k downloads) of
        None \<Rightarrow> recover_groups env downloads ks now s
      | Some next_file \<Rightarrow>
          (case write_store (transition_download (ev_redact env) (df_id next_file) Queued now) s of
             (Inl e, s) \<Rightarrow> (Inl e, s)
           | (Inr _, s) \<Rightarrow> recover_groups env downloads ks now s))"

definition recover_stalled_mirror_groups ::
    "scheduler_env \<Rightarrow> instant \<Rightarrow> 's scheduler_scheme \<Rightarrow> 's scheduler_scheme outcome" where
  "recover_stalled_mirror_groups env now s =
     (let downloads = list_downloads (sc_store s)
      in recover_groups env downloads (group_keys downloads) now s)"

section \<open>The automatic retry's pass\<close>

definition group_moved_on :: "download_row \<Rightarrow> store \<Rightarrow> bool" where
  "group_moved_on file st =
     (df_mirror_group file \<noteq> None
      \<and> list_ex (\<lambda>sibling. holds_the_group_open (df_state sibling))
          (siblings file (downloads_for_package (df_package_id file) st)))"

definition auto_retry_one ::
    "(failure \<Rightarrow> failure) \<Rightarrow> auto_retry \<Rightarrow> instant \<Rightarrow> download_row \<Rightarrow> nat \<times> store \<Rightarrow> nat \<times> store" where
  "auto_retry_one redact settings now file = (\<lambda>(requeued, st).
     let wanted = (ar_enabled settings \<and> may_pass_later file \<and> rounds_left settings (dr_auto_retry_rounds file)
                   \<and> \<not> group_moved_on file st);
         later = now + auto_retry_interval settings
     in if \<not> wanted then
          (requeued, if df_next_retry_at file \<noteq> None then snd (schedule_auto_retry (df_id file) None st) else st)
        else case df_next_retry_at file of
               Some due \<Rightarrow>
                 if due \<le> now then
                   (case requeue_failed redact (df_id file) True now st of
                      (None, st) \<Rightarrow> (requeued, st)
                    | (Some _, st) \<Rightarrow> (requeued + 1, st))
                 else if due \<le> later then (requeued, st)
                 else (requeued, snd (schedule_auto_retry (df_id file) (Some later) st))
             | None \<Rightarrow> (requeued, snd (schedule_auto_retry (df_id file) (Some later) st)))"

text \<open>The number put back, and the flag for the next pass: whether the retry was on in this one.\<close>

definition auto_retry_pass ::
    "(failure \<Rightarrow> failure) \<Rightarrow> auto_retry \<Rightarrow> bool \<Rightarrow> instant \<Rightarrow> store \<Rightarrow> nat \<times> bool \<times> store" where
  "auto_retry_pass redact settings was_enabled now st =
     (if \<not> ar_enabled settings \<and> \<not> was_enabled then (0, ar_enabled settings, st)
      else case fold (auto_retry_one redact settings now) (failed_downloads st) (0, st) of
             (requeued, st) \<Rightarrow> (requeued, ar_enabled settings, st))"

section \<open>Releases\<close>

definition waits_for_traffic :: "download_row \<Rightarrow> bool" where
  "waits_for_traffic file =
     (df_state file = RetryWait
      \<and> (case df_last_error file of Some f \<Rightarrow> is_account_traffic_exhausted f | None \<Rightarrow> False))"

definition queue_one ::
    "(failure \<Rightarrow> failure) \<Rightarrow> instant \<Rightarrow> download_row \<Rightarrow> nat \<times> store \<Rightarrow> nat \<times> store" where
  "queue_one redact now file = (\<lambda>(queued, st).
     case transition_download redact (df_id file) Queued now st of
       Inr (_, st) \<Rightarrow> (queued + 1, st)
     | Inl _ \<Rightarrow> (queued, st))"

definition account_checked ::
    "scheduler_env \<Rightarrow> account_id \<Rightarrow> u64 option \<Rightarrow> instant \<Rightarrow> 's scheduler_scheme \<Rightarrow> nat \<times> 's scheduler_scheme" where
  "account_checked env account traffic_left now s =
     (if \<not> (case traffic_left of Some left \<Rightarrow> left > 0 | None \<Rightarrow> False) then (0, s)
      else case settle_account_traffic now (snd (th_release account (sc_traffic s))) (sc_holds s) of
             (h, q) \<Rightarrow>
               (case fold (queue_one (ev_redact env) now)
                       (filter (\<lambda>file. df_account_id file = Some account \<and> waits_for_traffic file)
                         (startable_downloads (sc_store s)))
                       (0, sc_store s) of
                  (queued, st) \<Rightarrow> (queued, s\<lparr>sc_traffic := h, sc_holds := q, sc_store := st\<rparr>)))"

definition restore_account_traffic :: "instant \<Rightarrow> 's scheduler_scheme \<Rightarrow> 's scheduler_scheme" where
  "restore_account_traffic now s =
     (let hold = (\<lambda>file h. case (df_account_id file, df_next_retry_at file) of
                    (Some account, Some until) \<Rightarrow>
                      if waits_for_traffic file \<and> until > now then th_hold account until now h else h
                  | _ \<Rightarrow> h)
      in case settle_account_traffic now (fold hold (startable_downloads (sc_store s)) (sc_traffic s)) (sc_holds s) of
           (h, q) \<Rightarrow> s\<lparr>sc_traffic := h, sc_holds := q\<rparr>)"

fun requeue_all ::
    "(failure \<Rightarrow> failure) \<Rightarrow> instant \<Rightarrow> download_row list \<Rightarrow> nat \<Rightarrow> store \<Rightarrow> (store_error + nat) \<times> store" where
  "requeue_all redact now [] requeued st = (Inr requeued, st)"
| "requeue_all redact now (file # files) requeued st =
     (case transition_download redact (df_id file) Queued now st of
        Inl e \<Rightarrow> (Inl e, st)
      | Inr (_, st) \<Rightarrow> requeue_all redact now files (requeued + 1) st)"

definition requeue_ip_blocked :: "(failure \<Rightarrow> failure) \<Rightarrow> instant \<Rightarrow> store \<Rightarrow> (store_error + nat) \<times> store" where
  "requeue_ip_blocked redact now st =
     requeue_all redact now
       (filter (\<lambda>file. df_state file = RetryWait
                  \<and> (case map_option fl_category (df_last_error file) of Some (IpBlocked _) \<Rightarrow> True | _ \<Rightarrow> False))
          (startable_downloads st)) 0 st"

end
