(* ===== verification/Writes.thy ===== *)
theory Writes
  imports Queries
begin

text \<open>
  The contract of the writer's one-row operations, as their callers rely on it: the named row
  becomes \<open>f\<close> of itself, every other row stays as it is, and at most held-back verdicts that fall
  due are taken on top.
\<close>

definition writes_one :: "download_id \<Rightarrow> (download_row \<Rightarrow> download_row) \<Rightarrow> store \<Rightarrow> store \<Rightarrow> bool" where
  "writes_one i f st st' \<longleftrightarrow> store_ok st' \<and> map pk_id (st_packages st') = map pk_id (st_packages st)
     \<and> (\<forall>j. case get_download j st of
               None \<Rightarrow> get_download j st' = None
             | Some r \<Rightarrow> \<exists>r'. get_download j st' = Some r' \<and> settles (if j = i then f r else r) r')"

lemma writes_oneI:
  assumes "store_ok st" and "get_download i st = Some row" and f: "\<And>r. df_id (f r) = df_id r"
    and "st_downloads w = map (\<lambda>r. if df_id r = i then f r else r) (st_downloads st)"
    and "map pk_id (st_packages w) = map pk_id (st_packages st)"
    and "st' = settle_package_after_download redact p now w"
  shows "writes_one i f st st'"
proof -
  note ws = write_and_settle [where redact = redact and p = p and now = now, OF assms(1,2) f assms(4,5), folded assms(6)]
  have okw: "store_ok w"
    using assms(1) by (simp add: store_ok_def assms(4,5) o_def if_distrib f cong: if_cong)
  have "map pk_id (st_packages st') = map pk_id (st_packages w)"
    using settle_same_rows [OF okw, of redact p now] by (simp add: assms(6) same_rows_def)
  moreover have "case get_download j st of
      None \<Rightarrow> get_download j st' = None
    | Some r \<Rightarrow> \<exists>r'. get_download j st' = Some r' \<and> settles (if j = i then f r else r) r'" for j
  proof (cases "get_download j st")
    case None
    then show ?thesis using ws(5) by simp
  next
    case (Some r)
    then show ?thesis using ws(3) ws(4) [OF _ Some] assms(2) by auto
  qed
  ultimately show ?thesis unfolding writes_one_def using ws(1) assms(5) by auto
qed

lemma writes_oneD:
  assumes "writes_one i f st st'"
  shows "store_ok st'" and "map pk_id (st_packages st') = map pk_id (st_packages st)"
    and "get_download j st = None \<Longrightarrow> get_download j st' = None"
    and "get_download j st = Some r \<Longrightarrow> \<exists>r'. get_download j st' = Some r' \<and> settles (if j = i then f r else r) r'"
proof -
  show "store_ok st'" and "map pk_id (st_packages st') = map pk_id (st_packages st)"
    using assms by (simp_all add: writes_one_def)
  have "case get_download j st of
      None \<Rightarrow> get_download j st' = None
    | Some r \<Rightarrow> \<exists>r'. get_download j st' = Some r' \<and> settles (if j = i then f r else r) r'"
    using assms unfolding writes_one_def by blast
  then show "get_download j st = None \<Longrightarrow> get_download j st' = None"
    and "get_download j st = Some r \<Longrightarrow> \<exists>r'. get_download j st' = Some r' \<and> settles (if j = i then f r else r) r'"
    by simp_all
qed

text \<open>Read backwards: where a row of the new store comes from.\<close>

lemma writes_one_back:
  assumes "writes_one i f st st'" and "get_download j st' = Some r'"
  obtains r where "get_download j st = Some r" and "settles (if j = i then f r else r) r'"
  using writes_oneD(3) [OF assms(1), of j] writes_oneD(4) [OF assms(1), of j] assms(2)
  by (cases "get_download j st") auto

lemma settles_only: "df_state r \<noteq> Verifying \<Longrightarrow> settles r r' \<Longrightarrow> r' = r"
  using awaiting_verifying [of r] by (auto simp: settles_def)

lemma settles_keeps:
  "settles r r' \<Longrightarrow> df_id r' = df_id r \<and> df_package_id r' = df_package_id r \<and> df_mirror_group r' = df_mirror_group r"
  by (auto simp: settles_def)

section \<open>The operations\<close>

definition moved_row :: "download_state \<Rightarrow> string option \<Rightarrow> instant \<Rightarrow> download_row \<Rightarrow> download_row" where
  "moved_row next_state reason now r =
     r\<lparr>df_state := next_state, df_last_error := (if next_state = Queued then None else df_last_error r),
       dr_block_reason := reason, dr_updated_at := now\<rparr>"

lemma transition_writes:
  assumes "store_ok st" and "get_download i st = Some r" and "can_transition_to (df_state r) next_state"
  obtains st' where "transition_download_with_reason redact i next_state reason now st = Inr (moved_row next_state reason now r, st')"
    and "writes_one i (moved_row next_state reason now) st st'"
proof -
  let ?w = "publish (DownloadMoved i (Some (df_state r)) next_state None)
      (update_rows (\<lambda>r. df_id r = i) (moved_row next_state reason now) st)"
  let ?st = "settle_package_after_download redact (df_package_id r) now ?w"
  have "transition_download_with_reason redact i next_state reason now st = Inr (moved_row next_state reason now r, ?st)"
    using assms(2,3) by (simp add: transition_download_with_reason_def Let_def moved_row_def [abs_def])
  moreover have "writes_one i (moved_row next_state reason now) st ?st"
    by (rule writes_oneI [OF assms(1,2) _ _ _ refl]) (simp_all add: state_simps moved_row_def)
  ultimately show thesis by (rule that)
qed

lemma transition_Inr:
  assumes "store_ok st" and "transition_download_with_reason redact i next_state reason now st = Inr (row, st')"
  obtains r where "get_download i st = Some r" and "can_transition_to (df_state r) next_state"
    and "row = moved_row next_state reason now r" and "writes_one i (moved_row next_state reason now) st st'"
proof (cases "\<exists>r. get_download i st = Some r \<and> can_transition_to (df_state r) next_state")
  case True
  then obtain r where r: "get_download i st = Some r" "can_transition_to (df_state r) next_state" by blast
  show thesis
    by (rule transition_writes [OF assms(1) r, of redact reason now]) (use assms(2) r that in auto)
next
  case False
  then show thesis using assms(2) by (auto simp: transition_download_with_reason_def Let_def split: option.splits if_splits)
qed

definition failed_row :: "(failure \<Rightarrow> failure) \<Rightarrow> failure \<Rightarrow> instant option \<Rightarrow> instant \<Rightarrow> download_row \<Rightarrow> download_row" where
  "failed_row redact f retry now r =
     (let limit_wait = (retry \<noteq> None \<and> is_limit (fl_category (redact f)))
      in r\<lparr>df_state := failure_state (redact f) retry,
           df_retry_count := df_retry_count r + (if limit_wait then 0 else 1),
           dr_limit_waits := (if limit_wait then dr_limit_waits r + 1 else 0),
           df_next_retry_at := retry, df_last_error := Some (redact f), dr_updated_at := now\<rparr>)"

lemma record_failure_writes:
  assumes "store_ok st" and "get_download i st = Some r"
  obtains st' where "record_failure redact i f retry now st = Inr (failed_row redact f retry now r, st')"
    and "writes_one i (failed_row redact f retry now) st st'"
proof -
  obtain w where w: "record_failure redact i f retry now st =
      Inr (failed_row redact f retry now r, settle_package_after_download redact (df_package_id r) now w)"
    "st_downloads w = map (\<lambda>r. if df_id r = i then failed_row redact f retry now r else r) (st_downloads st)"
    "map pk_id (st_packages w) = map pk_id (st_packages st)"
    using assms(2) unfolding record_failure_def Let_def failed_row_def
    by (simp add: state_simps cong: if_cong)
  have "writes_one i (failed_row redact f retry now) st (settle_package_after_download redact (df_package_id r) now w)"
    by (rule writes_oneI [OF assms _ w(2,3) refl]) (simp add: failed_row_def Let_def)
  with w(1) show thesis by (rule that)
qed

lemma record_failure_gone: "get_download i st = None \<Longrightarrow> record_failure redact i f retry now st = Inl (NotFound ''download not found'')"
  by (simp add: record_failure_def)

definition requeued_row :: "bool \<Rightarrow> instant \<Rightarrow> download_row \<Rightarrow> download_row" where
  "requeued_row auto now r =
     (fresh_budget now r)\<lparr>dr_auto_retry_rounds := dr_auto_retry_rounds r + (if auto then 1 else 0)\<rparr>"

lemma requeue_failed_writes:
  assumes "store_ok st" and "get_download i st = Some r" and "df_state r = Failed"
  obtains row st' where "requeue_failed redact i auto now st = (Some row, st')"
    and "writes_one i (requeued_row auto now) st st'"
proof -
  let ?P = "\<lambda>r. df_id r = i \<and> df_state r = Failed"
  let ?w = "publish (Requeued i auto) (update_rows ?P (requeued_row auto now) st)"
  have in_st: "r \<in> set (st_downloads st)" "df_id r = i" using get_download_Some [OF assms(2)] by auto
  have only: "df_id x = i \<Longrightarrow> x \<in> set (st_downloads st) \<Longrightarrow> x = r" for x
    using get_download_in [OF assms(1)] assms(2) by auto
  have rows: "st_downloads ?w = map (\<lambda>r. if df_id r = i then requeued_row auto now r else r) (st_downloads st)"
    using only assms(3) by (auto simp: state_simps)
  have g: "get_download i ?w = Some (requeued_row auto now r)"
    using assms(2,3) in_st(2) get_update [of "requeued_row auto now" i ?P st]
    by (simp add: requeued_row_def fresh_budget_def)
  have "list_ex ?P (st_downloads st)" using in_st assms(3) by (auto simp: list_ex_iff)
  then have e: "requeue_failed redact i auto now st = (Some (requeued_row auto now r),
      settle_package_after_download redact (df_package_id (requeued_row auto now r)) now ?w)"
    using g by (simp add: requeue_failed_def Let_def requeued_row_def [abs_def])
  have "writes_one i (requeued_row auto now) st
      (settle_package_after_download redact (df_package_id (requeued_row auto now r)) now ?w)"
    by (rule writes_oneI [OF assms(1,2) _ rows _ refl]) (simp_all add: state_simps requeued_row_def fresh_budget_def)
  with e show thesis by (rule that)
qed

lemma requeue_failed_otherwise:
  assumes "store_ok st" and "\<And>r. get_download i st = Some r \<Longrightarrow> df_state r \<noteq> Failed"
  shows "requeue_failed redact i auto now st = (None, st)"
proof -
  have "\<not> list_ex (\<lambda>r. df_id r = i \<and> df_state r = Failed) (st_downloads st)"
    using assms(2) get_download_in [OF assms(1)] by (auto simp: list_ex_iff)
  then show ?thesis by (simp add: requeue_failed_def Let_def)
qed

text \<open>Setting a due time writes that field of one row and nothing else.\<close>

lemma schedule_auto_retry_rows:
  "st_downloads (snd (schedule_auto_retry i at st)) =
     map (\<lambda>r. if df_id r = i \<and> df_state r = Failed then r\<lparr>df_next_retry_at := at\<rparr> else r) (st_downloads st)"
  "st_packages (snd (schedule_auto_retry i at st)) = st_packages st"
proof -
  let ?P = "\<lambda>r. df_id r = i \<and> df_state r = Failed \<and> df_next_retry_at r \<noteq> at"
  have r: "(if ?P r then r\<lparr>df_next_retry_at := at\<rparr> else r)
      = (if df_id r = i \<and> df_state r = Failed then r\<lparr>df_next_retry_at := at\<rparr> else r)" for r :: download_row
    by (cases r) auto
  have n: "\<not> list_ex ?P (st_downloads st) \<Longrightarrow>
      map (\<lambda>r. if ?P r then r\<lparr>df_next_retry_at := at\<rparr> else r) (st_downloads st) = st_downloads st"
    by (rule map_idI) (auto simp: list_ex_iff)
  show "st_downloads (snd (schedule_auto_retry i at st)) =
     map (\<lambda>r. if df_id r = i \<and> df_state r = Failed then r\<lparr>df_next_retry_at := at\<rparr> else r) (st_downloads st)"
    using n unfolding schedule_auto_retry_def Let_def by (auto simp: state_simps r)
  show "st_packages (snd (schedule_auto_retry i at st)) = st_packages st"
    unfolding schedule_auto_retry_def Let_def by (simp add: state_simps)
qed

lemma schedule_auto_retry_get:
  "get_download j (snd (schedule_auto_retry i at st)) =
     map_option (\<lambda>r. if df_id r = i \<and> df_state r = Failed then r\<lparr>df_next_retry_at := at\<rparr> else r) (get_download j st)"
  unfolding get_download_def schedule_auto_retry_rows by (rule find_map) simp

lemma schedule_auto_retry_ok: "store_ok st \<Longrightarrow> store_ok (snd (schedule_auto_retry i at st))"
proof -
  have "map df_id (st_downloads (snd (schedule_auto_retry i at st))) = map df_id (st_downloads st)"
    unfolding schedule_auto_retry_rows by simp
  then show "store_ok st \<Longrightarrow> ?thesis" by (simp add: store_ok_def schedule_auto_retry_rows(2))
qed

end
