(* ===== verification/TurnsProps.thy ===== *)
theory TurnsProps
  imports Turns Writes
begin

text \<open>
  What the steps after a failure promise: a handover moves exactly one turn, recovery restarts
  exactly the stalled groups, the steps never widen the field of a group, a download's retries run
  out, and the automatic retry touches only what is due.
\<close>

section \<open>A small group\<close>

definition a_mirror :: "download_id \<Rightarrow> download_state \<Rightarrow> int \<Rightarrow> download_row" where
  "a_mirror i s n = (a_row i s)\<lparr>df_mirror_group := Some ''g'', df_position := n\<rparr>"

definition an_env :: scheduler_env where
  "an_env = \<lparr>ev_redact = id, ev_latest = of_days 400,
     ev_schedule = \<lparr>rt_max_retries = 8, rt_middle_attempts = 3, rt_long_wait_minutes = 30\<rparr>\<rparr>"

definition a_scheduler :: "download_row list \<Rightarrow> scheduler" where
  "a_scheduler rows = \<lparr>sc_store = a_store rows, sc_blocks = [], sc_traffic = traffic_holds_new,
     sc_holds = (\<lambda>_. None)\<rparr>"

lemmas group_sample_defs = sample_defs a_mirror_def an_env_def a_scheduler_def

section \<open>The members in the running\<close>

definition in_the_running :: "download_state \<Rightarrow> bool" where
  "in_the_running state = (has_taken_the_turn state \<or> is_contending state)"

definition runners :: "package_id \<times> string \<Rightarrow> store \<Rightarrow> download_id set" where
  "runners k st = {df_id r | r. r \<in> set (st_downloads st) \<and> group_key r = Some k \<and> in_the_running (df_state r)}"

lemma runners_iff:
  assumes "store_ok st"
  shows "i \<in> runners k st \<longleftrightarrow> (\<exists>r. get_download i st = Some r \<and> group_key r = Some k \<and> in_the_running (df_state r))"
  unfolding runners_def using get_download_in [OF assms] get_download_Some by blast

lemma finite_runners [simp]: "finite (runners k st)"
  by (simp add: runners_def)

lemma settles_group: "settles r r' \<Longrightarrow> group_key r' = group_key r"
  by (auto simp: group_key_def dest: settles_keeps)

lemma settles_running: "settles r r' \<Longrightarrow> in_the_running (df_state r') \<Longrightarrow> in_the_running (df_state r)"
  using awaiting_verifying [of r] by (auto simp: settles_def in_the_running_def mirror_state_defs)

text \<open>A row write changes the field of a group by that row alone.\<close>

lemma writes_one_runners:
  assumes w: "writes_one i f st st'" and ok: "store_ok st" and f: "\<And>r. group_key (f r) = group_key r"
  shows "j \<in> runners k st' \<Longrightarrow> j \<noteq> i \<Longrightarrow> j \<in> runners k st"
    and "i \<in> runners k st' \<Longrightarrow> \<exists>r. get_download i st = Some r \<and> group_key r = Some k \<and> in_the_running (df_state (f r))"
proof -
  have ok': "store_ok st'" by (rule writes_oneD(1) [OF w])
  { assume "j \<in> runners k st'" and j: "j \<noteq> i"
    then obtain r' where r': "get_download j st' = Some r'" "group_key r' = Some k" "in_the_running (df_state r')"
      using runners_iff [OF ok'] by blast
    obtain r where r: "get_download j st = Some r" "settles (if j = i then f r else r) r'"
      by (rule writes_one_back [OF w r'(1)])
    then show "j \<in> runners k st"
      using r' j settles_group [of r r'] settles_running [of r r'] by (auto simp: runners_iff [OF ok]) }
  assume "i \<in> runners k st'"
  then obtain r' where r': "get_download i st' = Some r'" "group_key r' = Some k" "in_the_running (df_state r')"
    using runners_iff [OF ok'] by blast
  obtain r where "get_download i st = Some r" "settles (if i = i then f r else r) r'"
    by (rule writes_one_back [OF w r'(1)])
  then show "\<exists>r. get_download i st = Some r \<and> group_key r = Some k \<and> in_the_running (df_state (f r))"
    using r' settles_group [of "f r" r'] settles_running [of "f r" r'] f [of r] by auto
qed

lemma group_key_rows [simp]:
  "group_key (moved_row s b now r) = group_key r" "group_key (failed_row redact f t now r) = group_key r"
  "group_key (requeued_row auto now r) = group_key r" "group_key (r\<lparr>df_next_retry_at := t\<rparr>) = group_key r"
  by (simp_all add: group_key_def moved_row_def failed_row_def requeued_row_def fresh_budget_def Let_def)

lemma id_rows [simp]:
  "df_id (moved_row s b now r) = df_id r" "df_id (failed_row redact f t now r) = df_id r"
  "df_id (requeued_row auto now r) = df_id r"
  by (simp_all add: moved_row_def failed_row_def requeued_row_def fresh_budget_def Let_def)

lemma state_rows [simp]:
  "df_state (moved_row s b now r) = s" "df_state (failed_row redact f t now r) = failure_state (redact f) t"
  "df_state (requeued_row auto now r) = Queued"
  by (simp_all add: moved_row_def failed_row_def requeued_row_def fresh_budget_def Let_def)

lemma given_up: "failure_state f None \<in> {Failed, Blocked}"
  by (simp add: failure_state_def)

lemma given_up_not_running: "\<not> in_the_running (failure_state f None)"
  using given_up [of f] by (auto simp: in_the_running_def mirror_state_defs)

section \<open>A handover\<close>

lemma siblings_iff:
  "x \<in> set (siblings file downloads) \<longleftrightarrow>
     x \<in> set downloads \<and> df_id x \<noteq> df_id file \<and> group_key file \<noteq> None \<and> group_key x = group_key file"
  by (cases "df_mirror_group file") (auto simp: siblings_def group_key_def)

lemma waiting_row:
  assumes "store_ok st" and "next_file \<in> set (waiting_mirrors file (downloads_for_package p st))"
  shows "get_download (df_id next_file) st = Some next_file" and "df_state next_file = Skipped"
    and "df_id next_file \<noteq> df_id file" and "group_key next_file = group_key file"
  using assms get_download_in [OF assms(1)] by (auto simp: waiting_mirrors_def siblings_iff)

lemma chosen_waiting:
  "best_candidate (waiting_mirrors file ds) = Some x \<Longrightarrow> x \<in> set (waiting_mirrors file ds)"
  by (rule mirror.pick_in)

text \<open>The two writes of a handover, from the row that gives up and the mirror that waits.\<close>

lemma hand_over_writes:
  fixes s :: "'s scheduler_scheme"
  assumes ok: "store_ok (sc_store s)" and row: "get_download (df_id file) (sc_store s) = Some row"
    and next_file: "best_candidate (waiting_mirrors file (downloads_for_package (df_package_id file) (sc_store s))) = Some x"
  obtains f st1 st2 where "hand_over env file failure retry now s = (Inr (), s\<lparr>sc_store := st2\<rparr>)"
    and "f = handover failure (case url_host (df_source x) of Some h \<Rightarrow> h | None \<Rightarrow> ''another mirror'')"
    and "writes_one (df_id file) (failed_row (ev_redact env) f None now) (sc_store s) st1"
    and "writes_one (df_id x) (moved_row Queued None now) st1 st2"
    and "get_download (df_id x) st1 = Some x"
proof -
  note x = waiting_row [OF ok chosen_waiting [OF next_file]]
  let ?f = "handover failure (case url_host (df_source x) of Some h \<Rightarrow> h | None \<Rightarrow> ''another mirror'')"
  obtain st1 where st1: "record_failure (ev_redact env) (df_id file) ?f None now (sc_store s)
        = Inr (failed_row (ev_redact env) ?f None now row, st1)"
    "writes_one (df_id file) (failed_row (ev_redact env) ?f None now) (sc_store s) st1"
    by (rule record_failure_writes [OF ok row])
  have gx: "get_download (df_id x) st1 = Some x"
    using writes_oneD(4) [OF st1(2) x(1)] x(2,3) settles_only [of x] by auto
  have c: "can_transition_to (df_state x) Queued" by (simp add: x(2) can_transition_to_def)
  obtain st2 where st2: "transition_download_with_reason (ev_redact env) (df_id x) Queued None now st1
        = Inr (moved_row Queued None now x, st2)"
    "writes_one (df_id x) (moved_row Queued None now) st1 st2"
    by (rule transition_writes [OF writes_oneD(1) [OF st1(2)] gx c])
  have "hand_over env file failure retry now s = (Inr (), s\<lparr>sc_store := st2\<rparr>)"
    using st1(1) st2(1) by (simp add: hand_over_def Let_def next_file write_store_def transition_download_def)
  from that [OF this refl st1(2) st2(2) gx] show thesis .
qed

lemma handed_over:
  fixes s :: "'s scheduler_scheme"
  assumes ok: "store_ok (sc_store s)" and row: "get_download (df_id file) (sc_store s) = Some row"
    and x: "best_candidate (waiting_mirrors file (downloads_for_package (df_package_id file) (sc_store s))) = Some x"
  obtains st2 where "hand_over env file failure retry now s = (Inr (), s\<lparr>sc_store := st2\<rparr>)"
    and "\<exists>r. get_download (df_id file) st2 = Some r \<and> df_state r \<in> {Failed, Blocked}
         \<and> df_last_error r = Some (ev_redact env (handover failure
              (case url_host (df_source x) of Some h \<Rightarrow> h | None \<Rightarrow> ''another mirror'')))"
    and "\<exists>r. get_download (df_id x) st2 = Some r \<and> df_state r = Queued \<and> df_last_error r = None"
    and "\<And>j r. j \<noteq> df_id file \<Longrightarrow> j \<noteq> df_id x \<Longrightarrow> get_download j (sc_store s) = Some r \<Longrightarrow>
           \<exists>r'. get_download j st2 = Some r' \<and> settles r r'"
    and "store_ok st2"
    and "\<And>k. runners k st2 \<subseteq> (runners k (sc_store s) - {df_id file}) \<union> {i. i = df_id x \<and> group_key file = Some k}"
proof -
  note wx = waiting_row [OF ok chosen_waiting [OF x]]
  obtain f st1 st2 where h: "hand_over env file failure retry now s = (Inr (), s\<lparr>sc_store := st2\<rparr>)"
    and f: "f = handover failure (case url_host (df_source x) of Some h \<Rightarrow> h | None \<Rightarrow> ''another mirror'')"
    and w1: "writes_one (df_id file) (failed_row (ev_redact env) f None now) (sc_store s) st1"
    and w2: "writes_one (df_id x) (moved_row Queued None now) st1 st2"
    and gx: "get_download (df_id x) st1 = Some x"
    by (rule hand_over_writes [OF ok row x])
  note ok1 = writes_oneD(1) [OF w1]
  have still: "failed_row (ev_redact env) f None now row = r'" if "settles (failed_row (ev_redact env) f None now row) r'" for r'
    using settles_only [OF _ that] given_up [of "ev_redact env f"] by auto
  have gone: "\<exists>r. get_download (df_id file) st2 = Some r \<and> df_state r \<in> {Failed, Blocked}
      \<and> df_last_error r = Some (ev_redact env f)"
  proof -
    obtain r1 where r1: "get_download (df_id file) st1 = Some r1" "settles (failed_row (ev_redact env) f None now row) r1"
      using writes_oneD(4) [OF w1 row] by auto
    obtain r2 where r2: "get_download (df_id file) st2 = Some r2" "settles r1 r2"
      using writes_oneD(4) [OF w2 r1(1)] wx(3) by auto
    have e1: "r1 = failed_row (ev_redact env) f None now row" by (rule still [OF r1(2), symmetric])
    have e2: "r2 = r1" using still [of r2] r2(2) unfolding e1 by simp
    show ?thesis using r2(1) given_up [of "ev_redact env f"] unfolding e2 e1
      by (auto simp: failed_row_def Let_def)
  qed
  have taken: "\<exists>r. get_download (df_id x) st2 = Some r \<and> df_state r = Queued \<and> df_last_error r = None"
  proof -
    obtain r' where r': "get_download (df_id x) st2 = Some r'" "settles (moved_row Queued None now x) r'"
      using writes_oneD(4) [OF w2 gx] by auto
    have "r' = moved_row Queued None now x" by (rule settles_only [OF _ r'(2)]) simp
    with r'(1) show ?thesis by (simp add: moved_row_def)
  qed
  have rest: "\<exists>r'. get_download j st2 = Some r' \<and> settles r r'"
    if j: "j \<noteq> df_id file" "j \<noteq> df_id x" and r: "get_download j (sc_store s) = Some r" for j r
    using writes_oneD(4) [OF w1 r] writes_oneD(4) [OF w2, of j] j settles_trans by fastforce
  have field: "runners k st2 \<subseteq> (runners k (sc_store s) - {df_id file}) \<union> {i. i = df_id x \<and> group_key file = Some k}" for k
  proof
    fix i assume i: "i \<in> runners k st2"
    have "i \<noteq> df_id file"
    proof
      assume "i = df_id file"
      with i wx(3) have "df_id file \<in> runners k st1"
        using writes_one_runners(1) [OF w2 ok1, of i k] by auto
      then show False using writes_one_runners(2) [OF w1 ok, of k] given_up_not_running by auto
    qed
    moreover have "i \<in> runners k (sc_store s)" if "i \<noteq> df_id x"
      using writes_one_runners(1) [OF w1 ok _ _ \<open>i \<noteq> df_id file\<close>] writes_one_runners(1) [OF w2 ok1 _ i that] by simp
    moreover have "group_key file = Some k" if "i = df_id x"
      using writes_one_runners(2) [OF w2 ok1, of k] i that gx wx(4) by auto
    ultimately show "i \<in> (runners k (sc_store s) - {df_id file}) \<union> {i. i = df_id x \<and> group_key file = Some k}"
      by blast
  qed
  from that [OF h gone [unfolded f] taken rest writes_oneD(1) [OF w2] field] show thesis .
qed

text \<open>Property C8. A handover moves exactly one turn: while a mirror of the file stands by, giving the
  file up succeeds, the file is left failed or blocked and says why, the mirror of the best rank is
  put in the queue with its old failure forgotten, and no other row of the queue changes -- except
  that held-back verdicts which fall due are taken.\<close>

theorem handover_moves_one_turn:
  fixes s :: "'s scheduler_scheme"
  assumes "store_ok (sc_store s)" and "get_download (df_id file) (sc_store s) = Some row"
    and "waiting_mirrors file (downloads_for_package (df_package_id file) (sc_store s)) \<noteq> []"
  shows "\<exists>x st2. x \<in> set (waiting_mirrors file (downloads_for_package (df_package_id file) (sc_store s)))
     \<and> (\<forall>y \<in> set (waiting_mirrors file (downloads_for_package (df_package_id file) (sc_store s))).
           \<not> candidate_key y < candidate_key x)
     \<and> hand_over env file failure retry now s = (Inr (), s\<lparr>sc_store := st2\<rparr>)
     \<and> (\<exists>r. get_download (df_id file) st2 = Some r \<and> df_state r \<in> {Failed, Blocked}
           \<and> df_last_error r = Some (ev_redact env (handover failure
                (case url_host (df_source x) of Some h \<Rightarrow> h | None \<Rightarrow> ''another mirror''))))
     \<and> (\<exists>r. get_download (df_id x) st2 = Some r \<and> df_state r = Queued \<and> df_last_error r = None)
     \<and> (\<forall>j r. j \<noteq> df_id file \<longrightarrow> j \<noteq> df_id x \<longrightarrow> get_download j (sc_store s) = Some r \<longrightarrow>
           (\<exists>r'. get_download j st2 = Some r' \<and> settles r r'))"
proof -
  obtain x where x: "best_candidate (waiting_mirrors file (downloads_for_package (df_package_id file) (sc_store s))) = Some x"
    "x \<in> set (waiting_mirrors file (downloads_for_package (df_package_id file) (sc_store s)))"
    using mirror.picks_when_nonempty [OF assms(3)] by blast
  show ?thesis
    by (rule handed_over [OF assms(1,2) x(1), of env failure retry now]) (use x mirror.pick_best [OF x(1)] in blast)
qed

theorem handover_moves_one_turn_witness:
  "\<exists>r. get_download ''b'' (sc_store (snd (hand_over an_env (a_mirror ''a'' Downloading 1) (failure_new Offline ''x'') None 5
       (a_scheduler [a_mirror ''a'' Downloading 1, a_mirror ''b'' Skipped 2])))) = Some r \<and> df_state r = Queued"
proof -
  let ?s = "a_scheduler [a_mirror ''a'' Downloading 1, a_mirror ''b'' Skipped 2]"
  let ?a = "a_mirror ''a'' Downloading 1"
  have ok: "store_ok (sc_store ?s)" by (simp add: store_ok_def group_sample_defs)
  have g: "get_download (df_id ?a) (sc_store ?s) = Some ?a" by (simp add: get_download_def group_sample_defs)
  have w: "waiting_mirrors ?a (downloads_for_package (df_package_id ?a) (sc_store ?s)) = [a_mirror ''b'' Skipped 2]"
    by (simp add: waiting_mirrors_def siblings_def downloads_for_package_def package_downloads_def group_sample_defs)
  have "df_id (a_mirror ''b'' Skipped 2) = ''b''" by (simp add: group_sample_defs)
  with handover_moves_one_turn [OF ok g, unfolded w, of an_env "failure_new Offline ''x''" None 5] show ?thesis by auto
qed

text \<open>A recorded failure with its limit waits read: the memory around the store changes, then one of
  the two writes follows.\<close>

lemma record_error_cases:
  fixes s :: "'s scheduler_scheme"
  assumes "limit_waits_of failure (df_id file) (sc_store s) = Inr waits"
    and "f = (if retry_at (ev_latest env) failure (df_retry_count file) waits (ev_schedule env) now = None
                 \<and> limit_waits_spent failure waits then limit_waits_exhausted failure waits else failure)"
  obtains s1 where "sc_store s1 = sc_store s"
    and "record_error env file failure now s =
      (if df_mirror_group file \<noteq> None
          \<and> hands_over f (retry_at (ev_latest env) failure (df_retry_count file) waits (ev_schedule env) now)
       then hand_over env file f (retry_at (ev_latest env) failure (df_retry_count file) waits (ev_schedule env) now) now s1
       else write_store (record_failure (ev_redact env) (df_id file) f
              (retry_at (ev_latest env) failure (df_retry_count file) waits (ev_schedule env) now) now) s1)"
proof -
  let ?t = "retry_at (ev_latest env) failure (df_retry_count file) waits (ev_schedule env) now"
  define s1 where "s1 = (let s = note_account_traffic file f ?t now s in
      case (fl_category f, ?t) of
        (IpBlocked _, Some until) \<Rightarrow> s\<lparr>sc_blocks := hb_block (df_source file) until (sc_blocks s)\<rparr>
      | _ \<Rightarrow> s)"
  have "sc_store (note_account_traffic file f t now s) = sc_store s" for t
    by (simp add: note_account_traffic_def split: option.splits prod.splits)
  then have "sc_store s1 = sc_store s"
    by (simp add: s1_def Let_def split: failure_kind.split option.split)
  moreover have "record_error env file failure now s =
      (if df_mirror_group file \<noteq> None \<and> hands_over f ?t then hand_over env file f ?t now s1
       else write_store (record_failure (ev_redact env) (df_id file) f ?t now) s1)"
    by (simp only: record_error_def assms(1) sum.case Let_def s1_def assms(2) [symmetric])
  ultimately show thesis by (rule that)
qed

text \<open>What a recorded failure leaves on the row, whichever way the turn goes.\<close>

lemma record_error_row:
  fixes s :: "'s scheduler_scheme"
  assumes ok: "store_ok (sc_store s)" and row: "get_download (df_id file) (sc_store s) = Some row"
    and rec: "record_error env file failure now s = (Inr (), s')"
  shows "store_ok (sc_store s')"
    and "\<exists>r'. get_download (df_id file) (sc_store s') = Some r' \<and>
      (df_state r' \<in> {Failed, Blocked} \<or>
       (\<exists>waits t. limit_waits_of failure (df_id file) (sc_store s) = Inr waits
          \<and> retry_at (ev_latest env) failure (df_retry_count file) waits (ev_schedule env) now = Some t
          \<and> r' = failed_row (ev_redact env) failure (Some t) now row))"
proof -
  obtain waits where waits: "limit_waits_of failure (df_id file) (sc_store s) = Inr waits"
    using rec by (cases "limit_waits_of failure (df_id file) (sc_store s)") (auto simp: record_error_def)
  let ?t = "retry_at (ev_latest env) failure (df_retry_count file) waits (ev_schedule env) now"
  define f where "f = (if ?t = None \<and> limit_waits_spent failure waits then limit_waits_exhausted failure waits else failure)"
  obtain s1 where s1: "sc_store s1 = sc_store s"
    and e: "record_error env file failure now s =
      (if df_mirror_group file \<noteq> None \<and> hands_over f ?t then hand_over env file f ?t now s1
       else write_store (record_failure (ev_redact env) (df_id file) f ?t now) s1)"
    by (rule record_error_cases [OF waits f_def])
  have ok1: "store_ok (sc_store s1)" and row1: "get_download (df_id file) (sc_store s1) = Some row"
    using ok row by (simp_all add: s1)
  define left where "left g t r' \<longleftrightarrow>
      df_state r' \<in> {Failed, Blocked} \<or> t \<noteq> None \<and> r' = failed_row (ev_redact env) g t now row" for g t r'
  have fail: "store_ok (sc_store s2) \<and> (\<exists>r'. get_download (df_id file) (sc_store s2) = Some r' \<and> left g t r')"
    if w: "write_store (record_failure (ev_redact env) (df_id file) g t now) s1 = (Inr (), s2)" for g t s2
  proof -
    obtain st where st: "record_failure (ev_redact env) (df_id file) g t now (sc_store s1)
        = Inr (failed_row (ev_redact env) g t now row, st)"
      "writes_one (df_id file) (failed_row (ev_redact env) g t now) (sc_store s1) st"
      by (rule record_failure_writes [OF ok1 row1])
    obtain r' where r': "get_download (df_id file) st = Some r'" "settles (failed_row (ev_redact env) g t now row) r'"
      using writes_oneD(4) [OF st(2) row1] by auto
    have "failure_state (ev_redact env g) t \<noteq> Verifying" by (simp add: failure_state_def)
    then have "r' = failed_row (ev_redact env) g t now row" using settles_only [OF _ r'(2)] by simp
    then have "left g t r'" using given_up [of "ev_redact env g"] by (cases t) (auto simp: left_def)
    moreover have "sc_store s2 = st" using w st(1) by (auto simp: write_store_def)
    ultimately show ?thesis using r'(1) writes_oneD(1) [OF st(2)] by auto
  qed
  have hand: "store_ok (sc_store s') \<and> (\<exists>r'. get_download (df_id file) (sc_store s') = Some r' \<and> left f ?t r')"
    if h: "hand_over env file f ?t now s1 = (Inr (), s')"
  proof (cases "best_candidate (waiting_mirrors file (downloads_for_package (df_package_id file) (sc_store s1)))")
    case None
    show ?thesis
    proof (cases "?t = None")
      case True
      then obtain g where "write_store (record_failure (ev_redact env) (df_id file) g None now) s1 = (Inr (), s')"
        using h None by (auto simp: hand_over_def Let_def)
      from fail [OF this] show ?thesis by (auto simp: left_def)
    next
      case False
      then have "write_store (record_failure (ev_redact env) (df_id file) f ?t now) s1 = (Inr (), s')"
        using h None by (simp add: hand_over_def Let_def)
      from fail [OF this] show ?thesis .
    qed
  next
    case (Some x)
    obtain st2 where st2: "hand_over env file f ?t now s1 = (Inr (), s1\<lparr>sc_store := st2\<rparr>)"
      "\<exists>r. get_download (df_id file) st2 = Some r \<and> df_state r \<in> {Failed, Blocked}" "store_ok st2"
      by (rule handed_over [OF ok1 row1 Some, of env f ?t now]) blast
    then show ?thesis using h by (auto simp: left_def)
  qed
  have r: "store_ok (sc_store s') \<and> (\<exists>r'. get_download (df_id file) (sc_store s') = Some r' \<and> left f ?t r')"
  proof (cases "df_mirror_group file \<noteq> None \<and> hands_over f ?t")
    case True
    with rec e show ?thesis by (intro hand) simp
  next
    case False
    from rec have "write_store (record_failure (ev_redact env) (df_id file) f ?t now) s1 = (Inr (), s')"
      unfolding e if_not_P [OF False] .
    then show ?thesis by (rule fail)
  qed
  then show "store_ok (sc_store s')" by blast
  have "?t \<noteq> None \<Longrightarrow> f = failure" unfolding f_def by (cases ?t) simp_all
  with r waits show "\<exists>r'. get_download (df_id file) (sc_store s') = Some r' \<and>
      (df_state r' \<in> {Failed, Blocked} \<or>
       (\<exists>waits t. limit_waits_of failure (df_id file) (sc_store s) = Inr waits
          \<and> retry_at (ev_latest env) failure (df_retry_count file) waits (ev_schedule env) now = Some t
          \<and> r' = failed_row (ev_redact env) failure (Some t) now row))"
    by (cases ?t) (auto simp: left_def)
qed


section \<open>Recovery of stalled groups\<close>

text \<open>The choice of the sweep, row by row.\<close>

definition stalled_choice :: "store \<Rightarrow> download_row \<Rightarrow> bool" where
  "stalled_choice st r =
     (case group_key r of
        None \<Rightarrow> False
      | Some k \<Rightarrow> stalled_candidate (group_members k (list_downloads st)) = Some r)"

lemma stalled_member:
  assumes "stalled_candidate (group_members k downloads) = Some x"
  shows "x \<in> set downloads" and "group_key x = Some k" and "df_state x = Skipped"
proof -
  have "best_candidate (filter (\<lambda>r. df_state r = Skipped) (group_members k downloads)) = Some x"
    using assms by (simp add: stalled_candidate_def split: if_splits)
  then have "x \<in> set (filter (\<lambda>r. df_state r = Skipped) (group_members k downloads))" by (rule mirror.pick_in)
  then show "x \<in> set downloads" and "group_key x = Some k" and "df_state x = Skipped"
    by (simp_all add: group_members_def)
qed

lemma stalled_choice_alone:
  assumes "stalled_choice st r" and "x \<in> set (list_downloads st)" and "group_key x = group_key r"
  shows "\<not> holds_the_group_open (df_state x)"
  using assms by (auto simp: stalled_choice_def stalled_candidate_def group_members_def list_ex_iff
      split: option.splits if_splits)

text \<open>
  What a restart is, said without the sweep. One mirror is preferred to another by the order of the
  settings: one without an error on record before one with, one with an account before one without,
  then the place in the package, then the age. The mirror that restarts its group waits skipped, every
  link of its group has failed, was cancelled or waits skipped as well, and no waiting link of the
  group is preferred to it; of equals it is the first in the list of the downloads.
\<close>

definition preferred :: "download_row \<Rightarrow> download_row \<Rightarrow> bool" where
  "preferred a b \<longleftrightarrow>
     (df_last_error a = None \<and> df_last_error b \<noteq> None) \<or>
     (df_last_error a = None \<longleftrightarrow> df_last_error b = None) \<and>
       ((df_account_id a \<noteq> None \<and> df_account_id b = None) \<or>
        (df_account_id a = None \<longleftrightarrow> df_account_id b = None) \<and>
          (df_position a < df_position b \<or>
           df_position a = df_position b \<and> df_created_at a < df_created_at b))"

definition restarts :: "store \<Rightarrow> download_row \<Rightarrow> bool" where
  "restarts st r \<longleftrightarrow>
     (\<exists>k pre post. group_key r = Some k \<and> df_state r = Skipped \<and> list_downloads st = pre @ r # post
        \<and> (\<forall>m \<in> set (list_downloads st). group_key m = Some k \<longrightarrow> df_state m \<in> {Failed, Cancelled, Skipped})
        \<and> (\<forall>m \<in> set pre. group_key m = Some k \<and> df_state m = Skipped \<longrightarrow> preferred r m)
        \<and> (\<forall>m \<in> set post. group_key m = Some k \<and> df_state m = Skipped \<longrightarrow> \<not> preferred m r))"

lemma preferred_key: "preferred a b \<longleftrightarrow> candidate_key a < candidate_key b"
  by (auto simp: preferred_def candidate_key_def less_prod_def')

lemma min_by_key_at:
  assumes "\<forall>x \<in> set pre. f m < f x" and "\<forall>x \<in> set post. f m \<le> f x"
  shows "min_by_key f (pre @ m # post) = Some m"
  using assms
proof (induction pre)
  case Nil
  then show ?case
    by (auto split: option.split dest!: min_by_key_Some simp: not_less [symmetric])
qed auto

lemma filter_at:
  "filter P xs = pre @ m # post \<Longrightarrow>
   \<exists>pre' post'. xs = pre' @ m # post' \<and> filter P pre' = pre \<and> filter P post' = post"
proof (induction xs arbitrary: pre)
  case (Cons x xs)
  show ?case
  proof (cases "P x \<and> pre = []")
    case True
    then show ?thesis using Cons.prems by (intro exI [of _ "[]"] exI [of _ xs]) auto
  next
    case False
    then have "filter P xs = (if P x then tl pre else pre) @ m # post" and "P x \<Longrightarrow> pre = x # tl pre"
      using Cons.prems by (cases pre; auto split: if_splits)+
    from Cons.IH [OF this(1)] this(2) obtain pre' post' where "xs = pre' @ m # post'"
      "filter P (x # pre') = pre" "filter P post' = post" by (auto split: if_splits)
    then show ?thesis by (intro exI [of _ "x # pre'"] exI [of _ post']) simp
  qed
qed simp

lemma open_states: "\<not> holds_the_group_open s \<longleftrightarrow> s \<in> {Failed, Cancelled, Skipped}"
  by (cases s) (simp_all add: mirror_state_defs)

lemma restarts_iff: "restarts st r = stalled_choice st r"
proof
  let ?ds = "list_downloads st"
  assume "restarts st r"
  then obtain k pre post where k: "group_key r = Some k" "df_state r = Skipped" and ds: "?ds = pre @ r # post"
    and shut: "\<forall>m \<in> set ?ds. group_key m = Some k \<longrightarrow> df_state m \<in> {Failed, Cancelled, Skipped}"
    and best: "\<forall>m \<in> set pre. group_key m = Some k \<and> df_state m = Skipped \<longrightarrow> preferred r m"
      "\<forall>m \<in> set post. group_key m = Some k \<and> df_state m = Skipped \<longrightarrow> \<not> preferred m r"
    unfolding restarts_def by blast
  let ?w = "\<lambda>xs. filter (\<lambda>r. df_state r = Skipped) (group_members k xs)"
  have "?w ?ds = ?w pre @ r # ?w post" using k by (simp add: ds group_members_def)
  moreover have "min_by_key candidate_key (?w pre @ r # ?w post) = Some r"
    by (rule min_by_key_at) (use best in \<open>auto simp: group_members_def preferred_key not_less\<close>)
  ultimately have "best_candidate (?w ?ds) = Some r" by (simp add: best_candidate_def)
  moreover have "\<not> list_ex (\<lambda>r. holds_the_group_open (df_state r)) (group_members k ?ds)"
    using shut unfolding list_ex_iff group_members_def using open_states by fastforce
  ultimately show "stalled_choice st r" using k(1) by (simp add: stalled_choice_def stalled_candidate_def)
next
  let ?ds = "list_downloads st"
  assume a: "stalled_choice st r"
  then obtain k where k: "group_key r = Some k" and c: "stalled_candidate (group_members k ?ds) = Some r"
    by (auto simp: stalled_choice_def split: option.splits)
  let ?w = "\<lambda>xs. filter (\<lambda>r. df_state r = Skipped) (group_members k xs)"
  have s: "df_state r = Skipped" using stalled_member(3) [OF c] .
  have "min_by_key candidate_key (?w ?ds) = Some r"
    using c by (simp add: stalled_candidate_def best_candidate_def split: if_splits)
  from min_by_key_first [OF this] obtain pre post where w: "?w ?ds = pre @ r # post"
    "\<forall>x \<in> set pre. candidate_key r < candidate_key x" "\<forall>x \<in> set post. candidate_key r \<le> candidate_key x" by blast
  have "filter (\<lambda>m. group_key m = Some k \<and> df_state m = Skipped) ?ds = pre @ r # post"
    using w(1) by (simp add: group_members_def conj_commute)
  from filter_at [OF this] obtain pre' post' where "?ds = pre' @ r # post'"
    "filter (\<lambda>m. group_key m = Some k \<and> df_state m = Skipped) pre' = pre"
    "filter (\<lambda>m. group_key m = Some k \<and> df_state m = Skipped) post' = post" by blast
  moreover have "\<forall>m \<in> set ?ds. group_key m = Some k \<longrightarrow> df_state m \<in> {Failed, Cancelled, Skipped}"
    using stalled_choice_alone [OF a] k unfolding open_states by simp
  moreover have "\<forall>m \<in> set pre'. group_key m = Some k \<and> df_state m = Skipped \<longrightarrow> preferred r m"
    using w(2) calculation(2) by (auto simp: preferred_key)
  moreover have "\<forall>m \<in> set post'. group_key m = Some k \<and> df_state m = Skipped \<longrightarrow> \<not> preferred m r"
    using w(3) calculation(3) by (auto simp: preferred_key not_less)
  ultimately show "restarts st r" unfolding restarts_def using k s by blast
qed

lemma group_keys_set: "k \<in> set (group_keys downloads) \<longleftrightarrow> (\<exists>r \<in> set downloads. group_key r = Some k)"
  by (force simp: group_keys_def List.map_filter_def)

lemma in_list_downloads: "r \<in> set (list_downloads st) \<Longrightarrow> r \<in> set (st_downloads st)"
  by (simp add: list_downloads_def)

text \<open>The sweep, group by group, against the store it started from.\<close>

definition swept :: "store \<Rightarrow> (package_id \<times> string) set \<Rightarrow> instant \<Rightarrow> store \<Rightarrow> bool" where
  "swept st0 K now st \<longleftrightarrow> store_ok st \<and>
     (\<forall>j r. get_download j st0 = Some r \<longrightarrow>
        (\<exists>r'. get_download j st = Some r' \<and>
           settles (if stalled_choice st0 r \<and> group_key r \<in> Some ` K then moved_row Queued None now r else r) r')) \<and>
     (\<forall>j. get_download j st0 = None \<longrightarrow> get_download j st = None)"

lemma sweptD:
  "swept st0 K now st \<Longrightarrow> get_download j st0 = Some r \<Longrightarrow>
     \<exists>r'. get_download j st = Some r' \<and>
       settles (if stalled_choice st0 r \<and> group_key r \<in> Some ` K then moved_row Queued None now r else r) r'"
  unfolding swept_def by blast

lemma swept_skip:
  assumes "swept st0 K now st" and "stalled_candidate (group_members k (list_downloads st0)) = None"
  shows "swept st0 (insert k K) now st"
proof -
  have "stalled_choice st0 r \<Longrightarrow> group_key r \<noteq> Some k" for r
    using assms(2) by (auto simp: stalled_choice_def)
  then have "stalled_choice st0 r \<and> group_key r \<in> Some ` insert k K \<longleftrightarrow> stalled_choice st0 r \<and> group_key r \<in> Some ` K" for r
    by auto
  then show ?thesis using assms(1) by (simp add: swept_def)
qed

lemma swept_step:
  assumes sw: "swept st0 K now st" and ok: "store_ok st0" and k: "k \<notin> K"
    and x: "stalled_candidate (group_members k (list_downloads st0)) = Some x"
  obtains st' where "transition_download redact (df_id x) Queued now st = Inr (moved_row Queued None now x, st')"
    and "swept st0 (insert k K) now st'"
proof -
  note m = stalled_member [OF x]
  have gx: "get_download (df_id x) st0 = Some x"
    using get_download_in [OF ok in_list_downloads [OF m(1)]] .
  have xr: "stalled_choice st0 x" using x m(2) by (simp add: stalled_choice_def)
  have "\<exists>r'. get_download (df_id x) st = Some r' \<and> settles x r'"
  proof -
    have "\<not> group_key x \<in> Some ` K" using k m(2) by auto
    with sweptD [OF sw gx] show ?thesis by simp
  qed
  then have g: "get_download (df_id x) st = Some x" using settles_only [of x] m(3) by auto
  have c: "can_transition_to (df_state x) Queued" by (simp add: m(3) can_transition_to_def)
  have oks: "store_ok st" using sw by (simp add: swept_def)
  obtain st' where st': "transition_download_with_reason redact (df_id x) Queued None now st = Inr (moved_row Queued None now x, st')"
    "writes_one (df_id x) (moved_row Queued None now) st st'"
    by (rule transition_writes [OF oks g c])
  have only: "df_id x = j" if "stalled_choice st0 r" "group_key r = Some k" "get_download j st0 = Some r" for j r
    using that x get_download_Some [OF that(3)] by (auto simp: stalled_choice_def)
  have "\<exists>r'. get_download j st' = Some r' \<and>
      settles (if stalled_choice st0 r \<and> group_key r \<in> Some ` insert k K then moved_row Queued None now r else r) r'"
    if r: "get_download j st0 = Some r" for j r
  proof (cases "j = df_id x")
    case True
    then have "r = x" using r gx by simp
    then show ?thesis using writes_oneD(4) [OF st'(2) g] xr m(2) True by simp
  next
    case False
    obtain r1 where r1: "get_download j st = Some r1"
      "settles (if stalled_choice st0 r \<and> group_key r \<in> Some ` K then moved_row Queued None now r else r) r1"
      using sw r unfolding swept_def by blast
    obtain r2 where r2: "get_download j st' = Some r2" "settles r1 r2"
      using writes_oneD(4) [OF st'(2) r1(1)] False by auto
    have "stalled_choice st0 r \<and> group_key r \<in> Some ` insert k K \<longleftrightarrow> stalled_choice st0 r \<and> group_key r \<in> Some ` K"
      using only [OF _ _ r] False by auto
    then show ?thesis using r2(1) settles_trans [OF r1(2) r2(2)] by auto
  qed
  moreover have "get_download j st0 = None \<Longrightarrow> get_download j st' = None" for j
    using sw writes_oneD(3) [OF st'(2)] by (simp add: swept_def)
  ultimately have "swept st0 (insert k K) now st'"
    using writes_oneD(1) [OF st'(2)] by (simp add: swept_def)
  with st'(1) show thesis by (intro that) (simp_all add: transition_download_def)
qed

lemma recover_groups_swept:
  fixes s :: "'s scheduler_scheme"
  assumes "swept st0 K now (sc_store s)" and "store_ok st0" and "distinct ks" and "K \<inter> set ks = {}"
  shows "\<exists>st'. recover_groups env (list_downloads st0) ks now s = (Inr (), s\<lparr>sc_store := st'\<rparr>)
    \<and> swept st0 (K \<union> set ks) now st'"
  using assms
proof (induction ks arbitrary: K s)
  case Nil
  then show ?case by (intro exI [of _ "sc_store s"]) simp
next
  case (Cons k ks)
  show ?case
  proof (cases "stalled_candidate (group_members k (list_downloads st0))")
    case None
    from Cons.IH [OF swept_skip [OF Cons.prems(1) None]] Cons.prems(2,3,4) None show ?thesis by auto
  next
    case (Some x)
    have k: "k \<notin> K" using Cons.prems(4) by simp
    obtain st' where st': "transition_download (ev_redact env) (df_id x) Queued now (sc_store s) = Inr (moved_row Queued None now x, st')"
      "swept st0 (insert k K) now st'"
      by (rule swept_step [OF Cons.prems(1,2) k Some])
    have "recover_groups env (list_downloads st0) (k # ks) now s
        = recover_groups env (list_downloads st0) ks now (s\<lparr>sc_store := st'\<rparr>)"
      by (simp add: Some write_store_def st'(1))
    with Cons.IH [of "insert k K" "s\<lparr>sc_store := st'\<rparr>"] st'(2) Cons.prems(2,3,4) show ?thesis by auto
  qed
qed

text \<open>Property C11. Recovery restarts exactly the stalled groups: the sweep always comes through, and
  afterwards a row has left its place for the queue if and only if it waited skipped in a group of
  which every link had failed, was cancelled or waited skipped, and no other waiting link of the group
  is preferred to it (no error on record, then an account, then the place in the package, then the
  age; of equals the first in the list); every other row is as it was, except that held-back verdicts
  which fall due are taken.\<close>

theorem recovery_restarts_the_stalled_groups:
  fixes s :: "'s scheduler_scheme"
  assumes "store_ok (sc_store s)"
  shows "\<exists>st'. recover_stalled_mirror_groups env now s = (Inr (), s\<lparr>sc_store := st'\<rparr>)
    \<and> (\<forall>j r. get_download j (sc_store s) = Some r \<longrightarrow>
         (\<exists>r'. get_download j st' = Some r' \<and>
            settles (if restarts (sc_store s) r then moved_row Queued None now r else r) r'))"
proof -
  let ?st = "sc_store s"
  let ?ds = "list_downloads ?st"
  have "swept ?st {} now ?st" using assms by (simp add: swept_def)
  then obtain st' where st': "recover_groups env ?ds (group_keys ?ds) now s = (Inr (), s\<lparr>sc_store := st'\<rparr>)"
    "swept ?st (set (group_keys ?ds)) now st'"
    using recover_groups_swept [of ?st "{}" now s "group_keys ?ds" env] assms by (auto simp: group_keys_def)
  have "stalled_choice ?st r \<Longrightarrow> group_key r \<in> Some ` set (group_keys ?ds)" for r
    using stalled_member(1,2) by (fastforce simp: stalled_choice_def group_keys_set split: option.splits)
  then show ?thesis using st' unfolding restarts_iff swept_def recover_stalled_mirror_groups_def Let_def by fastforce
qed


theorem recovery_restarts_the_stalled_groups_witness:
  "\<exists>r. get_download ''b'' (sc_store (snd (recover_stalled_mirror_groups an_env 5
       (a_scheduler [a_mirror ''a'' Failed 1, a_mirror ''b'' Skipped 2])))) = Some r \<and> df_state r = Queued"
proof -
  let ?s = "a_scheduler [a_mirror ''a'' Failed 1, a_mirror ''b'' Skipped 2]"
  let ?b = "a_mirror ''b'' Skipped 2"
  have ok: "store_ok (sc_store ?s)" by (simp add: store_ok_def group_sample_defs)
  have g: "get_download ''b'' (sc_store ?s) = Some ?b" by (simp add: get_download_def group_sample_defs)
  have "list_downloads (sc_store ?s) = [a_mirror ''a'' Failed 1, ?b]" by code_simp
  then have "restarts (sc_store ?s) ?b"
    unfolding restarts_def by (intro exI [of _ "(''p'', ''g'')"] exI [of _ "[a_mirror ''a'' Failed 1]"] exI [of _ "[]"])
      (simp add: group_sample_defs group_key_def)
  with recovery_restarts_the_stalled_groups [OF ok, of an_env 5] g
  obtain st' r' where r: "recover_stalled_mirror_groups an_env 5 ?s = (Inr (), ?s\<lparr>sc_store := st'\<rparr>)"
    "get_download ''b'' st' = Some r'" "settles (moved_row Queued None 5 ?b) r'" by fastforce
  have "r' = moved_row Queued None 5 ?b" by (rule settles_only [OF _ r(3)]) simp
  with r(1,2) show ?thesis by simp
qed

section \<open>The automatic retry's pass\<close>

definition due_row :: "instant option \<Rightarrow> download_row \<Rightarrow> download_row" where
  "due_row at r = (if df_state r = Failed then r\<lparr>df_next_retry_at := at\<rparr> else r)"

lemma due_row_keeps [simp]: "df_id (due_row at r) = df_id r" "group_key (due_row at r) = group_key r"
  "df_state (due_row at r) = df_state r"
  by (simp_all add: due_row_def)

lemma schedule_auto_retry_writes:
  assumes "store_ok st"
  shows "writes_one i (due_row at) st (snd (schedule_auto_retry i at st))"
proof -
  have g: "get_download j (snd (schedule_auto_retry i at st)) = map_option (\<lambda>r. if j = i then due_row at r else r) (get_download j st)" for j
    using get_download_Some [of j st] unfolding schedule_auto_retry_get
    by (cases "get_download j st") (auto simp: due_row_def)
  show ?thesis
    unfolding writes_one_def g using schedule_auto_retry_ok [OF assms]
    by (auto simp: schedule_auto_retry_rows split: option.splits)
qed

text \<open>A file that has failed meets one of three fates.\<close>

lemma auto_retry_one_cases:
  assumes "store_ok st" and "get_download (df_id file) st = Some file" and "df_state file = Failed"
  obtains
    (kept) "auto_retry_one redact settings now file (n, st) = (n, st)"
      "ar_enabled settings \<or> df_next_retry_at file = None"
  | (due) at st' where "auto_retry_one redact settings now file (n, st) = (n, st')"
      "writes_one (df_id file) (due_row at) st st'" "ar_enabled settings \<or> at = None"
  | (requeued) due st' where "auto_retry_one redact settings now file (n, st) = (n + 1, st')"
      "writes_one (df_id file) (requeued_row True now) st st'"
      "ar_enabled settings" "may_pass_later file" "rounds_left settings (dr_auto_retry_rounds file)"
      "\<not> group_moved_on file st" "df_next_retry_at file = Some due" "due \<le> now"
proof -
  let ?later = "now + auto_retry_interval settings"
  note w = schedule_auto_retry_writes [OF assms(1), of "df_id file"]
  show thesis
  proof (cases "ar_enabled settings \<and> may_pass_later file \<and> rounds_left settings (dr_auto_retry_rounds file)
      \<and> \<not> group_moved_on file st")
    case False
    then have e: "auto_retry_one redact settings now file (n, st)
        = (n, if df_next_retry_at file \<noteq> None then snd (schedule_auto_retry (df_id file) None st) else st)"
      unfolding auto_retry_one_def Let_def by simp
    show ?thesis
    proof (cases "df_next_retry_at file")
      case None
      then show ?thesis using kept e by simp
    next
      case (Some d)
      then show ?thesis using due [OF _ w [of None]] e by simp
    qed
  next
    case True
    then have e: "auto_retry_one redact settings now file (n, st) = (case df_next_retry_at file of
        Some due \<Rightarrow>
          if due \<le> now then (case requeue_failed redact (df_id file) True now st of
                              (None, st) \<Rightarrow> (n, st) | (Some _, st) \<Rightarrow> (n + 1, st))
          else if due \<le> ?later then (n, st)
          else (n, snd (schedule_auto_retry (df_id file) (Some ?later) st))
      | None \<Rightarrow> (n, snd (schedule_auto_retry (df_id file) (Some ?later) st)))"
      unfolding auto_retry_one_def Let_def by (simp split: option.split)
    show ?thesis
    proof (cases "df_next_retry_at file")
      case None
      then show ?thesis using due [OF _ w [of "Some ?later"]] e True by simp
    next
      case (Some d)
      show ?thesis
      proof (cases "d \<le> now")
        case True': True
        obtain row st' where r: "requeue_failed redact (df_id file) True now st = (Some row, st')"
          "writes_one (df_id file) (requeued_row True now) st st'"
          by (rule requeue_failed_writes [OF assms(1,2,3)])
        show ?thesis using requeued [OF _ r(2)] e Some True True' r(1) by simp
      next
        case False
        then show ?thesis using kept due [OF _ w [of "Some ?later"]] e Some True by (cases "d \<le> ?later") simp_all
      qed
    qed
  qed
qed

definition untouched :: "download_row list \<Rightarrow> store \<Rightarrow> bool" where
  "untouched fs st \<longleftrightarrow> distinct (map df_id fs)
     \<and> (\<forall>file \<in> set fs. get_download (df_id file) st = Some file \<and> df_state file = Failed)"

lemma untouchedD:
  "untouched (x # fs) st \<Longrightarrow> get_download (df_id x) st = Some x \<and> df_state x = Failed
     \<and> df_id x \<notin> df_id ` set fs \<and> untouched fs st"
  "untouched fs st \<Longrightarrow> y \<in> set fs \<Longrightarrow> get_download (df_id y) st = Some y \<and> df_state y = Failed"
  by (simp_all add: untouched_def)

lemma untouched_step:
  assumes "untouched (file # fs) st" and "st' = st \<or> (\<exists>f. writes_one (df_id file) f st st')"
  shows "untouched fs st'"
proof -
  have "get_download (df_id x) st' = Some x" if x: "x \<in> set fs" for x
  proof -
    have ne: "df_id x \<noteq> df_id file" and g: "get_download (df_id x) st = Some x" "df_state x = Failed"
      using untouchedD(1) [OF assms(1)] untouchedD(2) [OF _ x] x by (metis imageI)+
    show ?thesis
      using assms(2)
    proof
      assume "\<exists>f. writes_one (df_id file) f st st'"
      then obtain f where "writes_one (df_id file) f st st'" by blast
      from writes_oneD(4) [OF this g(1)] ne show ?thesis using settles_only [of x] g(2) by auto
    qed (use g in simp)
  qed
  moreover have "distinct (map df_id fs)" using assms(1) by (simp add: untouched_def)
  moreover have "df_state x = Failed" if "x \<in> set fs" for x
    using untouchedD(1) [OF assms(1)] untouchedD(2) that by blast
  ultimately show ?thesis by (simp add: untouched_def)
qed

lemma untouched_failed: "store_ok st \<Longrightarrow> untouched (failed_downloads st) st"
  unfolding untouched_def failed_downloads_def
  using distinct_in_queue_order [of st "\<lambda>r. df_state r = Failed"] in_queue_order_row by blast

text \<open>What a pass may make of a row that had failed.\<close>

definition after_pass :: "auto_retry \<Rightarrow> instant \<Rightarrow> download_row \<Rightarrow> download_row \<Rightarrow> bool" where
  "after_pass settings now r r' \<longleftrightarrow>
     r' = r\<lparr>df_next_retry_at := df_next_retry_at r'\<rparr>
     \<or> r' = requeued_row True now r \<and> ar_enabled settings \<and> may_pass_later r
       \<and> rounds_left settings (dr_auto_retry_rounds r) \<and> (\<exists>due. df_next_retry_at r = Some due \<and> due \<le> now)"

lemma after_pass_state:
  assumes "after_pass settings now r r'" and "df_state r = Failed"
  shows "df_state r' \<in> {Failed, Queued}"
  using assms(1) unfolding after_pass_def
proof
  assume "r' = r\<lparr>df_next_retry_at := df_next_retry_at r'\<rparr>"
  moreover have "df_state (r\<lparr>df_next_retry_at := t\<rparr>) = df_state r" for t by simp
  ultimately have "df_state r' = df_state r" by metis
  then show ?thesis using assms(2) by simp
qed auto

lemma same_due [simp]: "r\<lparr>df_next_retry_at := df_next_retry_at r\<rparr> = r"
  by simp

lemma auto_retry_one_row:
  assumes ok: "store_ok st" and u: "get_download (df_id file) st = Some file" "df_state file = Failed"
    and e: "auto_retry_one redact settings now file (n, st) = (n', st')"
  shows "store_ok st' \<and> (st' = st \<or> (\<exists>f. writes_one (df_id file) f st st'))
    \<and> (\<exists>r'. get_download (df_id file) st' = Some r' \<and> after_pass settings now file r'
         \<and> (ar_enabled settings \<or> df_next_retry_at r' = None))
    \<and> (\<forall>j r. j \<noteq> df_id file \<longrightarrow> get_download j st = Some r \<longrightarrow> (\<exists>r'. get_download j st' = Some r' \<and> settles r r'))"
proof -
  have one: ?thesis
    if w: "writes_one (df_id file) f st st'" and f: "df_state (f file) \<noteq> Verifying"
      and a: "after_pass settings now file (f file)" "ar_enabled settings \<or> df_next_retry_at (f file) = None" for f
  proof -
    obtain r' where r': "get_download (df_id file) st' = Some r'" "settles (f file) r'"
      using writes_oneD(4) [OF w u(1)] by auto
    have "r' = f file" by (rule settles_only [OF f r'(2)])
    with r'(1) a writes_oneD(1,4) [OF w] w show ?thesis by fastforce
  qed
  from ok u show ?thesis
  proof (cases rule: auto_retry_one_cases [where redact = redact and settings = settings and now = now and n = n])
    case kept
    then show ?thesis using e ok u(1) by (auto simp: after_pass_def)
  next
    case (due at s)
    then show ?thesis
      using one [of "due_row at"] e u(2) by (auto simp: after_pass_def due_row_def)
  next
    case (requeued d s)
    then show ?thesis
      using one [of "requeued_row True now"] e by (auto simp: after_pass_def)
  qed
qed

lemma fold_auto_retry:
  assumes "store_ok st" and "untouched fs st" and "fold (auto_retry_one redact settings now) fs (n, st) = (n', st')"
  shows "store_ok st' \<and> (\<forall>j r. get_download j st = Some r \<longrightarrow> (\<exists>r'. get_download j st' = Some r' \<and>
     (if j \<in> df_id ` set fs then after_pass settings now r r' \<and> (ar_enabled settings \<or> df_next_retry_at r' = None)
      else settles r r')))"
  using assms
proof (induction fs arbitrary: n st)
  case (Cons x fs)
  obtain n1 st1 where e1: "auto_retry_one redact settings now x (n, st) = (n1, st1)" by fastforce
  have u: "get_download (df_id x) st = Some x" "df_state x = Failed" "df_id x \<notin> df_id ` set fs"
    using untouchedD(1) [OF Cons.prems(2)] by simp_all
  note step = auto_retry_one_row [OF Cons.prems(1) u(1,2) e1]
  have "untouched fs st1" by (rule untouched_step [OF Cons.prems(2)]) (use step in blast)
  note rest = Cons.IH [OF _ this, of n1] step Cons.prems(3)
  have ok': "store_ok st'" and ih: "get_download j st1 = Some r \<Longrightarrow> \<exists>r'. get_download j st' = Some r' \<and>
     (if j \<in> df_id ` set fs then after_pass settings now r r' \<and> (ar_enabled settings \<or> df_next_retry_at r' = None)
      else settles r r')" for j r
    using rest e1 by simp_all
  have "\<exists>r'. get_download j st' = Some r' \<and>
     (if j \<in> df_id ` set (x # fs) then after_pass settings now r r' \<and> (ar_enabled settings \<or> df_next_retry_at r' = None)
      else settles r r')" if r: "get_download j st = Some r" for j r
  proof (cases "j = df_id x")
    case True
    with r u(1) have "r = x" by simp
    obtain r1 where r1: "get_download j st1 = Some r1" "after_pass settings now x r1"
      "ar_enabled settings \<or> df_next_retry_at r1 = None"
      using step True by blast
    obtain r' where r': "get_download j st' = Some r'" "settles r1 r'" using ih [OF r1(1)] u(3) True by auto
    have "df_state r1 \<in> {Failed, Queued}"
      using after_pass_state [OF r1(2) u(2)] .
    then have "r' = r1" using settles_only [OF _ r'(2)] by auto
    then show ?thesis using r'(1) r1 True \<open>r = x\<close> by auto
  next
    case False
    obtain r1 where r1: "get_download j st1 = Some r1" "settles r r1" using step r False by blast
    obtain r' where r': "get_download j st' = Some r'"
      "if j \<in> df_id ` set fs then after_pass settings now r1 r' \<and> (ar_enabled settings \<or> df_next_retry_at r' = None)
       else settles r1 r'" using ih [OF r1(1)] by blast
    show ?thesis
    proof (cases "j \<in> df_id ` set fs")
      case True
      then obtain y where y: "y \<in> set (x # fs)" "j = df_id y" by auto
      then have "df_state r = Failed" using r untouchedD(2) [OF Cons.prems(2) y(1)] by simp
      then have "r1 = r" using settles_only [OF _ r1(2)] by simp
      then show ?thesis using r' True by auto
    next
      case F: False
      then show ?thesis using r' False settles_trans [OF r1(2), of r'] by auto
    qed
  qed
  then show ?case using ok' by blast
qed simp




section \<open>The field of a group\<close>

lemma runs_on_runners:
  assumes "writes_one i f st st'" and "store_ok st" and "get_download i st = Some r" and "in_the_running (df_state r)"
    and "\<And>r. group_key (f r) = group_key r"
  shows "runners k st' \<subseteq> runners k st"
proof
  fix j assume j: "j \<in> runners k st'"
  show "j \<in> runners k st"
  proof (cases "j = i")
    case True
    then show ?thesis
      using writes_one_runners(2) [OF assms(1,2,5)] j assms(3,4) by (auto simp: runners_iff [OF assms(2)])
  qed (rule writes_one_runners(1) [OF assms(1,2,5) j])
qed

definition narrower :: "store \<Rightarrow> store \<Rightarrow> bool" where
  "narrower st st' \<longleftrightarrow> (\<forall>k. card (runners k st') \<le> max 1 (card (runners k st)))"

lemma narrower_refl [simp]: "narrower st st"
  by (simp add: narrower_def)

lemma narrower_trans: "narrower a b \<Longrightarrow> narrower b c \<Longrightarrow> narrower a c"
  unfolding narrower_def by (meson le_max_iff_disj max.boundedI max.cobounded1 order_trans)

lemma narrowerI: "(\<And>k. runners k st' \<subseteq> runners k st \<or> (\<exists>i. runners k st' \<subseteq> {i})) \<Longrightarrow> narrower st st'"
  unfolding narrower_def
proof
  fix k assume "\<And>k. runners k st' \<subseteq> runners k st \<or> (\<exists>i. runners k st' \<subseteq> {i})"
  then consider "runners k st' \<subseteq> runners k st" | i where "runners k st' \<subseteq> {i}" by blast
  then show "card (runners k st') \<le> max 1 (card (runners k st))"
  proof cases
    case 1
    then show ?thesis using card_mono [OF finite_runners 1] by simp
  next
    case 2
    then show ?thesis using card_mono [OF _ 2] by simp
  qed
qed

lemma record_error_narrower:
  fixes s :: "'s scheduler_scheme"
  assumes ok: "store_ok (sc_store s)" and row: "get_download (df_id x) (sc_store s) = Some row"
    and run: "in_the_running (df_state row)" and grp: "group_key row = group_key x"
  shows "store_ok (sc_store (snd (record_error env x failure now s)))
    \<and> narrower (sc_store s) (sc_store (snd (record_error env x failure now s)))"
proof (cases "limit_waits_of failure (df_id x) (sc_store s)")
  case (Inl e)
  then show ?thesis using ok by (simp add: record_error_def)
next
  case (Inr waits)
  let ?t = "retry_at (ev_latest env) failure (df_retry_count x) waits (ev_schedule env) now"
  obtain f s1 where s1: "sc_store s1 = sc_store s"
    and e: "record_error env x failure now s =
      (if df_mirror_group x \<noteq> None \<and> hands_over f ?t then hand_over env x f ?t now s1
       else write_store (record_failure (ev_redact env) (df_id x) f ?t now) s1)"
    using record_error_cases [OF Inr refl, of env now] by metis
  have ok1: "store_ok (sc_store s1)" and row1: "get_download (df_id x) (sc_store s1) = Some row"
    using ok row by (simp_all add: s1)
  have fail: "store_ok (sc_store (snd (write_store (record_failure (ev_redact env) (df_id x) g t now) s1)))
      \<and> narrower (sc_store s) (sc_store (snd (write_store (record_failure (ev_redact env) (df_id x) g t now) s1)))" for g t
  proof -
    obtain st where st: "record_failure (ev_redact env) (df_id x) g t now (sc_store s1)
        = Inr (failed_row (ev_redact env) g t now row, st)"
      "writes_one (df_id x) (failed_row (ev_redact env) g t now) (sc_store s1) st"
      by (rule record_failure_writes [OF ok1 row1])
    have "narrower (sc_store s1) st"
      by (rule narrowerI) (use runs_on_runners [OF st(2) ok1 row1 run] in simp)
    then show ?thesis using st writes_oneD(1) [OF st(2)] by (simp add: write_store_def s1)
  qed
  have hand: "store_ok (sc_store (snd (hand_over env x f ?t now s1)))
      \<and> narrower (sc_store s) (sc_store (snd (hand_over env x f ?t now s1)))"
  proof (cases "best_candidate (waiting_mirrors x (downloads_for_package (df_package_id x) (sc_store s1)))")
    case None
    then have "\<exists>g t. hand_over env x f ?t now s1 = write_store (record_failure (ev_redact env) (df_id x) g t now) s1"
      by (auto simp: hand_over_def Let_def)
    then show ?thesis using fail by metis
  next
    case (Some y)
    obtain st2 where st2: "hand_over env x f ?t now s1 = (Inr (), s1\<lparr>sc_store := st2\<rparr>)" "store_ok st2"
      "\<And>k. runners k st2 \<subseteq> (runners k (sc_store s1) - {df_id x}) \<union> {i. i = df_id y \<and> group_key x = Some k}"
      by (rule handed_over [OF ok1 row1 Some, of env f ?t now]) blast
    have "card (runners k st2) \<le> max 1 (card (runners k (sc_store s)))" for k
    proof (cases "group_key x = Some k")
      case True
      have "df_id x \<in> runners k (sc_store s)"
        using row run grp True by (auto simp: runners_iff [OF ok])
      from card_Suc_Diff1 [OF finite_runners this]
      have "card (runners k (sc_store s) - {df_id x}) + 1 = card (runners k (sc_store s))" by simp
      moreover have "card (runners k st2) \<le> card (runners k (sc_store s) - {df_id x}) + 1"
      proof -
        have "runners k st2 \<subseteq> insert (df_id y) (runners k (sc_store s) - {df_id x})"
          using st2(3) [of k] unfolding s1 by blast
        from card_mono [OF _ this] have "card (runners k st2) \<le> card (insert (df_id y) (runners k (sc_store s) - {df_id x}))"
          by simp
        also have "\<dots> \<le> Suc (card (runners k (sc_store s) - {df_id x}))" by (rule card_insert_le_m1) simp_all
        finally show ?thesis by simp
      qed
      ultimately show ?thesis by simp
    next
      case False
      then have "runners k st2 \<subseteq> runners k (sc_store s)" using st2(3) [of k] by (auto simp: s1)
      then show ?thesis using card_mono [OF finite_runners] by (simp add: le_max_iff_disj)
    qed
    then have "narrower (sc_store s) st2" by (simp add: narrower_def)
    then show ?thesis using st2(1,2) by simp
  qed
  show ?thesis using fail hand unfolding e by simp
qed

end
