(* ===== verification/TurnsSteps.thy ===== *)
theory TurnsSteps
  imports TurnsProps
begin

text \<open>
  Runs of the steps after a failure: the field of a mirror group over any number of failures, sweeps
  and automatic retries, and the number of times one download is tried again.
\<close>

section \<open>The sweep and the pass narrow the field\<close>

lemma recovery_narrower:
  fixes s :: "'s scheduler_scheme"
  assumes ok: "store_ok (sc_store s)"
  shows "store_ok (sc_store (snd (recover_stalled_mirror_groups env now s)))
    \<and> narrower (sc_store s) (sc_store (snd (recover_stalled_mirror_groups env now s)))"
proof -
  let ?st = "sc_store s"
  let ?ds = "list_downloads ?st"
  have "swept ?st {} now ?st" using ok by (simp add: swept_def)
  then obtain st' where e: "recover_stalled_mirror_groups env now s = (Inr (), s\<lparr>sc_store := st'\<rparr>)"
    and sw: "swept ?st (set (group_keys ?ds)) now st'"
    using recover_groups_swept [of ?st "{}" now s "group_keys ?ds" env] ok
    by (auto simp: group_keys_def recover_stalled_mirror_groups_def Let_def)
  have ok': "store_ok st'" using sw by (simp add: swept_def)
  have origin: "\<exists>r. get_download j ?st = Some r \<and> group_key r = Some k
      \<and> (if stalled_choice ?st r then True else in_the_running (df_state r))" if j: "j \<in> runners k st'" for j k
  proof -
    obtain r' where r': "get_download j st' = Some r'" "group_key r' = Some k" "in_the_running (df_state r')"
      using j runners_iff [OF ok'] by blast
    obtain r where r: "get_download j ?st = Some r"
      using sw r'(1) unfolding swept_def by (cases "get_download j ?st") auto
    have s: "settles (if stalled_choice ?st r \<and> group_key r \<in> Some ` set (group_keys ?ds) then moved_row Queued None now r else r) r'"
      using sweptD [OF sw r] r'(1) by auto
    show ?thesis
      using r r'(2,3) settles_group [OF s] settles_running [OF s] by (auto split: if_splits)
  qed
  have "runners k st' \<subseteq> runners k ?st \<or> (\<exists>i. runners k st' \<subseteq> {i})" for k
  proof (cases "\<exists>x. get_download (df_id x) ?st = Some x \<and> group_key x = Some k \<and> stalled_choice ?st x")
    case True
    then obtain x where x: "get_download (df_id x) ?st = Some x" "group_key x = Some k" "stalled_choice ?st x" by blast
    have "j = df_id x" if j: "j \<in> runners k st'" for j
    proof -
      obtain r where r: "get_download j ?st = Some r" "group_key r = Some k"
        "if stalled_choice ?st r then True else in_the_running (df_state r)"
        using origin [OF j] by blast
      have "r \<in> set ?ds"
        using get_download_Some [OF r(1)] r(2) x(2,3) stalled_member(1,2)
        by (fastforce simp: list_downloads_def stalled_choice_def group_key_def split: option.splits)
      from stalled_choice_alone [OF x(3) this] have "\<not> in_the_running (df_state r)"
        using r(2) x(2) by (simp add: in_the_running_def holds_the_group_open_def)
      then have "stalled_choice ?st r" using r(3) by (simp split: if_splits)
      then have "r = x" using x(2,3) r(2) by (simp add: stalled_choice_def)
      then show ?thesis using get_download_Some [OF r(1)] by simp
    qed
    then show ?thesis by blast
  next
    case False
    have "j \<in> runners k ?st" if j: "j \<in> runners k st'" for j
      using origin [OF j] False get_download_Some by (fastforce simp: runners_iff [OF ok] split: if_splits)
    then show ?thesis by blast
  qed
  then have "narrower ?st st'" by (rule narrowerI)
  then show ?thesis using e ok' by simp
qed

lemma auto_retry_one_narrower:
  assumes ok: "store_ok st" and x: "get_download (df_id x) st = Some x" "df_state x = Failed"
    and e: "auto_retry_one redact settings now x (n, st) = (n', st')"
  shows "narrower st st'"
  using ok x
proof (cases rule: auto_retry_one_cases [where redact = redact and settings = settings and now = now and n = n])
  case kept
  then show ?thesis using e by simp
next
  case (due at s)
  have "runners k st' \<subseteq> runners k st" for k
  proof
    fix j assume j: "j \<in> runners k st'"
    have w: "writes_one (df_id x) (due_row at) st st'" using due(1,2) e by simp
    show "j \<in> runners k st"
    proof (cases "j = df_id x")
      case True
      then show ?thesis using writes_one_runners(2) [OF w ok] j by (auto simp: runners_iff [OF ok])
    qed (use writes_one_runners(1) [OF w ok _ j] in simp)
  qed
  then show ?thesis by (intro narrowerI) blast
next
  case (requeued d s)
  have w: "writes_one (df_id x) (requeued_row True now) st st'" using requeued(1,2) e by simp
  have "runners k st' \<subseteq> runners k st \<or> (\<exists>i. runners k st' \<subseteq> {i})" for k
  proof (cases "group_key x = Some k")
    case True
    have "j = df_id x" if j: "j \<in> runners k st'" for j
    proof (rule ccontr)
      assume ne: "j \<noteq> df_id x"
      have "j \<in> runners k st" using writes_one_runners(1) [OF w ok _ j ne] by simp
      then obtain r where r: "get_download j st = Some r" "group_key r = Some k" "in_the_running (df_state r)"
        by (auto simp: runners_iff [OF ok])
      have "r \<in> set (siblings x (downloads_for_package (df_package_id x) st))"
        using get_download_Some [OF r(1)] r(2) True ne by (auto simp: siblings_iff group_key_def)
      then have "group_moved_on x st"
        using r(3) True by (auto simp: group_moved_on_def list_ex_iff group_key_def in_the_running_def holds_the_group_open_def)
      with requeued(6) show False by blast
    qed
    then show ?thesis by blast
  next
    case False
    have "j \<in> runners k st" if j: "j \<in> runners k st'" for j
    proof -
      have "j \<noteq> df_id x"
        using writes_one_runners(2) [OF w ok, of k] j x(1) False by auto
      then show ?thesis using writes_one_runners(1) [OF w ok _ j] by simp
    qed
    then show ?thesis by blast
  qed
  then show ?thesis by (rule narrowerI)
qed

lemma fold_auto_retry_narrower:
  assumes "store_ok st" and "untouched fs st"
  shows "store_ok (snd (fold (auto_retry_one redact settings now) fs (n, st)))
    \<and> narrower st (snd (fold (auto_retry_one redact settings now) fs (n, st)))"
  using assms
proof (induction fs arbitrary: n st)
  case (Cons x fs)
  obtain n1 st1 where e1: "auto_retry_one redact settings now x (n, st) = (n1, st1)" by fastforce
  have u: "get_download (df_id x) st = Some x" "df_state x = Failed"
    using untouchedD(1) [OF Cons.prems(2)] by simp_all
  note row = auto_retry_one_row [OF Cons.prems(1) u e1]
  have ok1: "store_ok st1" using row by blast
  have "untouched fs st1" by (rule untouched_step [OF Cons.prems(2)]) (use row in blast)
  from Cons.IH [OF ok1 this, of n1] auto_retry_one_narrower [OF Cons.prems(1) u e1]
  show ?case using e1 narrower_trans by auto
qed simp

lemma auto_retry_pass_narrower:
  assumes "store_ok st"
  shows "store_ok (snd (snd (auto_retry_pass redact settings was now st)))
    \<and> narrower st (snd (snd (auto_retry_pass redact settings was now st)))"
  using fold_auto_retry_narrower [OF assms untouched_failed [OF assms], of redact settings now 0] assms
  by (auto simp: auto_retry_pass_def split: prod.splits)

section \<open>Any run of these steps\<close>

inductive turn_step :: "scheduler_env \<Rightarrow> 's scheduler_scheme \<Rightarrow> 's scheduler_scheme \<Rightarrow> bool" for env where
  failed: "get_download (df_id x) (sc_store s) = Some row \<Longrightarrow> group_key row = group_key x \<Longrightarrow>
     in_the_running (df_state row) \<Longrightarrow> turn_step env s (snd (record_error env x failure now s))"
| recovered: "turn_step env s (snd (recover_stalled_mirror_groups env now s))"
| retried: "turn_step env s (s\<lparr>sc_store := snd (snd (auto_retry_pass (ev_redact env) settings was now (sc_store s)))\<rparr>)"

inductive_cases turn_stepE: "turn_step env s s'"

lemma turn_step_narrower:
  assumes "turn_step env s s'" and ok: "store_ok (sc_store s)"
  shows "store_ok (sc_store s') \<and> narrower (sc_store s) (sc_store s')"
  using assms(1)
proof (elim turn_stepE)
  fix x row failure now
  assume f: "get_download (df_id x) (sc_store s) = Some row" "group_key row = group_key x"
    "in_the_running (df_state row)" and s': "s' = snd (record_error env x failure now s)"
  show ?thesis unfolding s' by (rule record_error_narrower [OF ok f(1,3,2)])
qed (use recovery_narrower [OF ok] auto_retry_pass_narrower [OF ok] in simp_all)

text \<open>Property C9. The links of a mirror group never multiply: over any run of failures of links in the
  running, sweeps at start and automatic retries, the members of a group in the running -- waiting,
  paused, under way or done -- never grow beyond what they were, or beyond one. A group that
  started with one runner downloads one copy.\<close>

theorem mirror_field_never_widens:
  assumes "(turn_step env)\<^sup>*\<^sup>* s s'" and "store_ok (sc_store s)"
  shows "card (runners k (sc_store s')) \<le> max 1 (card (runners k (sc_store s)))"
proof -
  have "store_ok (sc_store s') \<and> narrower (sc_store s) (sc_store s')"
    using assms
  proof (induction rule: rtranclp_induct)
    case (step y z)
    then show ?case using turn_step_narrower [OF step.hyps(2)] narrower_trans by blast
  qed simp
  then show ?thesis unfolding narrower_def by blast
qed


theorem mirror_field_never_widens_witness:
  "card (runners (''p'', ''g'') (sc_store (snd (recover_stalled_mirror_groups an_env 5
       (a_scheduler [a_mirror ''a'' Failed 1, a_mirror ''b'' Skipped 2, a_mirror ''c'' Skipped 3]))))) \<le> 1"
proof -
  let ?s = "a_scheduler [a_mirror ''a'' Failed 1, a_mirror ''b'' Skipped 2, a_mirror ''c'' Skipped 3]"
  have ok: "store_ok (sc_store ?s)" by (simp add: store_ok_def group_sample_defs)
  have "runners (''p'', ''g'') (sc_store ?s) = {}"
    by (auto simp: runners_def group_sample_defs in_the_running_def mirror_state_defs)
  moreover have "(turn_step an_env)\<^sup>*\<^sup>* ?s (snd (recover_stalled_mirror_groups an_env 5 ?s))"
    by (rule r_into_rtranclp, rule turn_step.recovered)
  from mirror_field_never_widens [OF this ok]
  have "card (runners (''p'', ''g'') (sc_store (snd (recover_stalled_mirror_groups an_env 5 ?s))))
      \<le> max 1 (card (runners (''p'', ''g'') (sc_store ?s)))" .
  ultimately show ?thesis by simp
qed

section \<open>The retries run out\<close>

text \<open>
  A download through its attempts: rows move in between by the writer's transitions, an attempt
  fails for good or at the server, and the count is of the failures after which the download waits
  for another attempt. The set is of the downloads whose renewal of the address has been claimed.
\<close>

inductive retry_run :: "scheduler_env \<Rightarrow> download_id \<Rightarrow> download_id set \<times> 's scheduler_scheme \<Rightarrow> nat
    \<Rightarrow> download_id set \<times> 's scheduler_scheme \<Rightarrow> bool"
  for env i where
  begins: "retry_run env i cs 0 cs"
| moves: "retry_run env i cs n (claimed, s) \<Longrightarrow>
     transition_download_with_reason (ev_redact env) j next_state reason now (sc_store s) = Inr (row, st) \<Longrightarrow>
     retry_run env i cs n (claimed, s\<lparr>sc_store := st\<rparr>)"
| fails: "retry_run env i cs n (claimed, s) \<Longrightarrow> get_download i (sc_store s) = Some x \<Longrightarrow>
     record_error env x failure now s = (Inr (), s') \<Longrightarrow> state_of (sc_store s') i = Some RetryWait \<Longrightarrow>
     retry_run env i cs (Suc n) (claimed, s')"
| server_fails: "retry_run env i cs n (claimed, s) \<Longrightarrow> get_download i (sc_store s) = Some x \<Longrightarrow>
     record_http_error env has_template x failure now claimed s = (Inr (), claimed', s') \<Longrightarrow>
     state_of (sc_store s') i = Some RetryWait \<Longrightarrow>
     retry_run env i cs (Suc n) (claimed', s')"

definition attempts_left :: "retry_schedule \<Rightarrow> download_row \<Rightarrow> nat" where
  "attempts_left schedule r =
     (unat (rt_max_retries schedule) - unat (df_retry_count r)) * 49 + (48 - dr_limit_waits r)"

lemma settles_budget: "settles r r' \<Longrightarrow> attempts_left schedule r' = attempts_left schedule r"
  by (auto simp: settles_def attempts_left_def)

lemma attempts_left_moved [simp]: "attempts_left schedule (moved_row s b now r) = attempts_left schedule r"
  by (simp add: attempts_left_def moved_row_def)

lemma retry_spends:
  assumes "limit_waits_of failure (df_id r) st = Inr waits" and "get_download (df_id r) st = Some r"
    and due: "retry_at latest failure (df_retry_count r) waits schedule now = Some t"
    and red: "\<And>f. fl_category (redact f) = fl_category f"
  shows "attempts_left schedule (failed_row redact failure (Some t) now r) < attempts_left schedule r"
proof (cases "is_limit (fl_category failure)")
  case True
  then have w: "waits = word_of_nat (dr_limit_waits r)" "dr_limit_waits r < 2 ^ 32"
    using assms(1,2) by (auto simp: limit_waits_of_def split: if_splits)
  have "waits < MAX_LIMIT_WAITS" by (rule retry_at_Some [OF due]) (use True in blast)
  then have "unat waits < 48" by (simp add: word_less_nat_alt MAX_LIMIT_WAITS_def)
  moreover have "unat waits = dr_limit_waits r" unfolding w(1) by (rule unat_of_nat_small) (use w(2) in simp)
  ultimately show ?thesis using True by (simp add: attempts_left_def failed_row_def red Let_def)
next
  case False
  have a: "df_retry_count r < rt_max_retries schedule" by (rule retry_at_Some [OF due]) (use False in blast)
  then have l: "unat (df_retry_count r) < unat (rt_max_retries schedule)" by (simp add: word_less_nat_alt)
  have "unat (rt_max_retries schedule) < 2 ^ 32" using unsigned_less [of "rt_max_retries schedule"] by simp
  then have "unat (df_retry_count r + 1) = unat (df_retry_count r) + 1"
    using l by (simp add: unat_word_ariths)
  then show ?thesis using False l by (simp add: attempts_left_def failed_row_def red Let_def)
qed

text \<open>
  What is left with the renewal of the address: the claim itself costs an attempt and brings the
  waits for the hoster's limit back once. Until it is claimed the counter stays within its start or
  the allowed attempts, so the counter does not wrap.
\<close>

definition tries_left :: "retry_schedule \<Rightarrow> download_id set \<Rightarrow> download_row \<Rightarrow> nat" where
  "tries_left schedule claimed r = attempts_left schedule r + (if df_id r \<in> claimed then 0 else 49)"

definition counter_within :: "nat \<Rightarrow> download_id set \<Rightarrow> download_row \<Rightarrow> bool" where
  "counter_within peak claimed r \<longleftrightarrow> df_id r \<in> claimed \<or> unat (df_retry_count r) \<le> peak"

lemma retry_counts:
  assumes "retry_at latest failure (df_retry_count r) waits schedule now = Some t"
    and "unat (df_retry_count r) \<le> peak" and "unat (rt_max_retries schedule) \<le> peak"
    and red: "\<And>f. fl_category (redact f) = fl_category f"
  shows "unat (df_retry_count (failed_row redact failure (Some t) now r)) \<le> peak"
proof (cases "is_limit (fl_category failure)")
  case True
  then show ?thesis using assms(2) by (simp add: failed_row_def red Let_def)
next
  case False
  have "df_retry_count r < rt_max_retries schedule" by (rule retry_at_Some [OF assms(1)]) (use False in blast)
  then have "unat (df_retry_count r) + 1 \<le> peak" and l: "unat (df_retry_count r) + 1 \<le> unat (rt_max_retries schedule)"
    using assms(3) by (simp_all add: word_less_nat_alt)
  moreover have "unat (rt_max_retries schedule) < 2 ^ 32" using unsigned_less [of "rt_max_retries schedule"] by simp
  then have "unat (df_retry_count r + 1) = unat (df_retry_count r) + 1" using l by (simp add: unat_word_ariths)
  ultimately show ?thesis using False by (simp add: failed_row_def red Let_def)
qed

lemma renewal_spends:
  assumes "fl_category failure \<in> {AuthRequired, AccountInvalid}" and "df_id r \<notin> claimed"
    and "unat (df_retry_count r) < 2 ^ 32 - 1" and red: "\<And>f. fl_category (redact f) = fl_category f"
  shows "tries_left schedule (insert (df_id r) claimed) (failed_row redact failure (Some t) now r) < tries_left schedule claimed r"
proof -
  have "\<not> is_limit (fl_category failure)" using assms(1) by (auto simp: is_limit_def)
  moreover have "unat (df_retry_count r + 1) = unat (df_retry_count r) + 1" using assms(3) by (simp add: unat_word_ariths)
  ultimately show ?thesis
    using assms(2) by (simp add: tries_left_def attempts_left_def failed_row_def red Let_def diff_le_mono)
qed

text \<open>One failure at the server, as a row of the store sees it.\<close>

lemma record_http_error_row:
  fixes s :: "'s scheduler_scheme"
  assumes ok: "store_ok (sc_store s)" and row: "get_download (df_id file) (sc_store s) = Some file"
    and rec: "record_http_error env has_template file failure now claimed s = (Inr (), claimed', s')"
  obtains (renewed) "df_id file \<notin> claimed" and "claimed' = insert (df_id file) claimed"
      and "fl_category failure \<in> {AuthRequired, AccountInvalid}" and "store_ok (sc_store s')"
      and "get_download (df_id file) (sc_store s') = Some (failed_row (ev_redact env) failure (Some now) now file)"
  | (recorded) "claimed' = claimed" and "record_error env file failure now s = (Inr (), s')"
proof (cases "fl_category failure \<in> {AuthRequired, AccountInvalid} \<and> (df_account_id file \<noteq> None \<or> has_template)
    \<and> df_id file \<notin> claimed")
  case True
  let ?f = "\<lambda>r. r\<lparr>dr_updated_at := now\<rparr>"
  let ?i = "df_id file"
  let ?st = "update_rows (\<lambda>r. df_id r = ?i) ?f (sc_store s)"
  have ok1: "store_ok ?st" by (rule store_ok_update [OF ok]) simp
  have g1: "get_download ?i ?st = Some (?f file)" by (simp add: get_update row)
  obtain st where st: "record_failure (ev_redact env) ?i failure (Some now) now ?st
        = Inr (failed_row (ev_redact env) failure (Some now) now (?f file), st)"
      "writes_one ?i (failed_row (ev_redact env) failure (Some now) now) ?st st"
    by (rule record_failure_writes [OF ok1 g1])
  have e: "claimed' = insert ?i claimed \<and> s' = s\<lparr>sc_store := st\<rparr>"
    using rec True by (simp add: record_http_error_def claim_resolver_refresh_def row write_store_def st(1))
  obtain r' where r': "get_download ?i st = Some r'"
      "settles (failed_row (ev_redact env) failure (Some now) now (?f file)) r'"
    using writes_oneD(4) [OF st(2) g1] by auto
  have "r' = failed_row (ev_redact env) failure (Some now) now (?f file)"
    by (rule settles_only [OF _ r'(2)]) (simp add: failed_row_def failure_state_def Let_def)
  then have "get_download ?i (sc_store s') = Some (failed_row (ev_redact env) failure (Some now) now file)"
    using r'(1) e by (simp add: failed_row_def Let_def)
  then show ?thesis using True e writes_oneD(1) [OF st(2)] by (intro renewed) auto
next
  case False
  then have "(case record_error env file failure now s of (out, s) \<Rightarrow> (out, claimed, s)) = (Inr (), claimed', s')"
    using rec unfolding record_http_error_def Let_def claim_resolver_refresh_def by (auto split: if_splits)
  then show ?thesis by (intro recorded) (auto split: prod.splits)
qed

lemma spent_by_record_error:
  fixes s :: "'s scheduler_scheme"
  assumes ok: "store_ok (sc_store s)" and x: "get_download i (sc_store s) = Some x"
    and rec: "record_error env x failure now s = (Inr (), s')" and w: "state_of (sc_store s') i = Some RetryWait"
    and red: "\<And>f. fl_category (ev_redact env f) = fl_category f"
  shows "store_ok (sc_store s') \<and> (\<exists>r'. get_download i (sc_store s') = Some r' \<and>
      tries_left (ev_schedule env) claimed r' < tries_left (ev_schedule env) claimed x \<and>
      (counter_within peak claimed x \<and> unat (rt_max_retries (ev_schedule env)) \<le> peak \<longrightarrow> counter_within peak claimed r'))"
proof -
  have i: "df_id x = i" using get_download_Some [OF x] by simp
  have g: "get_download (df_id x) (sc_store s) = Some x" using x i by simp
  from record_error_row [OF ok g rec] w obtain waits t
    where r: "store_ok (sc_store s')" "get_download i (sc_store s') = Some (failed_row (ev_redact env) failure (Some t) now x)"
      "limit_waits_of failure (df_id x) (sc_store s) = Inr waits"
      "retry_at (ev_latest env) failure (df_retry_count x) waits (ev_schedule env) now = Some t"
    by (auto simp: state_of_def i)
  have "attempts_left (ev_schedule env) (failed_row (ev_redact env) failure (Some t) now x) < attempts_left (ev_schedule env) x"
    by (rule retry_spends [OF r(3) g r(4) red])
  moreover have "df_id (failed_row (ev_redact env) failure (Some t) now x) = df_id x" by (simp add: failed_row_def Let_def)
  ultimately show ?thesis
    using r(1,2) retry_counts [OF r(4) _ _ red] by (auto simp: tries_left_def counter_within_def)
qed

text \<open>Property C10. The retries of a download run out: as long as its budget is not renewed -- only the
  writer's transitions move rows between its failures, no automatic retry, requeue or reset -- and
  each of its failures leaves it waiting for another attempt, there are at most 49 times the attempts
  still allowed plus the waits for the hoster's limit still granted of them, 48 waits before each
  attempt that counts and 48 after the last; and 49 more while its one renewal of the address, which
  an answer that wants a login is granted beside the allowed attempts, is not claimed. The counter of
  attempts and the allowed attempts are below 2^32 - 1, and redaction keeps the class of a failure.\<close>

theorem retries_run_out:
  assumes "retry_run env i (claimed, s) n (claimed', s')" and "store_ok (sc_store s)"
    and "get_download i (sc_store s) = Some r"
    and "unat (df_retry_count r) < 2 ^ 32 - 1" and "unat (rt_max_retries (ev_schedule env)) < 2 ^ 32 - 1"
    and "\<And>f. fl_category (ev_redact env f) = fl_category f"
  shows "n \<le> (unat (rt_max_retries (ev_schedule env)) - unat (df_retry_count r)) * 49 + (48 - dr_limit_waits r)
           + (if i \<in> claimed then 0 else 49)"
proof -
  let ?left = "tries_left (ev_schedule env)"
  let ?peak = "max (unat (df_retry_count r)) (unat (rt_max_retries (ev_schedule env)))"
  note red = assms(6)
  have "store_ok (sc_store (snd cs')) \<and> (\<exists>r'. get_download i (sc_store (snd cs')) = Some r'
      \<and> n + ?left (fst cs') r' \<le> ?left claimed r \<and> counter_within ?peak (fst cs') r')"
    if "retry_run env i cs n cs'" "cs = (claimed, s)" for cs n cs'
    using that
  proof (induction rule: retry_run.induct)
    case (begins cs)
    then show ?case using assms(2,3) by (simp add: counter_within_def)
  next
    case (moves cs n claimed1 s1 j next_state reason now row st)
    then obtain r1 where r1: "get_download i (sc_store s1) = Some r1" "n + ?left claimed1 r1 \<le> ?left claimed r"
      "counter_within ?peak claimed1 r1" and ok: "store_ok (sc_store s1)" by auto
    from transition_Inr [OF ok moves.hyps(2)] have w: "writes_one j (moved_row next_state reason now) (sc_store s1) st" by blast
    from writes_oneD(4) [OF w r1(1)] obtain r' where r': "get_download i st = Some r'"
      "settles (if i = j then moved_row next_state reason now r1 else r1) r'" by blast
    have "df_id r' = df_id r1 \<and> df_retry_count r' = df_retry_count r1 \<and> attempts_left (ev_schedule env) r' = attempts_left (ev_schedule env) r1"
      using r'(2) by (auto simp: settles_def moved_row_def attempts_left_def split: if_splits)
    then show ?case using r'(1) r1(2,3) writes_oneD(1) [OF w] by (simp add: tries_left_def counter_within_def)
  next
    case (fails cs n claimed1 s1 x failure now s2)
    have ok: "store_ok (sc_store s1)" and left: "n + ?left claimed1 x \<le> ?left claimed r" "counter_within ?peak claimed1 x"
      using fails by auto
    from spent_by_record_error [OF ok fails.hyps(2,3,4) red, of claimed1 ?peak] left show ?case by fastforce
  next
    case (server_fails cs n claimed1 s1 x has_template failure now claimed2 s2)
    have ok: "store_ok (sc_store s1)" and left: "n + ?left claimed1 x \<le> ?left claimed r" "counter_within ?peak claimed1 x"
      using server_fails by auto
    have x: "df_id x = i" using get_download_Some [OF server_fails.hyps(2)] by simp
    have g: "get_download (df_id x) (sc_store s1) = Some x" using server_fails.hyps(2) x by simp
    show ?case
      using ok g server_fails.hyps(3)
    proof (cases rule: record_http_error_row)
      case renewed
      have "unat (df_retry_count x) < 2 ^ 32 - 1"
        using left(2) renewed(1) assms(4,5) by (auto simp: counter_within_def)
      let ?r = "failed_row (ev_redact env) failure (Some now) now x"
      have "?left claimed2 ?r < ?left claimed1 x"
        unfolding renewed(2) by (rule renewal_spends [OF renewed(3,1)]) (use \<open>unat (df_retry_count x) < 2 ^ 32 - 1\<close> red in auto)
      then have "Suc n + ?left claimed2 ?r \<le> ?left claimed r" using left(1) by linarith
      moreover have "counter_within ?peak claimed2 ?r"
        by (simp add: counter_within_def renewed(2) failed_row_def Let_def)
      moreover have "get_download i (sc_store s2) = Some ?r" using renewed(5) unfolding x .
      ultimately show ?thesis using renewed(4) by simp
    next
      case recorded
      from spent_by_record_error [OF ok server_fails.hyps(2) recorded(2) server_fails.hyps(4) red, of claimed1 ?peak]
        left recorded(1) show ?thesis by fastforce
    qed
  qed
  from this [OF assms(1) refl] show ?thesis
    using get_download_Some [OF assms(3)] by (auto simp: tries_left_def attempts_left_def)
qed


theorem retries_run_out_witness:
  "retry_run an_env ''a'' ({}, a_scheduler [a_row ''a'' Downloading]) 1
     (snd (record_http_error an_env True (a_row ''a'' Downloading) (failure_new AuthRequired ''x'') 5 {}
        (a_scheduler [a_row ''a'' Downloading])))
   \<and> (1::nat) \<le> 8 * 49 + 48 + 49"
proof -
  let ?s = "a_scheduler [a_row ''a'' Downloading]"
  let ?e = "record_http_error an_env True (a_row ''a'' Downloading) (failure_new AuthRequired ''x'') 5 {} ?s"
  have ok: "store_ok (sc_store ?s)" by (simp add: store_ok_def group_sample_defs)
  have g: "get_download ''a'' (sc_store ?s) = Some (a_row ''a'' Downloading)"
    by (simp add: get_download_def group_sample_defs)
  have "fst ?e = Inr () \<and> state_of (sc_store (snd (snd ?e))) ''a'' = Some RetryWait" by code_simp
  then have e: "?e = (Inr (), fst (snd ?e), snd (snd ?e))" and w: "state_of (sc_store (snd (snd ?e))) ''a'' = Some RetryWait"
    by (metis prod.collapse, blast)
  from retry_run.server_fails [OF retry_run.begins g e w]
  have r: "retry_run an_env ''a'' ({}, ?s) 1 (fst (snd ?e), snd (snd ?e))" by simp
  from retries_run_out [OF r ok g] have "(1::nat) \<le> 8 * 49 + 48 + 49" by (simp add: group_sample_defs)
  with r show ?thesis by simp
qed

section \<open>A handover that is cut short\<close>

text \<open>
  A failure that wants the user leaves the given-up mirror blocked, and a blocked member holds its
  group open. When the process stops between the two writes of such a handover, the sweep at the
  next start finds nothing to do, and the waiting mirror stays skipped.
\<close>

lemma cut_short_handover_stays_stalled:
  "let given_up = handover (failure_new AuthRequired ''login'') ''b.com'';
       s = a_scheduler [a_mirror ''a'' Downloading 1, a_mirror ''b'' Skipped 2];
       cut = snd (write_store (record_failure id ''a'' given_up None 5) s);
       after = sc_store (snd (recover_stalled_mirror_groups an_env 9 cut))
   in hands_over (failure_new AuthRequired ''login'') None \<and> state_of after ''a'' = Some Blocked \<and> state_of after ''b'' = Some Skipped"
  by code_simp

text \<open>The same cut under a failure of another class is mended.\<close>

lemma cut_short_handover_restarted:
  "let given_up = handover (failure_new Offline ''gone'') ''b.com'';
       s = a_scheduler [a_mirror ''a'' Downloading 1, a_mirror ''b'' Skipped 2];
       cut = snd (write_store (record_failure id ''a'' given_up None 5) s);
       after = sc_store (snd (recover_stalled_mirror_groups an_env 9 cut))
   in state_of after ''a'' = Some Failed \<and> state_of after ''b'' = Some Queued"
  by code_simp

end
