(* ===== verification/Capacity.thy ===== *)
theory Capacity
  imports Prelude
begin

text \<open>
  The capacity policy every runner shares (\<open>rd-files/src/capacity.rs\<close>): which storage root a
  destination belongs to, the threshold that applies there, the start check, and the roots that
  are blocked. The free space itself is an argument; the probe of the filesystem is not modelled.

  A path is its text, compared by its components as the standard library does on Unix: repeated
  separators and \<open>.\<close> parts do not count.
\<close>

section \<open>Paths\<close>

fun split_at :: "char \<Rightarrow> string \<Rightarrow> string list" where
  "split_at sep [] = [[]]"
| "split_at sep (c # s) =
     (if c = sep then [] # split_at sep s
      else case split_at sep s of [] \<Rightarrow> [[c]] | p # ps \<Rightarrow> (c # p) # ps)"

type_synonym path = string

definition components :: "path \<Rightarrow> string list" where
  "components p =
     (let parts = split_at (CHR ''/'') p;
          head = (if starts_with p ''/'' then [''/''] else if hd parts = ''.'' then [''.''] else [])
      in head @ filter (\<lambda>c. c \<noteq> [] \<and> c \<noteq> ''.'') parts)"

definition path_starts_with :: "path \<Rightarrow> path \<Rightarrow> bool" where
  "path_starts_with p base = (take (length (components base)) (components p) = components base)"

section \<open>Targets and verdicts\<close>

datatype storage_target = Root ident | Fallback

definition FALLBACK_KEY :: string where
  "FALLBACK_KEY = ''fallback''"

definition target_key :: "storage_target \<Rightarrow> string" where
  "target_key t = (case t of Root i \<Rightarrow> i | Fallback \<Rightarrow> FALLBACK_KEY)"

record root_limit =
  rl_id :: ident
  rl_path :: path
  rl_minimum_free_bytes :: "u64 option"

record capacity_shortfall =
  cs_required_bytes :: u64
  cs_free_bytes :: u64
  cs_minimum_free_bytes :: u64
  cs_size_known :: bool

datatype capacity_verdict = CapacityOk u64 | Insufficient capacity_shortfall

definition verdict_ok :: "capacity_verdict \<Rightarrow> bool" where
  "verdict_ok v = (case v of CapacityOk _ \<Rightarrow> True | Insufficient _ \<Rightarrow> False)"

record storage_settings =
  ss_minimum_free_bytes :: u64
  ss_auto_resume :: bool
  ss_unknown_size_headroom :: u32

record capacity_state =
  cp_settings :: storage_settings
  cp_roots :: "root_limit list"
  cp_fallback :: "path option"
  cp_blocked :: "(storage_target \<times> capacity_shortfall) list"

section \<open>The policy\<close>

definition matching_root :: "path \<Rightarrow> capacity_state \<Rightarrow> root_limit option" where
  "matching_root destination c =
     max_by_key (\<lambda>root. length (rl_path root))
       (filter (\<lambda>root. path_starts_with destination (rl_path root)) (cp_roots c))"

definition capacity_limits :: "path \<Rightarrow> capacity_state \<Rightarrow> u64 \<times> u32" where
  "capacity_limits destination c =
     ((case Option.bind (matching_root destination c) rl_minimum_free_bytes of
         Some minimum \<Rightarrow> minimum
       | None \<Rightarrow> ss_minimum_free_bytes (cp_settings c)),
      ss_unknown_size_headroom (cp_settings c))"

definition target_for :: "path \<Rightarrow> capacity_state \<Rightarrow> storage_target" where
  "target_for destination c =
     (case matching_root destination c of Some root \<Rightarrow> Root (rl_id root) | None \<Rightarrow> Fallback)"

definition capacity_targets :: "capacity_state \<Rightarrow> (storage_target \<times> path) list" where
  "capacity_targets c =
     map (\<lambda>root. (Root (rl_id root), rl_path root)) (cp_roots c)
     @ (case cp_fallback c of Some p \<Rightarrow> [(Fallback, p)] | None \<Rightarrow> [])"

definition capacity_apply :: "storage_settings \<Rightarrow> root_limit list \<Rightarrow> path option \<Rightarrow> capacity_state \<Rightarrow> capacity_state" where
  "capacity_apply settings roots fallback c =
     (let known = map (\<lambda>root. Root (rl_id root)) roots @ [Fallback]
      in c\<lparr>cp_settings := settings, cp_roots := roots, cp_fallback := fallback,
           cp_blocked := filter (\<lambda>(target, _). target \<in> set known) (cp_blocked c)\<rparr>)"

definition minimum_free_bytes :: "path \<Rightarrow> capacity_state \<Rightarrow> u64" where
  "minimum_free_bytes destination c = fst (capacity_limits destination c)"

definition evaluate_capacity :: "u64 \<Rightarrow> u64 option \<Rightarrow> u64 \<Rightarrow> u32 \<Rightarrow> capacity_verdict" where
  "evaluate_capacity free_bytes required minimum_free headroom =
     (let size_known = (required \<noteq> None);
          required_bytes = (case required of
                              Some bytes \<Rightarrow> sat_add bytes minimum_free
                            | None \<Rightarrow> sat_mul minimum_free (ucast (max headroom 1)))
      in if free_bytes \<ge> required_bytes then CapacityOk free_bytes
         else Insufficient \<lparr>cs_required_bytes = required_bytes, cs_free_bytes = free_bytes,
                             cs_minimum_free_bytes = minimum_free, cs_size_known = size_known\<rparr>)"

definition capacity_evaluate :: "path \<Rightarrow> u64 \<Rightarrow> u64 option \<Rightarrow> capacity_state \<Rightarrow> capacity_verdict" where
  "capacity_evaluate destination free_bytes required c =
     (case capacity_limits destination c of
        (minimum, headroom) \<Rightarrow> evaluate_capacity free_bytes required minimum headroom)"

definition is_blocked :: "storage_target \<Rightarrow> capacity_state \<Rightarrow> bool" where
  "is_blocked target c = (map_of (cp_blocked c) target \<noteq> None)"

definition set_blocked :: "storage_target \<Rightarrow> capacity_shortfall option \<Rightarrow> capacity_state \<Rightarrow> bool \<times> capacity_state" where
  "set_blocked target short c =
     (case short of
        Some s \<Rightarrow> (map_of (cp_blocked c) target = None, c\<lparr>cp_blocked := AList.update target s (cp_blocked c)\<rparr>)
      | None \<Rightarrow> (map_of (cp_blocked c) target \<noteq> None, c\<lparr>cp_blocked := AList.delete target (cp_blocked c)\<rparr>))"

definition capacity_restore :: "(storage_target \<times> capacity_shortfall) list \<Rightarrow> capacity_state \<Rightarrow> capacity_state" where
  "capacity_restore blocked c = c\<lparr>cp_blocked := fold (\<lambda>(t, s). AList.update t s) blocked []\<rparr>"

section \<open>What the check promises\<close>

lemma matching_rootD:
  assumes "matching_root p c = Some root"
  shows "root \<in> set (cp_roots c)" and "path_starts_with p (rl_path root)"
    and "r \<in> set (cp_roots c) \<Longrightarrow> path_starts_with p (rl_path r) \<Longrightarrow> length (rl_path r) \<le> length (rl_path root)"
  using max_by_key_Some [OF assms [unfolded matching_root_def]] by auto

text \<open>Property C40. An approved start leaves the threshold free: with a known size, the bytes still to be
  written and the threshold of the destination's root fit together (short of the largest 64-bit
  number, where the sum saturates); with an unknown size, the threshold times its headroom. The
  threshold is that of a root the destination lies in, no root it lies in having a longer path -- the
  root's own minimum, or the global one where it has none -- and the global one where the destination
  lies in no root.\<close>

theorem approved_start_leaves_the_threshold:
  assumes "verdict_ok (capacity_evaluate p free required c)" and "unat free < 2 ^ 64 - 1"
  shows "(case required of
        Some bytes \<Rightarrow> unat bytes + unat (minimum_free_bytes p c) \<le> unat free
      | None \<Rightarrow> unat (minimum_free_bytes p c) * max 1 (unat (ss_unknown_size_headroom (cp_settings c))) \<le> unat free)
    \<and> unat (minimum_free_bytes p c) \<le> unat free
    \<and> ((\<exists>root \<in> set (cp_roots c). path_starts_with p (rl_path root)
          \<and> (\<forall>r \<in> set (cp_roots c). path_starts_with p (rl_path r) \<longrightarrow> length (rl_path r) \<le> length (rl_path root))
          \<and> minimum_free_bytes p c =
              (case rl_minimum_free_bytes root of Some m \<Rightarrow> m | None \<Rightarrow> ss_minimum_free_bytes (cp_settings c)))
       \<or> ((\<forall>r \<in> set (cp_roots c). \<not> path_starts_with p (rl_path r))
          \<and> minimum_free_bytes p c = ss_minimum_free_bytes (cp_settings c)))"
proof -
  let ?m = "minimum_free_bytes p c"
  let ?h = "ss_unknown_size_headroom (cp_settings c)"
  have e: "verdict_ok (evaluate_capacity free required ?m ?h)"
    using assms(1) by (simp add: capacity_evaluate_def minimum_free_bytes_def capacity_limits_def)
  have h: "unat (ucast (max ?h 1) :: u64) = max 1 (unat ?h)"
    by (auto simp: max_def word_le_nat_alt)
  have first: "case required of
        Some bytes \<Rightarrow> unat bytes + unat ?m \<le> unat free
      | None \<Rightarrow> unat ?m * max 1 (unat ?h) \<le> unat free"
  proof (cases required)
    case None
    then have "sat_mul ?m (ucast (max ?h 1)) \<le> free"
      using e by (simp add: evaluate_capacity_def Let_def verdict_ok_def split: if_splits)
    then have "min (unat ?m * max 1 (unat ?h)) (2 ^ 64 - 1) \<le> unat free"
      by (simp only: word_le_nat_alt unat_sat_mul h) simp
    with None assms(2) show ?thesis by simp
  next
    case (Some bytes)
    then have "sat_add bytes ?m \<le> free"
      using e by (simp add: evaluate_capacity_def Let_def verdict_ok_def split: if_splits)
    then have "min (unat bytes + unat ?m) (2 ^ 64 - 1) \<le> unat free"
      by (simp only: word_le_nat_alt unat_sat_add) simp
    with Some assms(2) show ?thesis by simp
  qed
  have second: "unat ?m \<le> unat free"
  proof (cases required)
    case None
    with first have f: "unat ?m * max 1 (unat ?h) \<le> unat free" by simp
    have "unat ?m \<le> unat ?m * max 1 (unat ?h)" using mult_le_mono2 [of 1 "max 1 (unat ?h)" "unat ?m"] by simp
    then show ?thesis using f by (rule order_trans)
  next
    case (Some bytes)
    with first show ?thesis by simp
  qed
  have m: "?m = (case matching_root p c of
           Some root \<Rightarrow> (case rl_minimum_free_bytes root of Some m \<Rightarrow> m | None \<Rightarrow> ss_minimum_free_bytes (cp_settings c))
         | None \<Rightarrow> ss_minimum_free_bytes (cp_settings c))"
    by (simp add: minimum_free_bytes_def capacity_limits_def split: option.split)
  have third: "(\<exists>root \<in> set (cp_roots c). path_starts_with p (rl_path root)
          \<and> (\<forall>r \<in> set (cp_roots c). path_starts_with p (rl_path r) \<longrightarrow> length (rl_path r) \<le> length (rl_path root))
          \<and> ?m = (case rl_minimum_free_bytes root of Some m \<Rightarrow> m | None \<Rightarrow> ss_minimum_free_bytes (cp_settings c)))
       \<or> ((\<forall>r \<in> set (cp_roots c). \<not> path_starts_with p (rl_path r)) \<and> ?m = ss_minimum_free_bytes (cp_settings c))"
  proof (cases "matching_root p c")
    case None
    then show ?thesis using m by (auto simp: matching_root_def filter_empty_conv)
  next
    case (Some root)
    then show ?thesis using m matching_rootD [OF Some] by auto
  qed
  show ?thesis using first second third by blast
qed

definition a_capacity :: capacity_state where
  "a_capacity = \<lparr>cp_settings = \<lparr>ss_minimum_free_bytes = 100, ss_auto_resume = True, ss_unknown_size_headroom = 4\<rparr>,
     cp_roots = [\<lparr>rl_id = ''r'', rl_path = ''/data'', rl_minimum_free_bytes = None\<rparr>,
                 \<lparr>rl_id = ''m'', rl_path = ''/data/media'', rl_minimum_free_bytes = Some 500\<rparr>],
     cp_fallback = Some ''/downloads'', cp_blocked = []\<rparr>"

theorem approved_start_leaves_the_threshold_witness:
  "unat (600 :: u64) + unat (minimum_free_bytes ''/data/media/show'' a_capacity) \<le> unat (1100 :: u64)"
proof -
  have r: "map_option rl_id (matching_root ''/data/media/show'' a_capacity) = Some ''m''" by code_simp
  then obtain root where root: "matching_root ''/data/media/show'' a_capacity = Some root" "rl_id root = ''m''" by auto
  then have "rl_minimum_free_bytes root = Some 500"
    using matching_rootD(1) [OF root(1)] by (auto simp: a_capacity_def)
  then have "verdict_ok (capacity_evaluate ''/data/media/show'' 1100 (Some 600) a_capacity)"
    by (simp add: capacity_evaluate_def capacity_limits_def root(1) evaluate_capacity_def verdict_ok_def sat_add_def)
  from conjunct1 [OF approved_start_leaves_the_threshold [OF this]] show ?thesis by simp
qed

text \<open>A nested root answers for what lies in it, whatever the order of the roots.\<close>

lemma nested_root_wins:
  "target_for ''/data/media/show'' a_capacity = Root ''m'' \<and> target_for ''/data//./x'' a_capacity = Root ''r''
   \<and> target_for ''/database'' a_capacity = Fallback"
  by code_simp

lemma is_blocked_set [simp]:
  "is_blocked t (snd (set_blocked t' s c)) \<longleftrightarrow> (if t = t' then s \<noteq> None else is_blocked t c)"
  by (cases s) (auto simp: is_blocked_def set_blocked_def update_conv' delete_conv')

lemma capacity_apply_unblocks_the_unknown:
  "is_blocked t (capacity_apply settings roots fallback c) \<longleftrightarrow>
     is_blocked t c \<and> (t = Fallback \<or> (\<exists>root \<in> set roots. t = Root (rl_id root)))"
proof -
  have "map_of (filter (\<lambda>(t, _). P t) xs) t = (if P t then map_of xs t else None)"
    for P and xs :: "(storage_target \<times> capacity_shortfall) list"
    by (induction xs) auto
  then show ?thesis by (auto simp: is_blocked_def capacity_apply_def Let_def)
qed

end
