(* ===== verification/Control.thy ===== *)
theory Control
  imports Turns StoreBatch Capacity
begin

text \<open>
  The running files and the hand on them: the active set (\<open>rd-scheduler/src/active.rs\<close>), pausing,
  resuming and cancelling (\<open>control.rs\<close>, \<open>control_batches.rs\<close>), blocking (\<open>block.rs\<close>) and what a
  worker writes when it was stopped (\<open>worker.rs\<close>).

  A token is the running file with whether it was cancelled. The steps between two locks of the
  active set are one step here; the writes keep their order.
\<close>

section \<open>Why a file was stopped\<close>

datatype block_reason = BlockCapacity | ValidatorsChanged | RangesRefused | KindDisabled | CollisionAsk

definition block_reason_as_str :: "block_reason \<Rightarrow> string" where
  "block_reason_as_str r =
     (case r of
        BlockCapacity \<Rightarrow> ''capacity''
      | ValidatorsChanged \<Rightarrow> ''validators-changed''
      | RangesRefused \<Rightarrow> ''ranges-refused''
      | KindDisabled \<Rightarrow> ''kind-disabled''
      | CollisionAsk \<Rightarrow> ''collision-ask'')"

datatype stop_reason = StopPaused | StopCancelled | StopBlocked block_reason

section \<open>The active set\<close>

record active_state =
  ac_tokens :: "(download_id \<times> bool) list"     \<comment> \<open>the running files, and whether each was cancelled\<close>
  ac_reasons :: "(download_id \<times> stop_reason) list"
  ac_exempt :: "download_id list"
  ac_pooled :: "(download_id \<times> download_kind) list"
  ac_held :: "(download_id \<times> nat) list"
  ac_host :: host_admission

definition runs :: "download_id \<Rightarrow> active_state \<Rightarrow> bool" where
  "runs i a = (map_of (ac_tokens a) i \<noteq> None)"

definition untouchable :: "download_id \<Rightarrow> active_state \<Rightarrow> bool" where
  "untouchable i a = (runs i a \<or> map_of (ac_reasons a) i \<noteq> None \<or> map_of (ac_held a) i \<noteq> None)"

definition release_hold :: "download_id \<Rightarrow> active_state \<Rightarrow> active_state" where
  "release_hold i a =
     (case map_of (ac_held a) i of
        None \<Rightarrow> a
      | Some count \<Rightarrow>
          if count - 1 = 0 then a\<lparr>ac_held := AList.delete i (ac_held a)\<rparr>
          else a\<lparr>ac_held := AList.update i (count - 1) (ac_held a)\<rparr>)"

definition counted :: "active_state \<Rightarrow> nat" where
  "counted a =
     (length (ac_tokens a) - (length (ac_exempt a) + length (ac_pooled a)))
     + length (remdups (map snd (ac_pooled a)))"

definition active_admits :: "download_kind \<Rightarrow> bool \<Rightarrow> bool \<Rightarrow> nat \<Rightarrow> active_state \<Rightarrow> bool" where
  "active_admits kind exempt pooled limit a =
     (exempt \<or> (pooled \<and> list_ex (\<lambda>running. running = kind) (map snd (ac_pooled a))) \<or> counted a < limit)"

definition active_finish :: "download_id \<Rightarrow> active_state \<Rightarrow> active_state" where
  "active_finish i a =
     a\<lparr>ac_tokens := AList.delete i (ac_tokens a), ac_reasons := AList.delete i (ac_reasons a),
       ac_exempt := filter (\<lambda>x. x \<noteq> i) (ac_exempt a), ac_pooled := AList.delete i (ac_pooled a),
       ac_host := ha_finished i (ac_host a)\<rparr>"

section \<open>The scheduler with its running files\<close>

record controller = scheduler +
  ct_active :: active_state

datatype control_error = Refused store_error | MirrorTaken string

type_synonym 's answer = "(control_error + unit) \<times> 's"

definition as_answer :: "'s outcome \<Rightarrow> 's answer" where
  "as_answer result = (case result of (Inl e, s) \<Rightarrow> (Inl (Refused e), s) | (Inr u, s) \<Rightarrow> (Inr u, s))"

definition set_reason :: "download_id \<Rightarrow> stop_reason \<Rightarrow> 's controller_scheme \<Rightarrow> 's controller_scheme" where
  "set_reason i reason s =
     s\<lparr>ct_active := (ct_active s)\<lparr>ac_reasons := AList.update i reason (ac_reasons (ct_active s))\<rparr>\<rparr>"

definition cancel_token :: "download_id \<Rightarrow> 's controller_scheme \<Rightarrow> 's controller_scheme" where
  "cancel_token i s =
     s\<lparr>ct_active := (ct_active s)\<lparr>ac_tokens := AList.map_entry i (\<lambda>_. True) (ac_tokens (ct_active s))\<rparr>\<rparr>"

definition release_stop_guard :: "download_id \<Rightarrow> 's controller_scheme \<Rightarrow> 's controller_scheme" where
  "release_stop_guard i s =
     (if runs i (ct_active s) then s
      else s\<lparr>ct_active := (ct_active s)\<lparr>ac_reasons := AList.delete i (ac_reasons (ct_active s))\<rparr>\<rparr>)"

definition no_such_download :: store_error where
  "no_such_download = NotFound ''download not found''"

definition control_pause :: "scheduler_env \<Rightarrow> download_id \<Rightarrow> instant \<Rightarrow> 's controller_scheme \<Rightarrow> 's controller_scheme answer" where
  "control_pause env i now s =
     (let s = set_reason i StopPaused s in
      if runs i (ct_active s) then (Inr (), cancel_token i s)
      else
        case (case get_download i (sc_store s) of
                None \<Rightarrow> (Inl no_such_download, s)
              | Some current \<Rightarrow>
                  if df_state current \<in> {Queued, RetryWait}
                  then write_store (transition_download (ev_redact env) i Paused now) s
                  else (Inr (), s)) of
          (written, s) \<Rightarrow> as_answer (written, release_stop_guard i s))"

text \<open>The hold of a reset or removal; a worker in the tail of its run is waited for, here gone.\<close>

definition control_hold :: "download_id \<Rightarrow> string \<Rightarrow> 's controller_scheme \<Rightarrow> 's controller_scheme answer" where
  "control_hold i refusal s =
     (if runs i (ct_active s) then (Inl (Refused (WrongState refusal)), s)
      else
        let held = ac_held (ct_active s);
            count = (case map_of held i of Some n \<Rightarrow> n | None \<Rightarrow> 0)
        in (Inr (), s\<lparr>ct_active := (ct_active s)\<lparr>ac_held := AList.update i (count + 1) held\<rparr>\<rparr>))"

definition let_go :: "download_id \<Rightarrow> 's controller_scheme \<Rightarrow> 's controller_scheme" where
  "let_go i s = release_stop_guard i (s\<lparr>ct_active := release_hold i (ct_active s)\<rparr>)"

section \<open>Resuming\<close>

fun stand_down :: "scheduler_env \<Rightarrow> download_row list \<Rightarrow> instant \<Rightarrow> 's controller_scheme \<Rightarrow> 's controller_scheme outcome" where
  "stand_down env [] now s = (Inr (), s)"
| "stand_down env (sibling # rest) now s =
     (if is_contending (df_state sibling) then
        (case write_store (transition_download (ev_redact env) (df_id sibling) Skipped now) s of
           (Inl e, s) \<Rightarrow> (Inl e, s)
         | (Inr _, s) \<Rightarrow> stand_down env rest now s)
      else stand_down env rest now s)"

definition stand_down_siblings_of :: "scheduler_env \<Rightarrow> download_id \<Rightarrow> instant \<Rightarrow> 's controller_scheme \<Rightarrow> 's controller_scheme answer" where
  "stand_down_siblings_of env i now s =
     (case get_download i (sc_store s) of
        None \<Rightarrow> (Inr (), s)
      | Some file \<Rightarrow>
          if df_mirror_group file = None \<or> df_state file \<noteq> Skipped then (Inr (), s)
          else
            let siblings = siblings file (downloads_for_package (df_package_id file) (sc_store s))
            in case find (\<lambda>sibling. has_taken_the_turn (df_state sibling)) siblings of
                 Some active \<Rightarrow> (Inl (MirrorTaken (url_text (df_source active))), s)
               | None \<Rightarrow> as_answer (stand_down env siblings now s))"

definition being_reset :: string where
  "being_reset = ''the download is being reset or removed right now''"

text \<open>The writes of a resume, once nothing holds the row.\<close>

definition resume_row :: "scheduler_env \<Rightarrow> download_id \<Rightarrow> instant \<Rightarrow> 's controller_scheme \<Rightarrow> 's controller_scheme answer" where
  "resume_row env i now s =
     (case stand_down_siblings_of env i now s of
        (Inl e, s) \<Rightarrow> (Inl e, s)
      | (Inr _, s) \<Rightarrow>
          let failed = (case get_download i (sc_store s) of Some file \<Rightarrow> df_state file = Failed | None \<Rightarrow> False) in
          (case (if failed then requeue_failed (ev_redact env) i False now (sc_store s) else (None, sc_store s)) of
             (Some _, st) \<Rightarrow> (Inr (), s\<lparr>sc_store := st\<rparr>)
           | (None, st) \<Rightarrow>
               as_answer (write_store (transition_download (ev_redact env) i Queued now) (s\<lparr>sc_store := st\<rparr>))))"

definition control_resume :: "scheduler_env \<Rightarrow> download_id \<Rightarrow> instant \<Rightarrow> 's controller_scheme \<Rightarrow> 's controller_scheme answer" where
  "control_resume env i now s =
     (if map_of (ac_held (ct_active s)) i \<noteq> None then (Inl (Refused (WrongState being_reset)), s)
      else resume_row env i now (release_stop_guard i s))"

section \<open>Cancelling and blocking\<close>

definition promote_mirror_of :: "scheduler_env \<Rightarrow> download_id \<Rightarrow> instant \<Rightarrow> 's controller_scheme \<Rightarrow> 's controller_scheme" where
  "promote_mirror_of env i now s =
     (case get_download i (sc_store s) of
        None \<Rightarrow> s
      | Some file \<Rightarrow> if df_mirror_group file = None then s else snd (wake_mirror env file now s))"

definition control_cancel :: "scheduler_env \<Rightarrow> download_id \<Rightarrow> instant \<Rightarrow> 's controller_scheme \<Rightarrow> 's controller_scheme answer" where
  "control_cancel env i now s =
     (let s = set_reason i StopCancelled s in
      if runs i (ct_active s) then (Inr (), promote_mirror_of env i now (cancel_token i s))
      else
        case (case get_download i (sc_store s) of
                None \<Rightarrow> (Inl no_such_download, s)
              | Some current \<Rightarrow>
                  if \<not> can_transition_to (df_state current) Cancelled
                  then (Inl (WrongState (''a download in state '' @ download_state_text (df_state current) @ '' cannot be cancelled'')), s)
                  else write_store (transition_download (ev_redact env) i Cancelled now) s) of
          (Inl e, s) \<Rightarrow> (Inl (Refused e), release_stop_guard i s)
        | (Inr _, s) \<Rightarrow> (Inr (), promote_mirror_of env i now (release_stop_guard i s)))"

definition control_block :: "scheduler_env \<Rightarrow> download_id \<Rightarrow> block_reason \<Rightarrow> instant \<Rightarrow> 's controller_scheme \<Rightarrow> 's controller_scheme answer" where
  "control_block env i reason now s =
     (let s = set_reason i (StopBlocked reason) s in
      if runs i (ct_active s) then (Inr (), cancel_token i s)
      else
        case (case get_download i (sc_store s) of
                None \<Rightarrow> (Inl no_such_download, s)
              | Some current \<Rightarrow>
                  if df_state current \<in> {Downloading, Resolving}
                  then write_store (block_download (ev_redact env) i (block_reason_as_str reason) now) s
                  else (Inr (), s)) of
          (written, s) \<Rightarrow> as_answer (written, release_stop_guard i s))"

text \<open>What a stopped worker writes; a service that is stopping leaves the row as it is.\<close>

definition transition_stopped ::
    "scheduler_env \<Rightarrow> bool \<Rightarrow> download_id \<Rightarrow> instant \<Rightarrow> 's controller_scheme \<Rightarrow> 's controller_scheme outcome" where
  "transition_stopped env shutdown i now s =
     (case map_of (ac_reasons (ct_active s)) i of
        None \<Rightarrow> if shutdown then (Inr (), s)
                else write_store (transition_download (ev_redact env) i Paused now) s
      | Some StopPaused \<Rightarrow> write_store (transition_download (ev_redact env) i Paused now) s
      | Some StopCancelled \<Rightarrow> write_store (transition_download (ev_redact env) i Cancelled now) s
      | Some (StopBlocked b) \<Rightarrow> write_store (block_download (ev_redact env) i (block_reason_as_str b) now) s)"

text \<open>The end of an attempt: its place in the active set goes with everything kept beside it.\<close>

definition attempt_ends :: "download_id \<Rightarrow> 's controller_scheme \<Rightarrow> 's controller_scheme" where
  "attempt_ends i s = s\<lparr>ct_active := active_finish i (ct_active s)\<rparr>"

section \<open>Many at once\<close>

definition mark_paused :: "download_id \<Rightarrow> 's controller_scheme \<Rightarrow> 's controller_scheme" where
  "mark_paused i s = cancel_token i (set_reason i StopPaused s)"

fun pause_answers :: "active_state \<Rightarrow> download_id list \<Rightarrow> (store_error + bool) list \<Rightarrow> (control_error + unit) list" where
  "pause_answers a [] answers = []"
| "pause_answers a (i # ids) answers =
     (if runs i a then Inr () # pause_answers a ids answers
      else case answers of
             [] \<Rightarrow> Inr () # pause_answers a ids []
           | Inl e # rest \<Rightarrow> Inl (Refused e) # pause_answers a ids rest
           | Inr _ # rest \<Rightarrow> Inr () # pause_answers a ids rest)"

definition pause_many ::
    "scheduler_env \<Rightarrow> download_id list \<Rightarrow> instant \<Rightarrow> 's controller_scheme \<Rightarrow> (control_error + unit) list \<times> 's controller_scheme" where
  "pause_many env ids now s =
     (let s = fold mark_paused ids s;
          idle = filter (\<lambda>i. \<not> runs i (ct_active s)) ids
      in if idle = [] then (map (\<lambda>_. Inr ()) ids, s)
         else case pause_downloads (ev_redact env) idle now (sc_store s) of
                (answers, st) \<Rightarrow>
                  (pause_answers (ct_active s) ids answers,
                   fold release_stop_guard idle (s\<lparr>sc_store := st\<rparr>)))"

text \<open>The answers in order; a file the batch leaves to the single resume goes through it here.\<close>

fun resume_answers ::
    "scheduler_env \<Rightarrow> active_state \<Rightarrow> instant \<Rightarrow> download_id list \<Rightarrow> (store_error + bool) list
     \<Rightarrow> 's controller_scheme \<Rightarrow> (control_error + unit) list \<times> 's controller_scheme" where
  "resume_answers env a now [] answers s = ([], s)"
| "resume_answers env a now (i # ids) answers s =
     (if map_of (ac_held a) i \<noteq> None then
        (case resume_answers env a now ids answers s of (r, s) \<Rightarrow> (Inl (Refused (WrongState being_reset)) # r, s))
      else
        case answers of
          [] \<Rightarrow> (case resume_answers env a now ids [] s of (r, s) \<Rightarrow> (Inr () # r, s))
        | Inl e # rest \<Rightarrow> (case resume_answers env a now ids rest s of (r, s) \<Rightarrow> (Inl (Refused e) # r, s))
        | Inr True # rest \<Rightarrow> (case resume_answers env a now ids rest s of (r, s) \<Rightarrow> (Inr () # r, s))
        | Inr False # rest \<Rightarrow>
            (case control_resume env i now s of
               (answer, s) \<Rightarrow> (case resume_answers env a now ids rest s of (r, s) \<Rightarrow> (answer # r, s))))"

definition resume_many ::
    "scheduler_env \<Rightarrow> download_id list \<Rightarrow> instant \<Rightarrow> 's controller_scheme \<Rightarrow> (control_error + unit) list \<times> 's controller_scheme" where
  "resume_many env ids now s =
     (let a = ct_active s;
          batch = filter (\<lambda>i. map_of (ac_held a) i = None) ids;
          s = fold release_stop_guard batch s
      in if batch = [] then (map (\<lambda>_. Inl (Refused (WrongState being_reset))) ids, s)
         else case resume_downloads (ev_redact env) batch now (sc_store s) of
                (answers, st) \<Rightarrow> resume_answers env a now ids answers (s\<lparr>sc_store := st\<rparr>))"

end
