(* ===== verification/Admission.thy ===== *)
theory Admission
  imports Control
begin

text \<open>
  Whether a waiting file may start: its turn (\<open>rd-scheduler/src/dispatch_selection.rs\<close>), the order of
  the packages (\<open>dispatch_order.rs\<close>), the download window (\<open>download_window.rs\<close>), its provider's and
  its kind's places (\<open>provider.rs\<close>, \<open>runner.rs\<close>), and the checks and the claim of a dispatch pass
  (\<open>dispatch_admission.rs\<close>).

  Parameters: what the resolver plugins answer (\<open>de_route\<close>, \<open>de_free_plugin\<close>, \<open>de_resolvable\<close>) and
  what the runners declare. A permit is named by the gate it goes back to.
\<close>

section \<open>The turn of a row\<close>

datatype turn = Offered | KeepsPlace | Waits

definition PLACE_KEPT_FOR :: span where
  "PLACE_KEPT_FOR = of_seconds 10"

definition turn_of :: "'a download_file_scheme \<Rightarrow> instant \<Rightarrow> turn" where
  "turn_of file now =
     (if df_state file = Queued then Offered
      else case df_next_retry_at file of
             None \<Rightarrow> Waits
           | Some at \<Rightarrow>
               if at \<le> now then Offered
               else
                 let plain = (case df_last_error file of
                                None \<Rightarrow> True
                              | Some f \<Rightarrow> \<not> is_limit (fl_category f) \<and> retry_after (fl_category f) = None);
                     close = (0 \<le> at - now \<and> at - now \<le> PLACE_KEPT_FOR)
                 in if close \<and> plain then KeepsPlace else Waits)"

section \<open>Package by package\<close>

record package_order =
  po_holders :: "download_id list"
  po_last :: "(download_id \<times> package_id) option"
  po_waiting :: "package_id option"

definition package_order_new :: "download_row list \<Rightarrow> (download_row \<Rightarrow> bool) \<Rightarrow> package_order" where
  "package_order_new files holds_nothing =
     \<lparr>po_holders = map df_id (filter (\<lambda>file. df_state file \<in> {Queued, RetryWait} \<and> \<not> holds_nothing file) files),
      po_last = None, po_waiting = None\<rparr>"

definition look_at :: "download_row \<Rightarrow> package_order \<Rightarrow> package_order" where
  "look_at file o1 =
     (let o2 = (case po_last o1 of
                  Some (_, package) \<Rightarrow>
                    o1\<lparr>po_last := None,
                       po_waiting := Some (case po_waiting o1 of Some w \<Rightarrow> w | None \<Rightarrow> package)\<rparr>
                | None \<Rightarrow> o1)
      in if df_id file \<in> set (po_holders o2) then o2\<lparr>po_last := Some (df_id file, df_package_id file)\<rparr> else o2)"

definition order_admits :: "download_row \<Rightarrow> package_order \<Rightarrow> bool" where
  "order_admits file ord = (case po_waiting ord of None \<Rightarrow> True | Some package \<Rightarrow> package = df_package_id file)"

definition order_started :: "download_id \<Rightarrow> package_order \<Rightarrow> package_order" where
  "order_started i ord =
     (if (case po_last ord of Some (j, _) \<Rightarrow> j = i | None \<Rightarrow> False) then ord\<lparr>po_last := None\<rparr> else ord)"

section \<open>The dispatcher\<close>

record runner_spec =
  ru_capacity :: "nat \<Rightarrow> nat"         \<comment> \<open>files of the kind allowed now, by the requested number\<close>
  ru_counts :: bool
  ru_shares :: bool

record resolver_pin =
  rp_plugin_id :: string
  rp_version :: string

record provider_gate =
  pg_limit :: u32
  pg_free :: nat

datatype provider_slot = Unrestricted | FromGate string | FromFree string | Busy

record dispatcher = controller +
  dp_kinds :: "(download_kind \<times> nat) list"             \<comment> \<open>files of each kind running\<close>
  dp_gates :: "(string \<times> provider_gate) list"
  dp_free :: "(string \<times> nat) list"                     \<comment> \<open>free downloads: the free permits\<close>
  dp_pins :: "(download_id \<times> resolver_pin) list"
  dp_capacity :: capacity_state

datatype pass_error = PassStore store_error | PassResolver string

record dispatch_env = scheduler_env +
  de_runners :: "download_kind \<Rightarrow> runner_spec option"
  de_parallel_files :: nat
  de_disabled :: "download_kind list"
  de_sequential :: bool
  de_max_active :: nat
  de_profile_max :: "u32 option"
  de_postprocess_pause :: bool
  de_postprocess_held :: bool
  de_budget_exceeded :: bool
  de_shutdown :: bool
  de_categories :: "(category_id \<times> download_window option) list"
  de_schedule_pauses :: bool
  de_zone :: zone
  de_limits :: host_limits
  de_max_chunks :: nat
  de_resolvable :: "url \<Rightarrow> bool"
  de_free_plugin :: "url \<Rightarrow> string option"
  de_route :: "account_id \<Rightarrow> resolver_pin option \<Rightarrow> string + (resolver_pin \<times> u32) option"

definition takes_a_counted_place :: "dispatch_env \<Rightarrow> download_kind \<Rightarrow> bool" where
  "takes_a_counted_place env kind =
     (if kind = Http then True
      else case de_runners env kind of
             Some runner \<Rightarrow> ru_counts runner \<and> \<not> ru_shares runner
           | None \<Rightarrow> False)"

section \<open>The download window\<close>

definition download_gate :: "dispatch_env \<Rightarrow> package_row list \<Rightarrow> instant \<Rightarrow> (package_id \<times> download_hold) list" where
  "download_gate env packages now =
     List.map_filter
       (\<lambda>package.
          let category = Option.bind (pk_category_id package)
                           (\<lambda>c. Option.bind (map_of (de_categories env) c) (\<lambda>w. w));
              window = effective_window (pk_download_window package) category
          in map_option (Pair (pk_id package)) (package_hold window (de_schedule_pauses env) (de_zone env) now))
       packages"

definition gate_holds :: "'a download_file_scheme \<Rightarrow> (package_id \<times> download_hold) list \<Rightarrow> bool" where
  "gate_holds file gate = (df_kind file \<noteq> Record \<and> map_of gate (df_package_id file) \<noteq> None)"

section \<open>Places of a kind and of a provider\<close>

definition kind_running :: "download_kind \<Rightarrow> 's dispatcher_scheme \<Rightarrow> nat" where
  "kind_running kind s = (case map_of (dp_kinds s) kind of Some n \<Rightarrow> n | None \<Rightarrow> 0)"

definition try_slot :: "dispatch_env \<Rightarrow> download_kind \<Rightarrow> 's dispatcher_scheme \<Rightarrow> bool \<times> 's dispatcher_scheme" where
  "try_slot env kind s =
     (case de_runners env kind of
        None \<Rightarrow> (False, s)
      | Some runner \<Rightarrow>
          if kind_running kind s \<ge> max (ru_capacity runner (de_parallel_files env)) 1 then (False, s)
          else (True, s\<lparr>dp_kinds := AList.update kind (kind_running kind s + 1) (dp_kinds s)\<rparr>))"

definition drop_kind_slot :: "download_kind \<Rightarrow> 's dispatcher_scheme \<Rightarrow> 's dispatcher_scheme" where
  "drop_kind_slot kind s = s\<lparr>dp_kinds := AList.update kind (kind_running kind s - 1) (dp_kinds s)\<rparr>"

definition gate_resize :: "u32 \<Rightarrow> provider_gate \<Rightarrow> provider_gate" where
  "gate_resize n g =
     (if n > pg_limit g then g\<lparr>pg_free := pg_free g + (unat n - unat (pg_limit g)), pg_limit := n\<rparr>
      else if n < pg_limit g then
        let forgotten = min (unat (pg_limit g) - unat n) (pg_free g)
        in g\<lparr>pg_free := pg_free g - forgotten, pg_limit := sat_sub (pg_limit g) (of_nat forgotten)\<rparr>
      else g)"

definition take_gate :: "string \<Rightarrow> u32 \<Rightarrow> 's dispatcher_scheme \<Rightarrow> provider_slot \<times> 's dispatcher_scheme" where
  "take_gate plugin n s =
     (let g = gate_resize n (case map_of (dp_gates s) plugin of Some g \<Rightarrow> g | None \<Rightarrow> \<lparr>pg_limit = n, pg_free = unat n\<rparr>)
      in if pg_free g = 0 then (Busy, s\<lparr>dp_gates := AList.update plugin g (dp_gates s)\<rparr>)
         else (FromGate plugin, s\<lparr>dp_gates := AList.update plugin (g\<lparr>pg_free := pg_free g - 1\<rparr>) (dp_gates s)\<rparr>))"

definition try_free_slot :: "dispatch_env \<Rightarrow> url \<Rightarrow> 's dispatcher_scheme \<Rightarrow> provider_slot \<times> 's dispatcher_scheme" where
  "try_free_slot env source s =
     (case de_free_plugin env source of
        None \<Rightarrow> (Unrestricted, s)
      | Some plugin \<Rightarrow>
          let free = (case map_of (dp_free s) plugin of Some n \<Rightarrow> n | None \<Rightarrow> 1)
          in if free = 0 then (Busy, s\<lparr>dp_free := AList.update plugin free (dp_free s)\<rparr>)
             else (FromFree plugin, s\<lparr>dp_free := AList.update plugin (free - 1) (dp_free s)\<rparr>))"

definition claim_resolver_pin :: "download_id \<Rightarrow> resolver_pin \<Rightarrow> 's dispatcher_scheme \<Rightarrow> resolver_pin \<times> 's dispatcher_scheme" where
  "claim_resolver_pin i pin s =
     (case map_of (dp_pins s) i of
        Some p \<Rightarrow> (p, s)
      | None \<Rightarrow> (pin, s\<lparr>dp_pins := AList.update i pin (dp_pins s)\<rparr>))"

definition try_provider_slot ::
    "dispatch_env \<Rightarrow> download_id \<Rightarrow> account_id option \<Rightarrow> url \<Rightarrow> 's dispatcher_scheme
     \<Rightarrow> (pass_error + provider_slot) \<times> 's dispatcher_scheme" where
  "try_provider_slot env i account source s =
     (case account of
        None \<Rightarrow> (case try_free_slot env source s of (slot, s) \<Rightarrow> (Inr slot, s))
      | Some acc \<Rightarrow>
          let existing = map_of (dp_pins s) i in
          (case de_route env acc existing of
             Inl _ \<Rightarrow> (Inr Unrestricted, s)
           | Inr None \<Rightarrow> (Inr Unrestricted, s)
           | Inr (Some (suggested, n)) \<Rightarrow>
               if existing \<noteq> None then
                 (case take_gate (rp_plugin_id suggested) n s of (slot, s) \<Rightarrow> (Inr slot, s))
               else
                 (case claim_resolver_pin i suggested s of
                    (pin, s) \<Rightarrow>
                      (case de_route env acc (Some pin) of
                         Inl e \<Rightarrow> (Inl (PassResolver e), s)
                       | Inr None \<Rightarrow> (Inr Unrestricted, s)
                       | Inr (Some (_, pinned)) \<Rightarrow>
                           (case take_gate (rp_plugin_id pin) pinned s of (slot, s) \<Rightarrow> (Inr slot, s))))))"

definition drop_provider :: "provider_slot \<Rightarrow> 's dispatcher_scheme \<Rightarrow> 's dispatcher_scheme" where
  "drop_provider slot s =
     (case slot of
        FromGate plugin \<Rightarrow> s\<lparr>dp_gates := AList.map_entry plugin (\<lambda>g. g\<lparr>pg_free := pg_free g + 1\<rparr>) (dp_gates s)\<rparr>
      | FromFree plugin \<Rightarrow> s\<lparr>dp_free := AList.map_entry plugin (\<lambda>n. n + 1) (dp_free s)\<rparr>
      | _ \<Rightarrow> s)"

text \<open>What a file starts with: its runner and a place of its kind, or its provider's permit.\<close>

datatype slots = External download_kind runner_spec | Builtin provider_slot

definition acquire_slots ::
    "dispatch_env \<Rightarrow> download_row \<Rightarrow> 's dispatcher_scheme \<Rightarrow> (pass_error + slots option) \<times> 's dispatcher_scheme" where
  "acquire_slots env file s =
     (if df_kind file = Http then
        (case try_provider_slot env (df_id file) (df_account_id file) (df_source file) s of
           (Inl e, s) \<Rightarrow> (Inl e, s)
         | (Inr Busy, s) \<Rightarrow> (Inr None, s)
         | (Inr slot, s) \<Rightarrow> (Inr (Some (Builtin slot)), s))
      else
        case de_runners env (df_kind file) of
          None \<Rightarrow> (Inr None, s)
        | Some runner \<Rightarrow>
            (case try_slot env (df_kind file) s of
               (False, s) \<Rightarrow> (Inr None, s)
             | (True, s) \<Rightarrow> (Inr (Some (External (df_kind file) runner)), s)))"

definition drop_slots :: "slots \<Rightarrow> 's dispatcher_scheme \<Rightarrow> 's dispatcher_scheme" where
  "drop_slots slots s =
     (case slots of External kind _ \<Rightarrow> drop_kind_slot kind s | Builtin slot \<Rightarrow> drop_provider slot s)"

definition slots_exempt :: "slots \<Rightarrow> bool" where
  "slots_exempt slots = (case slots of External _ runner \<Rightarrow> \<not> ru_counts runner | Builtin _ \<Rightarrow> False)"

definition slots_pooled :: "slots \<Rightarrow> bool" where
  "slots_pooled slots = (case slots of External _ runner \<Rightarrow> ru_shares runner | Builtin _ \<Rightarrow> False)"

section \<open>What holds a file back\<close>

type_synonym group_cache = "(package_id \<times> download_row list) list"

definition held_for_account_traffic :: "download_row \<Rightarrow> instant \<Rightarrow> 's dispatcher_scheme \<Rightarrow> bool" where
  "held_for_account_traffic file now s =
     (case df_account_id file of Some account \<Rightarrow> holds_back account now (sc_traffic s) | None \<Rightarrow> False)"

definition mirror_stands_down ::
    "dispatch_env \<Rightarrow> download_row \<Rightarrow> instant \<Rightarrow> group_cache \<Rightarrow> 's dispatcher_scheme
     \<Rightarrow> (pass_error + bool) \<times> group_cache \<times> 's dispatcher_scheme" where
  "mirror_stands_down env file now groups s =
     (let groups = (case map_of groups (df_package_id file) of
                      Some _ \<Rightarrow> groups
                    | None \<Rightarrow> AList.update (df_package_id file)
                                (downloads_for_package (df_package_id file) (sc_store s)) groups);
          siblings = siblings file (case map_of groups (df_package_id file) of Some members \<Rightarrow> members | None \<Rightarrow> []);
          taken = list_ex (\<lambda>sibling. has_taken_the_turn (df_state sibling)) siblings;
          contenders = filter (\<lambda>sibling. is_contending (df_state sibling)) siblings @ [file];
          loses = (case best_candidate contenders of Some winner \<Rightarrow> df_id winner \<noteq> df_id file | None \<Rightarrow> False)
      in if taken \<or> loses then
           (case write_store (transition_download (ev_redact env) (df_id file) Skipped now) s of
              (Inl e, s) \<Rightarrow> (Inl (PassStore e), groups, s)
            | (Inr _, s) \<Rightarrow> (Inr True, AList.delete (df_package_id file) groups, s))
         else (Inr False, groups, s))"

definition block_one :: "dispatch_env \<Rightarrow> instant \<Rightarrow> download_row \<Rightarrow> 's dispatcher_scheme \<Rightarrow> 's dispatcher_scheme" where
  "block_one env now file s =
     snd (write_store (block_download (ev_redact env) (df_id file) (block_reason_as_str KindDisabled) now) s)"

definition block_queued_of_kind :: "dispatch_env \<Rightarrow> download_kind \<Rightarrow> instant \<Rightarrow> 's dispatcher_scheme \<Rightarrow> 's dispatcher_scheme" where
  "block_queued_of_kind env kind now s =
     fold (block_one env now)
       (filter (\<lambda>file. df_kind file = kind \<and> df_state file = Queued) (startable_downloads (sc_store s))) s"

text \<open>The hoster's limit: an account-less file waits; an expired block is forgotten on the way.\<close>

definition hoster_blocks :: "download_row \<Rightarrow> instant \<Rightarrow> 's dispatcher_scheme \<Rightarrow> bool \<times> 's dispatcher_scheme" where
  "hoster_blocks file now s =
     (if df_account_id file = None then
        (case blocked_until (df_source file) now (sc_blocks s) of
           (until, b) \<Rightarrow> (until \<noteq> None, s\<lparr>sc_blocks := b\<rparr>))
      else (False, s))"

definition root_blocks :: "download_row \<Rightarrow> (package_id \<times> path) list \<Rightarrow> 's dispatcher_scheme \<Rightarrow> bool" where
  "root_blocks file destinations s =
     (case map_of destinations (df_package_id file) of
        Some destination \<Rightarrow> is_blocked (target_for destination (dp_capacity s)) (dp_capacity s)
      | None \<Rightarrow> False)"

definition group_checks ::
    "dispatch_env \<Rightarrow> download_row \<Rightarrow> instant \<Rightarrow> group_cache \<Rightarrow> 's dispatcher_scheme
     \<Rightarrow> (pass_error + bool) \<times> group_cache \<times> 's dispatcher_scheme" where
  "group_checks env file now groups s =
     (if df_mirror_group file \<noteq> None then mirror_stands_down env file now groups s else (Inr False, groups, s))"

definition may_start ::
    "dispatch_env \<Rightarrow> download_row \<Rightarrow> instant \<Rightarrow> (package_id \<times> path) list \<Rightarrow> group_cache \<Rightarrow> download_kind list
     \<Rightarrow> 's dispatcher_scheme \<Rightarrow> (pass_error + bool) \<times> group_cache \<times> download_kind list \<times> 's dispatcher_scheme" where
  "may_start env file now destinations groups blocked_kinds s =
     (case hoster_blocks file now s of
        (True, s) \<Rightarrow> (Inr False, groups, blocked_kinds, s)
      | (False, s) \<Rightarrow>
          if held_for_account_traffic file now s then (Inr False, groups, blocked_kinds, s)
          else
            case group_checks env file now groups s of
              (Inl e, groups, s) \<Rightarrow> (Inl e, groups, blocked_kinds, s)
            | (Inr True, groups, s) \<Rightarrow> (Inr False, groups, blocked_kinds, s)
            | (Inr False, groups, s) \<Rightarrow>
                if root_blocks file destinations s then (Inr False, groups, blocked_kinds, s)
                else if df_kind file \<in> set (de_disabled env) then
                  if df_kind file \<in> set blocked_kinds then (Inr False, groups, blocked_kinds, s)
                  else (Inr False, groups, blocked_kinds @ [df_kind file], block_queued_of_kind env (df_kind file) now s)
                else (Inr True, groups, blocked_kinds, s))"

section \<open>The claim\<close>

datatype claim = Claimed | ClaimRefused | ShuttingDown | HostBusy string

definition chunk_budget :: "dispatch_env \<Rightarrow> url \<Rightarrow> nat" where
  "chunk_budget env url = (if ignores_ranges url (de_limits env) then 1 else de_max_chunks env)"

definition host_claim_of :: "dispatch_env \<Rightarrow> download_row \<Rightarrow> host_claim option" where
  "host_claim_of env file = claim_of (de_resolvable env) (chunk_budget env) (de_limits env) file"

definition enter_active :: "download_row \<Rightarrow> slots \<Rightarrow> host_claim option \<Rightarrow> instant \<Rightarrow> active_state \<Rightarrow> active_state" where
  "enter_active file slots host now a =
     (let a = a\<lparr>ac_tokens := AList.update (df_id file) False (ac_tokens a)\<rparr>;
          a = (if slots_exempt slots then a\<lparr>ac_exempt := List.insert (df_id file) (ac_exempt a)\<rparr>
               else if slots_pooled slots then a\<lparr>ac_pooled := AList.update (df_id file) (df_kind file) (ac_pooled a)\<rparr>
               else a)
      in case host of
           Some claim \<Rightarrow> a\<lparr>ac_host := ha_start (df_id file) claim now (ac_host a)\<rparr>
         | None \<Rightarrow> a)"

definition claim_slot ::
    "dispatch_env \<Rightarrow> download_row \<Rightarrow> slots \<Rightarrow> nat \<Rightarrow> host_claim option \<Rightarrow> instant \<Rightarrow> 's dispatcher_scheme
     \<Rightarrow> claim \<times> 's dispatcher_scheme" where
  "claim_slot env file slots limit host now s =
     (if de_shutdown env then (ShuttingDown, s)
      else if untouchable (df_id file) (ct_active s) then (ClaimRefused, s)
      else case (case host of
                   Some claim \<Rightarrow> if has_room claim now (ac_host (ct_active s)) then None else Some (hc_host claim)
                 | None \<Rightarrow> None) of
             Some busy \<Rightarrow> (HostBusy busy, s)
           | None \<Rightarrow>
               if \<not> active_admits (df_kind file) (slots_exempt slots) (slots_pooled slots) limit (ct_active s)
               then (ClaimRefused, s)
               else (Claimed, s\<lparr>ct_active := enter_active file slots host now (ct_active s)\<rparr>))"

end
