(* ===== verification/Dispatch.thy ===== *)
theory Dispatch
  imports Admission
begin

text \<open>
  One dispatch pass over the startable files in list order (\<open>rd-scheduler/src/dispatch.rs\<close>): what
  holds the whole queue, the limit on running files, and for every file the checks, the places and
  the claim, up to the start of its attempt. \<open>ps_started\<close> lists the attempts the pass spawned.

  The pass is one step: the attempts it spawns run after it. One reading of the clock serves it.
\<close>

record pass_state =
  ps_groups :: group_cache
  ps_blocked_kinds :: "download_kind list"
  ps_kept :: nat
  ps_order :: "package_order option"
  ps_host_waits :: "(download_id \<times> string) list"
  ps_started :: "download_id list"

definition dispatch_held :: "dispatch_env \<Rightarrow> 's dispatcher_scheme \<Rightarrow> bool" where
  "dispatch_held env s =
     (if de_postprocess_pause env \<and> de_postprocess_held env then True
      else de_budget_exceeded env \<or> hold_reason (sc_holds s) \<noteq> None)"

definition max_running :: "dispatch_env \<Rightarrow> nat" where
  "max_running env =
     (case de_profile_max env of Some n \<Rightarrow> min (unat n) (de_max_active env) | None \<Rightarrow> de_max_active env)"

definition package_order_of ::
    "dispatch_env \<Rightarrow> download_row list \<Rightarrow> (download_row \<Rightarrow> bool) \<Rightarrow> 's dispatcher_scheme \<Rightarrow> package_order option" where
  "package_order_of env files held s =
     (if \<not> de_sequential env then None
      else Some (package_order_new files
             (\<lambda>file. held file \<or> \<not> takes_a_counted_place env (df_kind file)
                 \<or> df_kind file \<in> set (de_disabled env) \<or> untouchable (df_id file) (ct_active s))))"

definition destinations_of :: "package_row list \<Rightarrow> (package_id \<times> path) list" where
  "destinations_of packages =
     map (\<lambda>package. (pk_id package, pk_destination package)) (filter (\<lambda>package. pk_destination package \<noteq> []) packages)"

definition not_due :: "package_row list \<Rightarrow> instant \<Rightarrow> package_id list" where
  "not_due packages now =
     map pk_id (filter (\<lambda>package. case pk_start_after package of Some at \<Rightarrow> at > now | None \<Rightarrow> False) packages)"

text \<open>The pass goes on with the next file, or ends.\<close>

datatype flow = Next | Ends "pass_error + unit"

definition start_file ::
    "dispatch_env \<Rightarrow> instant \<Rightarrow> nat \<Rightarrow> download_row \<Rightarrow> pass_state \<Rightarrow> 's dispatcher_scheme
     \<Rightarrow> flow \<times> pass_state \<times> 's dispatcher_scheme" where
  "start_file env now active_limit file p s =
     (let host = host_claim_of env file in
      case acquire_slots env file s of
        (Inl e, s) \<Rightarrow> (Ends (Inl e), p, s)
      | (Inr None, s) \<Rightarrow> (Next, p, s)
      | (Inr (Some slots), s) \<Rightarrow>
          (case claim_slot env file slots (active_limit - ps_kept p) host now s of
             (ShuttingDown, s) \<Rightarrow> (Ends (Inr ()), p, drop_slots slots s)
           | (ClaimRefused, s) \<Rightarrow> (Next, p, drop_slots slots s)
           | (HostBusy busy, s) \<Rightarrow>
               (Next, p\<lparr>ps_host_waits := AList.update (df_id file) busy (ps_host_waits p)\<rparr>, drop_slots slots s)
           | (Claimed, s) \<Rightarrow>
               (Next, p\<lparr>ps_order := map_option (order_started (df_id file)) (ps_order p),
                        ps_started := ps_started p @ [df_id file]\<rparr>, s)))"

definition offer_file ::
    "dispatch_env \<Rightarrow> instant \<Rightarrow> nat \<Rightarrow> (package_id \<times> path) list \<Rightarrow> download_row \<Rightarrow> pass_state
     \<Rightarrow> 's dispatcher_scheme \<Rightarrow> flow \<times> pass_state \<times> 's dispatcher_scheme" where
  "offer_file env now active_limit destinations file p s =
     (if (case ps_order p of Some ord \<Rightarrow> \<not> order_admits file ord | None \<Rightarrow> False)
         \<and> takes_a_counted_place env (df_kind file)
      then (Next, p, s)
      else case may_start env file now destinations (ps_groups p) (ps_blocked_kinds p) s of
             (result, groups, kinds, s) \<Rightarrow>
               let p = p\<lparr>ps_groups := groups, ps_blocked_kinds := kinds\<rparr>
               in case result of
                    Inl e \<Rightarrow> (Ends (Inl e), p, s)
                  | Inr False \<Rightarrow> (Next, p, s)
                  | Inr True \<Rightarrow> start_file env now active_limit file p s)"

definition dispatch_one ::
    "dispatch_env \<Rightarrow> instant \<Rightarrow> nat \<Rightarrow> package_id list \<Rightarrow> (package_id \<times> download_hold) list
     \<Rightarrow> (package_id \<times> path) list \<Rightarrow> download_row \<Rightarrow> pass_state \<Rightarrow> 's dispatcher_scheme
     \<Rightarrow> flow \<times> pass_state \<times> 's dispatcher_scheme" where
  "dispatch_one env now active_limit late gate destinations file p s =
     (let p = p\<lparr>ps_order := map_option (look_at file) (ps_order p)\<rparr> in
      if df_package_id file \<in> set late \<or> gate_holds file gate then (Next, p, s)
      else case turn_of file now of
             KeepsPlace \<Rightarrow>
               (Next, if takes_a_counted_place env (df_kind file) then p\<lparr>ps_kept := ps_kept p + 1\<rparr> else p, s)
           | Waits \<Rightarrow> (Next, p, s)
           | Offered \<Rightarrow> offer_file env now active_limit destinations file p s)"

fun dispatch_files ::
    "(download_row \<Rightarrow> pass_state \<Rightarrow> 's dispatcher_scheme \<Rightarrow> flow \<times> pass_state \<times> 's dispatcher_scheme)
     \<Rightarrow> download_row list \<Rightarrow> pass_state \<Rightarrow> 's dispatcher_scheme
     \<Rightarrow> (pass_error + unit) \<times> pass_state \<times> 's dispatcher_scheme" where
  "dispatch_files one [] p s = (Inr (), p, s)"
| "dispatch_files one (file # files) p s =
     (case one file p s of
        (Next, p, s) \<Rightarrow> dispatch_files one files p s
      | (Ends r, p, s) \<Rightarrow> (r, p, s))"

definition pass_begins :: "package_order option \<Rightarrow> pass_state" where
  "pass_begins order =
     \<lparr>ps_groups = [], ps_blocked_kinds = [], ps_kept = 0, ps_order = order, ps_host_waits = [], ps_started = []\<rparr>"

definition dispatch_pass ::
    "dispatch_env \<Rightarrow> instant \<Rightarrow> 's dispatcher_scheme \<Rightarrow> (pass_error + unit) \<times> pass_state \<times> 's dispatcher_scheme" where
  "dispatch_pass env now s =
     (let files = startable_downloads (sc_store s) in
      if \<not> list_ex (\<lambda>file. turn_of file now = Offered) files then (Inr (), pass_begins None, s)
      else
        let packages = st_packages (sc_store s);
            late = not_due packages now;
            gate = download_gate env packages now;
            order = package_order_of env files (\<lambda>file. df_package_id file \<in> set late \<or> gate_holds file gate) s
        in dispatch_files (dispatch_one env now (max_running env) late gate (destinations_of packages))
             files (pass_begins order) s)"

definition schedule_runnable ::
    "dispatch_env \<Rightarrow> instant \<Rightarrow> 's dispatcher_scheme \<Rightarrow> (pass_error + unit) \<times> download_id list \<times> 's dispatcher_scheme" where
  "schedule_runnable env now s =
     (case (if dispatch_held env s then (Inr (), pass_begins None, s) else dispatch_pass env now s) of
        (r, p, s) \<Rightarrow>
          (r, ps_started p,
           s\<lparr>ct_active := (ct_active s)\<lparr>ac_host := ha_settle (ps_host_waits p) now (ac_host (ct_active s))\<rparr>\<rparr>))"

text \<open>The end of an attempt: the slots it held go back, and its place in the active set.\<close>

definition run_file_ends :: "download_row \<Rightarrow> slots \<Rightarrow> 's dispatcher_scheme \<Rightarrow> 's dispatcher_scheme" where
  "run_file_ends file slots s = drop_slots slots (attempt_ends (df_id file) s)"

text \<open>
  What follows an attempt that ended abnormally: the row is recorded as a failed attempt while it is
  at work, or still startable after a panic. \<open>failure\<close> is the reading of the error.
\<close>

definition record_abnormal_end ::
    "scheduler_env \<Rightarrow> download_id \<Rightarrow> bool \<Rightarrow> failure \<Rightarrow> instant \<Rightarrow> 's controller_scheme \<Rightarrow> 's controller_scheme" where
  "record_abnormal_end env i panicked failure now s =
     (case get_download i (sc_store s) of
        None \<Rightarrow> s
      | Some current \<Rightarrow>
          if is_working (df_state current) \<or> (panicked \<and> df_state current \<in> {Queued, RetryWait})
          then snd (record_error env current failure now s)
          else s)"

end
