(* ===== verification/StorageWatch.thy ===== *)
theory StorageWatch
  imports Dispatch
begin

text \<open>
  The supervision of free space (\<open>rd-scheduler/src/capacity.rs\<close>), the check before a start
  (\<open>runner.rs\<close>) and the release of a kind that was switched on again (\<open>settings.rs\<close>).

  The answer of the file system to a probe is an argument, \<open>None\<close> where the path cannot be read.
  \<open>sw_blocks\<close> is the setting that keeps the blocks across a restart.
\<close>

datatype capacity_change = TargetBlocked | TargetReleased

record storage_watch = dispatcher +
  sw_blocks :: "(storage_target \<times> capacity_shortfall) list"
  sw_announced :: "(nat \<times> capacity_change \<times> storage_target) list"

definition remaining_bytes :: "'a download_file_scheme \<Rightarrow> u64 option" where
  "remaining_bytes file = map_option (\<lambda>total. sat_sub total (df_committed_bytes file)) (df_total_bytes file)"

definition downloads_of :: "storage_target \<Rightarrow> (download_row \<Rightarrow> bool) \<Rightarrow> 's dispatcher_scheme \<Rightarrow> download_row list" where
  "downloads_of target matches s =
     concat (map (\<lambda>(p, destination).
                    if target_for destination (dp_capacity s) \<noteq> target then []
                    else filter matches (downloads_for_package p (sc_store s)))
               (destinations_of (st_packages (sc_store s))))"

definition resume_each :: "scheduler_env \<Rightarrow> instant \<Rightarrow> download_row list \<Rightarrow> 's controller_scheme \<Rightarrow> 's controller_scheme" where
  "resume_each env now files s = fold (\<lambda>file s. snd (control_resume env (df_id file) now s)) files s"

definition block_each :: "scheduler_env \<Rightarrow> instant \<Rightarrow> download_row list \<Rightarrow> 's controller_scheme \<Rightarrow> 's controller_scheme" where
  "block_each env now files s = fold (\<lambda>file s. snd (control_block env (df_id file) BlockCapacity now s)) files s"

definition blocked_for_capacity :: "'s dispatcher_scheme \<Rightarrow> download_row \<Rightarrow> bool" where
  "blocked_for_capacity s file = (df_id file \<in> set (downloads_blocked_by (block_reason_as_str BlockCapacity) (sc_store s)))"

definition requeue_capacity_blocked_of ::
    "scheduler_env \<Rightarrow> storage_target \<Rightarrow> instant \<Rightarrow> 's dispatcher_scheme \<Rightarrow> 's dispatcher_scheme" where
  "requeue_capacity_blocked_of env target now s =
     resume_each env now (downloads_of target (blocked_for_capacity s) s) s"

definition block_transfers_of ::
    "scheduler_env \<Rightarrow> storage_target \<Rightarrow> instant \<Rightarrow> 's dispatcher_scheme \<Rightarrow> 's dispatcher_scheme" where
  "block_transfers_of env target now s =
     block_each env now (downloads_of target (\<lambda>file. df_state file \<in> {Downloading, Resolving}) s) s"

definition persist_capacity_blocks ::
    "capacity_change \<Rightarrow> storage_target \<Rightarrow> 's storage_watch_scheme \<Rightarrow> 's storage_watch_scheme" where
  "persist_capacity_blocks change target s =
     (let blocked = cp_blocked (dp_capacity s)
      in s\<lparr>sw_blocks := blocked, sw_announced := sw_announced s @ [(length blocked, change, target)]\<rparr>)"

definition mark_target ::
    "storage_target \<Rightarrow> capacity_shortfall option \<Rightarrow> 's dispatcher_scheme \<Rightarrow> bool \<times> 's dispatcher_scheme" where
  "mark_target target short s =
     (case set_blocked target short (dp_capacity s) of (changed, c) \<Rightarrow> (changed, s\<lparr>dp_capacity := c\<rparr>))"

definition record_storage_block ::
    "storage_target \<Rightarrow> capacity_shortfall \<Rightarrow> 's storage_watch_scheme \<Rightarrow> bool \<times> 's storage_watch_scheme" where
  "record_storage_block target shortfall s =
     (case mark_target target (Some shortfall) s of
        (False, s) \<Rightarrow> (False, s)
      | (True, s) \<Rightarrow> (True, persist_capacity_blocks TargetBlocked target s))"

definition waits_on_target :: "'s dispatcher_scheme \<Rightarrow> download_row \<Rightarrow> bool" where
  "waits_on_target s file = (blocked_for_capacity s file \<or> df_state file \<in> {Queued, RetryWait})"

definition something_could_start :: "storage_target \<Rightarrow> path \<Rightarrow> u64 \<Rightarrow> 's dispatcher_scheme \<Rightarrow> bool" where
  "something_could_start target p free s =
     (let waiting = downloads_of target (waits_on_target s) s
      in waiting = []
         \<or> list_ex (\<lambda>file. verdict_ok (capacity_evaluate p free (remaining_bytes file) (dp_capacity s))) waiting)"

definition supervise_target ::
    "scheduler_env \<Rightarrow> storage_target \<Rightarrow> path \<Rightarrow> u64 \<Rightarrow> instant \<Rightarrow> 's storage_watch_scheme \<Rightarrow> 's storage_watch_scheme" where
  "supervise_target env target p free now s =
     (let minimum = minimum_free_bytes p (dp_capacity s) in
      if free < minimum then
        let shortfall = \<lparr>cs_required_bytes = minimum, cs_free_bytes = free, cs_minimum_free_bytes = minimum,
                         cs_size_known = True\<rparr>
        in case record_storage_block target shortfall s of
             (True, s) \<Rightarrow> block_transfers_of env target now s
           | (False, s) \<Rightarrow> s
      else if ss_auto_resume (cp_settings (dp_capacity s)) \<and> is_blocked target (dp_capacity s)
              \<and> something_could_start target p free s
      then case mark_target target None s of
             (True, s) \<Rightarrow> persist_capacity_blocks TargetReleased target (requeue_capacity_blocked_of env target now s)
           | (False, s) \<Rightarrow> s
      else s)"

definition reload_capacity_config ::
    "storage_settings \<Rightarrow> root_limit list \<Rightarrow> path \<Rightarrow> 's dispatcher_scheme \<Rightarrow> 's dispatcher_scheme" where
  "reload_capacity_config settings roots downloads_directory s =
     s\<lparr>dp_capacity := capacity_apply settings roots (Some downloads_directory) (dp_capacity s)\<rparr>"

definition supervise_capacity ::
    "scheduler_env \<Rightarrow> storage_settings \<Rightarrow> root_limit list \<Rightarrow> path \<Rightarrow> (path \<Rightarrow> u64 option) \<Rightarrow> instant
     \<Rightarrow> 's storage_watch_scheme \<Rightarrow> 's storage_watch_scheme" where
  "supervise_capacity env settings roots downloads_directory probe now s =
     (let s = reload_capacity_config settings roots downloads_directory s
      in fold (\<lambda>(target, p) s. case probe p of
                                 Some free \<Rightarrow> supervise_target env target p free now s
                               | None \<Rightarrow> s)
           (capacity_targets (dp_capacity s)) s)"

definition restore_capacity ::
    "storage_settings \<Rightarrow> root_limit list \<Rightarrow> path \<Rightarrow> 's storage_watch_scheme \<Rightarrow> 's storage_watch_scheme" where
  "restore_capacity settings roots downloads_directory s =
     reload_capacity_config settings roots downloads_directory
       (s\<lparr>dp_capacity := capacity_restore (sw_blocks s) (dp_capacity s)\<rparr>)"

definition resume_storage ::
    "scheduler_env \<Rightarrow> storage_target \<Rightarrow> instant \<Rightarrow> 's storage_watch_scheme \<Rightarrow> bool \<times> 's storage_watch_scheme" where
  "resume_storage env target now s =
     (case mark_target target None s of
        (False, s) \<Rightarrow> (False, s)
      | (True, s) \<Rightarrow> (True, persist_capacity_blocks TargetReleased target (requeue_capacity_blocked_of env target now s)))"

section \<open>The check before a start\<close>

definition ensure_capacity ::
    "path \<Rightarrow> (path \<Rightarrow> u64 option) \<Rightarrow> u64 option \<Rightarrow> 's storage_watch_scheme \<Rightarrow> bool \<times> 's storage_watch_scheme" where
  "ensure_capacity destination probe remaining s =
     (if destination = [] then (True, s)
      else case probe destination of
             None \<Rightarrow> (True, s)
           | Some free \<Rightarrow>
               (case capacity_evaluate destination free remaining (dp_capacity s) of
                  CapacityOk _ \<Rightarrow> (True, s)
                | Insufficient shortfall \<Rightarrow>
                    (False, snd (record_storage_block (target_for destination (dp_capacity s)) shortfall s))))"

section \<open>A kind switched on again\<close>

definition requeue_blocked_of_kinds ::
    "scheduler_env \<Rightarrow> download_kind list \<Rightarrow> instant \<Rightarrow> 's controller_scheme \<Rightarrow> 's controller_scheme" where
  "requeue_blocked_of_kinds env kinds now s =
     fold (\<lambda>i s. case get_download i (sc_store s) of
                   Some file \<Rightarrow> if df_kind file \<in> set kinds then snd (control_resume env i now s) else s
                 | None \<Rightarrow> s)
       (downloads_blocked_by (block_reason_as_str KindDisabled) (sc_store s)) s"

definition kinds_released :: "download_kind list \<Rightarrow> download_kind list \<Rightarrow> download_kind list" where
  "kinds_released before disabled = filter (\<lambda>kind. kind \<notin> set disabled) before"

end
