(* ===== verification/QueuePauses.thy ===== *)
theory QueuePauses
  imports Dispatch
begin

text \<open>
  What stops and restarts many files at once: the pause of the whole queue
  (\<open>rd-scheduler/src/queue_pause.rs\<close>), the stop mark (\<open>stop_mark.rs\<close>, \<open>rd-db/src/stop_mark_store.rs\<close>),
  the download window's hold (\<open>download_window.rs\<close>) and a step of the supervise loop (\<open>dispatch.rs\<close>).

  Beside the scheduler there are the records kept in the database: the pause in force, the files the
  window paused and the mark. Reading a record that does not parse is not modelled.
\<close>

section \<open>The pause of the queue\<close>

datatype pause_reason = ManualPause | AutomationPause | StopMarkPause | GameModePause

definition pause_reason_code :: "pause_reason \<Rightarrow> string" where
  "pause_reason_code r =
     (case r of
        ManualPause \<Rightarrow> ''manual''
      | AutomationPause \<Rightarrow> ''automation''
      | StopMarkPause \<Rightarrow> ''stop_mark''
      | GameModePause \<Rightarrow> ''game_mode'')"

record queue_pause =
  qp_until :: "instant option"
  qp_files :: "download_id list"
  qp_reason :: pause_reason

datatype stop_mark_target = MarkDownload download_id | MarkPackage package_id

record stop_mark =
  sm_target :: stop_mark_target
  sm_set_at :: instant

datatype mark_action = MarkSet | MarkCleared | MarkReached

record supervisor = dispatcher +
  sv_pause :: "queue_pause option"            \<comment> \<open>in memory\<close>
  sv_stored_pause :: "queue_pause option"     \<comment> \<open>the setting\<close>
  sv_window_files :: "download_id list"       \<comment> \<open>the setting of the download window\<close>
  sv_mark :: "stop_mark option"
  sv_announced :: "(mark_action \<times> stop_mark_target) list"

definition HOLD_REASON :: string where
  "HOLD_REASON = ''queue_paused''"

definition pausable :: "download_state \<Rightarrow> bool" where
  "pausable state = is_queued_or_working state"

definition hold_queue :: "string option \<Rightarrow> 's scheduler_scheme \<Rightarrow> 's scheduler_scheme" where
  "hold_queue reason s = s\<lparr>sc_holds := set_hold QueuePause reason (sc_holds s)\<rparr>"

definition files_to_stop :: "(download_state \<Rightarrow> bool) \<Rightarrow> 's scheduler_scheme \<Rightarrow> download_id list" where
  "files_to_stop stops s = map df_id (filter (\<lambda>file. stops (df_state file)) (list_downloads (sc_store s)))"

definition add_files :: "download_id list \<Rightarrow> download_id list \<Rightarrow> download_id list" where
  "add_files stopping files = fold (\<lambda>i files. if i \<in> set files then files else files @ [i]) stopping files"

definition pause_queue ::
    "scheduler_env \<Rightarrow> instant option \<Rightarrow> (download_state \<Rightarrow> bool) \<Rightarrow> pause_reason \<Rightarrow> instant
     \<Rightarrow> 's supervisor_scheme \<Rightarrow> queue_pause \<times> 's supervisor_scheme" where
  "pause_queue env until stops reason now s =
     (let files = (case sv_pause s of Some p \<Rightarrow> qp_files p | None \<Rightarrow> []);
          stopping = files_to_stop stops s;
          pause = \<lparr>qp_until = until, qp_files = add_files stopping files, qp_reason = reason\<rparr>;
          s = hold_queue (Some HOLD_REASON) (s\<lparr>sv_stored_pause := Some pause, sv_pause := Some pause\<rparr>)
      in (pause, snd (pause_many env stopping now s)))"

definition pause_queue_until_by ::
    "scheduler_env \<Rightarrow> instant \<Rightarrow> pause_reason \<Rightarrow> instant \<Rightarrow> 's supervisor_scheme \<Rightarrow> queue_pause \<times> 's supervisor_scheme" where
  "pause_queue_until_by env until reason now s = pause_queue env (Some until) pausable reason now s"

definition pause_queue_until ::
    "scheduler_env \<Rightarrow> instant \<Rightarrow> instant \<Rightarrow> 's supervisor_scheme \<Rightarrow> queue_pause \<times> 's supervisor_scheme" where
  "pause_queue_until env until now s = pause_queue_until_by env until ManualPause now s"

definition pause_queue_until_resumed ::
    "scheduler_env \<Rightarrow> instant \<Rightarrow> 's supervisor_scheme \<Rightarrow> queue_pause \<times> 's supervisor_scheme" where
  "pause_queue_until_resumed env now s =
     pause_queue env None (\<lambda>state. pausable state \<and> \<not> is_working state) StopMarkPause now s"

definition pause_queue_until_started ::
    "scheduler_env \<Rightarrow> instant \<Rightarrow> 's supervisor_scheme \<Rightarrow> queue_pause \<times> 's supervisor_scheme" where
  "pause_queue_until_started env now s = pause_queue env None pausable AutomationPause now s"

definition resume_queue ::
    "scheduler_env \<Rightarrow> instant \<Rightarrow> 's supervisor_scheme \<Rightarrow> nat \<times> 's supervisor_scheme" where
  "resume_queue env now s =
     (case sv_pause s of
        None \<Rightarrow> (0, s)
      | Some pause \<Rightarrow>
          let s = hold_queue None s;
              paused = map df_id (filter (\<lambda>file. df_state file = Paused) (list_downloads (sc_store s)));
              still_paused = filter (\<lambda>i. i \<in> set paused) (qp_files pause)
          in case resume_many env still_paused now s of
               (answers, s) \<Rightarrow>
                 (length (filter (\<lambda>answer. answer = Inr ()) answers), s\<lparr>sv_stored_pause := None, sv_pause := None\<rparr>))"

definition restore_queue_pause :: "'s supervisor_scheme \<Rightarrow> 's supervisor_scheme" where
  "restore_queue_pause s =
     (case sv_stored_pause s of
        None \<Rightarrow> s
      | Some pause \<Rightarrow> hold_queue (Some HOLD_REASON) (s\<lparr>sv_pause := Some pause\<rparr>))"

definition supervise_queue_pause :: "scheduler_env \<Rightarrow> instant \<Rightarrow> 's supervisor_scheme \<Rightarrow> 's supervisor_scheme" where
  "supervise_queue_pause env now s =
     (let due = (case Option.bind (sv_pause s) qp_until of Some until \<Rightarrow> until \<le> now | None \<Rightarrow> False)
      in if due then snd (resume_queue env now s) else s)"

section \<open>The stop mark\<close>

definition db_set_stop_mark :: "stop_mark_target \<Rightarrow> instant \<Rightarrow> 's supervisor_scheme \<Rightarrow> stop_mark \<times> 's supervisor_scheme" where
  "db_set_stop_mark target now s =
     (let mark = \<lparr>sm_target = target, sm_set_at = now\<rparr> in (mark, s\<lparr>sv_mark := Some mark\<rparr>))"

definition db_clear_stop_mark :: "stop_mark_target option \<Rightarrow> 's supervisor_scheme \<Rightarrow> bool \<times> 's supervisor_scheme" where
  "db_clear_stop_mark only s =
     (case sv_mark s of
        None \<Rightarrow> (False, s)
      | Some mark \<Rightarrow>
          if (case only of None \<Rightarrow> True | Some target \<Rightarrow> sm_target mark = target)
          then (True, s\<lparr>sv_mark := None\<rparr>) else (False, s))"

definition announce_stop_mark :: "mark_action \<Rightarrow> stop_mark_target \<Rightarrow> 's supervisor_scheme \<Rightarrow> 's supervisor_scheme" where
  "announce_stop_mark action target s = s\<lparr>sv_announced := sv_announced s @ [(action, target)]\<rparr>"

datatype mark_progress = Ahead | MarkDone | Gone

definition done_for_mark :: "download_state \<Rightarrow> bool" where
  "done_for_mark state = (state \<in> {Completed, Failed, Cancelled, Skipped, Seeding})"

definition mark_progress :: "stop_mark_target \<Rightarrow> 's scheduler_scheme \<Rightarrow> mark_progress" where
  "mark_progress target s =
     (let files = (case target of
                     MarkDownload i \<Rightarrow> map_option (\<lambda>file. [file]) (get_download i (sc_store s))
                   | MarkPackage p \<Rightarrow>
                       if get_package p (sc_store s) = None then None
                       else Some (downloads_for_package p (sc_store s)))
      in case files of
           None \<Rightarrow> Gone
         | Some files \<Rightarrow> if list_all (\<lambda>file. done_for_mark (df_state file)) files then MarkDone else Ahead)"

definition set_stop_mark ::
    "stop_mark_target \<Rightarrow> instant \<Rightarrow> 's supervisor_scheme \<Rightarrow> (store_error + stop_mark) \<times> 's supervisor_scheme" where
  "set_stop_mark target now s =
     (case mark_progress target s of
        Gone \<Rightarrow> (Inl (NotFound ''no such file or package''), s)
      | MarkDone \<Rightarrow> (Inl (WrongState ''the stop mark's file or package is already finished''), s)
      | Ahead \<Rightarrow> (case db_set_stop_mark target now s of (mark, s) \<Rightarrow> (Inr mark, announce_stop_mark MarkSet target s)))"

definition clear_stop_mark :: "'s supervisor_scheme \<Rightarrow> bool \<times> 's supervisor_scheme" where
  "clear_stop_mark s =
     (case sv_mark s of
        None \<Rightarrow> (False, s)
      | Some mark \<Rightarrow>
          (case db_clear_stop_mark (Some (sm_target mark)) s of
             (cleared, s) \<Rightarrow> (cleared, if cleared then announce_stop_mark MarkCleared (sm_target mark) s else s)))"

definition reach_stop_mark :: "scheduler_env \<Rightarrow> stop_mark \<Rightarrow> instant \<Rightarrow> 's supervisor_scheme \<Rightarrow> 's supervisor_scheme" where
  "reach_stop_mark env mark now s =
     (let s = snd (pause_queue_until_resumed env now s) in
      case db_clear_stop_mark (Some (sm_target mark)) s of
        (cleared, s) \<Rightarrow> if cleared then announce_stop_mark MarkReached (sm_target mark) s else s)"

definition supervise_stop_mark :: "scheduler_env \<Rightarrow> instant \<Rightarrow> 's supervisor_scheme \<Rightarrow> 's supervisor_scheme" where
  "supervise_stop_mark env now s =
     (case sv_mark s of
        None \<Rightarrow> s
      | Some mark \<Rightarrow>
          (case mark_progress (sm_target mark) s of
             Ahead \<Rightarrow> s
           | Gone \<Rightarrow> snd (db_clear_stop_mark (Some (sm_target mark)) s)
           | MarkDone \<Rightarrow> reach_stop_mark env mark now s))"

section \<open>The download window\<close>

definition can_resume :: "dispatch_env \<Rightarrow> download_row \<Rightarrow> bool" where
  "can_resume env file =
     (if df_state file \<notin> {Resolving, Downloading} then False
      else if df_state file = Resolving then df_kind file \<noteq> Record
      else case df_kind file of
             Http \<Rightarrow> df_total_bytes file \<noteq> None \<and> \<not> ignores_ranges (df_source file) (de_limits env)
           | Usenet \<Rightarrow> True | Torrent \<Rightarrow> True | Ftp \<Rightarrow> True | Sftp \<Rightarrow> True | ObjectStorage \<Rightarrow> True
           | Media \<Rightarrow> False | Gallery \<Rightarrow> False | Record \<Rightarrow> False | Plugin \<Rightarrow> False)"

datatype window_verdict = KeptPaused | Released | Forgotten

definition window_file :: "(package_id \<times> download_hold) list \<Rightarrow> 's controller_scheme \<Rightarrow> download_id \<Rightarrow> window_verdict" where
  "window_file gate s i =
     (case get_download i (sc_store s) of
        None \<Rightarrow> Forgotten
      | Some file \<Rightarrow>
          let stopping = (map_of (ac_reasons (ct_active s)) i = Some StopPaused)
          in if df_state file = Paused \<and> \<not> gate_holds file gate then Released
             else if df_state file = Paused then KeptPaused
             else if is_working (df_state file) \<and> stopping then KeptPaused
             else Forgotten)"

definition window_stops ::
    "dispatch_env \<Rightarrow> (package_id \<times> download_hold) list \<Rightarrow> download_id list \<Rightarrow> 's controller_scheme \<Rightarrow> download_id \<Rightarrow> bool" where
  "window_stops env gate kept s i =
     (case get_download i (sc_store s) of
        None \<Rightarrow> False
      | Some file \<Rightarrow>
          gate_holds file gate \<and> can_resume env file \<and> i \<notin> set kept
          \<and> map_of (ac_reasons (ct_active s)) i = None)"

definition pause_one :: "dispatch_env \<Rightarrow> instant \<Rightarrow> download_id \<Rightarrow> 's controller_scheme \<Rightarrow> 's controller_scheme" where
  "pause_one env now i s = snd (control_pause (scheduler_env.truncate env) i now s)"

definition resume_one :: "dispatch_env \<Rightarrow> instant \<Rightarrow> download_id \<Rightarrow> 's controller_scheme \<Rightarrow> 's controller_scheme" where
  "resume_one env now i s = snd (control_resume (scheduler_env.truncate env) i now s)"

definition supervise_download_windows :: "dispatch_env \<Rightarrow> instant \<Rightarrow> 's supervisor_scheme \<Rightarrow> 's supervisor_scheme" where
  "supervise_download_windows env now s =
     (let stored = sv_window_files s;
          running = map fst (ac_tokens (ct_active s))
      in if stored = [] \<and> running = [] then s
         else
           let gate = download_gate env (st_packages (sc_store s)) now;
               kept = filter (\<lambda>i. window_file gate s i = KeptPaused) stored;
               released = filter (\<lambda>i. window_file gate s i = Released) stored;
               stopping = filter (window_stops env gate kept s) running;
               s = (if stopping = [] then s else s\<lparr>sv_window_files := stored @ stopping\<rparr>);
               s = fold (pause_one env now) stopping s;
               s = fold (resume_one env now) released s
           in if kept @ stopping \<noteq> stored then s\<lparr>sv_window_files := kept @ stopping\<rparr> else s)"

section \<open>The tail of a supervision step\<close>

text \<open>What every tick does, in its order: the pause, the accounts, the mark, then the dispatch pass.\<close>

definition supervise_tick ::
    "dispatch_env \<Rightarrow> instant \<Rightarrow> 's supervisor_scheme \<Rightarrow> (pass_error + unit) \<times> download_id list \<times> 's supervisor_scheme" where
  "supervise_tick env now s =
     (let s = supervise_queue_pause (scheduler_env.truncate env) now s;
          s = (case settle_account_traffic now (sc_traffic s) (sc_holds s) of
                 (traffic, holds) \<Rightarrow> s\<lparr>sc_traffic := traffic, sc_holds := holds\<rparr>);
          s = supervise_stop_mark (scheduler_env.truncate env) now s
      in schedule_runnable env now s)"

end
