(* ===== verification/DispatchFacts.thy ===== *)
theory DispatchFacts
  imports Dispatch Writes
begin

text \<open>
  What the steps of a dispatch pass change and what they leave alone, and the cases a file of the
  pass goes through.
\<close>

section \<open>What a step leaves alone\<close>

text \<open>Everything a place of a kind or of a provider is not about.\<close>

definition same_but_slots :: "'s dispatcher_scheme \<Rightarrow> 's dispatcher_scheme \<Rightarrow> bool" where
  "same_but_slots s s' \<longleftrightarrow> sc_store s' = sc_store s \<and> sc_blocks s' = sc_blocks s \<and> sc_traffic s' = sc_traffic s
     \<and> sc_holds s' = sc_holds s \<and> ct_active s' = ct_active s \<and> dp_capacity s' = dp_capacity s
     \<and> dispatcher.more s' = dispatcher.more s"

lemma same_but_slots_refl [simp]: "same_but_slots s s"
  by (simp add: same_but_slots_def)

lemma same_but_slots_trans: "same_but_slots a b \<Longrightarrow> same_but_slots b c \<Longrightarrow> same_but_slots a c"
  by (simp add: same_but_slots_def)

lemma same_but_slots_take:
  "same_but_slots s (s\<lparr>dp_kinds := k\<rparr>)" "same_but_slots s (s\<lparr>dp_gates := g\<rparr>)" "same_but_slots s (s\<lparr>dp_free := f\<rparr>)"
  "same_but_slots s (s\<lparr>dp_pins := q\<rparr>)"
  by (simp_all add: same_but_slots_def)

lemma same_but_slots_drop [simp]: "same_but_slots s (drop_slots slots s)"
  by (simp add: drop_slots_def drop_kind_slot_def drop_provider_def same_but_slots_take
      split: slots.split provider_slot.split)

lemma take_gate_same: "take_gate plugin n s = (slot, s') \<Longrightarrow> same_but_slots s s'"
  by (auto simp: take_gate_def Let_def same_but_slots_take split: if_splits)

lemma try_free_slot_same: "try_free_slot env source s = (slot, s') \<Longrightarrow> same_but_slots s s'"
  by (auto simp: try_free_slot_def Let_def same_but_slots_take split: option.splits if_splits)

lemma claim_resolver_pin_same: "claim_resolver_pin i pin s = (p, s') \<Longrightarrow> same_but_slots s s'"
  by (auto simp: claim_resolver_pin_def same_but_slots_take split: option.splits)

lemma try_provider_slot_same: "try_provider_slot env i account source s = (r, s') \<Longrightarrow> same_but_slots s s'"
  by (auto simp: try_provider_slot_def Let_def split: option.splits sum.splits prod.splits if_splits
      dest!: take_gate_same try_free_slot_same claim_resolver_pin_same
      intro: same_but_slots_trans)

lemma try_slot_same: "try_slot env kind s = (ok, s') \<Longrightarrow> same_but_slots s s'"
  by (auto simp: try_slot_def same_but_slots_take split: option.splits if_splits)

lemma acquire_slots_same: "acquire_slots env file s = (r, s') \<Longrightarrow> same_but_slots s s'"
  by (auto simp: acquire_slots_def split: option.splits sum.splits prod.splits if_splits provider_slot.splits bool.splits
      dest!: try_provider_slot_same try_slot_same)

lemma acquire_slots_runner:
  "acquire_slots env file s = (Inr (Some slots), s') \<Longrightarrow>
     (df_kind file = Http \<longrightarrow> \<not> slots_exempt slots \<and> \<not> slots_pooled slots)
     \<and> (df_kind file \<noteq> Http \<longrightarrow> (\<exists>runner. de_runners env (df_kind file) = Some runner
          \<and> slots = External (df_kind file) runner))"
  by (auto simp: acquire_slots_def slots_exempt_def slots_pooled_def
      split: option.splits sum.splits prod.splits if_splits provider_slot.splits bool.splits)

text \<open>The checks before a start write the store and forget expired blocks.\<close>

definition same_but_store :: "'s dispatcher_scheme \<Rightarrow> 's dispatcher_scheme \<Rightarrow> bool" where
  "same_but_store s s' \<longleftrightarrow> sc_traffic s' = sc_traffic s \<and> sc_holds s' = sc_holds s \<and> ct_active s' = ct_active s
     \<and> dp_capacity s' = dp_capacity s \<and> dp_kinds s' = dp_kinds s \<and> dispatcher.more s' = dispatcher.more s"

lemma same_but_store_refl [simp]: "same_but_store s s"
  by (simp add: same_but_store_def)

lemma same_but_store_trans: "same_but_store a b \<Longrightarrow> same_but_store b c \<Longrightarrow> same_but_store a c"
  by (simp add: same_but_store_def)

lemma write_store_same: "same_but_store s (snd (write_store f s))" "sc_blocks (snd (write_store f s)) = sc_blocks s"
  by (simp_all add: write_store_def same_but_store_def split: sum.split prod.split)

lemma block_queued_same:
  "same_but_store s (block_queued_of_kind env kind now s) \<and> sc_blocks (block_queued_of_kind env kind now s) = sc_blocks s"
proof -
  have "same_but_store s (fold (block_one env now) xs s) \<and> sc_blocks (fold (block_one env now) xs s) = sc_blocks s" for xs
  proof (induction xs arbitrary: s)
    case (Cons x xs)
    have "same_but_store s (block_one env now x s)" "sc_blocks (block_one env now x s) = sc_blocks s"
      by (simp_all add: block_one_def write_store_same)
    with Cons [of "block_one env now x s"] show ?case using same_but_store_trans by auto
  qed simp
  then show ?thesis by (simp add: block_queued_of_kind_def)
qed

section \<open>The checks of one file\<close>

text \<open>Forgetting an expired block changes no answer as of the same instant.\<close>

definition same_blocks :: "instant \<Rightarrow> host_blocks \<Rightarrow> host_blocks \<Rightarrow> bool" where
  "same_blocks now b b' \<longleftrightarrow> (\<forall>source. fst (blocked_until source now b') = fst (blocked_until source now b))"

lemma same_blocks_refl [simp]: "same_blocks now b b"
  by (simp add: same_blocks_def)

lemma same_blocks_trans: "same_blocks now a b \<Longrightarrow> same_blocks now b c \<Longrightarrow> same_blocks now a c"
  by (simp add: same_blocks_def)

lemma blocked_until_forgets: "same_blocks now b (snd (blocked_until source now b))"
  by (auto simp: same_blocks_def blocked_until_def delete_conv' split: option.splits if_splits)

lemma mirror_stands_down_same:
  "mirror_stands_down env file now groups s = (r, groups', s') \<Longrightarrow> same_but_store s s' \<and> sc_blocks s' = sc_blocks s"
  using write_store_same [where f = "transition_download (ev_redact env) (df_id file) Skipped now" and s = s]
  by (auto simp: mirror_stands_down_def Let_def split: if_splits prod.splits sum.splits)

lemma hoster_blocks_facts:
  assumes "hoster_blocks file now s = (b, s')"
  shows "same_but_store s s'" and "same_blocks now (sc_blocks s) (sc_blocks s')" and "sc_store s' = sc_store s"
    and "df_account_id file = None \<Longrightarrow> b \<longleftrightarrow> fst (blocked_until (df_source file) now (sc_blocks s)) \<noteq> None"
  using assms blocked_until_forgets [of now "sc_blocks s" "df_source file"]
  by (auto simp: hoster_blocks_def same_but_store_def split: if_splits prod.splits)

text \<open>The checks in order: the hoster, the account, the mirror group, then the root and the kind.\<close>

lemma may_start_cases:
  assumes "may_start env file now dests groups kinds s = (r, groups', kinds', s')"
  obtains (waits) "r = Inr False" "groups' = groups" "kinds' = kinds" "same_but_store s s'"
      "same_blocks now (sc_blocks s) (sc_blocks s')" "sc_store s' = sc_store s"
  | (grouped) s1 r1 s2 where "hoster_blocks file now s = (False, s1)" "\<not> held_for_account_traffic file now s1"
      "group_checks env file now groups s1 = (r1, groups', s2)"
      "r1 \<noteq> Inr False" "kinds' = kinds" "s' = s2" "r \<noteq> Inr True"
  | (checked) s1 s2 where "hoster_blocks file now s = (False, s1)" "\<not> held_for_account_traffic file now s1"
      "group_checks env file now groups s1 = (Inr False, groups', s2)"
      "if root_blocks file dests s2 then r = Inr False \<and> s' = s2
       else if df_kind file \<in> set (de_disabled env)
            then r = Inr False \<and> (s' = s2 \<or> s' = block_queued_of_kind env (df_kind file) now s2)
            else r = Inr True \<and> s' = s2"
proof -
  obtain b s1 where h: "hoster_blocks file now s = (b, s1)" by fastforce
  note hf = hoster_blocks_facts [OF h]
  show thesis
  proof (cases b)
    case True
    then show thesis using assms h hf waits by (auto simp: may_start_def)
  next
    case b: False
    show thesis
    proof (cases "held_for_account_traffic file now s1")
      case True
      then show thesis using assms h hf waits b by (auto simp: may_start_def)
    next
      case t: False
      obtain r1 g s2 where m: "group_checks env file now groups s1 = (r1, g, s2)" by (metis prod_cases3)
      have e: "(case (r1, g, s2) of
              (Inl e, groups, s) \<Rightarrow> (Inl e, groups, kinds, s)
            | (Inr True, groups, s) \<Rightarrow> (Inr False, groups, kinds, s)
            | (Inr False, groups, s) \<Rightarrow>
                if root_blocks file dests s then (Inr False, groups, kinds, s)
                else if df_kind file \<in> set (de_disabled env) then
                  if df_kind file \<in> set kinds then (Inr False, groups, kinds, s)
                  else (Inr False, groups, kinds @ [df_kind file], block_queued_of_kind env (df_kind file) now s)
                else (Inr True, groups, kinds, s)) = (r, groups', kinds', s')"
        using assms h b t m by (simp add: may_start_def)
      show thesis
      proof (cases "r1 = Inr False")
        case True
        have g: "g = groups'" using e True by (auto split: if_splits)
        have c: "if root_blocks file dests s2 then r = Inr False \<and> s' = s2
           else if df_kind file \<in> set (de_disabled env)
                then r = Inr False \<and> (s' = s2 \<or> s' = block_queued_of_kind env (df_kind file) now s2)
                else r = Inr True \<and> s' = s2"
          using e True by (auto split: if_splits)
        show thesis using checked [OF _ t _ c] h b m True g by simp
      next
        case False
        then have "groups' = g" "kinds' = kinds" "s' = s2" "r \<noteq> Inr True"
          using e by (auto split: sum.splits bool.splits)
        then show thesis using grouped [of s1 r1 s2] h b t m False by simp
      qed
    qed
  qed
qed

end
