(* ===== verification/DispatchSteps.thy ===== *)
theory DispatchSteps
  imports DispatchFacts
begin

text \<open>
  The cases one file of a dispatch pass goes through, up to its start, and the walk over all of them.
\<close>

section \<open>The steps of a pass\<close>

text \<open>The start of one file: nothing of it, or its claim in the active set.\<close>

lemma start_file_cases:
  assumes "start_file env now limit file p s = (fl, p', s')"
  obtains (stays) "ps_started p' = ps_started p" "ps_order p' = ps_order p" "ps_kept p' = ps_kept p"
      "ps_groups p' = ps_groups p" "same_but_slots s s'"
  | (starts) slots where "fl = Next" "p' = p\<lparr>ps_order := map_option (order_started (df_id file)) (ps_order p),
                        ps_started := ps_started p @ [df_id file]\<rparr>"
      "\<not> de_shutdown env" "\<not> untouchable (df_id file) (ct_active s)"
      "active_admits (df_kind file) (slots_exempt slots) (slots_pooled slots) (limit - ps_kept p) (ct_active s)"
      "same_but_slots (s\<lparr>ct_active := enter_active file slots (host_claim_of env file) now (ct_active s)\<rparr>) s'"
      "df_kind file \<noteq> Http \<Longrightarrow> \<exists>runner. de_runners env (df_kind file) = Some runner \<and> slots = External (df_kind file) runner"
      "\<And>claim. host_claim_of env file = Some claim \<Longrightarrow> has_room claim now (ac_host (ct_active s))"
proof -
  obtain r s1 where a: "acquire_slots env file s = (r, s1)" by fastforce
  note same = acquire_slots_same [OF a]
  show thesis
  proof (cases "\<exists>slots. r = Inr (Some slots)")
    case False
    then show thesis using assms a same stays
      by (auto simp: start_file_def Let_def split: sum.splits option.splits)
  next
    case True
    then obtain slots where r: "r = Inr (Some slots)" by blast
    obtain c s2 where c: "claim_slot env file slots (limit - ps_kept p) (host_claim_of env file) now s1 = (c, s2)"
      by fastforce
    show thesis
    proof (cases "c = Claimed")
      case True
      have e: "fl = Next" "p' = p\<lparr>ps_order := map_option (order_started (df_id file)) (ps_order p),
                        ps_started := ps_started p @ [df_id file]\<rparr>" "s' = s2"
        using assms a r c True by (simp_all add: start_file_def Let_def)
      have k: "\<not> de_shutdown env" "\<not> untouchable (df_id file) (ct_active s1)"
        "active_admits (df_kind file) (slots_exempt slots) (slots_pooled slots) (limit - ps_kept p) (ct_active s1)"
        "s2 = s1\<lparr>ct_active := enter_active file slots (host_claim_of env file) now (ct_active s1)\<rparr>"
        "\<And>claim. host_claim_of env file = Some claim \<Longrightarrow> has_room claim now (ac_host (ct_active s1))"
        using c True by (auto simp: claim_slot_def split: if_splits option.splits)
      have act: "ct_active s1 = ct_active s" using same by (simp add: same_but_slots_def)
      show thesis
        using starts [of slots] e k same acquire_slots_runner [OF a [unfolded r]] unfolding act
        by (auto simp: same_but_slots_def)
    next
      case False
      have "s2 = s1" using c False by (auto simp: claim_slot_def split: if_splits option.splits)
      then show thesis using assms a r c False same stays same_but_slots_trans [OF same same_but_slots_drop]
        by (auto simp: start_file_def Let_def split: claim.splits)
    qed
  qed
qed

text \<open>What the checks of a file leave alone, whatever they answer.\<close>

lemma group_checks_same:
  "group_checks env file now groups s = (r, groups', s') \<Longrightarrow> same_but_store s s' \<and> sc_blocks s' = sc_blocks s"
  by (auto simp: group_checks_def dest: mirror_stands_down_same split: if_splits)

lemma may_start_same:
  assumes "may_start env file now dests groups kinds s = (r, groups', kinds', s')"
  shows "same_but_store s s' \<and> same_blocks now (sc_blocks s) (sc_blocks s')"
  using assms
proof (cases rule: may_start_cases)
  case (grouped s1 r1 s2)
  with hoster_blocks_facts(1,2) [OF grouped(1)] group_checks_same [OF grouped(3)] show ?thesis
    by (auto intro: same_but_store_trans)
next
  case (checked s1 s2)
  have "same_but_store s s2 \<and> same_blocks now (sc_blocks s) (sc_blocks s2)"
    using hoster_blocks_facts(1,2) [OF checked(1)] group_checks_same [OF checked(3)]
    by (auto intro: same_but_store_trans)
  with checked(4) block_queued_same [of s2 env "df_kind file" now] show ?thesis
    by (auto intro: same_but_store_trans split: if_splits)
qed auto

lemma may_start_yes:
  assumes "may_start env file now dests groups kinds s = (Inr True, groups', kinds', s')"
  shows "df_kind file \<notin> set (de_disabled env) \<and> \<not> held_for_account_traffic file now s \<and> \<not> root_blocks file dests s
    \<and> (df_account_id file = None \<longrightarrow> fst (blocked_until (df_source file) now (sc_blocks s)) = None)
    \<and> (\<exists>s1. sc_store s1 = sc_store s \<and> group_checks env file now groups s1 = (Inr False, groups', s'))"
  using assms
proof (cases rule: may_start_cases)
  case (checked s1 s2)
  note h = hoster_blocks_facts [OF checked(1)]
  have c: "df_kind file \<notin> set (de_disabled env) \<and> \<not> root_blocks file dests s2 \<and> s' = s2"
    using checked(4) by (auto split: if_splits)
  have same: "same_but_store s s2"
    using h(1) group_checks_same [OF checked(3)] by (auto intro: same_but_store_trans)
  have "\<not> held_for_account_traffic file now s"
    using checked(2) h(1) by (simp add: held_for_account_traffic_def same_but_store_def split: option.splits)
  moreover have "\<not> root_blocks file dests s"
    using c same by (simp add: root_blocks_def same_but_store_def split: option.splits)
  ultimately show ?thesis using h(3,4) checked(3) c by auto
qed auto


text \<open>One file of the pass: it stays where it is, keeps its place, or starts after every check.\<close>

definition may_run ::
    "dispatch_env \<Rightarrow> instant \<Rightarrow> package_id list \<Rightarrow> (package_id \<times> download_hold) list \<Rightarrow> (package_id \<times> path) list
     \<Rightarrow> 's dispatcher_scheme \<Rightarrow> download_row \<Rightarrow> bool" where
  "may_run env now late gate dests s file \<longleftrightarrow>
     df_package_id file \<notin> set late \<and> \<not> gate_holds file gate \<and> turn_of file now = Offered
     \<and> df_kind file \<notin> set (de_disabled env)
     \<and> (df_account_id file = None \<longrightarrow> fst (blocked_until (df_source file) now (sc_blocks s)) = None)
     \<and> \<not> held_for_account_traffic file now s \<and> \<not> root_blocks file dests s
     \<and> \<not> untouchable (df_id file) (ct_active s) \<and> \<not> de_shutdown env
     \<and> (df_kind file \<noteq> Http \<longrightarrow> de_runners env (df_kind file) \<noteq> None)"

definition keeps_place ::
    "dispatch_env \<Rightarrow> instant \<Rightarrow> package_id list \<Rightarrow> (package_id \<times> download_hold) list \<Rightarrow> download_row \<Rightarrow> bool" where
  "keeps_place env now late gate file \<longleftrightarrow>
     df_package_id file \<notin> set late \<and> \<not> gate_holds file gate \<and> turn_of file now = KeepsPlace
     \<and> takes_a_counted_place env (df_kind file)"

definition quiet_step :: "instant \<Rightarrow> 's dispatcher_scheme \<Rightarrow> 's dispatcher_scheme \<Rightarrow> bool" where
  "quiet_step now s s' \<longleftrightarrow> ct_active s' = ct_active s \<and> sc_traffic s' = sc_traffic s
     \<and> sc_holds s' = sc_holds s \<and> dispatcher.more s' = dispatcher.more s
     \<and> dp_capacity s' = dp_capacity s \<and> same_blocks now (sc_blocks s) (sc_blocks s')"

lemma quiet_step_refl [simp]: "quiet_step now s s"
  by (simp add: quiet_step_def)

lemma quiet_same: "same_but_store s s' \<Longrightarrow> same_blocks now (sc_blocks s) (sc_blocks s') \<Longrightarrow> quiet_step now s s'"
  "same_but_slots s s' \<Longrightarrow> quiet_step now s s'"
  by (simp_all add: quiet_step_def same_but_store_def same_but_slots_def)

lemma quiet_step_trans: "quiet_step now a b \<Longrightarrow> quiet_step now b c \<Longrightarrow> quiet_step now a c"
  by (auto simp: quiet_step_def intro: same_blocks_trans)

lemma dispatch_one_cases:
  assumes "dispatch_one env now limit late gate dests file p s = (fl, p', s')"
  obtains (stays) "ps_started p' = ps_started p" "ps_order p' = map_option (look_at file) (ps_order p)"
      "quiet_step now s s'" "ps_kept p' = ps_kept p + (if keeps_place env now late gate file then 1 else 0)"
  | (starts) slots where "fl = Next" "ps_started p' = ps_started p @ [df_id file]" "ps_kept p' = ps_kept p"
      "ps_order p' = map_option (order_started (df_id file)) (map_option (look_at file) (ps_order p))"
      "may_run env now late gate dests s file"
      "takes_a_counted_place env (df_kind file) \<Longrightarrow>
         (case map_option (look_at file) (ps_order p) of Some ord \<Rightarrow> order_admits file ord | None \<Rightarrow> True)"
      "active_admits (df_kind file) (slots_exempt slots) (slots_pooled slots) (limit - ps_kept p) (ct_active s)"
      "ct_active s' = enter_active file slots (host_claim_of env file) now (ct_active s)"
      "sc_traffic s' = sc_traffic s" "dp_capacity s' = dp_capacity s" "same_blocks now (sc_blocks s) (sc_blocks s')"
      "sc_holds s' = sc_holds s" "dispatcher.more s' = dispatcher.more s"
proof -
  define p1 where "p1 = p\<lparr>ps_order := map_option (look_at file) (ps_order p)\<rparr>"
  have one: "(if df_package_id file \<in> set late \<or> gate_holds file gate then (Next, p1, s)
      else case turn_of file now of
             KeepsPlace \<Rightarrow>
               (Next, if takes_a_counted_place env (df_kind file) then p1\<lparr>ps_kept := ps_kept p1 + 1\<rparr> else p1, s)
           | Waits \<Rightarrow> (Next, p1, s)
           | Offered \<Rightarrow> offer_file env now limit dests file p1 s) = (fl, p', s')"
    using assms unfolding dispatch_one_def Let_def p1_def .
  show thesis
  proof (cases "df_package_id file \<in> set late \<or> gate_holds file gate \<or> turn_of file now \<noteq> Offered")
    case True
    then show thesis using one stays by (cases "turn_of file now") (auto simp: p1_def keeps_place_def split: if_splits)
  next
    case False
    have kept: "\<not> keeps_place env now late gate file" using False by (simp add: keeps_place_def)
    define late_package where
      "late_package = ((case ps_order p1 of Some ord \<Rightarrow> \<not> order_admits file ord | None \<Rightarrow> False)
         \<and> takes_a_counted_place env (df_kind file))"
    have offer: "offer_file env now limit dests file p1 s = (fl, p', s')" using one False by simp
    show thesis
    proof (cases late_package)
      case True
      then have "offer_file env now limit dests file p1 s = (Next, p1, s)"
        by (simp add: offer_file_def late_package_def)
      then have e: "p' = p1" "s' = s" using offer by simp_all
      show thesis by (rule stays) (simp_all add: e p1_def kept)
    next
      case admits: False
      obtain r groups kinds s1 where m: "may_start env file now dests (ps_groups p1) (ps_blocked_kinds p1) s = (r, groups, kinds, s1)"
        by (metis prod_cases4)
      define p2 where "p2 = p1\<lparr>ps_groups := groups, ps_blocked_kinds := kinds\<rparr>"
      have q: "quiet_step now s s1" using may_start_same [OF m] quiet_same(1) by blast
      have cont: "(case r of
                    Inl e \<Rightarrow> (Ends (Inl e), p2, s1)
                  | Inr False \<Rightarrow> (Next, p2, s1)
                  | Inr True \<Rightarrow> start_file env now limit file p2 s1) = (fl, p', s')"
        using offer admits m unfolding p2_def by (simp add: offer_file_def late_package_def [symmetric] Let_def)
      show thesis
      proof (cases "r = Inr True")
        case False
        then have e: "p' = p2 \<and> s' = s1" using cont by (auto split: sum.splits bool.splits)
        show thesis by (rule stays) (simp_all add: e p1_def p2_def kept q)
      next
        case True
        note yes = may_start_yes [OF m [unfolded True]]
        have st: "start_file env now limit file p2 s1 = (fl, p', s')" using cont True by simp
        show thesis using st
        proof (cases rule: start_file_cases)
          case stays': stays
          show thesis using stays' stays kept quiet_step_trans [OF q quiet_same(2) [OF stays'(5)]]
            by (simp add: p1_def p2_def)
        next
          case (starts slots)
          have a: "ct_active s1 = ct_active s" and t: "sc_traffic s1 = sc_traffic s" and c: "dp_capacity s1 = dp_capacity s"
            and b: "same_blocks now (sc_blocks s) (sc_blocks s1)" and h: "sc_holds s1 = sc_holds s"
            and m: "dispatcher.more s1 = dispatcher.more s"
            using q by (simp_all add: quiet_step_def)
          have run: "may_run env now late gate dests s file"
            unfolding may_run_def using False yes starts(3,4,7,8) by (auto simp: a)
          have ord: "takes_a_counted_place env (df_kind file) \<Longrightarrow>
             (case map_option (look_at file) (ps_order p) of Some ord \<Rightarrow> order_admits file ord | None \<Rightarrow> True)"
            using admits by (simp add: late_package_def p1_def split: option.splits)
          have f: "fl = Next" "ps_started p' = ps_started p @ [df_id file]" "ps_kept p' = ps_kept p"
            "ps_order p' = map_option (order_started (df_id file)) (map_option (look_at file) (ps_order p))"
            using starts(1,2) by (simp_all add: p2_def p1_def)
          have ad: "active_admits (df_kind file) (slots_exempt slots) (slots_pooled slots) (limit - ps_kept p) (ct_active s)"
            using starts(5) by (simp add: a p2_def p1_def)
          have ent: "ct_active s' = enter_active file slots (host_claim_of env file) now (ct_active s)"
            and rest: "sc_traffic s' = sc_traffic s" "dp_capacity s' = dp_capacity s" "same_blocks now (sc_blocks s) (sc_blocks s')"
              "sc_holds s' = sc_holds s" "dispatcher.more s' = dispatcher.more s"
            using starts(6) a t c b h m by (simp_all add: same_but_slots_def)
          show thesis by (rule that(2) [OF f run ord ad ent rest])
        qed
      qed
    qed
  qed
qed

text \<open>An invariant of the walk may speak of the files walked so far.\<close>

lemma dispatch_files_walk:
  assumes step: "\<And>pre file post p s fl p' s'. files = pre @ file # post \<Longrightarrow> I pre p s \<Longrightarrow> one file p s = (fl, p', s')
      \<Longrightarrow> I (pre @ [file]) p' s'"
    and start: "I [] p s" and run: "dispatch_files one files p s = (r, p', s')"
  obtains pre post where "files = pre @ post" and "I pre p' s'"
proof -
  have walk: "\<exists>pre post. files = pre @ post \<and> I pre p' s'" if "files = seen @ rest" "I seen p s" "dispatch_files one rest p s = (r, p', s')"
    for seen rest p s
    using that
  proof (induction rest arbitrary: seen p s)
    case Nil
    then show ?case by auto
  next
    case (Cons f rest)
    obtain fl p1 s1 where o: "one f p s = (fl, p1, s1)" by (metis prod_cases3)
    have i: "I (seen @ [f]) p1 s1" by (rule step [OF Cons.prems(1,2) o])
    show ?case
    proof (cases fl)
      case Next
      show ?thesis by (rule Cons.IH [of "seen @ [f]" p1 s1]) (use Cons.prems o Next i in auto)
    next
      case (Ends r0)
      then have e: "p' = p1" "s' = s1" using Cons.prems(3) o by simp_all
      have "files = (seen @ [f]) @ rest" using Cons.prems(1) by simp
      then show ?thesis using i unfolding e by blast
    qed
  qed
  have "\<exists>pre post. files = pre @ post \<and> I pre p' s'" by (rule walk [OF _ start run]) simp
  then obtain pre post where "files = pre @ post" and "I pre p' s'" by blast
  then show thesis by (rule that)
qed

end
