(* ===== verification/DispatchProps.thy ===== *)
theory DispatchProps
  imports DispatchSteps TurnsProps
begin

text \<open>
  What a dispatch pass promises: what each started file passed, how many files run after it, that
  one mirror of a group starts at most, and that packages go one after another where that is set.
\<close>

section \<open>The number of running files\<close>

definition active_ok :: "active_state \<Rightarrow> bool" where
  "active_ok a \<longleftrightarrow> keys_once (ac_tokens a) \<and> keys_once (ac_pooled a) \<and> distinct (ac_exempt a)
     \<and> set (ac_exempt a) \<subseteq> fst ` set (ac_tokens a) \<and> fst ` set (ac_pooled a) \<subseteq> fst ` set (ac_tokens a)
     \<and> set (ac_exempt a) \<inter> fst ` set (ac_pooled a) = {}"

lemma active_okD:
  assumes "active_ok a"
  shows "keys_once (ac_tokens a)" "keys_once (ac_pooled a)" "distinct (ac_exempt a)"
    "set (ac_exempt a) \<subseteq> fst ` set (ac_tokens a)" "fst ` set (ac_pooled a) \<subseteq> fst ` set (ac_tokens a)"
    "set (ac_exempt a) \<inter> fst ` set (ac_pooled a) = {}"
  using assms by (simp_all add: active_ok_def)

lemma runs_key: "runs i a \<longleftrightarrow> i \<in> fst ` set (ac_tokens a)"
  by (simp add: runs_def map_of_eq_None_iff)

lemma update_new: "i \<notin> fst ` set xs \<Longrightarrow> AList.update i v xs = xs @ [(i, v)]"
  by (induction xs) auto

lemma takeWhile_stop: "\<not> P x \<Longrightarrow> takeWhile P (xs @ x # ys) = takeWhile P xs"
  by (induction xs) auto

text \<open>The places beside the limit never outnumber the running files.\<close>

lemma active_ok_length:
  assumes "active_ok a"
  shows "length (ac_exempt a) + length (ac_pooled a) \<le> length (ac_tokens a)"
proof -
  note ok = active_okD [OF assms]
  have "length (ac_exempt a) + length (ac_pooled a) = card (set (ac_exempt a) \<union> fst ` set (ac_pooled a))"
    using ok distinct_card [of "ac_exempt a"] distinct_card [of "map fst (ac_pooled a)"]
    by (simp add: card_Un_disjoint keys_once_def)
  also have "\<dots> \<le> card (fst ` set (ac_tokens a))" using ok by (intro card_mono) auto
  also have "\<dots> = length (ac_tokens a)"
    using ok(1) distinct_card [of "map fst (ac_tokens a)"] by (simp add: keys_once_def)
  finally show ?thesis .
qed

lemma enter_active_ok:
  assumes "active_ok a" and "\<not> runs (df_id file) a"
  shows "active_ok (enter_active file slots host now a)"
proof -
  note ok = active_okD [OF assms(1)]
  have new: "df_id file \<notin> fst ` set (ac_tokens a)" "df_id file \<notin> fst ` set (ac_pooled a)" "df_id file \<notin> set (ac_exempt a)"
    using assms(2) ok by (auto simp: runs_key)
  have ins: "set (List.insert (df_id file) (ac_exempt a)) = insert (df_id file) (set (ac_exempt a))"
    "distinct (List.insert (df_id file) (ac_exempt a))" using ok(3) by simp_all
  show ?thesis
    using ok new ins unfolding active_ok_def enter_active_def Let_def
    by (cases host; cases "slots_exempt slots"; cases "slots_pooled slots") (auto simp: update_new keys_once_def)
qed

lemma counted_enter_active:
  assumes "active_ok a" and "\<not> runs (df_id file) a"
    and "active_admits (df_kind file) (slots_exempt slots) (slots_pooled slots) limit a"
  shows "counted (enter_active file slots host now a) \<le> max (counted a) limit"
proof -
  note ok = active_okD [OF assms(1)]
  have new: "df_id file \<notin> fst ` set (ac_tokens a)" "df_id file \<notin> fst ` set (ac_pooled a)" "df_id file \<notin> set (ac_exempt a)"
    using assms(2) ok by (auto simp: runs_key)
  have len: "length (List.insert (df_id file) (ac_exempt a)) = Suc (length (ac_exempt a))"
    using new(3) by (simp add: List.insert_def)
  have enters: "counted (enter_active file slots host now a) =
     (length (ac_tokens a @ [(df_id file, False)])
       - (length (if slots_exempt slots then List.insert (df_id file) (ac_exempt a) else ac_exempt a)
          + length (if \<not> slots_exempt slots \<and> slots_pooled slots then ac_pooled a @ [(df_id file, df_kind file)] else ac_pooled a)))
     + length (remdups (map snd (if \<not> slots_exempt slots \<and> slots_pooled slots then ac_pooled a @ [(df_id file, df_kind file)] else ac_pooled a)))"
    using new by (simp add: counted_def enter_active_def Let_def update_new split: option.split)
  have pool: "length (remdups (map snd (ac_pooled a) @ [k])) =
      length (remdups (map snd (ac_pooled a))) + (if k \<in> snd ` set (ac_pooled a) then 0 else 1)" for k
    by (simp add: length_remdups_card_conv card_insert_if)
  show ?thesis
    using active_ok_length [OF assms(1)] assms(3) len pool [of "df_kind file"]
    unfolding enters active_admits_def list_ex_iff by (cases "slots_exempt slots"; cases "slots_pooled slots") (auto simp: counted_def)
qed

text \<open>Property C15. After a pass no more files count against the limit than before it or than the limit allows,
  and the places of the plain retries ahead of the first offered file stay free: what the pass starts
  fits beside them. The record of the running files stays in order.\<close>

theorem pass_keeps_the_limit:
  fixes s :: "'s dispatcher_scheme"
  assumes "active_ok (ct_active s)" and "dispatch_pass env now s = (r, p, s')"
  defines "packages \<equiv> st_packages (sc_store s)"
  defines "ahead \<equiv> takeWhile (\<lambda>file. turn_of file now \<noteq> Offered) (startable_downloads (sc_store s))"
  shows "active_ok (ct_active s')
    \<and> counted (ct_active s') \<le> max (counted (ct_active s))
        (max_running env - length (filter (keeps_place env now (not_due packages now) (download_gate env packages now)) ahead))"
proof -
  let ?files = "startable_downloads (sc_store s)"
  let ?late = "not_due packages now" and ?gate = "download_gate env packages now"
  let ?keeps = "keeps_place env now ?late ?gate"
  let ?limit = "max_running env - length (filter ?keeps ahead)"
  show ?thesis
  proof (cases "list_ex (\<lambda>file. turn_of file now = Offered) ?files")
    case False
    then show ?thesis using assms(1,2) by (simp add: dispatch_pass_def Let_def)
  next
    case True
    define I where "I pre p s1 \<longleftrightarrow> active_ok (ct_active s1)
        \<and> counted (ct_active s1) \<le> max (counted (ct_active s)) ?limit
        \<and> ps_kept p = length (filter ?keeps pre)"
      for pre :: "download_row list" and p :: pass_state and s1 :: "'s dispatcher_scheme"
    obtain order where run: "dispatch_files (dispatch_one env now (max_running env) ?late ?gate (destinations_of packages))
        ?files (pass_begins order) s = (r, p, s')"
      using assms(2) True by (simp add: dispatch_pass_def Let_def packages_def)
    obtain pre post where "?files = pre @ post" and fin: "I pre p s'"
    proof (rule dispatch_files_walk [where I = I, OF _ _ run])
      show "I [] (pass_begins order) s" using assms(1) by (simp add: I_def pass_begins_def)
      fix pre f post p1 s1 fl p2 s2
      assume files: "?files = pre @ f # post" and i: "I pre p1 s1"
        and one: "dispatch_one env now (max_running env) ?late ?gate (destinations_of packages) f p1 s1 = (fl, p2, s2)"
      show "I (pre @ [f]) p2 s2"
        using one
      proof (cases rule: dispatch_one_cases)
        case stays
        then show ?thesis using i by (simp add: I_def quiet_step_def)
      next
        case (starts slots)
        have off: "turn_of f now = Offered" using starts(5) by (simp add: may_run_def)
        have "ahead = takeWhile (\<lambda>file. turn_of file now \<noteq> Offered) pre"
          unfolding ahead_def files using off by (simp add: takeWhile_stop)
        then have "length (filter ?keeps ahead) \<le> ps_kept p1"
          using i takeWhile_dropWhile_id [of "\<lambda>file. turn_of file now \<noteq> Offered" pre]
          by (metis I_def filter_append le_add1 length_append)
        then have le: "max_running env - ps_kept p1 \<le> ?limit" by simp
        have nr: "\<not> runs (df_id f) (ct_active s1)" using starts(5) by (simp add: may_run_def untouchable_def)
        have ok: "active_ok (ct_active s1)" using i by (simp add: I_def)
        have nk: "\<not> ?keeps f" using off by (simp add: keeps_place_def)
        have "counted (ct_active s2) \<le> max (counted (ct_active s1)) (max_running env - ps_kept p1)"
          using counted_enter_active [OF ok nr starts(7), of "host_claim_of env f" now] by (simp add: starts(8))
        moreover have "counted (ct_active s1) \<le> max (counted (ct_active s)) ?limit" using i by (simp add: I_def)
        ultimately have "counted (ct_active s2) \<le> max (counted (ct_active s)) ?limit" using le by linarith
        then show ?thesis
          using enter_active_ok [OF ok nr, of slots "host_claim_of env f" now] i nk starts(3,8)
          by (simp add: I_def)
      qed
    qed blast
    then show ?thesis by (simp add: I_def)
  qed
qed

section \<open>What a started file passed\<close>

lemma enter_active_runs:
  "runs i (enter_active file slots host now a) \<longleftrightarrow> i = df_id file \<or> runs i a"
  "ac_reasons (enter_active file slots host now a) = ac_reasons a" "ac_held (enter_active file slots host now a) = ac_held a"
  by (auto simp: enter_active_def Let_def runs_def update_conv' split: option.splits)

lemma may_run_earlier:
  assumes "may_run env now late gate dests s1 file"
    and "sc_traffic s1 = sc_traffic s" "dp_capacity s1 = dp_capacity s" "same_blocks now (sc_blocks s) (sc_blocks s1)"
    and "\<And>i. untouchable i (ct_active s) \<Longrightarrow> untouchable i (ct_active s1)"
  shows "may_run env now late gate dests s file"
  using assms by (auto simp: may_run_def held_for_account_traffic_def root_blocks_def same_blocks_def split: option.splits)

definition passed_all ::
    "dispatch_env \<Rightarrow> instant \<Rightarrow> 's dispatcher_scheme \<Rightarrow> download_id \<Rightarrow> bool" where
  "passed_all env now s i \<longleftrightarrow>
     (\<exists>file \<in> set (startable_downloads (sc_store s)). df_id file = i
        \<and> may_run env now (not_due (st_packages (sc_store s)) now) (download_gate env (st_packages (sc_store s)) now)
             (destinations_of (st_packages (sc_store s))) s file)"

lemma pass_starts:
  fixes s :: "'s dispatcher_scheme"
  assumes "dispatch_pass env now s = (r, p, s')"
  shows "distinct (ps_started p) \<and> (\<forall>i. runs i (ct_active s') \<longleftrightarrow> runs i (ct_active s) \<or> i \<in> set (ps_started p))
     \<and> (\<forall>i. i \<in> set (ps_started p) \<longrightarrow> passed_all env now s i)
     \<and> sc_holds s' = sc_holds s \<and> dispatcher.more s' = dispatcher.more s"
proof (cases "list_ex (\<lambda>file. turn_of file now = Offered) (startable_downloads (sc_store s))")
  case False
  then show ?thesis using assms by (auto simp: dispatch_pass_def Let_def pass_begins_def)
next
  case True
  let ?packages = "st_packages (sc_store s)"
  let ?files = "startable_downloads (sc_store s)"
  let ?late = "not_due ?packages now" and ?gate = "download_gate env ?packages now" and ?dests = "destinations_of ?packages"
  define I where "I pre p s1 \<longleftrightarrow> sc_traffic s1 = sc_traffic s \<and> dp_capacity s1 = dp_capacity s
      \<and> same_blocks now (sc_blocks s) (sc_blocks s1)
      \<and> ac_reasons (ct_active s1) = ac_reasons (ct_active s) \<and> ac_held (ct_active s1) = ac_held (ct_active s)
      \<and> distinct (ps_started p) \<and> (\<forall>i. runs i (ct_active s1) \<longleftrightarrow> runs i (ct_active s) \<or> i \<in> set (ps_started p))
      \<and> (\<forall>i. i \<in> set (ps_started p) \<longrightarrow> passed_all env now s i)
      \<and> sc_holds s1 = sc_holds s \<and> dispatcher.more s1 = dispatcher.more s"
    for pre :: "download_row list" and p :: pass_state and s1 :: "'s dispatcher_scheme"
  obtain order where run: "dispatch_files (dispatch_one env now (max_running env) ?late ?gate ?dests)
      ?files (pass_begins order) s = (r, p, s')"
    using assms True by (simp add: dispatch_pass_def Let_def)
  obtain pre post where "?files = pre @ post" and fin: "I pre p s'"
  proof (rule dispatch_files_walk [where I = I, OF _ _ run])
    show "I [] (pass_begins order) s" by (simp add: I_def pass_begins_def)
    fix pre f post p1 s1 fl p2 s2
    assume files: "?files = pre @ f # post" and i: "I pre p1 s1"
      and one: "dispatch_one env now (max_running env) ?late ?gate ?dests f p1 s1 = (fl, p2, s2)"
    note iD = i [unfolded I_def]
    show "I (pre @ [f]) p2 s2"
      using one
    proof (cases rule: dispatch_one_cases)
      case stays
      then show ?thesis using iD by (auto simp: I_def quiet_step_def intro: same_blocks_trans)
    next
      case (starts slots)
      have nu: "\<not> untouchable (df_id f) (ct_active s1)" using starts(5) by (simp add: may_run_def)
      have "may_run env now ?late ?gate ?dests s f"
        by (rule may_run_earlier [OF starts(5)]) (use iD in \<open>auto simp: untouchable_def\<close>)
      then have pass: "passed_all env now s (df_id f)" using files by (auto simp: passed_all_def)
      have new: "df_id f \<notin> set (ps_started p1)" using nu iD by (auto simp: untouchable_def)
      show ?thesis
        unfolding I_def starts(2) starts(8) starts(9) starts(10) starts(12) starts(13) enter_active_runs
        using iD pass new same_blocks_trans [OF _ starts(11)] by auto
    qed
  qed blast
  then show ?thesis by (simp add: I_def)
qed

text \<open>Property C14. While something holds the queue nothing starts. Otherwise a pass starts each file at most
  once, exactly the started files join the running ones, and each of them passed every check: it was
  startable and its turn, its package is due and inside its download window, its kind is enabled and
  has a runner, neither its hoster nor its account holds it back, its destination has room and
  nobody held it.\<close>

theorem only_free_files_start:
  fixes s :: "'s dispatcher_scheme"
  assumes "schedule_runnable env now s = (r, started, s')"
  shows "(dispatch_held env s \<longrightarrow> started = []) \<and> distinct started
    \<and> (\<forall>i. runs i (ct_active s') \<longleftrightarrow> runs i (ct_active s) \<or> i \<in> set started)
    \<and> (\<forall>i \<in> set started. passed_all env now s i)"
proof (cases "dispatch_held env s")
  case True
  then show ?thesis using assms by (auto simp: schedule_runnable_def pass_begins_def runs_def)
next
  case False
  obtain r1 p s1 where d: "dispatch_pass env now s = (r1, p, s1)" by (metis prod_cases3)
  show ?thesis using pass_starts [OF d] assms False d by (auto simp: schedule_runnable_def runs_def)
qed

section \<open>Package by package\<close>

definition holds_a_place ::
    "dispatch_env \<Rightarrow> package_id list \<Rightarrow> (package_id \<times> download_hold) list \<Rightarrow> active_state \<Rightarrow> download_row \<Rightarrow> bool" where
  "holds_a_place env late gate a file \<longleftrightarrow>
     df_state file \<in> {Queued, RetryWait} \<and> df_package_id file \<notin> set late \<and> \<not> gate_holds file gate
     \<and> takes_a_counted_place env (df_kind file) \<and> df_kind file \<notin> set (de_disabled env) \<and> \<not> untouchable (df_id file) a"

text \<open>What the order knows once it has looked at some files: the package of the first that waits.\<close>

definition waits_behind :: "download_row list \<Rightarrow> package_order \<Rightarrow> bool" where
  "waits_behind waiting ord =
     (case waiting of
        [] \<Rightarrow> po_waiting ord = None \<and> po_last ord = None
      | g # _ \<Rightarrow> po_waiting ord = Some (df_package_id g)
          \<or> po_waiting ord = None \<and> po_last ord = Some (df_id g, df_package_id g))"

lemma look_at_waits:
  assumes "waits_behind waiting ord"
  shows "po_waiting (look_at file ord) = (case waiting of [] \<Rightarrow> None | g # _ \<Rightarrow> Some (df_package_id g))"
    and "po_last (look_at file ord) = (if df_id file \<in> set (po_holders ord) then Some (df_id file, df_package_id file) else None)"
    and "po_holders (look_at file ord) = po_holders ord"
  using assms by (auto simp: waits_behind_def look_at_def Let_def split: list.splits option.splits)

lemma waits_behind_stays:
  "waits_behind waiting ord \<Longrightarrow>
     waits_behind (waiting @ (if df_id file \<in> set (po_holders ord) then [file] else [])) (look_at file ord)"
  using look_at_waits [of waiting ord "file"] by (simp add: waits_behind_def split: list.splits)

lemma waits_behind_starts:
  "waits_behind waiting ord \<Longrightarrow> waits_behind waiting (order_started (df_id file) (look_at file ord))"
  using look_at_waits [of waiting ord "file"]
  by (auto simp: waits_behind_def order_started_def split: list.splits)

lemma order_started_holders [simp]: "po_holders (order_started i ord) = po_holders ord"
  by (simp add: order_started_def)

definition first_waits_with :: "(download_row \<Rightarrow> bool) \<Rightarrow> download_id list \<Rightarrow> download_row list \<Rightarrow> download_row \<Rightarrow> bool" where
  "first_waits_with holder started ahead f =
     (case filter (\<lambda>g. holder g \<and> df_id g \<notin> set started) ahead of
        [] \<Rightarrow> True
      | g # _ \<Rightarrow> df_package_id g = df_package_id f)"

lemma first_waits_with_later:
  "i \<notin> df_id ` set ahead \<Longrightarrow> first_waits_with holder (started @ [i]) ahead f = first_waits_with holder started ahead f"
proof -
  assume "i \<notin> df_id ` set ahead"
  then have "filter (\<lambda>g. holder g \<and> df_id g \<notin> set (started @ [i])) ahead = filter (\<lambda>g. holder g \<and> df_id g \<notin> set started) ahead"
    by (intro filter_cong) auto
  then show ?thesis unfolding first_waits_with_def by (rule arg_cong)
qed

text \<open>Property C16. Where packages are worked through one after another, a file that takes a place of its own starts
  only while the first file ahead of it that could take a place and did not belongs to its own package.\<close>

theorem packages_go_one_after_another:
  fixes s :: "'s dispatcher_scheme"
  assumes "de_sequential env" and "store_ok (sc_store s)" and "dispatch_pass env now s = (r, p, s')"
    and "startable_downloads (sc_store s) = ahead @ f # behind"
    and "df_id f \<in> set (ps_started p)" and "takes_a_counted_place env (df_kind f)"
  shows "first_waits_with
      (holds_a_place env (not_due (st_packages (sc_store s)) now) (download_gate env (st_packages (sc_store s)) now) (ct_active s))
      (ps_started p) ahead f"
proof -
  let ?packages = "st_packages (sc_store s)"
  let ?files = "startable_downloads (sc_store s)"
  let ?late = "not_due ?packages now" and ?gate = "download_gate env ?packages now" and ?dests = "destinations_of ?packages"
  let ?holder = "holds_a_place env ?late ?gate (ct_active s)"
  have dist: "distinct (map df_id ?files)"
    using distinct_in_queue_order [OF assms(2)] by (simp add: startable_downloads_def)
  define I where "I pre p s1 \<longleftrightarrow> set (ps_started p) \<subseteq> df_id ` set pre
      \<and> (\<exists>ord. ps_order p = Some ord \<and> po_holders ord = map df_id (filter ?holder ?files)
           \<and> waits_behind (filter (\<lambda>g. ?holder g \<and> df_id g \<notin> set (ps_started p)) pre) ord)
      \<and> (\<forall>ahead f behind. pre = ahead @ f # behind \<longrightarrow> df_id f \<in> set (ps_started p)
           \<longrightarrow> takes_a_counted_place env (df_kind f) \<longrightarrow> first_waits_with ?holder (ps_started p) ahead f)"
    for pre :: "download_row list" and p :: pass_state and s1 :: "'s dispatcher_scheme"
  obtain ord0 where run: "dispatch_files (dispatch_one env now (max_running env) ?late ?gate ?dests)
      ?files (pass_begins (Some ord0)) s = (r, p, s')" and ord0: "po_holders ord0 = map df_id (filter ?holder ?files)"
      "waits_behind [] ord0"
  proof -
    have off: "list_ex (\<lambda>file. turn_of file now = Offered) ?files"
      using assms(3,5) by (auto simp: dispatch_pass_def Let_def pass_begins_def split: if_splits)
    have h: "?holder = (\<lambda>file. df_state file \<in> {Queued, RetryWait} \<and> \<not> ((df_package_id file \<in> set ?late \<or> gate_holds file ?gate)
        \<or> \<not> takes_a_counted_place env (df_kind file) \<or> df_kind file \<in> set (de_disabled env) \<or> untouchable (df_id file) (ct_active s)))"
      by (auto simp: holds_a_place_def)
    show thesis
      by (rule that [OF _ _ _]) (use assms(1,3) off in
        \<open>auto simp: dispatch_pass_def Let_def package_order_of_def package_order_new_def waits_behind_def h\<close>)
  qed
  obtain pre post where pre: "?files = pre @ post" and fin: "I pre p s'"
  proof (rule dispatch_files_walk [where I = I, OF _ _ run])
    show "I [] (pass_begins (Some ord0)) s" using ord0 by (simp add: I_def pass_begins_def)
    fix pre g post p1 s1 fl p2 s2
    assume files: "?files = pre @ g # post" and i: "I pre p1 s1"
      and one: "dispatch_one env now (max_running env) ?late ?gate ?dests g p1 s1 = (fl, p2, s2)"
    obtain ord where sub: "set (ps_started p1) \<subseteq> df_id ` set pre" and ord: "ps_order p1 = Some ord"
      and holders: "po_holders ord = map df_id (filter ?holder ?files)"
      and w: "waits_behind (filter (\<lambda>g. ?holder g \<and> df_id g \<notin> set (ps_started p1)) pre) ord"
      and all: "\<And>ahead f behind. pre = ahead @ f # behind \<Longrightarrow> df_id f \<in> set (ps_started p1)
           \<Longrightarrow> takes_a_counted_place env (df_kind f) \<Longrightarrow> first_waits_with ?holder (ps_started p1) ahead f"
      using i unfolding I_def by blast
    have gnew: "df_id g \<notin> df_id ` set pre" using dist by (auto simp: files)
    have gne: "df_id x \<noteq> df_id g" if "x \<in> set pre" for x using gnew that by (metis imageI)
    have gns: "df_id g \<notin> set (ps_started p1)" using sub gnew by blast
    have gh: "df_id g \<in> set (po_holders ord) \<longleftrightarrow> ?holder g"
      unfolding holders using dist by (auto simp: files inj_on_def distinct_map)
    have cases_pre: "ahead = pre \<and> h = g \<or> (\<exists>b. pre = ahead @ h # b)" if "pre @ [g] = ahead @ h # behind" for ahead h behind
      using that by (cases behind rule: rev_cases) auto
    show "I (pre @ [g]) p2 s2"
      using one
    proof (cases rule: dispatch_one_cases)
      case stays
      have "waits_behind (filter (\<lambda>g. ?holder g \<and> df_id g \<notin> set (ps_started p1)) (pre @ [g])) (look_at g ord)"
        using waits_behind_stays [OF w, of g] gns by (simp add: gh split: if_splits)
      moreover have "po_holders (look_at g ord) = po_holders ord" by (rule look_at_waits(3) [OF w])
      moreover have "first_waits_with ?holder (ps_started p1) ahead h"
        if "pre @ [g] = ahead @ h # behind" "df_id h \<in> set (ps_started p1)" "takes_a_counted_place env (df_kind h)"
        for ahead h behind
        using cases_pre [OF that(1)] all [OF _ that(2,3)] that(2) gns by blast
      ultimately show ?thesis
        unfolding I_def stays(1) stays(2) ord using sub holders by auto
    next
      case (starts slots)
      have same: "filter (\<lambda>h. ?holder h \<and> df_id h \<notin> set (ps_started p1 @ [df_id g])) (pre @ [g])
          = filter (\<lambda>h. ?holder h \<and> df_id h \<notin> set (ps_started p1)) pre"
        using gne by (auto intro!: filter_cong)
      have "waits_behind (filter (\<lambda>h. ?holder h \<and> df_id h \<notin> set (ps_started p1 @ [df_id g])) (pre @ [g]))
          (order_started (df_id g) (look_at g ord))"
        unfolding same by (rule waits_behind_starts [OF w])
      moreover have "po_holders (order_started (df_id g) (look_at g ord)) = po_holders ord"
        by (simp add: look_at_waits(3) [OF w])
      moreover have "first_waits_with ?holder (ps_started p1 @ [df_id g]) ahead h"
        if "pre @ [g] = ahead @ h # behind" "df_id h \<in> set (ps_started p1 @ [df_id g])" "takes_a_counted_place env (df_kind h)"
        for ahead h behind
      proof -
        from cases_pre [OF that(1)] show ?thesis
        proof
          assume e: "ahead = pre \<and> h = g"
          have "order_admits g (look_at g ord)" using starts(6) that(3) e by (simp add: ord)
          then have "first_waits_with ?holder (ps_started p1) pre g"
            using look_at_waits(1) [OF w, of g] by (auto simp: order_admits_def first_waits_with_def split: list.splits)
          then show ?thesis using first_waits_with_later [OF gnew] e by simp
        next
          assume "\<exists>b. pre = ahead @ h # b"
          then obtain b where b: "pre = ahead @ h # b" by blast
          then have "df_id g \<notin> df_id ` set ahead" "df_id h \<in> set (ps_started p1)" using gnew that(2) by auto
          then show ?thesis using all [OF b _ that(3)] by (simp add: first_waits_with_later)
        qed
      qed
      ultimately show ?thesis
        unfolding I_def starts(2) starts(4) ord using sub holders by auto
    qed
  qed blast
  have "df_id f \<in> df_id ` set pre" using fin assms(5) by (auto simp: I_def)
  then have "\<not> (\<exists>ys. ahead = pre @ ys)"
    using dist unfolding pre using assms(4) pre by (auto simp: image_iff)
  then obtain b where "pre = ahead @ f # b"
    using assms(4) pre by (auto simp: append_eq_append_conv2 append_eq_Cons_conv Cons_eq_append_conv)
  then show ?thesis using fin assms(5,6) by (simp add: I_def)
qed

section \<open>One mirror of a group\<close>

text \<open>What one file of the pass does to the rows and to the groups the pass remembers.\<close>

lemma dispatch_one_groups:
  fixes s :: "'s dispatcher_scheme"
  assumes "dispatch_one env now limit late gate dests file p s = (fl, p', s')"
  obtains (quiet) "ps_groups p' = ps_groups p" "sc_store s' = sc_store s" "ps_started p' = ps_started p"
  | (checked) s1 r and s2 :: "'s dispatcher_scheme" where "sc_store s1 = sc_store s" "group_checks env file now (ps_groups p) s1 = (r, ps_groups p', s2)"
      "sc_store s' = sc_store s2
        \<or> df_kind file \<in> set (de_disabled env) \<and> sc_store s' = sc_store (block_queued_of_kind env (df_kind file) now s2)"
      "ps_started p' = ps_started p
        \<or> ps_started p' = ps_started p @ [df_id file] \<and> r = Inr False \<and> sc_store s' = sc_store s2"
proof -
  define p1 where "p1 = p\<lparr>ps_order := map_option (look_at file) (ps_order p)\<rparr>"
  have p1: "ps_groups p1 = ps_groups p" "ps_started p1 = ps_started p" by (simp_all add: p1_def)
  have one: "(if df_package_id file \<in> set late \<or> gate_holds file gate then (Next, p1, s)
      else case turn_of file now of
             KeepsPlace \<Rightarrow>
               (Next, if takes_a_counted_place env (df_kind file) then p1\<lparr>ps_kept := ps_kept p1 + 1\<rparr> else p1, s)
           | Waits \<Rightarrow> (Next, p1, s)
           | Offered \<Rightarrow> offer_file env now limit dests file p1 s) = (fl, p', s')"
    using assms unfolding dispatch_one_def Let_def p1_def .
  consider "ps_groups p' = ps_groups p" "sc_store s' = sc_store s" "ps_started p' = ps_started p"
    | "offer_file env now limit dests file p1 s = (fl, p', s')"
    using one p1 by (cases "turn_of file now") (auto split: if_splits)
  then show thesis
  proof cases
    case 1
    then show thesis by (rule quiet)
  next
    case 2
    define late_package where
      "late_package = ((case ps_order p1 of Some ord \<Rightarrow> \<not> order_admits file ord | None \<Rightarrow> False)
         \<and> takes_a_counted_place env (df_kind file))"
    obtain r groups kinds s1 where m: "may_start env file now dests (ps_groups p1) (ps_blocked_kinds p1) s = (r, groups, kinds, s1)"
      by (metis prod_cases4)
    define p2 where "p2 = p1\<lparr>ps_groups := groups, ps_blocked_kinds := kinds\<rparr>"
    have p2: "ps_groups p2 = groups" "ps_started p2 = ps_started p" by (simp_all add: p2_def p1)
    show thesis
    proof (cases late_package)
      case True
      then have e: "p' = p1" "s' = s" using 2 by (simp_all add: offer_file_def late_package_def)
      show thesis by (rule quiet) (simp_all add: e p1)
    next
      case False
      have cont: "(case r of
                    Inl e \<Rightarrow> (Ends (Inl e), p2, s1)
                  | Inr False \<Rightarrow> (Next, p2, s1)
                  | Inr True \<Rightarrow> start_file env now limit file p2 s1) = (fl, p', s')"
        using 2 False m unfolding p2_def by (simp add: offer_file_def late_package_def [symmetric] Let_def)
      show thesis
      proof (cases "r = Inr True")
        case True
        obtain s0 where s0: "sc_store s0 = sc_store s" "group_checks env file now (ps_groups p) s0 = (Inr False, groups, s1)"
          using may_start_yes [OF m [unfolded True]] by (auto simp: p1)
        have st: "start_file env now limit file p2 s1 = (fl, p', s')" using cont True by simp
        show thesis using st
        proof (cases rule: start_file_cases)
          case stays
          then show thesis using checked [of s0 "Inr False" s1] s0 by (simp add: p2 same_but_slots_def)
        next
          case (starts slots)
          then show thesis using checked [of s0 "Inr False" s1] s0 by (simp add: p2 same_but_slots_def)
        qed
      next
        case no: False
        then have e: "p' = p2" "s' = s1" using cont by (auto split: sum.splits bool.splits)
        show thesis using m
        proof (cases rule: may_start_cases)
          case waits
          then show thesis using quiet by (simp add: e p2 p1)
        next
          case (grouped a r1 b)
          then show thesis using checked [of a r1 b] hoster_blocks_facts(3) [OF grouped(1)] by (simp add: e p2 p1)
        next
          case (checked a b)
          then show thesis using that(2) [of a "Inr False" b] hoster_blocks_facts(3) [OF checked(1)]
            by (auto simp: e p2 p1 split: if_splits)
        qed
      qed
    qed
  qed
qed

text \<open>A row that lives: it is in the queue, and in what the pass remembers of its package.\<close>

definition lives :: "download_row \<Rightarrow> group_cache \<Rightarrow> store \<Rightarrow> bool" where
  "lives h groups st \<longleftrightarrow> h \<in> set (st_downloads st)
     \<and> (\<forall>members. map_of groups (df_package_id h) = Some members \<longrightarrow> h \<in> set members)"

lemma write_store_ok:
  assumes "store_ok (sc_store s)"
    and "write_store (transition_download_with_reason redact i next_state reason now) s = (r, s')"
  shows "store_ok (sc_store s')"
proof (cases "transition_download_with_reason redact i next_state reason now (sc_store s)")
  case (Inr a)
  obtain row st' where a: "a = (row, st')" by fastforce
  obtain w where "writes_one i w (sc_store s) st'" by (rule transition_Inr [OF assms(1) Inr [unfolded a]])
  then show ?thesis using Inr assms(2) writes_oneD(1) by (auto simp: write_store_def a)
qed (use assms in \<open>simp add: write_store_def\<close>)

lemma block_queued_ok:
  assumes "store_ok (sc_store s)"
  shows "store_ok (sc_store (block_queued_of_kind env kind now s))"
proof -
  have "store_ok (sc_store (fold (block_one env now) xs s1))" if "store_ok (sc_store s1)" for xs and s1 :: "'a dispatcher_scheme"
    using that
  proof (induction xs arbitrary: s1)
    case (Cons x xs)
    obtain r s2 where w: "write_store (block_download (ev_redact env) (df_id x) (block_reason_as_str KindDisabled) now) s1 = (r, s2)"
      by fastforce
    show ?case
      using Cons.IH [OF write_store_ok [OF Cons.prems w [unfolded block_download_def [abs_def]]]] w
      by (simp add: block_one_def)
  qed simp
  with assms show ?thesis by (simp add: block_queued_of_kind_def)
qed

lemma group_checks_ok:
  assumes "group_checks env file now groups s = (r, groups', s')" and "store_ok (sc_store s)"
  shows "store_ok (sc_store s')"
  using assms
  by (auto simp: group_checks_def mirror_stands_down_def Let_def transition_download_def [abs_def]
      split: if_splits prod.splits sum.splits dest: write_store_ok)

lemma dispatch_one_ok:
  assumes "dispatch_one env now limit late gate dests file p s = (fl, p', s')" and "store_ok (sc_store s)"
  shows "store_ok (sc_store s')"
  using assms(1)
proof (cases rule: dispatch_one_groups)
  case (checked s1 r s2)
  then have "store_ok (sc_store s2)" using group_checks_ok [OF checked(2)] assms(2) by simp
  with checked(3) show ?thesis by (auto simp: block_queued_ok)
qed (use assms(2) in simp)

lemma move_leaves:
  assumes "store_ok st" and "h \<in> set (st_downloads st)" and "df_id h \<noteq> i" and "awaiting h = None"
  shows "case transition_download_with_reason redact i next_state reason now st of
           Inl _ \<Rightarrow> True
         | Inr (_, st') \<Rightarrow> store_ok st' \<and> h \<in> set (st_downloads st')"
proof (cases "transition_download_with_reason redact i next_state reason now st")
  case (Inr a)
  obtain row st' where a: "a = (row, st')" by fastforce
  obtain r where w: "writes_one i (moved_row next_state reason now) st st'"
    using transition_Inr [OF assms(1) Inr [unfolded a]] by blast
  obtain h' where h': "get_download (df_id h) st' = Some h'" "settles h h'"
    using writes_oneD(4) [OF w get_download_in [OF assms(1,2)]] assms(3) by auto
  have "h' = h" using h'(2) assms(4) by (simp add: settles_def)
  then show ?thesis using Inr a writes_oneD(1) [OF w] get_download_Some [OF h'(1)] by simp
qed simp

lemma write_store_leaves:
  assumes "store_ok (sc_store s)" and "h \<in> set (st_downloads (sc_store s))" and "df_id h \<noteq> i" and "awaiting h = None"
    and "write_store (transition_download_with_reason redact i next_state reason now) s = (r, s')"
  shows "store_ok (sc_store s') \<and> h \<in> set (st_downloads (sc_store s'))"
  using move_leaves [OF assms(1-4), of redact next_state reason now] assms(1,2,5)
  by (auto simp: write_store_def split: sum.splits prod.splits)

lemma block_queued_leaves:
  assumes "store_ok (sc_store s)" and "h \<in> set (st_downloads (sc_store s))" and "awaiting h = None"
    and "df_kind h \<noteq> kind \<or> df_state h \<noteq> Queued"
  shows "store_ok (sc_store (block_queued_of_kind env kind now s)) \<and> h \<in> set (st_downloads (sc_store (block_queued_of_kind env kind now s)))"
proof -
  have fold: "store_ok (sc_store (fold (block_one env now) xs s1)) \<and> h \<in> set (st_downloads (sc_store (fold (block_one env now) xs s1)))"
    if "df_id h \<notin> df_id ` set xs" "store_ok (sc_store s1)" "h \<in> set (st_downloads (sc_store s1))" for xs and s1 :: "'a dispatcher_scheme"
    using that
  proof (induction xs arbitrary: s1)
    case (Cons x xs)
    obtain r s2 where w: "write_store (block_download (ev_redact env) (df_id x) (block_reason_as_str KindDisabled) now) s1 = (r, s2)"
      by fastforce
    have "store_ok (sc_store s2) \<and> h \<in> set (st_downloads (sc_store s2))"
      by (rule write_store_leaves [OF Cons.prems(2,3) _ assms(3) w [unfolded block_download_def [abs_def]]]) (use Cons.prems(1) in simp)
    then show ?case using Cons.IH [of s2] Cons.prems(1) w by (simp add: block_one_def)
  qed simp
  have "df_id h \<notin> df_id ` set (filter (\<lambda>file. df_kind file = kind \<and> df_state file = Queued) (startable_downloads (sc_store s)))"
    using assms(4) get_download_in [OF assms(1)] assms(2)
    by (auto simp: startable_downloads_def) (metis option.inject)+
  from fold [OF this assms(1,2)] show ?thesis by (simp add: block_queued_of_kind_def)
qed

text \<open>Remembering the members of a package adds what the store has; standing down forgets them.\<close>

lemma mirror_stands_down_lives:
  assumes "mirror_stands_down env file now groups s = (r, groups', s')" and "store_ok (sc_store s)"
    and "lives h groups (sc_store s)" and "df_id h \<noteq> df_id file \<or> r = Inr False" and "awaiting h = None"
  shows "store_ok (sc_store s') \<and> lives h groups' (sc_store s')"
proof -
  define all where "all = (case map_of groups (df_package_id file) of
                      Some _ \<Rightarrow> groups
                    | None \<Rightarrow> AList.update (df_package_id file)
                                (downloads_for_package (df_package_id file) (sc_store s)) groups)"
  have in_all: "lives h all (sc_store s)"
    using assms(3) by (auto simp: lives_def all_def update_conv' split: option.split)
  obtain goes where e: "(if goes then
           (case write_store (transition_download (ev_redact env) (df_id file) Skipped now) s of
              (Inl e, s) \<Rightarrow> (Inl (PassStore e), all, s)
            | (Inr _, s) \<Rightarrow> (Inr True, AList.delete (df_package_id file) all, s))
         else (Inr False, all, s)) = (r, groups', s')"
    using assms(1) unfolding mirror_stands_down_def Let_def all_def [symmetric] by blast
  show ?thesis
  proof (cases goes)
    case False
    then show ?thesis using e in_all assms(2) by auto
  next
    case True
    obtain w s2 where w: "write_store (transition_download (ev_redact env) (df_id file) Skipped now) s = (w, s2)" by fastforce
    have ne: "df_id h \<noteq> df_id file" using assms(4) e True w by (auto split: sum.splits)
    have "store_ok (sc_store s2) \<and> h \<in> set (st_downloads (sc_store s2))"
      by (rule write_store_leaves [OF assms(2) _ ne assms(5) w [unfolded transition_download_def [abs_def]]])
        (use assms(3) in \<open>simp add: lives_def\<close>)
    then show ?thesis using e True w in_all by (auto simp: lives_def delete_conv' split: sum.splits if_splits)
  qed
qed

definition mirrors_of :: "download_row \<Rightarrow> download_row \<Rightarrow> bool" where
  "mirrors_of f h \<longleftrightarrow> df_mirror_group f \<noteq> None \<and> df_mirror_group h = df_mirror_group f
     \<and> df_package_id h = df_package_id f \<and> df_id h \<noteq> df_id f"

lemma in_siblings: "h \<in> set (siblings f xs) \<longleftrightarrow> h \<in> set xs \<and> mirrors_of f h"
  by (cases "df_mirror_group f") (auto simp: siblings_def mirrors_of_def)

text \<open>Who goes on is strictly ahead of every contending sibling, and no sibling has taken the turn.\<close>

lemma mirror_goes_on:
  assumes "group_checks env file now groups s = (Inr False, groups', s')" and "lives h groups (sc_store s)"
    and mate: "mirrors_of file h"
  shows "\<not> has_taken_the_turn (df_state h)" and "is_contending (df_state h) \<Longrightarrow> candidate_key file < candidate_key h"
proof -
  define all where "all = (case map_of groups (df_package_id file) of
                      Some _ \<Rightarrow> groups
                    | None \<Rightarrow> AList.update (df_package_id file)
                                (downloads_for_package (df_package_id file) (sc_store s)) groups)"
  define sibs where "sibs = siblings file (case map_of all (df_package_id file) of Some members \<Rightarrow> members | None \<Rightarrow> [])"
  have pkg: "df_package_id h = df_package_id file" and hid: "df_id h \<noteq> df_id file"
    using mate by (simp_all add: mirrors_of_def)
  have "h \<in> set (case map_of all (df_package_id file) of Some members \<Rightarrow> members | None \<Rightarrow> [])"
    using assms(2) pkg by (auto simp: lives_def all_def update_conv' split: option.splits)
  then have h: "h \<in> set sibs" using mate by (simp add: sibs_def in_siblings)
  have m: "mirror_stands_down env file now groups s = (Inr False, groups', s')"
    using assms(1) mate by (auto simp: group_checks_def mirrors_of_def split: if_splits)
  let ?contenders = "filter (\<lambda>sibling. is_contending (df_state sibling)) sibs @ [file]"
  have goes: "\<not> list_ex (\<lambda>sibling. has_taken_the_turn (df_state sibling)) sibs"
    "\<not> (case best_candidate ?contenders of Some winner \<Rightarrow> df_id winner \<noteq> df_id file | None \<Rightarrow> False)"
    using m unfolding mirror_stands_down_def Let_def all_def [symmetric] sibs_def [symmetric]
    by (auto split: if_splits sum.splits prod.splits)
  show "\<not> has_taken_the_turn (df_state h)" using goes(1) h by (auto simp: list_ex_iff)
  show "candidate_key file < candidate_key h" if c: "is_contending (df_state h)"
  proof -
    obtain w where w: "best_candidate ?contenders = Some w" by (cases "best_candidate ?contenders") (auto simp: best_candidate_def)
    have "df_id w = df_id file" using goes(2) w by simp
    obtain before after where b: "?contenders = before @ w # after" "\<forall>x \<in> set before. candidate_key w < candidate_key x"
      using min_by_key_first [OF w [unfolded best_candidate_def]] by blast
    have other: "df_id x \<noteq> df_id file" if "x \<in> set sibs" for x
      using that by (simp add: sibs_def in_siblings mirrors_of_def)
    have "after = []"
    proof (cases after rule: rev_cases)
      case (snoc ys y)
      then have "w \<in> set (filter (\<lambda>sibling. is_contending (df_state sibling)) sibs)" using b(1) by simp
      then show ?thesis using other \<open>df_id w = df_id file\<close> by auto
    qed
    then have "w = file" "before = filter (\<lambda>sibling. is_contending (df_state sibling)) sibs" using b(1) by auto
    then show ?thesis using b(2) h c by auto
  qed
qed

text \<open>The rows a pass leaves alone until it comes to them: nothing writes them but their own turn.\<close>

definition left_alone :: "dispatch_env \<Rightarrow> download_row \<Rightarrow> bool" where
  "left_alone env h \<longleftrightarrow> awaiting h = None \<and> (df_kind h \<notin> set (de_disabled env) \<or> df_state h \<noteq> Queued)"

lemma dispatch_one_lives:
  assumes "dispatch_one env now limit late gate dests file p s = (fl, p', s')" and "store_ok (sc_store s)"
    and "lives h (ps_groups p) (sc_store s)" and "left_alone env h"
    and "df_id h = df_id file \<Longrightarrow> ps_started p' = ps_started p @ [df_id file]"
  shows "store_ok (sc_store s') \<and> lives h (ps_groups p') (sc_store s')"
  using assms(1)
proof (cases rule: dispatch_one_groups)
  case quiet
  then show ?thesis using assms(2,3) by simp
next
  case (checked s1 r s2)
  have ok1: "store_ok (sc_store s1)" "lives h (ps_groups p) (sc_store s1)" using assms(2,3) checked(1) by simp_all
  have who: "df_id h \<noteq> df_id file \<or> r = Inr False" using assms(5) checked(4) by auto
  have aw: "awaiting h = None" using assms(4) by (simp add: left_alone_def)
  have l2: "store_ok (sc_store s2) \<and> lives h (ps_groups p') (sc_store s2)"
    using checked(2) ok1 mirror_stands_down_lives [OF _ ok1 who aw] by (auto simp: group_checks_def split: if_splits)
  show ?thesis
    using checked(3)
  proof
    assume "sc_store s' = sc_store s2"
    then show ?thesis using l2 by simp
  next
    assume k: "df_kind file \<in> set (de_disabled env) \<and> sc_store s' = sc_store (block_queued_of_kind env (df_kind file) now s2)"
    have "df_kind h \<noteq> df_kind file \<or> df_state h \<noteq> Queued" using assms(4) k by (auto simp: left_alone_def)
    from block_queued_leaves [OF _ _ aw this, of s2 env now] show ?thesis using l2 k by (simp add: lives_def)
  qed
qed

lemma startable_state:
  "f \<in> set (startable_downloads st) \<Longrightarrow> f \<in> set (st_downloads st) \<and> (df_state f = Queued \<or> df_state f = RetryWait)"
  by (auto simp: startable_downloads_def)

lemma mirrors_back: "mirrors_of x y \<Longrightarrow> mirrors_of y x"
  by (auto simp: mirrors_of_def)

lemma dispatch_one_started:
  fixes s :: "'s dispatcher_scheme"
  assumes "dispatch_one env now limit late gate dests file p s = (fl, p', s')"
  obtains (not_started) "ps_started p' = ps_started p"
  | (started) s1 and s2 :: "'s dispatcher_scheme" where "ps_started p' = ps_started p @ [df_id file]" "may_run env now late gate dests s file"
      "sc_store s1 = sc_store s" "group_checks env file now (ps_groups p) s1 = (Inr False, ps_groups p', s2)"
  using assms
proof (cases rule: dispatch_one_cases)
  case (starts slots)
  show thesis using assms
  proof (cases rule: dispatch_one_groups)
    case (checked s1 r s2)
    then show thesis using started [of s1 s2] starts(2,5) by auto
  qed (use starts(2) in auto)
qed (use not_started in blast)

lemma row_unique:
  assumes "store_ok st" and "x \<in> set (st_downloads st)" and "y \<in> set (st_downloads st)" and "df_id x = df_id y"
  shows "x = y"
  using assms by (simp add: store_ok_def distinct_map inj_on_def)

text \<open>Property C13. A pass never starts two mirrors of one file, and none while a mirror of it has taken the turn:
  of a started file's siblings none is started in the same pass, and none was being fetched or done when
  the pass began. A sibling is one without a held-back verdict, as every mirror is: such verdicts are of
  Usenet files, which do not group.\<close>

theorem one_mirror_starts:
  fixes s :: "'s dispatcher_scheme"
  assumes ok: "store_ok (sc_store s)" and pass: "dispatch_pass env now s = (r, p, s')"
    and f: "f \<in> set (st_downloads (sc_store s))" "df_id f \<in> set (ps_started p)"
    and h: "h \<in> set (st_downloads (sc_store s))" "mirrors_of f h" "awaiting h = None"
  shows "df_id h \<notin> set (ps_started p) \<and> \<not> has_taken_the_turn (df_state h)"
proof -
  let ?packages = "st_packages (sc_store s)"
  let ?files = "startable_downloads (sc_store s)"
  let ?late = "not_due ?packages now" and ?gate = "download_gate env ?packages now" and ?dests = "destinations_of ?packages"
  let ?rows = "st_downloads (sc_store s)"
  have dist: "distinct (map df_id ?files)"
    using distinct_in_queue_order [OF ok] by (simp add: startable_downloads_def)
  have same_row: "x = y" if "x \<in> set ?rows" "y \<in> set ?rows" "df_id x = df_id y" for x y
    by (rule row_unique [OF ok that])
  define waits where "waits started pre x \<longleftrightarrow> left_alone env x \<and> (df_id x \<notin> df_id ` set pre \<or> df_id x \<in> set started)"
    for started :: "download_id list" and pre :: "download_row list" and x
  define I where "I pre p s1 \<longleftrightarrow> store_ok (sc_store s1) \<and> set (ps_started p) \<subseteq> df_id ` set pre
      \<and> (\<forall>x \<in> set ?rows. df_id x \<in> set (ps_started p) \<longrightarrow> df_kind x \<notin> set (de_disabled env))
      \<and> (\<forall>x \<in> set ?rows. waits (ps_started p) pre x \<longrightarrow> lives x (ps_groups p) (sc_store s1))
      \<and> (\<forall>x \<in> set ?rows. \<forall>y \<in> set ?rows. mirrors_of x y \<longrightarrow> df_id x \<in> set (ps_started p) \<longrightarrow>
           (awaiting y = None \<longrightarrow> \<not> has_taken_the_turn (df_state y))
           \<and> (df_id y \<notin> df_id ` set pre \<longrightarrow> df_kind y \<notin> set (de_disabled env) \<longrightarrow> is_contending (df_state y)
                \<longrightarrow> candidate_key x < candidate_key y)
           \<and> df_id y \<notin> set (ps_started p))"
    for pre :: "download_row list" and p :: pass_state and s1 :: "'s dispatcher_scheme"
  obtain order where run: "dispatch_files (dispatch_one env now (max_running env) ?late ?gate ?dests)
      ?files (pass_begins order) s = (r, p, s')"
    using pass f(2) by (auto simp: dispatch_pass_def Let_def pass_begins_def split: if_splits)
  obtain pre post where "?files = pre @ post" and fin: "I pre p s'"
  proof (rule dispatch_files_walk [where I = I, OF _ _ run])
    show "I [] (pass_begins order) s" using ok by (simp add: I_def pass_begins_def lives_def)
    fix pre g post p1 s1 fl p2 s2
    assume files: "?files = pre @ g # post" and i: "I pre p1 s1"
      and one: "dispatch_one env now (max_running env) ?late ?gate ?dests g p1 s1 = (fl, p2, s2)"
    have ok1: "store_ok (sc_store s1)" and sub: "set (ps_started p1) \<subseteq> df_id ` set pre"
      and kinds: "\<And>x. x \<in> set ?rows \<Longrightarrow> df_id x \<in> set (ps_started p1) \<Longrightarrow> df_kind x \<notin> set (de_disabled env)"
      and live: "\<And>x. x \<in> set ?rows \<Longrightarrow> waits (ps_started p1) pre x \<Longrightarrow> lives x (ps_groups p1) (sc_store s1)"
      and pairs: "\<And>x y. x \<in> set ?rows \<Longrightarrow> y \<in> set ?rows \<Longrightarrow> mirrors_of x y \<Longrightarrow> df_id x \<in> set (ps_started p1) \<Longrightarrow>
           (awaiting y = None \<longrightarrow> \<not> has_taken_the_turn (df_state y))
           \<and> (df_id y \<notin> df_id ` set pre \<longrightarrow> df_kind y \<notin> set (de_disabled env) \<longrightarrow> is_contending (df_state y)
                \<longrightarrow> candidate_key x < candidate_key y)
           \<and> df_id y \<notin> set (ps_started p1)"
      using i unfolding I_def by blast+
    have g: "g \<in> set ?rows" "df_state g = Queued \<or> df_state g = RetryWait"
      using startable_state [of g "sc_store s"] files by simp_all
    have gnew: "df_id g \<notin> df_id ` set pre" using dist by (auto simp: files)
    have gne: "df_id x \<noteq> df_id g" if "x \<in> set pre" for x using gnew that by (metis imageI)
    have gns: "df_id g \<notin> set (ps_started p1)" using sub gnew by blast
    have pre_state: "df_state x = Queued \<or> df_state x = RetryWait" if x: "x \<in> set ?rows" "df_id x \<in> df_id ` set pre" for x
    proof -
      obtain y where y: "y \<in> set pre" "df_id y = df_id x" using x(2) by auto
      then have "y \<in> set ?rows \<and> (df_state y = Queued \<or> df_state y = RetryWait)"
        using startable_state [of y "sc_store s"] files by simp
      then show ?thesis using same_row [of y x] x(1) y(2) by auto
    qed
    have awake: "awaiting x = None" if "df_state x = Queued \<or> df_state x = RetryWait" for x :: download_row
      using that awaiting_verifying [of x] by (cases "awaiting x") auto
    have ok2: "store_ok (sc_store s2)" by (rule dispatch_one_ok [OF one ok1])
    have store: "lives x (ps_groups p2) (sc_store s2)" if x: "x \<in> set ?rows" "waits (ps_started p2) (pre @ [g]) x" for x
    proof (rule conjunct2 [OF dispatch_one_lives [OF one ok1]])
      have st: "ps_started p2 = ps_started p1 \<or> ps_started p2 = ps_started p1 @ [df_id g]"
        using one by (cases rule: dispatch_one_started) auto
      show "lives x (ps_groups p1) (sc_store s1)" using x st by (intro live) (auto simp: waits_def dest: gne)
      show "left_alone env x" using x(2) by (simp add: waits_def)
      show "ps_started p2 = ps_started p1 @ [df_id g]" if "df_id x = df_id g"
        using x(2) st \<open>df_id x = df_id g\<close> gns by (auto simp: waits_def)
    qed
    show "I (pre @ [g]) p2 s2"
      using one
    proof (cases rule: dispatch_one_started)
      case not_started
      have "waits (ps_started p1) (pre @ [g]) x \<Longrightarrow> x \<in> set ?rows \<Longrightarrow> lives x (ps_groups p2) (sc_store s2)" for x
        using store [of x] by (simp add: not_started)
      then show ?thesis unfolding I_def not_started using ok2 sub kinds pairs by auto
    next
      case (started a b)
      have gk: "df_kind g \<notin> set (de_disabled env)" using started(2) by (simp add: may_run_def)
      have gc: "is_contending (df_state g)" using g(2) by (auto simp: is_contending_def)
      have ahead: "\<not> has_taken_the_turn (df_state y) \<and> (is_contending (df_state y) \<longrightarrow> candidate_key g < candidate_key y)"
        if "y \<in> set ?rows" "mirrors_of g y" "waits (ps_started p1) pre y" for y
        using mirror_goes_on [OF started(4) _ that(2)] live [OF that(1,3)] started(3) by simp
      have alone: "df_id y \<notin> set (ps_started p1)" if y: "y \<in> set ?rows" "mirrors_of g y" for y
      proof
        assume ys: "df_id y \<in> set (ps_started p1)"
        have st: "df_state y = Queued \<or> df_state y = RetryWait" using pre_state [OF y(1)] sub ys by blast
        have "waits (ps_started p1) pre y" using ys kinds [OF y(1) ys] awake [OF st] by (simp add: waits_def left_alone_def)
        moreover have "is_contending (df_state y)" using st by (auto simp: is_contending_def)
        ultimately have "candidate_key g < candidate_key y" using ahead [OF y] by simp
        moreover have "candidate_key y < candidate_key g"
          using pairs [OF y(1) g(1) mirrors_back [OF y(2)] ys] gnew gk gc by simp
        ultimately show False by (simp add: order.asym)
      qed
      have taken: "\<not> has_taken_the_turn (df_state y)" if y: "y \<in> set ?rows" "mirrors_of g y" "awaiting y = None" for y
      proof
        assume t: "has_taken_the_turn (df_state y)"
        then have ns: "df_state y \<noteq> Queued" "df_state y \<noteq> RetryWait" by (auto simp: mirror_state_defs)
        then have "df_id y \<notin> df_id ` set pre" using pre_state [OF y(1)] by blast
        then have "waits (ps_started p1) pre y" using y(3) ns by (simp add: waits_def left_alone_def)
        with ahead [OF y(1,2)] t show False by simp
      qed
      have fresh: "candidate_key g < candidate_key y"
        if y: "y \<in> set ?rows" "mirrors_of g y" "df_id y \<notin> df_id ` set pre" "df_kind y \<notin> set (de_disabled env)"
          "is_contending (df_state y)" for y
      proof -
        have "awaiting y = None" using y(5) awaiting_verifying [of y] by (cases "awaiting y") (auto simp: is_contending_def)
        then have "waits (ps_started p1) pre y" using y(3,4) by (simp add: waits_def left_alone_def)
        with ahead [OF y(1,2)] y(5) show ?thesis by simp
      qed
      have kinds': "df_kind x \<notin> set (de_disabled env)" if "x \<in> set ?rows" "df_id x \<in> set (ps_started p2)" for x
        using kinds [OF that(1)] that same_row [OF that(1) g(1)] gk by (auto simp: started(1))
      have pairs': "(awaiting y = None \<longrightarrow> \<not> has_taken_the_turn (df_state y))
           \<and> (df_id y \<notin> df_id ` set (pre @ [g]) \<longrightarrow> df_kind y \<notin> set (de_disabled env) \<longrightarrow> is_contending (df_state y)
                \<longrightarrow> candidate_key x < candidate_key y)
           \<and> df_id y \<notin> set (ps_started p2)"
        if xy: "x \<in> set ?rows" "y \<in> set ?rows" "mirrors_of x y" "df_id x \<in> set (ps_started p2)" for x y
      proof (cases "df_id x = df_id g")
        case True
        then have x: "x = g" by (rule same_row [OF xy(1) g(1)])
        have m: "mirrors_of g y" using xy(3) by (simp add: x)
        show ?thesis
          using taken [OF xy(2) m] fresh [OF xy(2) m] alone [OF xy(2) m] m by (auto simp: started(1) x mirrors_of_def)
      next
        case False
        then have xs: "df_id x \<in> set (ps_started p1)" using xy(4) by (simp add: started(1))
        have "df_id y \<noteq> df_id g"
          using alone [of x] xs xy(1,3) mirrors_back [OF xy(3)] same_row [OF xy(2) g(1)] by auto
        then show ?thesis using pairs [OF xy(1-3) xs] by (auto simp: started(1))
      qed
      have "set (ps_started p2) \<subseteq> df_id ` set (pre @ [g])" using sub by (auto simp: started(1))
      then show ?thesis unfolding I_def using ok2 store kinds' pairs' by blast
    qed
  qed blast
  have "(awaiting h = None \<longrightarrow> \<not> has_taken_the_turn (df_state h)) \<and> df_id h \<notin> set (ps_started p)"
    using fin f h(1,2) unfolding I_def by blast
  then show ?thesis using h(3) by simp
qed

section \<open>A small dispatcher\<close>

definition a_dispatch_env :: "nat \<Rightarrow> dispatch_env" where
  "a_dispatch_env n = \<lparr>ev_redact = id, ev_latest = of_days 400,
     ev_schedule = \<lparr>rt_max_retries = 8, rt_middle_attempts = 3, rt_long_wait_minutes = 30\<rparr>,
     de_runners = (\<lambda>_. None), de_parallel_files = 2, de_disabled = [Ftp], de_sequential = True,
     de_max_active = n, de_profile_max = None, de_postprocess_pause = False, de_postprocess_held = False,
     de_budget_exceeded = False, de_shutdown = False, de_categories = [], de_schedule_pauses = False,
     de_zone = utc_zone, de_limits = host_limits_new 2, de_max_chunks = 4, de_resolvable = (\<lambda>_. False),
     de_free_plugin = (\<lambda>_. None), de_route = (\<lambda>_ _. Inr None)\<rparr>"

definition a_dispatcher :: "download_row list \<Rightarrow> dispatcher" where
  "a_dispatcher rows = \<lparr>sc_store = a_store rows, sc_blocks = [], sc_traffic = traffic_holds_new,
     sc_holds = (\<lambda>_. None),
     ct_active = \<lparr>ac_tokens = [], ac_reasons = [], ac_exempt = [], ac_pooled = [], ac_held = [],
                  ac_host = \<lparr>ha_starting = [], ha_waiting = []\<rparr>\<rparr>,
     dp_kinds = [], dp_gates = [], dp_free = [], dp_pins = [],
     dp_capacity = \<lparr>cp_settings = \<lparr>ss_minimum_free_bytes = 100, ss_auto_resume = True, ss_unknown_size_headroom = 4\<rparr>,
                    cp_roots = [], cp_fallback = None, cp_blocked = []\<rparr>\<rparr>"


lemmas dispatch_sample_defs = group_sample_defs a_dispatcher_def

text \<open>Two queued files and one place: the first in the list starts.\<close>

lemma first_file_starts:
  "(case schedule_runnable (a_dispatch_env 1) 5 (a_dispatcher [a_row ''a'' Queued, a_row ''b'' Queued]) of
    (r, started, s) \<Rightarrow> (r, started)) = (Inr (), [''a''])"
  by code_simp

theorem pass_keeps_the_limit_witness:
  "\<exists>r p s'. dispatch_pass (a_dispatch_env 1) 5 (a_dispatcher [a_row ''a'' Queued, a_row ''b'' Queued]) = (r, p, s')
     \<and> active_ok (ct_active s') \<and> counted (ct_active s') \<le> 1"
proof -
  let ?s = "a_dispatcher [a_row ''a'' Queued, a_row ''b'' Queued]"
  obtain r p s' where d: "dispatch_pass (a_dispatch_env 1) 5 ?s = (r, p, s')" by (metis prod_cases3)
  have ok: "active_ok (ct_active ?s)" by (simp add: a_dispatcher_def active_ok_def)
  have "counted (ct_active ?s) = 0" "max_running (a_dispatch_env 1) = 1"
    by (simp_all add: a_dispatcher_def counted_def max_running_def a_dispatch_env_def)
  with pass_keeps_the_limit [OF ok d] have "active_ok (ct_active s') \<and> counted (ct_active s') \<le> 1" by auto
  with d show ?thesis by blast
qed

theorem only_free_files_start_witness:
  "passed_all (a_dispatch_env 1) 5 (a_dispatcher [a_row ''a'' Queued, a_row ''b'' Queued]) ''a''"
proof -
  let ?s = "a_dispatcher [a_row ''a'' Queued, a_row ''b'' Queued]"
  obtain r started s' where d: "schedule_runnable (a_dispatch_env 1) 5 ?s = (r, started, s')" by (metis prod_cases3)
  then have "started = [''a'']" using first_file_starts by simp
  with only_free_files_start [OF d] show ?thesis by simp
qed

text \<open>A retry without a due time waits; the next file of the same package may start past it.\<close>

theorem packages_go_one_after_another_witness:
  "first_waits_with (holds_a_place (a_dispatch_env 1) [] [] (ct_active (a_dispatcher []))) [''b''] [a_row ''a'' RetryWait] (a_row ''b'' Queued)"
proof -
  let ?s = "a_dispatcher [a_row ''a'' RetryWait, a_row ''b'' Queued]"
  obtain r p s' where d: "dispatch_pass (a_dispatch_env 1) 5 ?s = (r, p, s')" by (metis prod_cases3)
  have "ps_started (fst (snd (dispatch_pass (a_dispatch_env 1) 5 ?s))) = [''b'']" by code_simp
  then have st: "ps_started p = [''b'']" using d by simp
  have q: "de_sequential (a_dispatch_env 1)" by (simp add: a_dispatch_env_def)
  have ok: "store_ok (sc_store ?s)" by (simp add: store_ok_def dispatch_sample_defs)
  have files: "startable_downloads (sc_store ?s) = [a_row ''a'' RetryWait] @ a_row ''b'' Queued # []" by code_simp
  have counts: "takes_a_counted_place (a_dispatch_env 1) (df_kind (a_row ''b'' Queued))"
    by (simp add: takes_a_counted_place_def a_row_def)
  have "not_due (st_packages (sc_store ?s)) 5 = []" "download_gate (a_dispatch_env 1) (st_packages (sc_store ?s)) 5 = []"
    by code_simp+
  moreover have "ct_active ?s = ct_active (a_dispatcher [])" by (simp add: a_dispatcher_def)
  ultimately show ?thesis
    using packages_go_one_after_another [OF q ok d files _ counts] st by (simp add: a_row_def)
qed

text \<open>Two mirrors added together: the better one starts, and not the other.\<close>

theorem one_mirror_starts_witness:
  "''b'' \<notin> set (ps_started (fst (snd (dispatch_pass (a_dispatch_env 9) 5 (a_dispatcher [a_mirror ''a'' Queued 1, a_mirror ''b'' Queued 2])))))"
proof -
  let ?s = "a_dispatcher [a_mirror ''a'' Queued 1, a_mirror ''b'' Queued 2]"
  obtain r p s' where d: "dispatch_pass (a_dispatch_env 9) 5 ?s = (r, p, s')" by (metis prod_cases3)
  have "ps_started (fst (snd (dispatch_pass (a_dispatch_env 9) 5 ?s))) = [''a'']" by code_simp
  then have st: "df_id (a_mirror ''a'' Queued 1) \<in> set (ps_started p)" using d by (simp add: dispatch_sample_defs)
  have ok: "store_ok (sc_store ?s)" by (simp add: store_ok_def dispatch_sample_defs)
  have rows: "a_mirror ''a'' Queued 1 \<in> set (st_downloads (sc_store ?s))" "a_mirror ''b'' Queued 2 \<in> set (st_downloads (sc_store ?s))"
    by (simp_all add: a_dispatcher_def a_store_def)
  have m: "mirrors_of (a_mirror ''a'' Queued 1) (a_mirror ''b'' Queued 2)" by (simp add: mirrors_of_def dispatch_sample_defs)
  have w: "awaiting (a_mirror ''b'' Queued 2) = None" by (simp add: awaiting_def dispatch_sample_defs)
  show ?thesis using one_mirror_starts [OF ok d rows(1) st rows(2) m w] d by (simp add: dispatch_sample_defs)
qed

section \<open>Groups that stall\<close>

text \<open>
  A switched-off kind stalls a mirror group. The better mirror is of the switched-off kind: the pass
  stands the other one down for it and then blocks it. Nothing is left to start, and the sweep at the
  next start does not restart the group either, since a blocked member holds it open.
\<close>

definition states :: "'s scheduler_scheme \<Rightarrow> (download_id \<times> download_state) list" where
  "states s = map (\<lambda>r. (df_id r, df_state r)) (st_downloads (sc_store s))"

lemma switched_off_mirror_stalls_its_group:
  "(let s = a_dispatcher [(a_mirror ''a'' Queued 1)\<lparr>df_kind := Ftp\<rparr>, a_mirror ''b'' Queued 2];
        after = snd (snd (schedule_runnable (a_dispatch_env 9) 5 s));
        restarted = snd (recover_stalled_mirror_groups an_env 6 after)
    in (states after, states restarted, fst (snd (schedule_runnable (a_dispatch_env 9) 7 restarted))))
   = ([(''a'', Blocked), (''b'', Skipped)], [(''a'', Blocked), (''b'', Skipped)], [])"
  by code_simp

text \<open>
  Cancelling a running mirror wakes a waiting one before the worker has written \<open>Cancelled\<close>. A pass in
  between sees the turn still taken and stands the woken one down again, and nobody wakes it after that.
\<close>

lemma cancelled_mirror_stalls_its_group:
  "(let s = (a_dispatcher [a_mirror ''a'' Downloading 1, a_mirror ''b'' Skipped 2])
              \<lparr>ct_active := (ct_active (a_dispatcher []))\<lparr>ac_tokens := [(''a'', False)]\<rparr>\<rparr>;
        cancelled = snd (control_cancel an_env ''a'' 5 s);
        passed = snd (snd (schedule_runnable (a_dispatch_env 9) 5 cancelled));
        stopped = attempt_ends ''a'' (snd (transition_stopped an_env False ''a'' 6 passed));
        later = schedule_runnable (a_dispatch_env 9) 7 stopped
    in (states cancelled, states passed, states stopped, fst (snd later)))
   = ([(''a'', Downloading), (''b'', Queued)], [(''a'', Downloading), (''b'', Skipped)],
      [(''a'', Cancelled), (''b'', Skipped)], [])"
  by code_simp

end
