(* ===== verification/QueuePausesProps.thy ===== *)
theory QueuePausesProps
  imports QueuePauses DispatchProps
begin

text \<open>
  What the pause of the queue, the stop mark and a refused control promise.
\<close>

section \<open>What a control leaves alone\<close>

definition same_rest :: "'s controller_scheme \<Rightarrow> 's controller_scheme \<Rightarrow> bool" where
  "same_rest s s' \<longleftrightarrow> sc_holds s' = sc_holds s \<and> controller.more s' = controller.more s"

lemma same_rest_refl [simp]: "same_rest s s"
  by (simp add: same_rest_def)

lemma same_rest_trans: "same_rest a b \<Longrightarrow> same_rest b c \<Longrightarrow> same_rest a c"
  by (simp add: same_rest_def)

lemma same_rest_steps [simp]:
  "same_rest s (set_reason i reason s)" "same_rest s (cancel_token i s)" "same_rest s (release_stop_guard i s)"
  "same_rest s (s\<lparr>sc_store := st\<rparr>)" "same_rest s (mark_paused i s)"
  by (simp_all add: same_rest_def set_reason_def cancel_token_def release_stop_guard_def mark_paused_def)

lemma same_rest_fold: "(\<And>x s. same_rest s (f x s)) \<Longrightarrow> same_rest s (fold f xs s)"
  by (induction xs arbitrary: s) (auto intro: same_rest_trans)

lemma write_store_rest: "write_store f s = (r, s') \<Longrightarrow> same_rest s s'"
  by (auto simp: write_store_def split: sum.splits)

lemma stand_down_rest: "stand_down env sibs now s = (r, s') \<Longrightarrow> same_rest s s'"
proof (induction sibs arbitrary: s)
  case (Cons x xs)
  then show ?case
    by (auto split: if_splits prod.splits sum.splits dest!: write_store_rest intro: same_rest_trans)
qed simp

lemma control_pause_rest: "same_rest s (snd (control_pause env i now s))"
proof -
  have "same_rest s (release_stop_guard i s2)" if "write_store f (set_reason i reason s) = (r, s2)"
    for f :: "store \<Rightarrow> store_error + download_row \<times> store" and reason r s2
    by (rule same_rest_trans [OF same_rest_trans [OF same_rest_steps(1) write_store_rest [OF that]] same_rest_steps(3)])
  moreover have "same_rest s (cancel_token i (set_reason i reason s))" "same_rest s (release_stop_guard i (set_reason i reason s))" for reason
    using same_rest_trans [OF same_rest_steps(1) same_rest_steps(2)] same_rest_trans [OF same_rest_steps(1) same_rest_steps(3)]
    by blast+
  ultimately show ?thesis
    by (auto simp: control_pause_def Let_def as_answer_def split: prod.splits option.splits sum.splits)
qed

lemma resume_row_rest: "same_rest s (snd (resume_row env i now s))"
proof -
  obtain r s1 where d: "stand_down_siblings_of env i now s = (r, s1)" by fastforce
  have s1: "same_rest s s1"
    using d by (auto simp: stand_down_siblings_of_def Let_def as_answer_def split: option.splits if_splits prod.splits sum.splits
        dest!: stand_down_rest)
  obtain r2 st where q: "(if (case get_download i (sc_store s1) of Some file \<Rightarrow> df_state file = Failed | None \<Rightarrow> False)
      then requeue_failed (ev_redact env) i False now (sc_store s1) else (None, sc_store s1)) = (r2, st)" by fastforce
  obtain r3 s3 where w: "write_store (transition_download (ev_redact env) i Queued now) (s1\<lparr>sc_store := st\<rparr>) = (r3, s3)" by fastforce
  have "same_rest s (s1\<lparr>sc_store := st\<rparr>)" by (rule same_rest_trans [OF s1]) simp
  moreover from same_rest_trans [OF this write_store_rest [OF w]] have "same_rest s s3" .
  ultimately show ?thesis
    using s1 d q w by (auto simp: resume_row_def Let_def as_answer_def split: sum.splits option.splits)
qed

lemma control_resume_rest: "same_rest s (snd (control_resume env i now s))"
  by (simp add: control_resume_def same_rest_trans [OF same_rest_steps(3) resume_row_rest])

lemma resume_answers_rest: "same_rest s (snd (resume_answers env a now ids answers s))"
proof (induction ids arbitrary: answers s)
  case (Cons i ids)
  have step: "same_rest s (snd (resume_answers env a now ids rest (snd (control_resume env i now s))))" for rest
    by (rule same_rest_trans [OF control_resume_rest Cons.IH])
  show ?case
    using Cons.IH step by (auto simp: case_prod_beta split: list.split sum.split bool.split)
qed simp

lemma resume_many_rest: "same_rest s (snd (resume_many env ids now s))"
proof -
  have g: "same_rest s (fold release_stop_guard xs s)" for xs by (rule same_rest_fold) simp
  have "same_rest s ((fold release_stop_guard xs s)\<lparr>sc_store := st\<rparr>)" for xs st
    by (rule same_rest_trans [OF g [of xs]]) simp
  from same_rest_trans [OF this resume_answers_rest] g show ?thesis
    by (auto simp: resume_many_def Let_def case_prod_beta)
qed

lemma pause_many_rest: "same_rest s (snd (pause_many env ids now s))"
proof -
  have m: "same_rest s (fold mark_paused xs s)" for xs by (rule same_rest_fold) simp
  have "same_rest s ((fold mark_paused xs s)\<lparr>sc_store := st\<rparr>)" for xs st
    by (rule same_rest_trans [OF m [of xs]]) simp
  then have "same_rest s (fold release_stop_guard ys ((fold mark_paused xs s)\<lparr>sc_store := st\<rparr>))" for xs ys st
    by (rule same_rest_trans) (rule same_rest_fold, simp)
  then show ?thesis using m by (auto simp: pause_many_def Let_def case_prod_beta)
qed

text \<open>Everything the supervisor keeps beside the scheduler.\<close>

lemma same_rest_supervisor:
  "same_rest s s' \<Longrightarrow> sv_pause s' = sv_pause s \<and> sv_stored_pause s' = sv_stored_pause s \<and> sv_window_files s' = sv_window_files s
     \<and> sv_mark s' = sv_mark s \<and> sv_announced s' = sv_announced s \<and> sc_holds s' = sc_holds s"
  by (cases s; cases s') (simp add: same_rest_def)

lemma same_more_supervisor:
  "dispatcher.more s' = dispatcher.more s \<Longrightarrow> sv_pause s' = sv_pause s \<and> sv_stored_pause s' = sv_stored_pause s
     \<and> sv_window_files s' = sv_window_files s \<and> sv_mark s' = sv_mark s \<and> sv_announced s' = sv_announced s"
  by (cases s; cases s') simp

section \<open>Batches over rows of a known state\<close>

lemma move_rows_all:
  assumes "store_ok st" and "\<And>i. i \<in> set ids \<Longrightarrow> \<exists>r. get_download i st = Some r \<and> df_state r \<in> {Paused, Queued}"
  shows "fst (move_rows Resume now ids moved packages st) = map (\<lambda>_. Inr True) ids"
  using assms
proof (induction ids arbitrary: moved packages st)
  case (Cons i ids)
  obtain r where r: "get_download i st = Some r" "df_state r \<in> {Paused, Queued}" using Cons.prems(2) [of i] by auto
  obtain r' where w: "move_step Resume now (Some r) = Write r'"
    using r(2) by (auto simp: move_step_def move_next_def can_transition_to_def Let_def)
  have r': "df_id r' = i" "df_state r' = Queued"
    using move_step_Write [OF w] get_download_Some [OF r(1)] by (auto simp: move_next_def)
  let ?st = "update_rows (\<lambda>x. df_id x = i) (\<lambda>_. r') st"
  have d: "st_downloads ?st = map (\<lambda>x. if df_id x = i then r' else x) (st_downloads st)" by (simp add: state_simps)
  have ok: "store_ok ?st"
  proof -
    have "map df_id (st_downloads ?st) = map df_id (st_downloads st)" unfolding d using r'(1) by auto
    moreover have "st_packages ?st = st_packages st" by (simp add: state_simps)
    ultimately show ?thesis using Cons.prems(1) unfolding store_ok_def by (simp only:)
  qed
  have g: "get_download j ?st = (if j = i then Some r' else get_download j st)" for j
  proof -
    have "find (\<lambda>x. df_id x = j) (map (\<lambda>x. if df_id x = i then r' else x) xs) =
        (if j = i then (if i \<in> df_id ` set xs then Some r' else None) else find (\<lambda>x. df_id x = j) xs)" for xs
      using r'(1) by (induction xs) auto
    then show ?thesis using get_download_Some [OF r(1)] unfolding get_download_def d by auto
  qed
  have "fst (move_rows Resume now ids m p ?st) = map (\<lambda>_. Inr True) ids" for m p
  proof (rule Cons.IH [OF ok])
    show "\<exists>r. get_download j ?st = Some r \<and> df_state r \<in> {Paused, Queued}" if "j \<in> set ids" for j
      using Cons.prems(2) [of j] that g [of j] r'(2) by auto
  qed
  moreover obtain m p where "fst (move_rows Resume now (i # ids) moved packages st) = Inr True # fst (move_rows Resume now ids m p ?st)"
    by (simp add: r(1) w Let_def case_prod_beta)
  ultimately show ?case by simp
qed simp

lemma resume_answers_true:
  "set answers \<subseteq> {Inr True} \<Longrightarrow> resume_answers env a now ids answers s =
     (map (\<lambda>i. if map_of (ac_held a) i \<noteq> None then Inl (Refused (WrongState being_reset)) else Inr ()) ids, s)"
  by (induction ids arbitrary: answers) (auto split: list.split)

lemma release_guards:
  "sc_store (fold release_stop_guard ids s) = sc_store s" "sc_holds (fold release_stop_guard ids s) = sc_holds s"
  "ac_held (ct_active (fold release_stop_guard ids s)) = ac_held (ct_active s)"
  "ac_tokens (ct_active (fold release_stop_guard ids s)) = ac_tokens (ct_active s)"
  "map_of (ac_reasons (ct_active (fold release_stop_guard ids s))) j =
     (if j \<in> set ids \<and> \<not> runs j (ct_active s) then None else map_of (ac_reasons (ct_active s)) j)"
  by (induction ids arbitrary: s) (auto simp: release_stop_guard_def runs_def delete_conv')

text \<open>Resuming paused files moves exactly those nobody holds, whatever their groups.\<close>

lemma resume_many_paused:
  fixes s :: "'s controller_scheme"
  assumes ok: "store_ok (sc_store s)"
    and paused: "\<forall>i \<in> set ids. \<exists>r. get_download i (sc_store s) = Some r \<and> df_state r = Paused"
    and run: "resume_many env ids now s = (answers, s')"
  shows "answers = map (\<lambda>i. if map_of (ac_held (ct_active s)) i \<noteq> None then Inl (Refused (WrongState being_reset)) else Inr ()) ids"
    and "store_ok (sc_store s')" and "sc_holds s' = sc_holds s" and "ac_tokens (ct_active s') = ac_tokens (ct_active s)"
    and "get_download j (sc_store s) = Some r \<Longrightarrow>
      \<exists>r'. get_download j (sc_store s') = Some r'
         \<and> settles (if j \<in> set ids \<and> map_of (ac_held (ct_active s)) j = None then moves Resume now r else r) r'"
proof -
  let ?a = "ct_active s"
  let ?batch = "filter (\<lambda>i. map_of (ac_held ?a) i = None) ids"
  let ?s = "fold release_stop_guard ?batch s"
  have main: "answers = map (\<lambda>i. if map_of (ac_held ?a) i \<noteq> None then Inl (Refused (WrongState being_reset)) else Inr ()) ids
      \<and> store_ok (sc_store s') \<and> sc_holds s' = sc_holds s \<and> ac_tokens (ct_active s') = ac_tokens (ct_active s)
      \<and> (\<forall>j r. get_download j (sc_store s) = Some r \<longrightarrow> (\<exists>r'. get_download j (sc_store s') = Some r'
           \<and> settles (if j \<in> set ids \<and> map_of (ac_held ?a) j = None then moves Resume now r else r) r'))"
  proof (cases "?batch = []")
    case True
    then have none: "\<And>i. i \<in> set ids \<Longrightarrow> map_of (ac_held ?a) i \<noteq> None" by (auto simp: filter_empty_conv)
    have "answers = map (\<lambda>_. Inl (Refused (WrongState being_reset))) ids" "s' = s"
      using run True by (auto simp: resume_many_def Let_def)
    then show ?thesis using ok none by fastforce
  next
    case False
    obtain os st where m: "resume_downloads (ev_redact env) ?batch now (sc_store s) = (os, st)" by fastforce
    have md: "move_downloads (ev_redact env) Resume ?batch now (sc_store s) = (os, st)" using m by (simp add: resume_downloads_def)
    have os: "os = map (\<lambda>_. Inr True) ?batch"
    proof -
      obtain o1 moved packages w where mr: "move_rows Resume now ?batch [] [] (sc_store s) = (o1, moved, packages, w)"
        by (metis prod_cases4)
      have "os = o1" using md mr by (auto simp: move_downloads_def Let_def)
      moreover have "fst (move_rows Resume now ?batch [] [] (sc_store s)) = map (\<lambda>_. Inr True) ?batch"
        by (rule move_rows_all [OF ok]) (use paused in fastforce)
      ultimately show ?thesis using mr by simp
    qed
    have all: "resume_answers env ?a now ids (map (\<lambda>_. Inr True) ?batch) x =
        (map (\<lambda>i. if map_of (ac_held ?a) i \<noteq> None then Inl (Refused (WrongState being_reset)) else Inr ()) ids, x)"
      for x :: "'s controller_scheme"
      by (rule resume_answers_true) auto
    have e: "answers = map (\<lambda>i. if map_of (ac_held ?a) i \<noteq> None then Inl (Refused (WrongState being_reset)) else Inr ()) ids"
      "s' = ?s\<lparr>sc_store := st\<rparr>"
      using run False m unfolding resume_many_def Let_def release_guards(1) os by (simp_all add: all)
    let ?moved = "(sc_store s)\<lparr>st_downloads := map (\<lambda>r. if df_id r \<in> set ?batch then moves Resume now r else r) (st_downloads (sc_store s))\<rparr>"
    note same = move_downloads_facts(2) [OF ok md]
    have okm: "store_ok ?moved" using ok by (simp add: store_ok_def o_def if_distrib cong: if_cong)
    have rows: "\<exists>r'. get_download j st = Some r' \<and>
        settles (if j \<in> set ids \<and> map_of (ac_held ?a) j = None then moves Resume now r else r) r'"
      if g: "get_download j (sc_store s) = Some r" for j r
    proof (rule same_rows_get(1) [OF same])
      have "get_download j ?moved = map_option (\<lambda>r. if df_id r \<in> set ?batch then moves Resume now r else r) (get_download j (sc_store s))"
        unfolding get_download_def by simp (rule find_map, simp)
      then show "get_download j ?moved = Some (if j \<in> set ids \<and> map_of (ac_held ?a) j = None then moves Resume now r else r)"
        using g get_download_Some [OF g] by simp
    qed
    show ?thesis
      using e(1) rows same_rows_ok [OF same okm] by (simp add: e(2) release_guards)
  qed
  then show "answers = map (\<lambda>i. if map_of (ac_held ?a) i \<noteq> None then Inl (Refused (WrongState being_reset)) else Inr ()) ids"
    and "store_ok (sc_store s')" and "sc_holds s' = sc_holds s" and "ac_tokens (ct_active s') = ac_tokens (ct_active s)"
    and "get_download j (sc_store s) = Some r \<Longrightarrow>
      \<exists>r'. get_download j (sc_store s') = Some r'
         \<and> settles (if j \<in> set ids \<and> map_of (ac_held ?a) j = None then moves Resume now r else r) r'"
    by simp_all
qed

lemma moves_resume_paused: "df_state r = Paused \<Longrightarrow> df_state (moves Resume now r) = Queued"
  by (simp add: moves_def move_step_def move_next_def can_transition_to_def Let_def)

section \<open>The end of a pause\<close>

definition paused_ids :: "store \<Rightarrow> download_id set" where
  "paused_ids st = {df_id r | r. r \<in> set (list_downloads st) \<and> df_state r = Paused}"

lemma list_downloads_set [simp]:
  "r \<in> set (list_downloads st) \<longleftrightarrow> r \<in> set (st_downloads st) \<and> get_package (df_package_id r) st \<noteq> None"
  by (auto simp: list_downloads_def get_package_def)

text \<open>Property C18. The end of a pause queues exactly what it stopped: of the recorded files those still paused (and
  not under a reset) are queued again and counted, and every other row is left as it is, also one that
  somebody had paused before, except that held-back verdicts which fall due are taken. The hold and the
  record go.\<close>

theorem pause_end_resumes_its_own:
  assumes ok: "store_ok (sc_store s)" and pause: "sv_pause s = Some pause" and run: "resume_queue env now s = (n, s')"
    and row: "get_download j (sc_store s) = Some r" "get_package (df_package_id r) (sc_store s) \<noteq> None"
  shows "(\<exists>r'. get_download j (sc_store s') = Some r'
      \<and> (if j \<in> set (qp_files pause) \<and> df_state r = Paused \<and> map_of (ac_held (ct_active s)) j = None
         then df_state r' = Queued else settles r r'))
    \<and> n = length (filter (\<lambda>i. i \<in> paused_ids (sc_store s) \<and> map_of (ac_held (ct_active s)) i = None) (qp_files pause))
    \<and> sc_holds s' QueuePause = None \<and> sv_pause s' = None \<and> sv_stored_pause s' = None"
proof -
  let ?s = "hold_queue None s"
  let ?paused = "map df_id (filter (\<lambda>file. df_state file = Paused) (list_downloads (sc_store s)))"
  let ?still = "filter (\<lambda>i. i \<in> set ?paused) (qp_files pause)"
  have st: "sc_store ?s = sc_store s" "ct_active ?s = ct_active s" "sc_holds ?s QueuePause = None"
    by (simp_all add: hold_queue_def set_hold_def)
  obtain answers s1 where r1: "resume_many env ?still now ?s = (answers, s1)" by fastforce
  have e: "n = length (filter (\<lambda>answer. answer = Inr ()) answers)" "s' = s1\<lparr>sv_stored_pause := None, sv_pause := None\<rparr>"
    using run pause r1 st(1) by (auto simp: resume_queue_def Let_def)
  have in_paused: "i \<in> set ?paused \<longleftrightarrow> i \<in> paused_ids (sc_store s)" for i by (auto simp: paused_ids_def)
  have paused: "\<forall>i \<in> set ?still. \<exists>r. get_download i (sc_store ?s) = Some r \<and> df_state r = Paused"
    using get_download_in [OF ok] by (auto simp: st(1))
  have ok': "store_ok (sc_store ?s)" using ok by (simp add: st(1))
  note facts = resume_many_paused [OF ok' paused r1, unfolded st]
  have j: "j \<in> set ?still \<longleftrightarrow> j \<in> set (qp_files pause) \<and> df_state r = Paused"
  proof -
    have "j \<in> set ?paused \<longleftrightarrow> df_state r = Paused"
    proof
      assume "j \<in> set ?paused"
      then obtain x where x: "x \<in> set (st_downloads (sc_store s))" "df_id x = j" "df_state x = Paused" by auto
      then have "x = r" using get_download_in [OF ok x(1)] row(1) by simp
      then show "df_state r = Paused" using x(3) by simp
    next
      assume "df_state r = Paused"
      then show "j \<in> set ?paused" using get_download_Some [OF row(1)] row(2) by auto
    qed
    then show ?thesis by auto
  qed
  have only: "filter (\<lambda>answer. answer = Inr ()) (map (\<lambda>i. if map_of (ac_held (ct_active s)) i \<noteq> None
      then Inl (Refused (WrongState being_reset)) else Inr ()) xs)
    = map (\<lambda>_. Inr ()) (filter (\<lambda>i. map_of (ac_held (ct_active s)) i = None) xs)" for xs
    by (induction xs) auto
  have n: "n = length (filter (\<lambda>i. i \<in> paused_ids (sc_store s) \<and> map_of (ac_held (ct_active s)) i = None) (qp_files pause))"
  proof -
    have "answers = map (\<lambda>i. if map_of (ac_held (ct_active s)) i \<noteq> None
      then Inl (Refused (WrongState being_reset)) else Inr ()) ?still" by (rule facts(1))
    moreover have "?still = filter (\<lambda>i. i \<in> paused_ids (sc_store s)) (qp_files pause)" by (simp only: in_paused)
    ultimately show ?thesis using only by (simp add: e(1) conj_commute)
  qed
  obtain r' where r': "get_download j (sc_store s1) = Some r'"
    "settles (if j \<in> set ?still \<and> map_of (ac_held (ct_active s)) j = None then moves Resume now r else r) r'"
    using facts(5) [OF row(1)] by blast
  have "if j \<in> set (qp_files pause) \<and> df_state r = Paused \<and> map_of (ac_held (ct_active s)) j = None
         then df_state r' = Queued else settles r r'"
    using r'(2) j settles_state [of "moves Resume now r" r'] moves_resume_paused [of r now] by (auto split: if_splits)
  then show ?thesis using r'(1) n facts(3) st(3) by (simp add: e(2))
qed

section \<open>What a pause of the queue stops\<close>

lemma mark_paused_facts:
  "sc_store (fold mark_paused ids s) = sc_store s"
  "runs j (ct_active (fold mark_paused ids s)) = runs j (ct_active s)"
  "map_of (ac_tokens (ct_active (fold mark_paused ids s))) j =
     (if j \<in> set ids then map_option (\<lambda>_. True) (map_of (ac_tokens (ct_active s)) j) else map_of (ac_tokens (ct_active s)) j)"
  by (induction ids arbitrary: s)
    (auto simp: mark_paused_def set_reason_def cancel_token_def runs_def map_of_map_entry
      option.map_comp o_def split: option.splits)

text \<open>The waiting files of a batch are paused in the store, the running ones asked to stop.\<close>

lemma pause_many_facts:
  fixes s :: "'s controller_scheme"
  assumes ok: "store_ok (sc_store s)" and run: "pause_many env ids now s = (answers, s')"
  shows "store_ok (sc_store s')"
    and "map_of (ac_tokens (ct_active s')) j =
      (if j \<in> set ids then map_option (\<lambda>_. True) (map_of (ac_tokens (ct_active s)) j) else map_of (ac_tokens (ct_active s)) j)"
    and "get_download j (sc_store s) = Some r \<Longrightarrow>
      \<exists>r'. get_download j (sc_store s') = Some r'
         \<and> settles (if j \<in> set ids \<and> \<not> runs j (ct_active s) then moves Pause now r else r) r'"
proof -
  let ?s = "fold mark_paused ids s"
  let ?idle = "filter (\<lambda>i. \<not> runs i (ct_active s)) ids"
  have main: "store_ok (sc_store s') \<and> ac_tokens (ct_active s') = ac_tokens (ct_active ?s)
      \<and> (\<forall>j r. get_download j (sc_store s) = Some r \<longrightarrow> (\<exists>r'. get_download j (sc_store s') = Some r'
           \<and> settles (if j \<in> set ids \<and> \<not> runs j (ct_active s) then moves Pause now r else r) r'))"
  proof (cases "?idle = []")
    case True
    then have "s' = ?s" "\<And>j. j \<in> set ids \<Longrightarrow> runs j (ct_active s)"
      using run by (auto simp: pause_many_def Let_def mark_paused_facts filter_empty_conv)
    then show ?thesis using ok by (auto simp: mark_paused_facts)
  next
    case False
    obtain os st where m: "pause_downloads (ev_redact env) ?idle now (sc_store s) = (os, st)" by fastforce
    have md: "move_downloads (ev_redact env) Pause ?idle now (sc_store s) = (os, st)" using m by (simp add: pause_downloads_def)
    have e: "s' = fold release_stop_guard ?idle (?s\<lparr>sc_store := st\<rparr>)"
      using run False m by (auto simp: pause_many_def Let_def mark_paused_facts)
    let ?moved = "(sc_store s)\<lparr>st_downloads := map (\<lambda>r. if df_id r \<in> set ?idle then moves Pause now r else r) (st_downloads (sc_store s))\<rparr>"
    note same = move_downloads_facts(2) [OF ok md]
    have okm: "store_ok ?moved" using ok by (simp add: store_ok_def o_def if_distrib cong: if_cong)
    have rows: "\<exists>r'. get_download j st = Some r' \<and>
        settles (if j \<in> set ids \<and> \<not> runs j (ct_active s) then moves Pause now r else r) r'"
      if g: "get_download j (sc_store s) = Some r" for j r
    proof (rule same_rows_get(1) [OF same])
      have "get_download j ?moved = map_option (\<lambda>r. if df_id r \<in> set ?idle then moves Pause now r else r) (get_download j (sc_store s))"
        unfolding get_download_def by simp (rule find_map, simp)
      then show "get_download j ?moved = Some (if j \<in> set ids \<and> \<not> runs j (ct_active s) then moves Pause now r else r)"
        using g get_download_Some [OF g] by simp
    qed
    show ?thesis using rows same_rows_ok [OF same okm] by (simp add: e release_guards)
  qed
  then show "store_ok (sc_store s')"
    and "map_of (ac_tokens (ct_active s')) j =
      (if j \<in> set ids then map_option (\<lambda>_. True) (map_of (ac_tokens (ct_active s)) j) else map_of (ac_tokens (ct_active s)) j)"
    and "get_download j (sc_store s) = Some r \<Longrightarrow>
      \<exists>r'. get_download j (sc_store s') = Some r'
         \<and> settles (if j \<in> set ids \<and> \<not> runs j (ct_active s) then moves Pause now r else r) r'"
    by (simp_all add: mark_paused_facts)
qed

lemma pause_queue_rest:
  assumes "pause_queue env until stops reason now s = (pause, s')"
  shows "sv_pause s' = Some pause" "sv_stored_pause s' = Some pause" "sc_holds s' QueuePause = Some HOLD_REASON"
    "sv_mark s' = sv_mark s" "sv_window_files s' = sv_window_files s" "sv_announced s' = sv_announced s"
    "\<exists>s1 answers. pause_many env (files_to_stop stops s) now s1 = (answers, s') \<and> sc_store s1 = sc_store s \<and> ct_active s1 = ct_active s"
proof -
  define files where "files = (case sv_pause s of Some p \<Rightarrow> qp_files p | None \<Rightarrow> [])"
  define s1 where "s1 = hold_queue (Some HOLD_REASON) (s\<lparr>sv_stored_pause := Some pause, sv_pause := Some pause\<rparr>)"
  have p: "pause = \<lparr>qp_until = until, qp_files = add_files (files_to_stop stops s) files, qp_reason = reason\<rparr>"
    using assms by (simp add: pause_queue_def Let_def files_def)
  have s': "s' = snd (pause_many env (files_to_stop stops s) now s1)"
    using assms unfolding p s1_def files_def by (simp add: pause_queue_def Let_def)
  note rest = same_rest_supervisor [OF pause_many_rest [of s1 env "files_to_stop stops s" now], folded s']
  have s1: "sv_pause s1 = Some pause" "sv_stored_pause s1 = Some pause" "sc_holds s1 QueuePause = Some HOLD_REASON"
    "sv_mark s1 = sv_mark s" "sv_window_files s1 = sv_window_files s" "sv_announced s1 = sv_announced s"
    "sc_store s1 = sc_store s" "ct_active s1 = ct_active s"
    by (simp_all add: s1_def hold_queue_def set_hold_def)
  show "sv_pause s' = Some pause" "sv_stored_pause s' = Some pause" "sc_holds s' QueuePause = Some HOLD_REASON"
    "sv_mark s' = sv_mark s" "sv_window_files s' = sv_window_files s" "sv_announced s' = sv_announced s"
    using rest s1 by simp_all
  show "\<exists>s1 answers. pause_many env (files_to_stop stops s) now s1 = (answers, s') \<and> sc_store s1 = sc_store s \<and> ct_active s1 = ct_active s"
    using s1(7,8) s' by (metis prod.collapse)
qed


section \<open>Nothing starts under a pause\<close>

text \<open>
  The life of the supervisor: pauses and their ends, ticks, the window's steps, the mark set and
  cleared, a restart that forgets the memory and restores the pause, and anything else that leaves
  the pause, its record and its hold alone.
\<close>

definition restarted :: "supervisor \<Rightarrow> supervisor" where
  "restarted s = restore_queue_pause
     (s\<lparr>sv_pause := None, sc_holds := (\<lambda>_. None),
        ct_active := \<lparr>ac_tokens = [], ac_reasons = [], ac_exempt = [], ac_pooled = [], ac_held = [],
                      ac_host = \<lparr>ha_starting = [], ha_waiting = []\<rparr>\<rparr>\<rparr>)"

inductive sup_step :: "supervisor \<Rightarrow> supervisor \<Rightarrow> bool" where
  pauses: "sup_step s (snd (pause_queue env until stops reason now s))"
| resumes: "sup_step s (snd (resume_queue env now s))"
| ticks: "sup_step s (snd (snd (supervise_tick denv now s)))"
| windows: "sup_step s (supervise_download_windows denv now s)"
| marks: "sup_step s (snd (set_stop_mark target now s))"
| clears: "sup_step s (snd (clear_stop_mark s))"
| restarts: "sup_step s (restarted s)"
| others: "sv_pause s' = sv_pause s \<Longrightarrow> sv_stored_pause s' = sv_stored_pause s \<Longrightarrow>
    sc_holds s' QueuePause = sc_holds s QueuePause \<Longrightarrow> sup_step s s'"

definition pause_ok :: "supervisor \<Rightarrow> bool" where
  "pause_ok s \<longleftrightarrow> sv_stored_pause s = sv_pause s \<and> (sv_pause s \<noteq> None \<longrightarrow> sc_holds s QueuePause \<noteq> None)"

lemma resume_queue_ok:
  assumes "pause_ok s" shows "pause_ok (snd (resume_queue env now s))"
  using assms by (cases "sv_pause s") (auto simp: resume_queue_def pause_ok_def Let_def case_prod_beta)

lemma pause_queue_ok: "pause_ok (snd (pause_queue env until stops reason now s))"
  using pause_queue_rest(1-3) [of env until stops reason now s "fst (pause_queue env until stops reason now s)"
      "snd (pause_queue env until stops reason now s)"]
  by (simp add: pause_ok_def)

lemma settle_keeps_pause: "settle_account_traffic now h q = (h', q') \<Longrightarrow> q' QueuePause = q QueuePause"
  by (auto simp: settle_account_traffic_def set_hold_def split: prod.splits option.splits)

lemma mark_step_ok: "pause_ok s \<Longrightarrow> pause_ok (supervise_stop_mark env now s)"
  using pause_queue_ok [of env None "\<lambda>state. pausable state \<and> \<not> is_working state" StopMarkPause now s]
  by (auto simp: supervise_stop_mark_def reach_stop_mark_def pause_queue_until_resumed_def db_clear_stop_mark_def
      announce_stop_mark_def pause_ok_def Let_def case_prod_beta split: option.split mark_progress.split)

lemma mark_step_paused: "sv_pause s \<noteq> None \<Longrightarrow> sv_pause (supervise_stop_mark env now s) \<noteq> None"
  by (auto simp: supervise_stop_mark_def reach_stop_mark_def pause_queue_until_resumed_def db_clear_stop_mark_def
      announce_stop_mark_def Let_def case_prod_beta pause_queue_rest(1) [OF prod.collapse [symmetric]]
      split: option.split mark_progress.split)

lemma schedule_runnable_keeps:
  "schedule_runnable denv now s = (r, started, s') \<Longrightarrow> sc_holds s' = sc_holds s \<and> dispatcher.more s' = dispatcher.more s"
  using pass_starts [of denv now s] by (auto simp: schedule_runnable_def split: if_splits prod.splits)

lemma tick_ok:
  assumes "pause_ok s" shows "pause_ok (snd (snd (supervise_tick denv now s)))"
proof -
  define s1 where "s1 = supervise_queue_pause (scheduler_env.truncate denv) now s"
  have s1: "pause_ok s1" using assms resume_queue_ok by (simp add: s1_def supervise_queue_pause_def Let_def)
  define s2 where "s2 = (case settle_account_traffic now (sc_traffic s1) (sc_holds s1) of
                 (traffic, holds) \<Rightarrow> s1\<lparr>sc_traffic := traffic, sc_holds := holds\<rparr>)"
  have s2: "pause_ok s2" using s1 by (auto simp: s2_def pause_ok_def split: prod.split dest: settle_keeps_pause)
  define s3 where "s3 = supervise_stop_mark (scheduler_env.truncate denv) now s2"
  have s3: "pause_ok s3" using s2 mark_step_ok by (simp add: s3_def)
  obtain r started s4 where t: "schedule_runnable denv now s3 = (r, started, s4)" by (metis prod_cases3)
  have "pause_ok s4"
    using s3 schedule_runnable_keeps [OF t] same_more_supervisor [of s4 s3] by (simp add: pause_ok_def)
  then show ?thesis using t unfolding supervise_tick_def Let_def s1_def [symmetric] s2_def [symmetric] s3_def [symmetric] by simp
qed

lemma windows_ok:
  assumes "pause_ok s" shows "pause_ok (supervise_download_windows denv now s)"
proof -
  have p: "same_rest s1 (fold (pause_one denv now) xs s1)" for xs and s1 :: supervisor
    by (rule same_rest_fold) (simp add: pause_one_def control_pause_rest)
  have r: "same_rest s1 (fold (resume_one denv now) xs s1)" for xs and s1 :: supervisor
    by (rule same_rest_fold) (simp add: resume_one_def control_resume_rest)
  have "pause_ok (fold (resume_one denv now) ys (fold (pause_one denv now) xs s1))" if "pause_ok s1" for xs ys s1
    using that same_rest_supervisor [OF same_rest_trans [OF p r]] by (simp add: pause_ok_def)
  moreover have "pause_ok (s1\<lparr>sv_window_files := fs\<rparr>)" if "pause_ok s1" for s1 fs using that by (simp add: pause_ok_def)
  ultimately show ?thesis using assms by (simp add: supervise_download_windows_def Let_def)
qed

lemma sup_step_ok: "sup_step s s' \<Longrightarrow> pause_ok s \<Longrightarrow> pause_ok s'"
proof (induction rule: sup_step.induct)
  case (marks s target now)
  then show ?case
    by (auto simp: set_stop_mark_def db_set_stop_mark_def announce_stop_mark_def pause_ok_def Let_def split: mark_progress.split)
next
  case (clears s)
  then show ?case
    by (auto simp: clear_stop_mark_def db_clear_stop_mark_def announce_stop_mark_def pause_ok_def split: option.split)
next
  case (restarts s)
  then show ?case
    by (auto simp: restarted_def restore_queue_pause_def hold_queue_def set_hold_def pause_ok_def split: option.split)
next
  case (others s' s)
  then show ?case by (simp add: pause_ok_def)
qed (simp_all add: pause_queue_ok resume_queue_ok tick_ok windows_ok)

text \<open>Property C17. Nothing starts while the queue is paused: in every state the supervisor reaches, whatever was
  paused, resumed, marked or restarted before, a tick under a pause whose end has not come starts no
  file.\<close>

theorem nothing_starts_under_a_pause:
  assumes "sup_step\<^sup>*\<^sup>* s\<^sub>0 s" and "pause_ok s\<^sub>0" and "sv_pause s = Some pause"
    and "case qp_until pause of Some until \<Rightarrow> now < until | None \<Rightarrow> True"
  shows "fst (snd (supervise_tick denv now s)) = []"
proof -
  have "pause_ok s" using assms(1,2) by (induction rule: rtranclp_induct) (auto intro: sup_step_ok)
  have q: "supervise_queue_pause (scheduler_env.truncate denv) now s = s"
    using assms(3,4) by (auto simp: supervise_queue_pause_def Let_def split: option.splits)
  define s2 where "s2 = (case settle_account_traffic now (sc_traffic s) (sc_holds s) of
                 (traffic, holds) \<Rightarrow> s\<lparr>sc_traffic := traffic, sc_holds := holds\<rparr>)"
  have "pause_ok s2" "sv_pause s2 = Some pause"
    using \<open>pause_ok s\<close> assms(3) by (auto simp: s2_def pause_ok_def split: prod.split dest: settle_keeps_pause)
  then have s3: "pause_ok (supervise_stop_mark env now s2)" "sv_pause (supervise_stop_mark env now s2) \<noteq> None" for env
    by (simp_all add: mark_step_ok mark_step_paused)
  then have "sc_holds (supervise_stop_mark env now s2) QueuePause \<noteq> None" for env
    by (simp add: pause_ok_def)
  then have "dispatch_held denv (supervise_stop_mark env now s2)" for env
    by (auto simp: dispatch_held_def hold_reason_None)
  then show ?thesis
    unfolding supervise_tick_def Let_def q s2_def [symmetric] by (simp add: schedule_runnable_def pass_begins_def)
qed

section \<open>Refused controls\<close>

lemma write_store_error:
  "write_store f s = (Inl e, s') \<Longrightarrow> s' = s \<and> f (sc_store s) = Inl e"
  by (auto simp: write_store_def split: sum.splits)

text \<open>Standing contending mirrors down always succeeds and leaves every other row alone.\<close>

lemma stand_down_succeeds:
  assumes "store_ok (sc_store s)" and "distinct (map df_id sibs)"
    and "\<forall>x \<in> set sibs. is_contending (df_state x) \<longrightarrow> get_download (df_id x) (sc_store s) = Some x"
    and "get_download i (sc_store s) = Some r" and "df_state r \<noteq> Verifying" and "i \<notin> df_id ` set sibs"
  shows "\<exists>s'. stand_down env sibs now s = (Inr (), s') \<and> get_download i (sc_store s') = Some r"
  using assms
proof (induction sibs arbitrary: s)
  case (Cons x xs)
  show ?case
  proof (cases "is_contending (df_state x)")
    case False
    then show ?thesis using Cons by simp
  next
    case True
    have g: "get_download (df_id x) (sc_store s) = Some x" using Cons.prems(3) True by simp
    have legal: "can_transition_to (df_state x) Skipped" using True by (auto simp: is_contending_def can_transition_to_def)
    obtain st where t: "transition_download_with_reason (ev_redact env) (df_id x) Skipped None now (sc_store s)
        = Inr (moved_row Skipped None now x, st)"
      and w: "writes_one (df_id x) (moved_row Skipped None now) (sc_store s) st"
      by (rule transition_writes [OF Cons.prems(1) g legal])
    let ?s = "s\<lparr>sc_store := st\<rparr>"
    have keeps: "get_download j st = Some q" if "get_download j (sc_store s) = Some q" "j \<noteq> df_id x" "df_state q \<noteq> Verifying" for j q
      using writes_oneD(4) [OF w that(1)] that(2) settles_only [OF that(3)] by auto
    have contending: "df_state y \<noteq> Verifying" if "is_contending (df_state y)" for y :: download_row
      using that by (auto simp: is_contending_def)
    have "\<exists>s'. stand_down env xs now ?s = (Inr (), s') \<and> get_download i (sc_store s') = Some r"
    proof (rule Cons.IH)
      show "store_ok (sc_store ?s)" using writes_oneD(1) [OF w] by simp
      show "distinct (map df_id xs)" "df_state r \<noteq> Verifying" "i \<notin> df_id ` set xs" using Cons.prems by simp_all
      show "\<forall>y \<in> set xs. is_contending (df_state y) \<longrightarrow> get_download (df_id y) (sc_store ?s) = Some y"
      proof (intro ballI impI)
        fix y assume y: "y \<in> set xs" "is_contending (df_state y)"
        have "df_id x \<notin> df_id ` set xs" using Cons.prems(2) by simp
        then have "df_id y \<noteq> df_id x" using y(1) by (metis imageI)
        then show "get_download (df_id y) (sc_store ?s) = Some y"
          using keeps [of "df_id y" y] Cons.prems(3) y contending [OF y(2)] by simp
      qed
      show "get_download i (sc_store ?s) = Some r" using keeps [OF Cons.prems(4)] Cons.prems(5,6) by simp
    qed
    then show ?thesis using True t by (simp add: write_store_def transition_download_def)
  qed
qed simp

lemma stand_down_siblings_error:
  assumes ok: "store_ok (sc_store s)" and d: "stand_down_siblings_of env i now s = (r, s1)"
  shows "(s1 = s \<and> (case r of Inl _ \<Rightarrow> True | Inr _ \<Rightarrow> True))
    \<or> (r = Inr () \<and> (\<exists>q. get_download i (sc_store s1) = Some q \<and> df_state q = Skipped))"
proof (cases "\<exists>q. get_download i (sc_store s) = Some q \<and> df_mirror_group q \<noteq> None \<and> df_state q = Skipped")
  case False
  then have "s1 = s" using d by (auto simp: stand_down_siblings_of_def split: option.splits if_splits)
  then show ?thesis by (simp split: sum.split)
next
  case True
  then obtain q where q: "get_download i (sc_store s) = Some q" "df_mirror_group q \<noteq> None" "df_state q = Skipped" by blast
  let ?sibs = "siblings q (downloads_for_package (df_package_id q) (sc_store s))"
  show ?thesis
  proof (cases "find (\<lambda>sibling. has_taken_the_turn (df_state sibling)) ?sibs")
    case (Some active)
    then have "s1 = s" using d q by (auto simp: stand_down_siblings_of_def Let_def)
    then show ?thesis by (simp split: sum.split)
  next
    case None
    have dist: "distinct (map df_id ?sibs)"
      using distinct_downloads_for_package [OF ok, of "df_package_id q"]
      by (auto simp: siblings_def distinct_map inj_on_def split: option.split)
    have here: "\<forall>x \<in> set ?sibs. is_contending (df_state x) \<longrightarrow> get_download (df_id x) (sc_store s) = Some x"
      using get_download_in [OF ok] by (auto simp: in_siblings)
    have out: "i \<notin> df_id ` set ?sibs" using get_download_Some [OF q(1)] by (auto simp: in_siblings mirrors_of_def)
    obtain s2 where s2: "stand_down env ?sibs now s = (Inr (), s2)" "get_download i (sc_store s2) = Some q"
      using stand_down_succeeds [OF ok dist here q(1) _ out, of env now] q(3) by auto
    then show ?thesis using d q None by (auto simp: stand_down_siblings_of_def Let_def as_answer_def)
  qed
qed

lemma resume_row_error:
  assumes ok: "store_ok (sc_store s)" and run: "resume_row env i now s = (Inl e, s')"
  shows "sc_store s' = sc_store s"
proof -
  obtain r s1 where d: "stand_down_siblings_of env i now s = (r, s1)" by fastforce
  show ?thesis
    using stand_down_siblings_error [OF ok d]
  proof
    assume "s1 = s \<and> (case r of Inl _ \<Rightarrow> True | Inr _ \<Rightarrow> True)"
    then have s1: "s1 = s" by simp
    show ?thesis
    proof (cases r)
      case (Inl e')
      then show ?thesis using run d s1 by (simp add: resume_row_def)
    next
      case (Inr u)
      obtain r2 st where q: "(if (case get_download i (sc_store s) of Some file \<Rightarrow> df_state file = Failed | None \<Rightarrow> False)
          then requeue_failed (ev_redact env) i False now (sc_store s) else (None, sc_store s)) = (r2, st)" by fastforce
      have r2: "r2 = None" using run d s1 Inr q by (cases r2) (simp_all add: resume_row_def Let_def)
      have st: "st = sc_store s"
        using q r2 by (auto simp: requeue_failed_def Let_def get_update state_simps fresh_budget_def split: if_splits option.splits)
      obtain r3 s3 where w: "write_store (transition_download (ev_redact env) i Queued now) (s\<lparr>sc_store := st\<rparr>) = (r3, s3)" by fastforce
      have "\<exists>e. r3 = Inl e" "s' = s3"
        using run d s1 Inr q r2 w by (auto simp: resume_row_def Let_def as_answer_def split: sum.splits)
      then have "s' = s\<lparr>sc_store := st\<rparr>" using w write_store_error by blast
      then show ?thesis by (simp add: st)
    qed
  next
    assume "r = Inr () \<and> (\<exists>q. get_download i (sc_store s1) = Some q \<and> df_state q = Skipped)"
    then obtain q where q: "r = Inr ()" "get_download i (sc_store s1) = Some q" "df_state q = Skipped" by blast
    have "\<exists>row st. transition_download (ev_redact env) i Queued now (sc_store s1) = Inr (row, st)"
      using q(2,3) by (simp add: transition_download_def transition_download_with_reason_def can_transition_to_def Let_def)
    then have False using run d q by (auto simp: resume_row_def Let_def as_answer_def write_store_def)
    then show ?thesis ..
  qed
qed

lemma resume_row_only_store: "\<exists>st. snd (resume_row env i now s) = s\<lparr>sc_store := st\<rparr>"
proof -
  have wr: "\<exists>st. snd (write_store f s) = s\<lparr>sc_store := st\<rparr>"
    for f :: "store \<Rightarrow> store_error + download_row \<times> store" and s :: "'s controller_scheme"
    by (cases s) (simp add: write_store_def split: sum.split prod.split)
  have down: "\<exists>st. snd (stand_down env sibs now s) = s\<lparr>sc_store := st\<rparr>" for sibs and s :: "'s controller_scheme"
  proof (induction sibs arbitrary: s)
    case (Cons x sibs)
    obtain r s1 where w: "write_store (transition_download (ev_redact env) (df_id x) Skipped now) s = (r, s1)" by fastforce
    obtain st where st: "s1 = s\<lparr>sc_store := st\<rparr>" using wr [of "transition_download (ev_redact env) (df_id x) Skipped now" s] w by auto
    show ?case using Cons.IH [of s] Cons.IH [of s1] w st by (cases r) auto
  qed (simp, metis scheduler.surjective scheduler.update_convs(1))
  have answers: "snd (as_answer x) = snd x" for x :: "(store_error + unit) \<times> 's controller_scheme"
    by (simp add: as_answer_def split: prod.split sum.split)
  have same: "\<exists>st. s = s\<lparr>sc_store := st\<rparr>" by (rule exI [of _ "sc_store s"]) simp
  have "\<exists>st. snd (stand_down_siblings_of env i now s) = s\<lparr>sc_store := st\<rparr>"
    by (simp add: stand_down_siblings_of_def Let_def answers down same split: option.split)
  moreover obtain r s1 where d: "stand_down_siblings_of env i now s = (r, s1)" by fastforce
  ultimately have "\<exists>st. s1 = s\<lparr>sc_store := st\<rparr>" by simp
  then obtain st1 where s1: "s1 = s\<lparr>sc_store := st1\<rparr>" by blast
  obtain r2 st where q: "(if (case get_download i (sc_store s1) of Some file \<Rightarrow> df_state file = Failed | None \<Rightarrow> False)
      then requeue_failed (ev_redact env) i False now (sc_store s1) else (None, sc_store s1)) = (r2, st)" by fastforce
  obtain r3 s3 where w: "write_store (transition_download (ev_redact env) i Queued now) (s1\<lparr>sc_store := st\<rparr>) = (r3, s3)" by fastforce
  obtain st3 where "s3 = s\<lparr>sc_store := st3\<rparr>"
    using wr [of "transition_download (ev_redact env) i Queued now" "s1\<lparr>sc_store := st\<rparr>"] w s1 by auto
  then show ?thesis
    using d q w s1 by (cases r; cases r2; cases r3) (auto simp: resume_row_def Let_def as_answer_def)
qed

lemma resume_row_refused:
  assumes "store_ok (sc_store s)" and "resume_row env i now s = (Inl e, s')"
  shows "s' = s"
proof -
  obtain st where "s' = s\<lparr>sc_store := st\<rparr>" using resume_row_only_store [of env i now s] assms(2) by auto
  then show ?thesis using resume_row_error [OF assms] by simp
qed

datatype control = DoPause | DoResume | DoCancel | DoBlock block_reason

fun control_run :: "control \<Rightarrow> scheduler_env \<Rightarrow> download_id \<Rightarrow> instant \<Rightarrow> 's controller_scheme \<Rightarrow> 's controller_scheme answer" where
  "control_run DoPause env i now s = control_pause env i now s"
| "control_run DoResume env i now s = control_resume env i now s"
| "control_run DoCancel env i now s = control_cancel env i now s"
| "control_run (DoBlock reason) env i now s = control_block env i reason now s"

lemma guard_released: "\<not> runs i (ct_active s) \<Longrightarrow> map_of (ac_reasons (ct_active (release_stop_guard i s))) i = None"
  by (simp add: release_stop_guard_def delete_conv')

lemma set_reason_simps [simp]:
  "sc_store (set_reason i reason s) = sc_store s" "runs j (ct_active (set_reason i reason s)) = runs j (ct_active s)"
  "ac_held (ct_active (set_reason i reason s)) = ac_held (ct_active s)"
  by (simp_all add: set_reason_def runs_def)

lemma guard_store [simp]: "sc_store (release_stop_guard i s) = sc_store s"
  by (simp add: release_stop_guard_def)

text \<open>Property C20. A refused control leaves no trace: when pausing, resuming, cancelling or blocking a file no
  worker runs is answered with an error, every row is as it was -- also where mirrors would have had
  to stand down first -- and no reason to stop stays behind that would keep the file from starting;
  only a resume that is refused because the file is held for a reset or removal does not even look at
  the reason, and changes nothing at all. A pause is refused exactly for a row that is gone, a
  cancellation exactly for a row that is gone or whose state cannot be cancelled.\<close>

theorem refused_control_leaves_no_trace:
  assumes ok: "store_ok (sc_store s)" and idle: "\<not> runs i (ct_active s)"
    and run: "control_run c env i now s = (res, s')"
  shows "(\<forall>e. res = Inl e \<longrightarrow>
            sc_store s' = sc_store s
            \<and> (if c = DoResume \<and> map_of (ac_held (ct_active s)) i \<noteq> None then s' = s
               else map_of (ac_reasons (ct_active s')) i = None))
    \<and> (c = DoPause \<longrightarrow> ((\<exists>e. res = Inl e) \<longleftrightarrow> get_download i (sc_store s) = None))
    \<and> (c = DoCancel \<longrightarrow> ((\<exists>e. res = Inl e) \<longleftrightarrow> (case get_download i (sc_store s) of
          None \<Rightarrow> True | Some r \<Rightarrow> \<not> can_transition_to (df_state r) Cancelled)))"
proof (cases c)
  case DoPause
  let ?s = "set_reason i StopPaused s"
  have "((\<exists>e. res = Inl e) \<longleftrightarrow> get_download i (sc_store s) = None) \<and> (\<forall>e. res = Inl e \<longrightarrow> s' = release_stop_guard i ?s)"
  proof (cases "get_download i (sc_store s)")
    case None
    then show ?thesis using run idle by (auto simp: DoPause control_pause_def Let_def as_answer_def)
  next
    case (Some r)
    show ?thesis
    proof (cases "df_state r \<in> {Queued, RetryWait}")
      case True
      have "can_transition_to (df_state r) Paused" using True by (auto simp: can_transition_to_def)
      then have "\<exists>row st. transition_download (ev_redact env) i Paused now (sc_store s) = Inr (row, st)"
        using Some by (simp add: transition_download_def transition_download_with_reason_def Let_def)
      then show ?thesis using run idle Some True
        by (auto simp: DoPause control_pause_def Let_def as_answer_def write_store_def)
    next
      case False
      then show ?thesis using run idle Some by (auto simp: DoPause control_pause_def Let_def as_answer_def)
    qed
  qed
  then show ?thesis using guard_released [of i ?s] idle by (auto simp: DoPause)
next
  case DoResume
  show ?thesis
  proof (cases "map_of (ac_held (ct_active s)) i")
    case None
    have "s' = release_stop_guard i s" if "res = Inl e" for e
      by (rule resume_row_refused) (use run None ok that in \<open>auto simp: DoResume control_resume_def\<close>)
    then show ?thesis using guard_released [OF idle] None by (auto simp: DoResume)
  next
    case (Some n)
    then show ?thesis using run by (simp add: DoResume control_resume_def)
  qed
next
  case DoCancel
  let ?s = "set_reason i StopCancelled s"
  let ?gone = "case get_download i (sc_store s) of None \<Rightarrow> True | Some r \<Rightarrow> \<not> can_transition_to (df_state r) Cancelled"
  have "((\<exists>e. res = Inl e) \<longleftrightarrow> ?gone) \<and> (\<forall>e. res = Inl e \<longrightarrow> s' = release_stop_guard i ?s)"
  proof (cases "get_download i (sc_store s)")
    case None
    then show ?thesis using run idle by (auto simp: DoCancel control_cancel_def Let_def)
  next
    case (Some r)
    show ?thesis
    proof (cases "can_transition_to (df_state r) Cancelled")
      case True
      then have "\<exists>row st. transition_download (ev_redact env) i Cancelled now (sc_store s) = Inr (row, st)"
        using Some by (simp add: transition_download_def transition_download_with_reason_def Let_def)
      then show ?thesis using run idle Some True
        by (auto simp: DoCancel control_cancel_def Let_def write_store_def)
    next
      case False
      then show ?thesis using run idle Some by (auto simp: DoCancel control_cancel_def Let_def)
    qed
  qed
  then show ?thesis using guard_released [of i ?s] idle by (auto simp: DoCancel)
next
  case (DoBlock reason)
  let ?s = "set_reason i (StopBlocked reason) s"
  have "s' = release_stop_guard i ?s" if "res = Inl e" for e
    using run idle that by (auto simp: DoBlock control_block_def Let_def as_answer_def write_store_def
        split: option.splits if_splits sum.splits)
  then show ?thesis using guard_released [of i ?s] idle by (auto simp: DoBlock)
qed

section \<open>Small supervisors\<close>

definition a_supervisor :: "download_row list \<Rightarrow> supervisor" where
  "a_supervisor rows = dispatcher.extend (a_dispatcher rows)
     \<lparr>sv_pause = None, sv_stored_pause = None, sv_window_files = [], sv_mark = None, sv_announced = []\<rparr>"

lemmas supervisor_sample_defs = dispatch_sample_defs a_supervisor_def dispatcher.defs

text \<open>A file paused by hand stays paused when the pause of the queue ends; the file the pause stopped goes on.\<close>

theorem pause_end_resumes_its_own_witness:
  "\<exists>r. get_download ''a'' (sc_store (snd (resume_queue an_env 9
      ((a_supervisor [a_row ''a'' Paused, a_row ''b'' Paused])\<lparr>sv_pause := Some \<lparr>qp_until = Some 8, qp_files = [''a''], qp_reason = ManualPause\<rparr>\<rparr>)))) = Some r
     \<and> df_state r = Queued"
proof -
  let ?p = "\<lparr>qp_until = Some 8, qp_files = [''a''], qp_reason = ManualPause\<rparr>"
  let ?s = "(a_supervisor [a_row ''a'' Paused, a_row ''b'' Paused])\<lparr>sv_pause := Some ?p\<rparr>"
  have ok: "store_ok (sc_store ?s)" by (simp add: store_ok_def supervisor_sample_defs)
  have g: "get_download ''a'' (sc_store ?s) = Some (a_row ''a'' Paused)" by (simp add: get_download_def supervisor_sample_defs)
  have k: "get_package (df_package_id (a_row ''a'' Paused)) (sc_store ?s) \<noteq> None"
    by (simp add: get_package_def supervisor_sample_defs)
  have p: "sv_pause ?s = Some ?p" by (simp add: supervisor_sample_defs)
  obtain n s' where r: "resume_queue an_env 9 ?s = (n, s')" by fastforce
  have "map_of (ac_held (ct_active ?s)) ''a'' = None" by (simp add: supervisor_sample_defs)
  then show ?thesis
    using pause_end_resumes_its_own [OF ok p r g k] r by (auto simp: a_row_def)
qed


theorem nothing_starts_under_a_pause_witness:
  "fst (snd (supervise_tick (a_dispatch_env 3) 5 (snd (pause_queue an_env (Some 9) pausable ManualPause 1 (a_supervisor [a_row ''a'' Queued]))))) = []"
proof -
  let ?s = "snd (pause_queue an_env (Some 9) pausable ManualPause 1 (a_supervisor [a_row ''a'' Queued]))"
  have steps: "sup_step\<^sup>*\<^sup>* (a_supervisor [a_row ''a'' Queued]) ?s" by (rule r_into_rtranclp) (rule sup_step.pauses)
  have ok: "pause_ok (a_supervisor [a_row ''a'' Queued])" by (simp add: pause_ok_def supervisor_sample_defs)
  obtain p where p: "sv_pause ?s = Some p" "qp_until p = Some 9"
    using pause_queue_rest(1) [OF prod.collapse [symmetric], of an_env "Some 9" pausable ManualPause 1 "a_supervisor [a_row ''a'' Queued]"]
    by (simp add: pause_queue_def Let_def)
  show ?thesis by (rule nothing_starts_under_a_pause [OF steps ok p(1)]) (simp add: p(2))
qed

theorem refused_control_leaves_no_trace_witness:
  "\<exists>e. fst (control_run DoCancel an_env ''a'' 5 (a_supervisor [a_row ''a'' Repairing])) = Inl e
     \<and> sc_store (snd (control_run DoCancel an_env ''a'' 5 (a_supervisor [a_row ''a'' Repairing])))
       = sc_store (a_supervisor [a_row ''a'' Repairing])"
proof -
  let ?s = "a_supervisor [a_row ''a'' Repairing]"
  have ok: "store_ok (sc_store ?s)" "\<not> runs ''a'' (ct_active ?s)" by (simp_all add: store_ok_def runs_def supervisor_sample_defs)
  obtain res s' where r: "control_run DoCancel an_env ''a'' 5 ?s = (res, s')" by fastforce
  have "get_download ''a'' (sc_store ?s) = Some (a_row ''a'' Repairing)"
    by (simp add: get_download_def supervisor_sample_defs)
  moreover have "df_state (a_row ''a'' Repairing) = Repairing" by (simp add: supervisor_sample_defs)
  moreover have "\<not> can_transition_to Repairing Cancelled" by (simp add: can_transition_to_def)
  ultimately show ?thesis using refused_control_leaves_no_trace [OF ok r] r by auto
qed

text \<open>
  A pause that ends before the workers it stopped have written their rows forgets those files: they are
  still at work when the end looks for paused ones, the record goes, and then their rows are paused.
\<close>

lemma early_end_forgets_the_stopping:
  "(let s = (a_supervisor [a_row ''a'' Downloading])\<lparr>ct_active := (ct_active (a_dispatcher []))\<lparr>ac_tokens := [(''a'', False)]\<rparr>\<rparr>;
        (pause, paused) = pause_queue_until an_env 8 5 s;
        (resumed, ended) = resume_queue an_env 6 paused;
        stopped = attempt_ends ''a'' (snd (transition_stopped an_env False ''a'' 7 ended))
    in (qp_files pause, resumed, states ended, states stopped, sv_pause stopped = None))
   = ([''a''], 0, [(''a'', Downloading)], [(''a'', Paused)], True)"
  by code_simp

end
