(* ===== verification/StorageProps.thy ===== *)
theory StorageProps
  imports StorageWatch QueuePausesProps
begin

text \<open>
  What the supervision of free space promises: a release lets something start, and restarts exactly
  what the block held back.
\<close>

section \<open>The same limit at the target and at the destination\<close>

text \<open>Two paths of one target stand under the same threshold, whichever of them is asked.\<close>

lemma same_target_same_limits:
  assumes "distinct (map rl_id (cp_roots c))" and "target_for p c = target_for q c"
  shows "capacity_limits p c = capacity_limits q c"
proof (cases "matching_root p c")
  case None
  then have "matching_root q c = None" using assms(2) by (simp add: target_for_def split: option.splits)
  with None show ?thesis by (simp add: capacity_limits_def)
next
  case (Some root)
  then obtain other where o: "matching_root q c = Some other" "rl_id other = rl_id root"
    using assms(2) by (auto simp: target_for_def split: option.splits)
  have "other = root"
    using assms(1) o(2) matching_rootD(1) [OF Some] matching_rootD(1) [OF o(1)]
    by (simp add: distinct_map inj_on_def)
  with Some o show ?thesis by (simp add: capacity_limits_def)
qed

section \<open>Resuming blocked rows\<close>

text \<open>A blocked row nobody holds is queued by a resume, and no other row is written.\<close>

lemma resume_blocked:
  assumes ok: "store_ok (sc_store s)" and row: "get_download i (sc_store s) = Some r" "df_state r = Blocked"
  obtains (held) "map_of (ac_held (ct_active s)) i \<noteq> None" "snd (control_resume env i now s) = s"
  | (queued) s' where "map_of (ac_held (ct_active s)) i = None" "snd (control_resume env i now s) = s'"
      "writes_one i (moved_row Queued None now) (sc_store s) (sc_store s')" "ac_held (ct_active s') = ac_held (ct_active s)"
proof (cases "map_of (ac_held (ct_active s)) i")
  case (Some n)
  then show thesis using held by (simp add: control_resume_def)
next
  case None
  let ?s = "release_stop_guard i s"
  have legal: "can_transition_to (df_state r) Queued" by (simp add: row(2) can_transition_to_def)
  obtain st where t: "transition_download_with_reason (ev_redact env) i Queued None now (sc_store ?s) = Inr (moved_row Queued None now r, st)"
    and w: "writes_one i (moved_row Queued None now) (sc_store s) st"
    using transition_writes [OF ok row(1) legal, of "ev_redact env" None now] by auto
  have "control_resume env i now s = (Inr (), ?s\<lparr>sc_store := st\<rparr>)"
    using None row t
    by (simp add: control_resume_def resume_row_def stand_down_siblings_of_def as_answer_def write_store_def
        transition_download_def Let_def)
  then show thesis using queued [of "?s\<lparr>sc_store := st\<rparr>"] None w by (simp add: release_stop_guard_def)
qed

lemma resume_each_blocked:
  assumes "store_ok (sc_store s)" and "distinct (map df_id files)"
    and "\<forall>f \<in> set files. df_state f = Blocked \<and> get_download (df_id f) (sc_store s) = Some f"
    and "get_download j (sc_store s) = Some r"
  shows "store_ok (sc_store (resume_each env now files s))
    \<and> (\<exists>r'. get_download j (sc_store (resume_each env now files s)) = Some r'
       \<and> (if j \<in> df_id ` set files \<and> map_of (ac_held (ct_active s)) j = None
          then df_state r' = Queued \<and> dr_block_reason r' = None else settles r r'))"
  using assms
proof (induction files arbitrary: s r)
  case (Cons f files)
  let ?s = "snd (control_resume env (df_id f) now s)"
  have f: "get_download (df_id f) (sc_store s) = Some f" "df_state f = Blocked" using Cons.prems(3) by simp_all
  have step: "resume_each env now (f # files) s = resume_each env now files ?s" by (simp add: resume_each_def)
  have new: "df_id f \<notin> df_id ` set files" "distinct (map df_id files)" using Cons.prems(2) by simp_all
  show ?case
    using Cons.prems(1) f
  proof (cases rule: resume_blocked [where env = env and now = now])
    case held
    then show ?thesis
      unfolding step using Cons.IH [of s r] Cons.prems new by (cases "j = df_id f") auto
  next
    case (queued s')
    note w = queued(3)
    have ok': "store_ok (sc_store s')" by (rule writes_oneD(1) [OF w])
    have others: "get_download (df_id g) (sc_store s') = Some g" if g: "g \<in> set files" for g
    proof -
      have ne: "df_id g \<noteq> df_id f" using new(1) g by (metis imageI)
      have gg: "get_download (df_id g) (sc_store s) = Some g" "df_state g \<noteq> Verifying" using Cons.prems(3) g by auto
      show ?thesis using writes_oneD(4) [OF w gg(1)] ne settles_only [OF gg(2)] by auto
    qed
    obtain r1 where r1: "get_download j (sc_store s') = Some r1"
      "settles (if j = df_id f then moved_row Queued None now r else r) r1"
      using writes_oneD(4) [OF w Cons.prems(4)] by blast
    have ih: "store_ok (sc_store (resume_each env now files s'))
      \<and> (\<exists>r'. get_download j (sc_store (resume_each env now files s')) = Some r'
       \<and> (if j \<in> df_id ` set files \<and> map_of (ac_held (ct_active s')) j = None
          then df_state r' = Queued \<and> dr_block_reason r' = None else settles r1 r'))"
      by (rule Cons.IH [OF ok' new(2) _ r1(1)]) (use others Cons.prems(3) in auto)
    then obtain r' where r': "get_download j (sc_store (resume_each env now files s')) = Some r'"
      "if j \<in> df_id ` set files \<and> map_of (ac_held (ct_active s)) j = None
          then df_state r' = Queued \<and> dr_block_reason r' = None else settles r1 r'"
      using queued(4) by auto
    have "if j \<in> df_id ` set (f # files) \<and> map_of (ac_held (ct_active s)) j = None
          then df_state r' = Queued \<and> dr_block_reason r' = None else settles r r'"
    proof (cases "j = df_id f")
      case True
      have "df_state (moved_row Queued None now r) \<noteq> Verifying" by (simp add: moved_row_def)
      then have e: "r1 = moved_row Queued None now r" using settles_only r1(2) True by auto
      have "settles r1 r'" using r'(2) new(1) True by simp
      then have "r' = r1" by (rule settles_only [rotated]) (simp add: e moved_row_def)
      then show ?thesis using True queued(1) by (simp add: e moved_row_def)
    next
      case False
      then show ?thesis using r' r1(2) by (auto intro: settles_trans split: if_splits)
    qed
    then show ?thesis unfolding step queued(2) using ih r'(1) by blast
  qed
qed (auto simp: resume_each_def)

section \<open>The release of a target\<close>

definition on_target :: "storage_target \<Rightarrow> 's dispatcher_scheme \<Rightarrow> download_row \<Rightarrow> bool" where
  "on_target target s r \<longleftrightarrow>
     (\<exists>package \<in> set (st_packages (sc_store s)). pk_id package = df_package_id r \<and> pk_destination package \<noteq> []
        \<and> target_for (pk_destination package) (dp_capacity s) = target)"

lemma in_destinations:
  "(p, d) \<in> set (destinations_of packages) \<longleftrightarrow> (\<exists>k \<in> set packages. pk_id k = p \<and> pk_destination k = d \<and> d \<noteq> [])"
  by (auto simp: destinations_of_def)

lemma set_downloads_of:
  "f \<in> set (downloads_of target matches s) \<longleftrightarrow> f \<in> set (st_downloads (sc_store s)) \<and> matches f \<and> on_target target s f"
proof -
  have "f \<in> set (concat (map (\<lambda>(p, d). if target_for d (dp_capacity s) \<noteq> target then []
                    else filter matches (downloads_for_package p (sc_store s))) ds))
      \<longleftrightarrow> f \<in> set (st_downloads (sc_store s)) \<and> matches f
        \<and> (\<exists>d. (df_package_id f, d) \<in> set ds \<and> target_for d (dp_capacity s) = target)" for ds
    by (induction ds) auto
  then show ?thesis by (auto simp: downloads_of_def in_destinations on_target_def)
qed

lemma distinct_downloads_of:
  assumes "store_ok (sc_store s)"
  shows "distinct (map df_id (downloads_of target matches s))"
proof -
  have pk: "distinct (map pk_id (st_packages (sc_store s)))" using assms by (simp add: store_ok_def)
  have "distinct (map df_id (concat (map (\<lambda>(p, destination).
                    if target_for destination (dp_capacity s) \<noteq> target then []
                    else filter matches (downloads_for_package p (sc_store s))) ds)))"
    if "distinct (map fst ds)" for ds
    using that
  proof (induction ds)
    case (Cons d ds)
    obtain p dest where d: "d = (p, dest)" by fastforce
    have one: "distinct (map df_id (filter matches (downloads_for_package p (sc_store s))))"
      using distinct_downloads_for_package [OF assms, of p] by (simp add: distinct_map_filter)
    have "df_id x \<noteq> df_id y" if "x \<in> set (downloads_for_package p (sc_store s))"
      "y \<in> set (downloads_for_package q (sc_store s))" "(q, dest') \<in> set ds" for x y q dest'
    proof
      assume e: "df_id x = df_id y"
      have "x = y" using row_unique [OF assms _ _ e] that(1,2) by simp
      then have "p = q" using that(1,2) by auto
      then show False using Cons.prems d that(3) by force
    qed
    then show ?case using Cons one d by (auto simp: image_iff)
  qed simp
  moreover have "distinct (map fst (destinations_of (st_packages (sc_store s))))"
    using pk by (simp add: destinations_of_def o_def distinct_map_filter)
  ultimately show ?thesis by (simp add: downloads_of_def)
qed

lemma blocked_for_capacity_row:
  assumes "store_ok (sc_store s)" and "f \<in> set (st_downloads (sc_store s))"
  shows "blocked_for_capacity s f \<longleftrightarrow> df_state f = Blocked \<and> dr_block_reason f = Some ''capacity''"
proof
  assume "blocked_for_capacity s f"
  then obtain x where "x \<in> set (st_downloads (sc_store s))" "df_id f = df_id x" "df_state x = Blocked" "dr_block_reason x = Some ''capacity''"
    by (auto simp: blocked_for_capacity_def downloads_blocked_by_def block_reason_as_str_def)
  moreover from this have "f = x" using row_unique [OF assms(1,2)] by simp
  ultimately show "df_state f = Blocked \<and> dr_block_reason f = Some ''capacity''" by simp
next
  assume "df_state f = Blocked \<and> dr_block_reason f = Some ''capacity''"
  then show "blocked_for_capacity s f"
    using assms(2) by (auto simp: blocked_for_capacity_def downloads_blocked_by_def block_reason_as_str_def)
qed

lemma requeue_facts:
  assumes ok: "store_ok (sc_store s)" and row: "get_download j (sc_store s) = Some r"
  shows "\<exists>r'. get_download j (sc_store (requeue_capacity_blocked_of env target now s)) = Some r'
       \<and> (if df_state r = Blocked \<and> dr_block_reason r = Some ''capacity'' \<and> on_target target s r
            \<and> map_of (ac_held (ct_active s)) j = None
          then df_state r' = Queued \<and> dr_block_reason r' = None else settles r r')"
proof -
  let ?files = "downloads_of target (blocked_for_capacity s) s"
  have here: "\<forall>f \<in> set ?files. df_state f = Blocked \<and> get_download (df_id f) (sc_store s) = Some f"
    using blocked_for_capacity_row [OF ok] get_download_in [OF ok] by (auto simp: set_downloads_of)
  have in_r: "r \<in> set (st_downloads (sc_store s))" "df_id r = j" using get_download_Some [OF row] by simp_all
  have "j \<in> df_id ` set ?files \<longleftrightarrow> r \<in> set ?files"
  proof
    assume "j \<in> df_id ` set ?files"
    then obtain f where f: "j = df_id f" "f \<in> set ?files" by (rule imageE)
    then have "f = r" using here row by auto
    then show "r \<in> set ?files" using f(2) by simp
  next
    assume "r \<in> set ?files"
    then show "j \<in> df_id ` set ?files" using imageI [of r "set ?files" df_id] in_r(2) by simp
  qed
  also have "\<dots> \<longleftrightarrow> df_state r = Blocked \<and> dr_block_reason r = Some ''capacity'' \<and> on_target target s r"
    using in_r(1) blocked_for_capacity_row [OF ok in_r(1)] by (auto simp: set_downloads_of)
  finally show ?thesis
    using resume_each_blocked [OF ok distinct_downloads_of [OF ok] here row, of env now]
    by (simp add: requeue_capacity_blocked_of_def conj_assoc)
qed

lemma mark_target_facts:
  assumes "mark_target target short s = (changed, s')"
  shows "sc_store s' = sc_store s" "ct_active s' = ct_active s" "on_target t s' r = on_target t s r"
    "changed \<longleftrightarrow> (is_blocked target (dp_capacity s) \<longleftrightarrow> short = None)"
    "is_blocked t (dp_capacity s') \<longleftrightarrow> (if t = target then short \<noteq> None else is_blocked t (dp_capacity s))"
proof -
  have e: "s' = s\<lparr>dp_capacity := snd (set_blocked target short (dp_capacity s))\<rparr>"
    "changed = fst (set_blocked target short (dp_capacity s))"
    using assms by (auto simp: mark_target_def split: prod.splits)
  have "cp_roots (snd (set_blocked target short c)) = cp_roots c" for c
    by (cases short) (simp_all add: set_blocked_def)
  then have "target_for d (snd (set_blocked target short c)) = target_for d c" for d c
    by (simp add: target_for_def matching_root_def)
  then show "on_target t s' r = on_target t s r" by (simp add: e(1) on_target_def)
  show "sc_store s' = sc_store s" "ct_active s' = ct_active s" by (simp_all add: e(1))
  show "changed \<longleftrightarrow> (is_blocked target (dp_capacity s) \<longleftrightarrow> short = None)"
    by (cases short) (simp_all add: e(2) set_blocked_def is_blocked_def)
  show "is_blocked t (dp_capacity s') \<longleftrightarrow> (if t = target then short \<noteq> None else is_blocked t (dp_capacity s))"
    by (simp add: e(1))
qed

lemma resume_each_capacity: "dp_capacity (resume_each env now files s) = dp_capacity s"
proof -
  have "dp_capacity s2 = dp_capacity s1" if "same_rest s1 s2" for s1 s2 :: "'a dispatcher_scheme"
    using that by (cases s1; cases s2) (simp add: same_rest_def)
  from this [OF same_rest_fold [where f = "\<lambda>file s. snd (control_resume env (df_id file) now s)" and xs = files]]
  show ?thesis by (simp add: resume_each_def control_resume_rest)
qed

text \<open>Property C21. Releasing a destination restarts exactly what its block held back: it releases a blocked target and
  nothing else, then every download blocked for space on that target (and not under a reset) is queued
  and its reason gone, and every other row stays, also one blocked for another reason or elsewhere,
  except that held-back verdicts which fall due are taken.\<close>

theorem release_restarts_what_it_held:
  assumes ok: "store_ok (sc_store s)" and run: "resume_storage env target now s = (released, s')"
    and row: "get_download j (sc_store s) = Some r"
  shows "(released \<longleftrightarrow> is_blocked target (dp_capacity s))
    \<and> (\<forall>t. is_blocked t (dp_capacity s') \<longleftrightarrow> t \<noteq> target \<and> is_blocked t (dp_capacity s))
    \<and> (\<exists>r'. get_download j (sc_store s') = Some r'
       \<and> (if released \<and> df_state r = Blocked \<and> dr_block_reason r = Some ''capacity'' \<and> on_target target s r
            \<and> map_of (ac_held (ct_active s)) j = None
          then df_state r' = Queued \<and> dr_block_reason r' = None else settles r r'))"
proof -
  obtain changed s1 where m: "mark_target target None s = (changed, s1)" by fastforce
  note mf = mark_target_facts [OF m]
  show ?thesis
  proof (cases changed)
    case False
    then have "released = False" "s' = s1" using run m by (simp_all add: resume_storage_def)
    then show ?thesis using False mf row by auto
  next
    case True
    then have s': "released = True" "s' = persist_capacity_blocks TargetReleased target (requeue_capacity_blocked_of env target now s1)"
      using run m by (simp_all add: resume_storage_def)
    have keep: "sc_store s' = sc_store (requeue_capacity_blocked_of env target now s1)" "dp_capacity s' = dp_capacity s1"
      by (simp_all add: s' persist_capacity_blocks_def Let_def requeue_capacity_blocked_of_def resume_each_capacity)
    have "\<exists>r'. get_download j (sc_store s') = Some r'
       \<and> (if df_state r = Blocked \<and> dr_block_reason r = Some ''capacity'' \<and> on_target target s r
            \<and> map_of (ac_held (ct_active s)) j = None
          then df_state r' = Queued \<and> dr_block_reason r' = None else settles r r')"
      using requeue_facts [of s1 j r env target now] ok row unfolding mf keep(1) by simp
    then show ?thesis using True mf(4,5) s'(1) keep(2) by auto
  qed
qed

lemma released_keeps_the_check:
  assumes "mark_target target None s = (changed, s1)"
  shows "capacity_evaluate d free required (dp_capacity s1) = capacity_evaluate d free required (dp_capacity s)"
proof -
  have "s1 = s\<lparr>dp_capacity := snd (set_blocked target None (dp_capacity s))\<rparr>"
    using assms by (auto simp: mark_target_def split: prod.splits)
  then show ?thesis
    by (simp add: capacity_evaluate_def capacity_limits_def matching_root_def set_blocked_def cong: option.case_cong)
qed

text \<open>Property C22. A destination is released by itself only when that lets something start: for a watched
  path that belongs to the target -- so not for the fallback target when its directory lies inside a
  root -- its threshold is free again and, where downloads wait on it, one of them passes the very check
  its start is asked, at its own destination and with its remaining size. So as long as the file system
  reports the same free space, its next start is let through and blocks nothing. The roots have
  distinct ids.\<close>

theorem release_lets_a_file_start:
  assumes roots: "distinct (map rl_id (cp_roots (dp_capacity s)))" and path: "target_for p (dp_capacity s) = target"
    and blocked: "is_blocked target (dp_capacity s)"
    and s': "s' = supervise_target env target p free now s"
    and released: "\<not> is_blocked target (dp_capacity s')"
  shows "minimum_free_bytes p (dp_capacity s) \<le> free \<and> ss_auto_resume (cp_settings (dp_capacity s))
    \<and> ((\<forall>r \<in> set (st_downloads (sc_store s)). on_target target s r \<longrightarrow> \<not> waits_on_target s r)
       \<or> (\<exists>r \<in> set (st_downloads (sc_store s)). waits_on_target s r
            \<and> (\<exists>package \<in> set (st_packages (sc_store s)). pk_id package = df_package_id r
                 \<and> target_for (pk_destination package) (dp_capacity s) = target
                 \<and> (\<forall>probe. probe (pk_destination package) = Some free \<longrightarrow>
                      ensure_capacity (pk_destination package) probe (remaining_bytes r) s' = (True, s')))))"
proof -
  have enough: "\<not> free < minimum_free_bytes p (dp_capacity s)"
  proof
    assume less: "free < minimum_free_bytes p (dp_capacity s)"
    let ?short = "\<lparr>cs_required_bytes = minimum_free_bytes p (dp_capacity s), cs_free_bytes = free,
      cs_minimum_free_bytes = minimum_free_bytes p (dp_capacity s), cs_size_known = True\<rparr>"
    obtain changed s1 where m: "mark_target target (Some ?short) s = (changed, s1)" by fastforce
    have "changed = False" using mark_target_facts(4) [OF m] blocked by simp
    then have "supervise_target env target p free now s = s1"
      using m less by (simp add: supervise_target_def Let_def record_storage_block_def)
    then show False using mark_target_facts(5) [OF m] released s' by simp
  qed
  have c: "ss_auto_resume (cp_settings (dp_capacity s)) \<and> something_could_start target p free s"
  proof (rule ccontr)
    assume "\<not> ?thesis"
    then have "supervise_target env target p free now s = s" using enough by (auto simp: supervise_target_def Let_def)
    then show False using blocked released s' by simp
  qed
  obtain changed s1 where m: "mark_target target None s = (changed, s1)" by fastforce
  have "changed" using mark_target_facts(4) [OF m] blocked by simp
  then have "dp_capacity s' = dp_capacity s1"
    using m enough c blocked by (simp add: s' supervise_target_def Let_def persist_capacity_blocks_def
        requeue_capacity_blocked_of_def resume_each_capacity)
  then have starts: "ensure_capacity d probe required s' = (True, s')"
    if "verdict_ok (capacity_evaluate d free required (dp_capacity s))" "probe d = Some free" for d probe required
    using that released_keeps_the_check [OF m, of d free required]
    by (auto simp: ensure_capacity_def verdict_ok_def split: capacity_verdict.splits)
  have "(\<forall>r \<in> set (st_downloads (sc_store s)). on_target target s r \<longrightarrow> \<not> waits_on_target s r)
       \<or> (\<exists>r \<in> set (st_downloads (sc_store s)). waits_on_target s r
            \<and> (\<exists>package \<in> set (st_packages (sc_store s)). pk_id package = df_package_id r
                 \<and> target_for (pk_destination package) (dp_capacity s) = target
                 \<and> verdict_ok (capacity_evaluate (pk_destination package) free (remaining_bytes r) (dp_capacity s))))"
  proof (cases "downloads_of target (waits_on_target s) s = []")
    case True
    then have "\<And>r. r \<notin> set (downloads_of target (waits_on_target s) s)" by simp
    then show ?thesis by (auto simp: set_downloads_of)
  next
    case False
    then obtain r where r: "r \<in> set (downloads_of target (waits_on_target s) s)"
      "verdict_ok (capacity_evaluate p free (remaining_bytes r) (dp_capacity s))"
      using c by (auto simp: something_could_start_def Let_def list_ex_iff)
    then obtain package where k: "package \<in> set (st_packages (sc_store s))" "pk_id package = df_package_id r"
      "target_for (pk_destination package) (dp_capacity s) = target"
      by (auto simp: set_downloads_of on_target_def)
    have "capacity_limits (pk_destination package) (dp_capacity s) = capacity_limits p (dp_capacity s)"
      by (rule same_target_same_limits [OF roots]) (simp add: k(3) path)
    then have "verdict_ok (capacity_evaluate (pk_destination package) free (remaining_bytes r) (dp_capacity s))"
      using r(2) by (simp add: capacity_evaluate_def)
    then show ?thesis using r(1) k by (auto simp: set_downloads_of)
  qed
  with enough c starts show ?thesis by (fastforce simp: not_less)
qed

text \<open>
  A target the start check has blocked already is not blocked again when its free space falls below the
  threshold, and only a fresh block stops the transfers on it: they run on below the reserve.
\<close>

lemma blocked_target_keeps_its_transfers:
  assumes "is_blocked target (dp_capacity s)" and "free < minimum_free_bytes p (dp_capacity s)"
  shows "sc_store (supervise_target env target p free now s) = sc_store s
    \<and> ct_active (supervise_target env target p free now s) = ct_active s"
proof -
  let ?short = "\<lparr>cs_required_bytes = minimum_free_bytes p (dp_capacity s), cs_free_bytes = free,
    cs_minimum_free_bytes = minimum_free_bytes p (dp_capacity s), cs_size_known = True\<rparr>"
  obtain changed s1 where m: "mark_target target (Some ?short) s = (changed, s1)" by fastforce
  have "changed = False" using mark_target_facts(4) [OF m] assms(1) by simp
  then have "supervise_target env target p free now s = s1"
    using m assms(2) by (simp add: supervise_target_def Let_def record_storage_block_def)
  then show ?thesis using mark_target_facts(1,2) [OF m] by simp
qed

text \<open>
  The fallback target is watched under the threshold of the root its directory lies in, while the
  destinations it stands for, outside every root, are started under the global one.
\<close>

lemma fallback_inside_a_root:
  "(let c = a_capacity\<lparr>cp_fallback := Some ''/data/media/dl''\<rparr>
    in (target_for ''/elsewhere'' c, map fst (filter (\<lambda>(t, p). p = ''/data/media/dl'') (capacity_targets c)),
        minimum_free_bytes ''/elsewhere'' c, minimum_free_bytes ''/data/media/dl'' c))
   = (Fallback, [Fallback], 100, 500)"
  by code_simp

section \<open>A small watch\<close>

definition a_shortfall :: capacity_shortfall where
  "a_shortfall = \<lparr>cs_required_bytes = 100, cs_free_bytes = 20, cs_minimum_free_bytes = 100, cs_size_known = True\<rparr>"

definition a_watch :: "download_row list \<Rightarrow> storage_watch" where
  "a_watch rows = dispatcher.extend
     ((a_dispatcher rows)\<lparr>dp_capacity := (dp_capacity (a_dispatcher []))\<lparr>cp_blocked := [(Fallback, a_shortfall)]\<rparr>\<rparr>)
     \<lparr>sw_blocks = [], sw_announced = []\<rparr>"

lemmas watch_sample_defs = dispatch_sample_defs a_watch_def dispatcher.defs

lemma a_watch_target: "target_for d (dp_capacity (a_watch rows)) = Fallback" "is_blocked Fallback (dp_capacity (a_watch rows))"
  by (simp_all add: target_for_def matching_root_def is_blocked_def watch_sample_defs)

theorem release_restarts_what_it_held_witness:
  "\<exists>r. get_download ''a'' (sc_store (snd (resume_storage an_env Fallback 5
      (a_watch [(a_row ''a'' Blocked)\<lparr>dr_block_reason := Some ''capacity''\<rparr>])))) = Some r \<and> df_state r = Queued"
proof -
  let ?r = "(a_row ''a'' Blocked)\<lparr>dr_block_reason := Some ''capacity''\<rparr>"
  let ?s = "a_watch [?r]"
  have ok: "store_ok (sc_store ?s)" by (simp add: store_ok_def watch_sample_defs)
  have g: "get_download ''a'' (sc_store ?s) = Some ?r" by (simp add: get_download_def watch_sample_defs)
  have t: "on_target Fallback ?s ?r"
    unfolding on_target_def a_watch_target by (simp add: watch_sample_defs)
  have h: "map_of (ac_held (ct_active ?s)) ''a'' = None" by (simp add: watch_sample_defs)
  obtain released s' where r: "resume_storage an_env Fallback 5 ?s = (released, s')" by fastforce
  show ?thesis
    using release_restarts_what_it_held [OF ok r g] r t h a_watch_target(2) by (auto simp: a_row_def)
qed

theorem release_lets_a_file_start_witness:
  "fst (ensure_capacity (pk_destination a_package) (\<lambda>_. Some 500) (Some 300)
     (supervise_target an_env Fallback ''/downloads'' 500 5
        (a_watch [(a_row ''a'' Blocked)\<lparr>dr_block_reason := Some ''capacity'', df_total_bytes := Some 300\<rparr>])))"
proof -
  let ?r = "(a_row ''a'' Blocked)\<lparr>dr_block_reason := Some ''capacity'', df_total_bytes := Some 300\<rparr>"
  let ?s = "a_watch [?r]"
  have ok: "store_ok (sc_store ?s)" by (simp add: store_ok_def watch_sample_defs)
  have min: "minimum_free_bytes p (dp_capacity ?s) = 100" for p
    by (simp add: minimum_free_bytes_def capacity_limits_def matching_root_def watch_sample_defs)
  have auto: "ss_auto_resume (cp_settings (dp_capacity ?s))" by (simp add: watch_sample_defs)
  have rows: "st_downloads (sc_store ?s) = [?r]" and packages: "st_packages (sc_store ?s) = [a_package]"
    by (simp_all add: watch_sample_defs)
  have t: "on_target Fallback ?s ?r"
    unfolding on_target_def a_watch_target by (simp add: watch_sample_defs)
  have w: "waits_on_target ?s ?r"
    unfolding waits_on_target_def using blocked_for_capacity_row [OF ok, of ?r] rows by (simp add: a_row_def)
  have rem: "remaining_bytes ?r = Some 300"
    by (simp add: remaining_bytes_def sat_sub_def a_row_def)
  have "verdict_ok (capacity_evaluate ''/downloads'' 500 (remaining_bytes ?r) (dp_capacity ?s))"
    unfolding rem
    by (simp add: capacity_evaluate_def capacity_limits_def matching_root_def evaluate_capacity_def Let_def verdict_ok_def
        sat_add_def watch_sample_defs)
  moreover have "?r \<in> set (downloads_of Fallback (waits_on_target ?s) ?s)"
    unfolding set_downloads_of using t w rows by simp
  ultimately have can: "something_could_start Fallback ''/downloads'' 500 ?s"
    unfolding something_could_start_def Let_def list_ex_iff by blast
  obtain changed s1 where m: "mark_target Fallback None ?s = (changed, s1)" by fastforce
  have "changed" using mark_target_facts(4) [OF m] a_watch_target(2) by simp
  then have "supervise_target an_env Fallback ''/downloads'' 500 5 ?s
      = persist_capacity_blocks TargetReleased Fallback (requeue_capacity_blocked_of an_env Fallback 5 s1)"
    using m auto can a_watch_target(2) by (simp add: supervise_target_def Let_def min)
  then have rel: "\<not> is_blocked Fallback (dp_capacity (supervise_target an_env Fallback ''/downloads'' 500 5 ?s))"
    using mark_target_facts(5) [OF m]
    by (simp add: persist_capacity_blocks_def Let_def requeue_capacity_blocked_of_def resume_each_capacity)
  have roots: "distinct (map rl_id (cp_roots (dp_capacity ?s)))" by (simp add: watch_sample_defs)
  from release_lets_a_file_start [OF roots a_watch_target(1,2) refl rel] t w
  show ?thesis unfolding rows packages by (fastforce simp: rem)
qed

end
