(* ===== verification/Chunks.thy ===== *)
theory Chunks
  imports Failures
begin

text \<open>
  How the HTTP engine splits a file (\<open>rd-http/src/plan.rs\<close>), the byte range of a hashed piece
  (\<open>rd-core/src/source_set.rs\<close>), and the check that a layout is responsible for every byte of the
  file (\<open>rd-http/src/engine/resume.rs\<close>). Offsets are unsigned words of 64 bits as in the code,
  their products and sums wrap unless the code saturates; \<open>usize\<close> has 64 bits too. The
  identifiers of new chunks are drawn at random in the code; they are an argument here.
\<close>

lemma u64_bound: "unat a < 18446744073709551616" for a :: u64
  using unsigned_less [of a] by simp

lemma unat_word_max: "unat (max a b) = max (unat a) (unat b)" for a b :: "'a::len word"
  by (simp add: max_def word_le_nat_alt)

section \<open>Chunks\<close>

type_synonym chunk_id = ident

record chunk_spec =
  ck_id :: chunk_id
  ck_start :: u64
  ck_end :: "u64 option"
  ck_committed :: u64

definition is_complete :: "chunk_spec \<Rightarrow> bool" where
  "is_complete c = (case ck_end c of Some e \<Rightarrow> e \<le> ck_committed c | None \<Rightarrow> False)"

definition MIN_CHUNK_SIZE :: u64 where
  "MIN_CHUNK_SIZE = 4 * 1024 * 1024"

text \<open>\<open>u64::div_ceil\<close>: the divisor is positive at every call.\<close>

definition div_ceil :: "u64 \<Rightarrow> u64 \<Rightarrow> u64" where
  "div_ceil a b = (let q = a div b; r = a mod b in if r > 0 then q + 1 else q)"

definition clamp :: "u64 \<Rightarrow> u64 \<Rightarrow> u64 \<Rightarrow> u64" where
  "clamp x lo hi = (if x < lo then lo else if x > hi then hi else x)"

section \<open>Plans\<close>

definition plan_chunks :: "(nat \<Rightarrow> chunk_id) \<Rightarrow> u64 option \<Rightarrow> bool \<Rightarrow> u64 \<Rightarrow> chunk_spec list" where
  "plan_chunks ids tot accepts_ranges max_chunks =
     (case tot of
        None \<Rightarrow> [\<lparr>ck_id = ids 0, ck_start = 0, ck_end = None, ck_committed = 0\<rparr>]
      | Some tot \<Rightarrow>
          if tot = 0 then [\<lparr>ck_id = ids 0, ck_start = 0, ck_end = Some 0, ck_committed = 0\<rparr>]
          else
            let possible = div_ceil tot MIN_CHUNK_SIZE;
                count = (if accepts_ranges then clamp max_chunks 1 (max possible 1) else 1);
                chunk_size = div_ceil tot count
            in map (\<lambda>index.
                 let start = of_nat index * chunk_size;
                     stop = min ((of_nat index + 1) * chunk_size) tot
                 in \<lparr>ck_id = ids index, ck_start = start, ck_end = Some stop, ck_committed = start\<rparr>)
               [0..<unat count])"

text \<open>The loop of \<open>plan_aligned_chunks\<close>: \<open>width\<close> (the code's \<open>size\<close>) is positive at its call, so \<open>start\<close> grows.\<close>

function aligned_from :: "(nat \<Rightarrow> chunk_id) \<Rightarrow> u64 \<Rightarrow> u64 \<Rightarrow> nat \<Rightarrow> u64 \<Rightarrow> chunk_spec list" where
  "aligned_from ids tot width index start =
     (if start < tot \<and> width > 0 then
        let stop = min (sat_add start width) tot in
        \<lparr>ck_id = ids index, ck_start = start, ck_end = Some stop, ck_committed = start\<rparr>
          # aligned_from ids tot width (index + 1) stop
      else [])"
  by pat_completeness auto
termination
proof (relation "measure (\<lambda>(ids, tot, width, index, start). unat tot - unat start)")
  fix ids :: "nat \<Rightarrow> chunk_id" and tot width start x :: u64 and index :: nat
  assume "start < tot \<and> 0 < width" and x: "x = min (sat_add start width) tot"
  then have "unat start < unat tot" and "0 < unat width" by (simp_all add: word_less_nat_alt)
  moreover have "unat x = min (min (unat start + unat width) 18446744073709551615) (unat tot)"
    unfolding x unat_min unat_sat_add by simp
  ultimately have "unat start < unat x" and "unat start < unat tot" using u64_bound [of tot] by auto
  then show "((ids, tot, width, index + 1, x), ids, tot, width, index, start)
      \<in> measure (\<lambda>(ids, tot, width, index, start). unat tot - unat start)" by simp
qed simp

declare aligned_from.simps [simp del]

definition plan_aligned_chunks :: "(nat \<Rightarrow> chunk_id) \<Rightarrow> u64 \<Rightarrow> u64 \<Rightarrow> u64 \<Rightarrow> chunk_spec list" where
  "plan_aligned_chunks ids tot max_chunks align =
     (let align = max align 1 in
      if tot = 0 then plan_chunks ids (Some 0) True 1
      else
        let least = max MIN_CHUNK_SIZE align;
            possible = div_ceil tot least;
            count = clamp max_chunks 1 (max possible 1);
            width = max (sat_mul (div_ceil (div_ceil tot count) align) align) align
        in aligned_from ids tot width 0 0)"

definition chunks_aligned :: "chunk_spec list \<Rightarrow> u64 \<Rightarrow> u64 \<Rightarrow> bool" where
  "chunks_aligned chunks align tot =
     (let align = max align 1 in
      list_all (\<lambda>chunk. ck_start chunk mod align = 0
        \<and> (case ck_end chunk of Some e \<Rightarrow> e mod align = 0 \<or> e = tot | None \<Rightarrow> False)) chunks)"

section \<open>Pieces\<close>

record piece_hashes =
  ph_algorithm :: string
  ph_length :: u64
  ph_hashes :: "string list"

definition piece_range :: "piece_hashes \<Rightarrow> nat \<Rightarrow> u64 \<Rightarrow> u64 \<times> u64" where
  "piece_range p index tot =
     (let start = sat_mul (of_nat index) (ph_length p)
      in (min start tot, min (sat_add start (ph_length p)) tot))"

section \<open>Whether a layout is responsible for the whole file\<close>

fun reach_of :: "u64 \<Rightarrow> chunk_spec list \<Rightarrow> u64 option \<Rightarrow> bool" where
  "reach_of reach [] tot = (case tot of Some tot \<Rightarrow> tot \<le> reach | None \<Rightarrow> False)"
| "reach_of reach (chunk # rest) tot =
     (if ck_start chunk > reach then False
      else case ck_end chunk of
             None \<Rightarrow> True
           | Some e \<Rightarrow> reach_of (max reach e) rest tot)"

definition layout_covers_file :: "chunk_spec list \<Rightarrow> u64 option \<Rightarrow> bool" where
  "layout_covers_file chunks tot = reach_of 0 (sort_key ck_start chunks) tot"

section \<open>Facts about the arithmetic\<close>

lemma nat_div_ceil:
  fixes a b :: nat
  assumes "0 < b"
  shows "(a + b - 1) div b = (if a mod b > 0 then a div b + 1 else a div b)"
proof -
  define q r where "q = a div b" and "r = a mod b"
  have a: "a = b * q + r" and r: "r < b" using assms by (simp_all add: q_def r_def)
  show ?thesis
  proof (cases "r > 0")
    case True
    then have "a + b - 1 = b * (q + 1) + (r - 1)" and "r - 1 < b" using a r by simp_all
    then show ?thesis using assms True q_def r_def by (metis div_mult_self4 div_less add.right_neutral neq0_conv)
  next
    case False
    then have "a + b - 1 = b * q + (b - 1)" using a assms by simp
    then have "(a + b - 1) div b = q" using assms by (simp only: div_mult_self4 neq0_conv) simp
    with False show ?thesis by (simp add: q_def r_def)
  qed
qed

lemma unat_div_ceil:
  assumes "b > 0"
  shows "unat (div_ceil a b) = (unat a + unat b - 1) div unat b"
proof -
  have b: "0 < unat b" using assms by (simp add: unat_gt_0)
  have q: "unat (a div b) = unat a div unat b" and r: "unat (a mod b) = unat a mod unat b"
    by (simp_all add: unat_div unat_mod)
  show ?thesis
  proof (cases "a mod b > 0")
    case True
    then have m: "0 < unat a mod unat b" using r by (simp add: word_less_nat_alt)
    have "unat a div unat b + 1 \<le> unat a"
    proof -
      have "1 < unat b" using m b by (cases "unat b = 1") auto
      moreover have "unat a > 0" using m by (cases "unat a = 0") auto
      ultimately have "unat a div unat b < unat a" by (rule div_less_dividend)
      then show ?thesis by (simp only: Suc_eq_plus1 [symmetric] Suc_le_eq)
    qed
    then have "unat (a div b + 1) = unat a div unat b + 1"
      using u64_bound [of a] by (simp add: unat_word_ariths q)
    then show ?thesis using True m nat_div_ceil [OF b, of "unat a"] by (simp add: div_ceil_def)
  next
    case False
    then have "unat a mod unat b = 0" using r by (simp add: word_less_nat_alt)
    then show ?thesis using False nat_div_ceil [OF b, of "unat a"] by (simp add: div_ceil_def q)
  qed
qed

lemma div_ceil_covers:
  assumes "b > 0"
  shows "unat a \<le> unat b * unat (div_ceil a b)"
    and "unat b * unat (div_ceil a b) < unat a + unat b"
proof -
  have b: "0 < unat b" using assms by (simp add: unat_gt_0)
  let ?x = "unat a + unat b - 1"
  have e: "?x = unat b * (?x div unat b) + ?x mod unat b" by simp
  have l: "?x mod unat b < unat b" using b by simp
  show "unat a \<le> unat b * unat (div_ceil a b)" using e l b unfolding unat_div_ceil [OF assms] by linarith
  show "unat b * unat (div_ceil a b) < unat a + unat b" using e b unfolding unat_div_ceil [OF assms] by linarith
qed

lemma unat_clamp: "unat (clamp x lo hi) = (if unat x < unat lo then unat lo else if unat hi < unat x then unat hi else unat x)"
  by (simp add: clamp_def word_less_nat_alt)

lemma clamp_count:
  "1 \<le> unat (clamp x 1 (max hi 1))" "unat (clamp x 1 (max hi 1)) \<le> max (unat hi) 1"
  "unat (clamp x 1 (max hi 1)) \<le> max (unat x) 1"
  by (auto simp: unat_clamp unat_word_max)

section \<open>Layouts without gap or overlap\<close>

definition in_chunk :: "u64 \<Rightarrow> chunk_spec \<Rightarrow> bool" where
  "in_chunk p c = (ck_start c \<le> p \<and> (case ck_end c of Some e \<Rightarrow> p < e | None \<Rightarrow> True))"

fun tiles :: "u64 \<Rightarrow> chunk_spec list \<Rightarrow> u64 \<Rightarrow> bool" where
  "tiles a [] b = (a = b)"
| "tiles a (c # cs) b =
     (ck_start c = a \<and> ck_committed c = a
      \<and> (case ck_end c of Some e \<Rightarrow> a < e \<and> tiles e cs b | None \<Rightarrow> False))"

lemma tiles_le: "tiles a cs b \<Longrightarrow> a \<le> b"
  by (induction a cs b rule: tiles.induct) (force split: option.splits)+

lemma tiles_ends:
  "tiles a cs b \<Longrightarrow> c \<in> set cs \<Longrightarrow>
   a \<le> ck_start c \<and> ck_committed c = ck_start c \<and> (\<exists>e. ck_end c = Some e \<and> ck_start c < e \<and> e \<le> b)"
proof (induction a cs b rule: tiles.induct)
  case (2 a d cs b)
  obtain e where e: "ck_start d = a" "ck_end d = Some e" "a < e" "tiles e cs b"
    using "2.prems"(1) by (auto split: option.splits)
  show ?case
  proof (cases "c = d")
    case True
    then show ?thesis using e "2.prems"(1) tiles_le [OF e(4)] by simp
  next
    case False
    then show ?thesis using "2.IH" [OF e(2) e(4)] "2.prems"(2) e(3) by fastforce
  qed
qed simp

lemma tiles_byte:
  assumes "tiles a cs b" "a \<le> p" "p < b"
  shows "\<exists>i < length cs. in_chunk p (cs ! i) \<and> (\<forall>j < length cs. in_chunk p (cs ! j) \<longrightarrow> j = i)"
  using assms
proof (induction a cs b rule: tiles.induct)
  case (2 a c cs b)
  obtain e where e: "ck_start c = a" "ck_end c = Some e" "a < e" "tiles e cs b"
    using "2.prems"(1) by (auto split: option.splits)
  show ?case
  proof (cases "p < e")
    case True
    have later: "\<not> in_chunk p (cs ! i)" if "i < length cs" for i
      using tiles_ends [OF e(4) nth_mem [OF that]] True by (auto simp: in_chunk_def)
    have "in_chunk p c" using True e "2.prems"(2) by (simp add: in_chunk_def)
    moreover have "j = 0" if "j < length (c # cs)" "in_chunk p ((c # cs) ! j)" for j
      using that later by (cases j) simp_all
    ultimately show ?thesis by (intro exI [of _ 0]) simp
  next
    case False
    then have "e \<le> p" by simp
    then obtain i where i: "i < length cs" "in_chunk p (cs ! i)"
      "\<forall>j < length cs. in_chunk p (cs ! j) \<longrightarrow> j = i"
      using "2.IH" [OF e(2) e(4) _ "2.prems"(3)] by blast
    have head: "\<not> in_chunk p c" using False e by (simp add: in_chunk_def)
    have "j = Suc i" if "j < length (c # cs)" "in_chunk p ((c # cs) ! j)" for j
      using that i(3) head by (cases j) simp_all
    with i(1,2) show ?thesis by (intro exI [of _ "Suc i"]) simp
  qed
qed simp

lemma tiles_upt:
  assumes "k \<le> n"
    and "\<forall>i \<in> {k..<n}. ck_start (f i) = s i \<and> ck_committed (f i) = s i \<and> ck_end (f i) = Some (s (Suc i)) \<and> s i < s (Suc i)"
  shows "tiles (s k) (map f [k..<n]) (s n)"
  using assms
proof (induction "n - k" arbitrary: k)
  case (Suc m)
  then have "[k..<n] = k # [Suc k..<n]" by (simp add: upt_conv_Cons)
  moreover have "tiles (s (Suc k)) (map f [Suc k..<n]) (s n)" using Suc by simp
  ultimately show ?case using Suc by simp
qed simp

end
