(* ===== verification/HttpWorker.thy ===== *)
theory HttpWorker
  imports Chunks
begin

text \<open>
  One connection of the HTTP engine (\<open>rd-http/src/engine\<close>): the judgement of a response's headers
  (\<open>probe.rs\<close>), the checks an answer passes, the offset its body is written from, the body itself
  with its checkpoints, and the same for a mirror read through another protocol
  (\<open>rd-http/src/range_source.rs\<close>).

  A response is what the code reads of it: its status, the headers by name, where it came from. The
  body is the sequence of what the connection delivers, each buffer with the outcome of the calls
  made for it (pacing, write, sync, checkpoint). The part file is a map from offsets to bytes, kept
  twice: as written and as synced. Transfers with a content transform are not modelled here.
\<close>

section \<open>Errors and outcomes\<close>

datatype download_outcome = Complete | Paused

datatype http_download_error =
    RangeIgnored
  | RemoteChanged
  | HttpFailure failure
  | Internal string
  | Local string

section \<open>Headers\<close>

fun split_once :: "char \<Rightarrow> string \<Rightarrow> (string \<times> string) option" where
  "split_once sep [] = None"
| "split_once sep (c # s) =
     (if c = sep then Some ([], s) else map_option (\<lambda>(a, b). (c # a, b)) (split_once sep s))"

definition rsplit_once :: "char \<Rightarrow> string \<Rightarrow> (string \<times> string) option" where
  "rsplit_once sep s = map_option (\<lambda>(a, b). (rev b, rev a)) (split_once sep (rev s))"

definition parse_content_range_total :: "string \<Rightarrow> u64 option" where
  "parse_content_range_total v = Option.bind (rsplit_once (CHR ''/'') v) (\<lambda>(_, t). parse_u64 t)"

definition parse_content_range_start :: "string \<Rightarrow> u64 option" where
  "parse_content_range_start v =
     (case split_once (CHR '' '') (trim v) of
        None \<Rightarrow> None
      | Some (unit, ranges) \<Rightarrow>
          if lowercase unit \<noteq> ''bytes'' then None
          else Option.bind (split_once (CHR ''-'') (trim ranges)) (\<lambda>(a, _). parse_u64 (trim a)))"

definition LARGE_PAYLOAD_BYTES :: u64 where
  "LARGE_PAYLOAD_BYTES = 2 * 1024 * 1024"

definition mime_essence :: "string \<Rightarrow> string" where
  "mime_essence v = lowercase (trim (takeWhile (\<lambda>c. c \<noteq> CHR '';'') v))"

definition is_attachment :: "string \<Rightarrow> bool" where
  "is_attachment disposition = contains (lowercase disposition) ''attachment''"

definition is_markup :: "string \<Rightarrow> bool" where
  "is_markup essence = (essence \<in> {''text/html'', ''application/xhtml+xml''})"

definition is_texty :: "string \<Rightarrow> bool" where
  "is_texty essence = (essence \<in> {''text/plain'', ''text/xml'', ''text/css'', ''text/javascript'',
     ''application/xml'', ''application/json'', ''application/javascript''})"

definition looks_downloadable :: "string option \<Rightarrow> string option \<Rightarrow> u64 option \<Rightarrow> bool" where
  "looks_downloadable content_disposition content_type total_bytes =
     (if (case content_disposition of Some d \<Rightarrow> is_attachment d | None \<Rightarrow> False) then True
      else case map_option mime_essence content_type of
             None \<Rightarrow> True
           | Some essence \<Rightarrow>
               if is_markup essence then False
               else if \<not> is_texty essence then True
               else (case total_bytes of Some n \<Rightarrow> LARGE_PAYLOAD_BYTES \<le> n | None \<Rightarrow> False))"

definition SIZE_TOLERANCE_PERCENT :: u64 where
  "SIZE_TOLERANCE_PERCENT = 1"

definition SIZE_TOLERANCE_FLOOR_BYTES :: u64 where
  "SIZE_TOLERANCE_FLOOR_BYTES = 4096"

definition contradicts_announced_size :: "u64 \<Rightarrow> u64 \<Rightarrow> bool" where
  "contradicts_announced_size announced offered =
     (let tolerance = max (announced div 100 * SIZE_TOLERANCE_PERCENT) SIZE_TOLERANCE_FLOOR_BYTES;
          diff = (if announced \<le> offered then offered - announced else announced - offered)
      in diff > tolerance)"

section \<open>What an answer says\<close>

text \<open>\<open>rs_origin\<close> is \<open>rd_core::origin_of\<close> of the address the answer came from, \<open>rs_target\<close> that
  address without credentials, \<open>rs_redirect\<close> the joined \<open>Location\<close> likewise; both come from the URL
  library. \<open>rs_content_length\<close> is the length the client library reports for the body.\<close>

record response =
  rs_status :: nat
  rs_status_text :: string
  rs_headers :: "(string \<times> string) list"
  rs_content_length :: "u64 option"
  rs_origin :: "string option"
  rs_target :: string
  rs_redirect :: "string option"

definition header_text :: "response \<Rightarrow> string \<Rightarrow> string option" where
  "header_text r name = map_of (rs_headers r) name"

definition not_a_file :: "string option \<Rightarrow> http_download_error" where
  "not_a_file content_type =
     (let t = (case content_type of Some t \<Rightarrow> t | None \<Rightarrow> ''unknown'')
      in HttpFailure (with_param ''content_type'' t
           (failure_coded (Transient None) ''download.not_a_file''
              (''The server returned '' @ t @ '' instead of the requested part''))))"

definition status_failure :: "response \<Rightarrow> http_download_error" where
  "status_failure r =
     (let wait = map_option clamp_retry_after (Option.bind (header_text r ''retry-after'') parse_u64);
          category =
            (if rs_status r = 401 then AuthRequired
             else if rs_status r = 403 then AccountInvalid
             else if rs_status r \<in> {404, 410} then Permanent
             else if rs_status r = 429 then RateLimited wait
             else if 500 \<le> rs_status r \<and> rs_status r \<le> 599 then Transient wait
             else Permanent)
      in HttpFailure (with_param ''status'' (rs_status_text r)
           (failure_coded category ''download.http_status'' (''HTTP '' @ rs_status_text r))))"

definition is_approved :: "string list \<Rightarrow> response \<Rightarrow> bool" where
  "is_approved origins r = (case rs_origin r of Some origin \<Rightarrow> origin \<in> set origins | None \<Rightarrow> False)"

definition not_allowed :: "string \<Rightarrow> http_download_error" where
  "not_allowed target =
     HttpFailure (with_param ''target'' target
       (failure_coded Permanent ''download.redirect_not_allowed''
          ''The download was redirected outside the approved origins''))"

section \<open>The worker\<close>

record worker =
  wk_covers_whole_file :: bool
  wk_validator :: "string option"
  wk_total_bytes :: "u64 option"
  wk_require_range :: bool
  wk_approved_origins :: "string list"

text \<open>The range and the condition the request names.\<close>

definition request_range :: "worker \<Rightarrow> chunk_spec \<Rightarrow> (string \<times> string) list" where
  "request_range w chunk =
     (if wk_require_range w then
        (''range'',
         case ck_end chunk of
           Some e \<Rightarrow> ''bytes='' @ dec (unat (ck_committed chunk)) @ ''-'' @ dec (unat (sat_sub e 1))
         | None \<Rightarrow> ''bytes='' @ dec (unat (ck_committed chunk)) @ ''-'')
        # (case wk_validator w of Some v \<Rightarrow> [(''if-range'', v)] | None \<Rightarrow> [])
      else [])"

definition check_response :: "worker \<Rightarrow> response \<Rightarrow> http_download_error + unit" where
  "check_response w r =
     (if wk_approved_origins w \<noteq> [] \<and> \<not> is_approved (wk_approved_origins w) r then Inl (not_allowed (rs_target r))
      else if wk_approved_origins w \<noteq> [] \<and> 300 \<le> rs_status r \<and> rs_status r \<le> 399 then
        Inl (not_allowed (case rs_redirect r of Some t \<Rightarrow> t | None \<Rightarrow> rs_target r))
      else if rs_status r = 412 \<or> rs_status r = 416 then Inl RemoteChanged
      else if \<not> (200 \<le> rs_status r \<and> rs_status r \<le> 299) then Inl (status_failure r)
      else Inr ())"

definition check_total :: "worker \<Rightarrow> chunk_spec \<Rightarrow> string \<Rightarrow> http_download_error + unit" where
  "check_total w chunk content_range =
     (case (parse_content_range_total content_range, wk_total_bytes w) of
        (Some named, Some expected) \<Rightarrow> if named \<noteq> expected then Inl RemoteChanged else Inr ()
      | _ \<Rightarrow> if wk_validator w = None \<and> ck_committed chunk > ck_start chunk then Inl RemoteChanged else Inr ())"

definition check_partial_range :: "worker \<Rightarrow> chunk_spec \<Rightarrow> response \<Rightarrow> http_download_error + unit" where
  "check_partial_range w chunk r =
     (let rng = (case header_text r ''content-range'' of Some v \<Rightarrow> v | None \<Rightarrow> [])
      in case parse_content_range_start rng of
           Some start \<Rightarrow> if start = ck_committed chunk then check_total w chunk rng else Inl RangeIgnored
         | None \<Rightarrow> Inl RangeIgnored)"

text \<open>The part of \<open>unranged_start\<close> after the header that describes a range: a body that says nothing
  about where it begins.\<close>

definition undescribed_start :: "worker \<Rightarrow> chunk_spec \<Rightarrow> response \<Rightarrow> http_download_error + u64" where
  "undescribed_start w chunk r =
     (let content_type = header_text r ''content-type'' in
      if \<not> looks_downloadable (header_text r ''content-disposition'') content_type (rs_content_length r)
      then Inl (not_a_file content_type)
      else if ck_committed chunk > ck_start chunk then Inl RemoteChanged
      else if wk_covers_whole_file w then Inr (ck_start chunk)
      else Inl RangeIgnored)"

definition unranged_start :: "worker \<Rightarrow> chunk_spec \<Rightarrow> response \<Rightarrow> http_download_error + u64" where
  "unranged_start w chunk r =
     (case Option.bind (header_text r ''content-range'') (\<lambda>rng. map_option (Pair rng) (parse_content_range_start rng)) of
        Some (rng, start) \<Rightarrow>
          if start = ck_committed chunk then map_sum id (\<lambda>_. start) (check_total w chunk rng)
          else Inl RangeIgnored
      | None \<Rightarrow> undescribed_start w chunk r)"

definition start_position :: "worker \<Rightarrow> chunk_spec \<Rightarrow> response \<Rightarrow> http_download_error + u64" where
  "start_position w chunk r =
     (if rs_status r = 206 then map_sum id (\<lambda>_. ck_committed chunk) (check_partial_range w chunk r)
      else if wk_require_range w then unranged_start w chunk r
      else Inr (ck_committed chunk))"

section \<open>The part file and its checkpoints\<close>

record staging =
  sg_bytes :: "u64 \<Rightarrow> u8 option"       \<comment> \<open>as written\<close>
  sg_durable :: "u64 \<Rightarrow> u8 option"     \<comment> \<open>as synced\<close>
  sg_commits :: "(chunk_id \<times> u64) list"  \<comment> \<open>the checkpoints the sink accepted, oldest first\<close>

definition overlay :: "u64 \<Rightarrow> u8 list \<Rightarrow> (u64 \<Rightarrow> u8 option) \<Rightarrow> u64 \<Rightarrow> u8 option" where
  "overlay position bytes m q =
     (if position \<le> q \<and> unat q - unat position < length bytes
      then Some (bytes ! (unat q - unat position)) else m q)"

text \<open>What goes wrong in one flush, if anything: the sync, or the checkpoint after it.\<close>

datatype flush_fault = FlushFine | SyncFails string | CommitFails string

definition flush :: "chunk_id \<Rightarrow> u64 \<Rightarrow> flush_fault \<Rightarrow> staging \<Rightarrow> (http_download_error + unit) \<times> staging" where
  "flush chunk_id position fault s =
     (case fault of
        SyncFails e \<Rightarrow> (Inl (Local e), s)
      | CommitFails e \<Rightarrow> (Inl (Internal e), s\<lparr>sg_durable := sg_bytes s\<rparr>)
      | FlushFine \<Rightarrow> (Inr (), s\<lparr>sg_durable := sg_bytes s, sg_commits := sg_commits s @ [(chunk_id, position)]\<rparr>))"

text \<open>
  A buffer and the calls made for it: \<open>rc_paced\<close> is the limiter's error, \<open>rc_written\<close> the error of the
  write with how many bytes of the buffer still reached the file, \<open>rc_elapsed\<close> whether the interval
  between checkpoints has passed, \<open>rc_flush\<close> how a checkpoint after it goes.
\<close>

record received =
  rc_bytes :: "u8 list"
  rc_paced :: "string option"
  rc_written :: "(string \<times> nat) option"
  rc_elapsed :: bool
  rc_flush :: flush_fault

datatype body_event =
    Received received
  | Broken failure
  | Cancelled flush_fault

definition CHECKPOINT_BYTES :: u64 where
  "CHECKPOINT_BYTES = 8 * 1024 * 1024"

definition write_bytes ::
  "chunk_spec \<Rightarrow> u64 \<Rightarrow> received \<Rightarrow> staging \<Rightarrow> (http_download_error + u64) \<times> staging" where
  "write_bytes chunk position buf s =
     (let len = word_of_nat (length (rc_bytes buf)) in
      if (case ck_end chunk of Some e \<Rightarrow> sat_add position len > e | None \<Rightarrow> False) then (Inl RemoteChanged, s)
      else case rc_paced buf of
        Some e \<Rightarrow> (Inl (Internal e), s)
      | None \<Rightarrow>
          (case rc_written buf of
             Some (e, n) \<Rightarrow> (Inl (Local e), s\<lparr>sg_bytes := overlay position (take n (rc_bytes buf)) (sg_bytes s)\<rparr>)
           | None \<Rightarrow> (Inr (position + len), s\<lparr>sg_bytes := overlay position (rc_bytes buf) (sg_bytes s)\<rparr>)))"

definition truncated :: "string \<Rightarrow> u64 \<Rightarrow> u64 \<Rightarrow> http_download_error" where
  "truncated who position e =
     HttpFailure (with_param ''expected'' (dec (unat e)) (with_param ''position'' (dec (unat position))
       (failure_coded (Transient None) ''download.response_truncated''
          (who @ '' ended at byte '' @ dec (unat position) @ '', expected '' @ dec (unat e)))))"

fun write_body ::
  "chunk_spec \<Rightarrow> body_event list \<Rightarrow> flush_fault \<Rightarrow> u64 \<Rightarrow> u64 \<Rightarrow> staging
     \<Rightarrow> (http_download_error + download_outcome) \<times> staging" where
  "write_body chunk [] final position checkpoint s =
     (if (case ck_end chunk of Some e \<Rightarrow> position \<noteq> e | None \<Rightarrow> False)
      then (Inl (truncated ''response'' position (the (ck_end chunk))), s)
      else (case flush (ck_id chunk) position final s of
              (Inl e, s) \<Rightarrow> (Inl e, s)
            | (Inr _, s) \<Rightarrow> (Inr Complete, s)))"
| "write_body chunk (Cancelled fault # _) final position checkpoint s =
     (case flush (ck_id chunk) position fault s of
        (Inl e, s) \<Rightarrow> (Inl e, s)
      | (Inr _, s) \<Rightarrow> (Inr Paused, s))"
| "write_body chunk (Broken failure # _) final position checkpoint s = (Inl (HttpFailure failure), s)"
| "write_body chunk (Received buf # rest) final position checkpoint s =
     (case write_bytes chunk position buf s of
        (Inl e, s) \<Rightarrow> (Inl e, s)
      | (Inr position, s) \<Rightarrow>
          if sat_sub position checkpoint \<ge> CHECKPOINT_BYTES \<or> rc_elapsed buf then
            (case flush (ck_id chunk) position (rc_flush buf) s of
               (Inl e, s) \<Rightarrow> (Inl e, s)
             | (Inr _, s) \<Rightarrow> write_body chunk rest final position position s)
          else write_body chunk rest final position checkpoint s)"

section \<open>One worker\<close>

text \<open>What the network does for one request: whether the pause comes first or while the worker waits
  for a connection to the host, the answer or the error, and the body.\<close>

record exchange =
  xc_cancelled :: bool
  xc_slot_cancelled :: bool
  xc_answer :: "failure + response"
  xc_body :: "body_event list"
  xc_last_flush :: flush_fault

definition run_worker ::
  "worker \<Rightarrow> chunk_spec \<Rightarrow> exchange \<Rightarrow> staging \<Rightarrow> (http_download_error + download_outcome) \<times> staging" where
  "run_worker w chunk x s =
     (if xc_cancelled x \<or> xc_slot_cancelled x then (Inr Paused, s)
      else case xc_answer x of
        Inl failure \<Rightarrow> (Inl (HttpFailure failure), s)
      | Inr r \<Rightarrow>
          (case check_response w r of
             Inl e \<Rightarrow> (Inl e, s)
           | Inr _ \<Rightarrow>
               (case start_position w chunk r of
                  Inl e \<Rightarrow> (Inl e, s)
                | Inr position \<Rightarrow> write_body chunk (xc_body x) (xc_last_flush x) position position s)))"

text \<open>The worker of one source of a mirror set: no validator, ranges required, the set's length.\<close>

definition fetch_chunk ::
  "bool \<Rightarrow> u64 \<Rightarrow> chunk_spec \<Rightarrow> exchange \<Rightarrow> staging \<Rightarrow> (http_download_error + download_outcome) \<times> staging" where
  "fetch_chunk covers_whole_file tot =
     run_worker \<lparr>wk_covers_whole_file = covers_whole_file, wk_validator = None, wk_total_bytes = Some tot,
       wk_require_range = True, wk_approved_origins = []\<rparr>"

section \<open>A mirror behind another protocol\<close>

definition READ_BYTES :: nat where
  "READ_BYTES = 64 * 1024"

text \<open>One read: a buffer of at most the bytes asked for (an empty one, or no further event, is the end
  of the stream), an error, a mirror that went silent, or the pause.\<close>

datatype read_event =
    ReadBytes received
  | ReadFailed string flush_fault
  | ReadTimedOut flush_fault
  | ReadCancelled flush_fault

definition network_failed :: "string \<Rightarrow> http_download_error" where
  "network_failed detail =
     HttpFailure (with_param ''detail'' detail (failure_coded (Transient None) ''download.network_failed'' detail))"

definition via_close ::
  "chunk_spec \<Rightarrow> u64 \<Rightarrow> flush_fault \<Rightarrow> u64 \<Rightarrow> staging \<Rightarrow> (http_download_error + download_outcome) \<times> staging" where
  "via_close chunk e final position s =
     (case flush (ck_id chunk) position final s of
        (Inl err, s) \<Rightarrow> (Inl err, s)
      | (Inr _, s) \<Rightarrow>
          if position \<noteq> e then (Inl (truncated ''the mirror'' position e), s) else (Inr Complete, s))"

text \<open>The texts of errors are without credentials already.\<close>

fun via_loop ::
  "chunk_spec \<Rightarrow> u64 \<Rightarrow> read_event list \<Rightarrow> flush_fault \<Rightarrow> u64 \<Rightarrow> u64 \<Rightarrow> staging
     \<Rightarrow> (http_download_error + download_outcome) \<times> staging" where
  "via_loop chunk e [] final position checkpointed s = via_close chunk e final position s"
| "via_loop chunk e (ev # rest) final position checkpointed s =
     (if \<not> position < e then via_close chunk e final position s
      else case ev of
        ReadCancelled fault \<Rightarrow>
          (case flush (ck_id chunk) position fault s of
             (Inl err, s) \<Rightarrow> (Inl err, s) | (Inr _, s) \<Rightarrow> (Inr Paused, s))
      | ReadFailed detail fault \<Rightarrow>
          (case flush (ck_id chunk) position fault s of
             (Inl err, s) \<Rightarrow> (Inl err, s) | (Inr _, s) \<Rightarrow> (Inl (network_failed detail), s))
      | ReadTimedOut fault \<Rightarrow>
          (case flush (ck_id chunk) position fault s of
             (Inl err, s) \<Rightarrow> (Inl err, s)
           | (Inr _, s) \<Rightarrow> (Inl (network_failed ''the mirror stopped sending data''), s))
      | ReadBytes buf \<Rightarrow>
          let wanted = min (unat (e - position)) READ_BYTES;
              bytes = take wanted (rc_bytes buf)
          in if bytes = [] then via_close chunk e final position s
             else case rc_paced buf of
               Some err \<Rightarrow> (Inl (Internal err), s)
             | None \<Rightarrow>
                 (case rc_written buf of
                    Some (err, n) \<Rightarrow>
                      (Inl (Local err), s\<lparr>sg_bytes := overlay position (take n bytes) (sg_bytes s)\<rparr>)
                  | None \<Rightarrow>
                      let s = s\<lparr>sg_bytes := overlay position bytes (sg_bytes s)\<rparr>;
                          position = position + word_of_nat (length bytes)
                      in if position - checkpointed \<ge> CHECKPOINT_BYTES \<or> rc_elapsed buf then
                           (case flush (ck_id chunk) position (rc_flush buf) s of
                              (Inl err, s) \<Rightarrow> (Inl err, s)
                            | (Inr _, s) \<Rightarrow> via_loop chunk e rest final position position s)
                         else via_loop chunk e rest final position checkpointed s))"

text \<open>What a mirror's connection does: the pause while it is opened, the refusal, or its reads.\<close>

record via_exchange =
  vx_cancelled :: bool
  vx_opened :: "failure + unit"
  vx_reads :: "read_event list"
  vx_last_flush :: flush_fault

definition fetch_via ::
  "chunk_spec \<Rightarrow> via_exchange \<Rightarrow> staging \<Rightarrow> (http_download_error + download_outcome) \<times> staging" where
  "fetch_via chunk x s =
     (case ck_end chunk of
        None \<Rightarrow> (Inl (Internal ''a chunk fetched from a mirror needs an end''), s)
      | Some e \<Rightarrow>
          let position = ck_committed chunk in
          if position \<ge> e then (Inr Complete, s)
          else if vx_cancelled x then (Inr Paused, s)
          else case vx_opened x of
            Inl failure \<Rightarrow> (Inl (HttpFailure failure), s)
          | Inr _ \<Rightarrow> via_loop chunk e (vx_reads x) (vx_last_flush x) position position s)"

end
