(* ===== verification/HttpDownload.thy ===== *)
theory HttpDownload
  imports HttpWorker
begin

text \<open>
  One file from one address (\<open>DownloadEngine::download\<close> in \<open>rd-http/src/engine.rs\<close>, \<open>wind_down.rs\<close>): the
  refusals before the first request, one worker for every incomplete chunk, the workers side by side
  on one part file, the end of the transfer at the first worker that does not complete, the others
  stopped at a checkpoint, and the sync before the transfer counts as complete.

  The workers interleave: the transfer is a state that moves by events, each of which lets one worker
  go one step -- its request and the checks of the answer, or one buffer of its body -- or cancels it,
  or reports its panic. A worker is named by its number among those that still run, taken modulo
  their count. What the network does for a worker is the exchange of its chunk. Cutting a worker off
  after the grace time is a worker without further events. Transfers with a content transform are not
  modelled.
\<close>

section \<open>The request\<close>

datatype replay_method = Get | Post

record download_request =
  dq_total_bytes :: "u64 option"
  dq_etag :: "string option"
  dq_last_modified :: "string option"
  dq_use_ranges :: bool
  dq_chunks :: "chunk_spec list"
  dq_method :: replay_method
  dq_approved_origins :: "string list"

definition download_request_get :: "u64 option \<Rightarrow> chunk_spec list \<Rightarrow> download_request" where
  "download_request_get total_bytes chunks =
     \<lparr>dq_total_bytes = total_bytes, dq_etag = None, dq_last_modified = None, dq_use_ranges = False,
      dq_chunks = chunks, dq_method = Get, dq_approved_origins = []\<rparr>"

text \<open>The three refusals before any request is made.\<close>

definition refuses_layout :: "download_request \<Rightarrow> bool" where
  "refuses_layout q =
     (length (dq_chunks q) > 1 \<and> \<not> dq_use_ranges q
      \<or> \<not> dq_use_ranges q \<and> list_ex (\<lambda>chunk. ck_committed chunk > 0) (dq_chunks q)
      \<or> dq_method q = Post \<and> length (dq_chunks q) > 1)"

definition download_worker :: "download_request \<Rightarrow> chunk_spec \<Rightarrow> worker" where
  "download_worker q chunk =
     \<lparr>wk_covers_whole_file = (length (dq_chunks q) = 1 \<and> ck_start chunk = 0
        \<and> (ck_end chunk = None \<or> ck_end chunk = dq_total_bytes q)),
      wk_validator = (case dq_etag q of Some v \<Rightarrow> Some v | None \<Rightarrow> dq_last_modified q),
      wk_total_bytes = dq_total_bytes q,
      wk_require_range = dq_use_ranges q,
      wk_approved_origins = dq_approved_origins q\<rparr>"

section \<open>One step of a worker\<close>

text \<open>A worker before its answer, or in its body: the next offset, the last checkpoint, what the
  connection still delivers.\<close>

datatype phase = Asking | Streaming u64 u64 "body_event list"

record task =
  tk_chunk :: chunk_spec
  tk_phase :: phase

type_synonym worker_end = "http_download_error + download_outcome"

text \<open>The part of \<open>run\<close> up to the body.\<close>

definition ask :: "worker \<Rightarrow> chunk_spec \<Rightarrow> exchange \<Rightarrow> worker_end + phase" where
  "ask w chunk x =
     (if xc_cancelled x \<or> xc_slot_cancelled x then Inl (Inr Paused)
      else case xc_answer x of
        Inl failure \<Rightarrow> Inl (Inl (HttpFailure failure))
      | Inr r \<Rightarrow>
          (case check_response w r of
             Inl e \<Rightarrow> Inl (Inl e)
           | Inr _ \<Rightarrow>
               (case start_position w chunk r of
                  Inl e \<Rightarrow> Inl (Inl e)
                | Inr position \<Rightarrow> Inr (Streaming position position (xc_body x)))))"

text \<open>One turn of the loop in \<open>write_body\<close>: a buffer with the checkpoint after it, or the end of the body.\<close>

definition receive ::
  "chunk_spec \<Rightarrow> flush_fault \<Rightarrow> u64 \<Rightarrow> u64 \<Rightarrow> body_event list \<Rightarrow> staging \<Rightarrow> (worker_end + phase) \<times> staging" where
  "receive chunk final position checkpoint evs s =
     (case evs of
        Received buf # rest \<Rightarrow>
          (case write_bytes chunk position buf s of
             (Inl e, s) \<Rightarrow> (Inl (Inl e), s)
           | (Inr position, s) \<Rightarrow>
               if sat_sub position checkpoint \<ge> CHECKPOINT_BYTES \<or> rc_elapsed buf then
                 (case flush (ck_id chunk) position (rc_flush buf) s of
                    (Inl e, s) \<Rightarrow> (Inl (Inl e), s)
                  | (Inr _, s) \<Rightarrow> (Inr (Streaming position position rest), s))
               else (Inr (Streaming position checkpoint rest), s))
      | _ \<Rightarrow> map_prod Inl id (write_body chunk evs final position checkpoint s))"

definition task_step ::
  "worker \<Rightarrow> exchange \<Rightarrow> task \<Rightarrow> staging \<Rightarrow> (worker_end + phase) \<times> staging" where
  "task_step w x t s =
     (case tk_phase t of
        Asking \<Rightarrow> (ask w (tk_chunk t) x, s)
      | Streaming position checkpoint evs \<Rightarrow> receive (tk_chunk t) (xc_last_flush x) position checkpoint evs s)"

text \<open>The worker's token is cancelled: it writes its checkpoint, if it has a body, and returns.\<close>

definition task_cancel :: "flush_fault \<Rightarrow> task \<Rightarrow> staging \<Rightarrow> worker_end \<times> staging" where
  "task_cancel fault t s =
     (case tk_phase t of
        Asking \<Rightarrow> (Inr Paused, s)
      | Streaming position checkpoint evs \<Rightarrow>
          write_body (tk_chunk t) [Cancelled fault] FlushFine position checkpoint s)"

section \<open>The workers of one transfer\<close>

record transfer =
  tf_staging :: staging
  tf_tasks :: "task list"

datatype transfer_event =
    Moves nat
  | Cancels nat flush_fault
  | Panics nat string

definition pick_task :: "nat \<Rightarrow> transfer \<Rightarrow> nat" where
  "pick_task i t = i mod length (tf_tasks t)"

definition event_task :: "transfer_event \<Rightarrow> nat" where
  "event_task ev = (case ev of Moves i \<Rightarrow> i | Cancels i _ \<Rightarrow> i | Panics i _ \<Rightarrow> i)"

text \<open>What an event does to its worker.\<close>

definition task_event ::
  "download_request \<Rightarrow> (chunk_id \<Rightarrow> exchange) \<Rightarrow> transfer_event \<Rightarrow> task \<Rightarrow> staging \<Rightarrow> (worker_end + phase) \<times> staging" where
  "task_event q xs ev t s =
     (case ev of
        Moves _ \<Rightarrow> task_step (download_worker q (tk_chunk t)) (xs (ck_id (tk_chunk t))) t s
      | Cancels _ fault \<Rightarrow> map_prod Inl id (task_cancel fault t s)
      | Panics _ e \<Rightarrow> (Inl (Inl (Internal e)), s))"

text \<open>One event: a worker that ends leaves the set and is what \<open>join_next\<close> reports.\<close>

definition transfer_move ::
  "download_request \<Rightarrow> (chunk_id \<Rightarrow> exchange) \<Rightarrow> transfer_event \<Rightarrow> transfer \<Rightarrow> worker_end option \<times> transfer" where
  "transfer_move q xs ev t =
     (let k = pick_task (event_task ev) t
      in case task_event q xs ev (tf_tasks t ! k) (tf_staging t) of
           (Inl over, s) \<Rightarrow> (Some over, \<lparr>tf_staging = s, tf_tasks = take k (tf_tasks t) @ drop (Suc k) (tf_tasks t)\<rparr>)
         | (Inr phase, s) \<Rightarrow>
             (None, \<lparr>tf_staging = s, tf_tasks = (tf_tasks t)[k := (tf_tasks t ! k)\<lparr>tk_phase := phase\<rparr>]\<rparr>))"

text \<open>\<open>wind_down\<close>: the results of the others are not looked at; what still runs when the events end was
  cut off.\<close>

fun wind_down_workers ::
  "download_request \<Rightarrow> (chunk_id \<Rightarrow> exchange) \<Rightarrow> transfer_event list \<Rightarrow> transfer \<Rightarrow> transfer" where
  "wind_down_workers q xs [] t = t\<lparr>tf_tasks := []\<rparr>"
| "wind_down_workers q xs (ev # evs) t =
     (if tf_tasks t = [] then t else wind_down_workers q xs evs (snd (transfer_move q xs ev t)))"

text \<open>After the last worker: the sync, then the transfer is complete.\<close>

definition finish_download :: "string option \<Rightarrow> transfer \<Rightarrow> worker_end \<times> transfer" where
  "finish_download sync_fault t =
     (case sync_fault of
        Some e \<Rightarrow> (Inl (Local e), t)
      | None \<Rightarrow> (Inr Complete, t\<lparr>tf_staging := (tf_staging t)\<lparr>sg_durable := sg_bytes (tf_staging t)\<rparr>\<rparr>))"

fun join_workers ::
  "download_request \<Rightarrow> (chunk_id \<Rightarrow> exchange) \<Rightarrow> string option \<Rightarrow> transfer_event list \<Rightarrow> transfer
     \<Rightarrow> worker_end \<times> transfer + transfer" where
  "join_workers q xs sync_fault evs t =
     (if tf_tasks t = [] then Inl (finish_download sync_fault t)
      else case evs of
        [] \<Rightarrow> Inr t
      | ev # evs \<Rightarrow>
          (case transfer_move q xs ev t of
             (None, t) \<Rightarrow> join_workers q xs sync_fault evs t
           | (Some (Inr Complete), t) \<Rightarrow> join_workers q xs sync_fault evs t
           | (Some over, t) \<Rightarrow> Inl (over, wind_down_workers q xs evs t)))"

declare join_workers.simps [simp del]

text \<open>\<open>Inr\<close> is a transfer that still runs after the given events.\<close>

definition download ::
  "download_request \<Rightarrow> (chunk_id \<Rightarrow> exchange) \<Rightarrow> string option \<Rightarrow> string option \<Rightarrow> transfer_event list \<Rightarrow> staging
     \<Rightarrow> worker_end \<times> transfer + transfer" where
  "download q xs open_fault sync_fault evs s =
     (case open_fault of
        Some e \<Rightarrow> Inl (Inl (Local e), \<lparr>tf_staging = s, tf_tasks = []\<rparr>)
      | None \<Rightarrow>
          if refuses_layout q then Inl (Inl RangeIgnored, \<lparr>tf_staging = s, tf_tasks = []\<rparr>)
          else join_workers q xs sync_fault evs
                 \<lparr>tf_staging = s,
                  tf_tasks = map (\<lambda>chunk. \<lparr>tk_chunk = chunk, tk_phase = Asking\<rparr>)
                    (filter (\<lambda>chunk. \<not> is_complete chunk) (dq_chunks q))\<rparr>)"

end
