(* ===== verification/WorkerProps.thy ===== *)
theory WorkerProps
  imports HttpWorker "HOL-Library.Sublist"
begin

text \<open>
  What one connection promises: its checkpoints never run ahead of the synced file, it writes inside
  its chunk only, it calls a chunk complete when the last byte of it is confirmed, and it takes an
  answer's body only where that body belongs.
\<close>

section \<open>Bytes at an offset\<close>

definition lies :: "u64 \<Rightarrow> u8 list \<Rightarrow> (u64 \<Rightarrow> u8 option) \<Rightarrow> bool" where
  "lies p bytes m = (\<forall>i < length bytes. m (p + of_nat i) = Some (bytes ! i))"

lemma unat_offset:
  fixes p :: u64
  assumes "unat p + n < 18446744073709551616"
  shows "unat (p + of_nat n) = unat p + n"
proof -
  have "unat (of_nat n :: u64) = n" using assms by (simp add: unat_of_nat_small)
  then show ?thesis using assms by (simp add: unat_word_ariths)
qed

lemma lies_take: "lies p bytes m \<Longrightarrow> lies p (take n bytes) m"
  by (simp add: lies_def)

lemma lies_overlay:
  assumes "lies p got m" and "unat p + length got + length bytes < 18446744073709551616"
  shows "lies p (got @ bytes) (overlay (p + of_nat (length got)) bytes m)"
  unfolding lies_def
proof (intro allI impI)
  fix i assume i: "i < length (got @ bytes)"
  have u: "unat (p + of_nat i) = unat p + i" and v: "unat (p + of_nat (length got)) = unat p + length got"
    using assms(2) i by (auto intro!: unat_offset)
  show "overlay (p + of_nat (length got)) bytes m (p + of_nat i) = Some ((got @ bytes) ! i)"
  proof (cases "i < length got")
    case True
    then have "\<not> p + of_nat (length got) \<le> p + of_nat i" using u v by (simp add: word_le_nat_alt)
    then show ?thesis using True assms(1) by (simp add: overlay_def lies_def nth_append)
  next
    case False
    then have "p + of_nat (length got) \<le> p + of_nat i" using u v by (simp add: word_le_nat_alt)
    moreover have "i - length got < length bytes" using i False by simp
    ultimately show ?thesis using False u v by (simp add: overlay_def nth_append)
  qed
qed

lemma overlay_elsewhere:
  assumes "unat position + length bytes < 18446744073709551616"
    and "q < position \<or> unat position + length bytes \<le> unat q"
  shows "overlay position bytes m q = m q"
  using assms by (auto simp: overlay_def word_le_nat_alt word_less_nat_alt)

lemma lies_overlay_partial:
  assumes "lies p got m" and "unat p + length got < 18446744073709551616"
  shows "lies p got (overlay (p + of_nat (length got)) bytes m)"
  unfolding lies_def
proof (intro allI impI)
  fix i assume i: "i < length got"
  have u: "unat (p + of_nat i) = unat p + i" and v: "unat (p + of_nat (length got)) = unat p + length got"
    using assms(2) i by (auto intro!: unat_offset)
  then have "\<not> p + of_nat (length got) \<le> p + of_nat i" using i by (simp add: word_le_nat_alt)
  then show "overlay (p + of_nat (length got)) bytes m (p + of_nat i) = Some (got ! i)"
    using i assms(1) by (simp add: overlay_def lies_def)
qed

section \<open>What a connection has done so far\<close>

text \<open>\<open>has_run c p s0 got s\<close>: starting at \<open>p\<close> on the file \<open>s0\<close>, the connection has written \<open>got\<close>, nothing
  outside the chunk, and every checkpoint since is an offset up to which these bytes are synced.\<close>

definition has_run :: "chunk_spec \<Rightarrow> u64 \<Rightarrow> staging \<Rightarrow> u8 list \<Rightarrow> staging \<Rightarrow> bool" where
  "has_run c p s0 got s =
     (lies p got (sg_bytes s)
      \<and> (\<forall>q. q < p \<or> (\<exists>e. ck_end c = Some e \<and> e \<le> q) \<longrightarrow> sg_bytes s q = sg_bytes s0 q)
      \<and> (\<exists>offs. sg_commits s = sg_commits s0 @ map (Pair (ck_id c)) offs
          \<and> (\<forall>off \<in> set offs. \<exists>n \<le> length got. off = p + of_nat n \<and> lies p (take n got) (sg_durable s))))"

lemma run_start: "has_run c p s [] s"
  by (simp add: has_run_def lies_def)

lemma run_flush:
  assumes r: "has_run c p s0 got s" and f: "flush (ck_id c) (p + of_nat (length got)) fault s = (res, s')"
  shows "has_run c p s0 got s'
    \<and> (res = Inr () \<longrightarrow> sg_commits s' \<noteq> [] \<and> last (sg_commits s') = (ck_id c, p + of_nat (length got)))"
proof -
  have b: "lies p got (sg_bytes s)"
    and out: "\<forall>q. q < p \<or> (\<exists>e. ck_end c = Some e \<and> e \<le> q) \<longrightarrow> sg_bytes s q = sg_bytes s0 q"
    using r by (simp_all add: has_run_def)
  obtain offs where o: "sg_commits s = sg_commits s0 @ map (Pair (ck_id c)) offs"
    "\<forall>off \<in> set offs. \<exists>n \<le> length got. off = p + of_nat n \<and> lies p (take n got) (sg_durable s)"
    using r unfolding has_run_def by blast
  have o': "\<forall>off \<in> set offs. \<exists>n \<le> length got. off = p + of_nat n \<and> lies p (take n got) (sg_bytes s)"
    using o(2) lies_take [OF b] by blast
  show ?thesis
  proof (cases fault)
    case FlushFine
    have s': "s' = s\<lparr>sg_durable := sg_bytes s, sg_commits := sg_commits s @ [(ck_id c, p + of_nat (length got))]\<rparr>"
      using FlushFine f by (simp add: flush_def)
    have "\<exists>offs'. sg_commits s' = sg_commits s0 @ map (Pair (ck_id c)) offs'
        \<and> (\<forall>off \<in> set offs'. \<exists>n \<le> length got. off = p + of_nat n \<and> lies p (take n got) (sg_durable s'))"
      using s' o(1) o' b by (intro exI [of _ "offs @ [p + of_nat (length got)]"]) auto
    then have "has_run c p s0 got s'" using s' b out by (simp add: has_run_def)
    then show ?thesis using s' by simp
  next
    case (SyncFails e)
    then show ?thesis using f r by (auto simp: flush_def)
  next
    case (CommitFails e)
    then have "s' = s\<lparr>sg_durable := sg_bytes s\<rparr>" and "res = Inl (Internal e)" using f by (simp_all add: flush_def)
    then show ?thesis using b out o(1) o' by (auto simp: has_run_def)
  qed
qed

lemma run_overlay:
  assumes r: "has_run c p s0 got s" and room: "unat p + length got + length bytes < 18446744073709551616"
    and inside: "\<forall>e. ck_end c = Some e \<longrightarrow> unat p + length got + length bytes \<le> unat e"
  shows "has_run c p s0 (got @ bytes) (s\<lparr>sg_bytes := overlay (p + of_nat (length got)) bytes (sg_bytes s)\<rparr>)"
    and "has_run c p s0 got (s\<lparr>sg_bytes := overlay (p + of_nat (length got)) bytes (sg_bytes s)\<rparr>)"
proof -
  let ?at = "p + of_nat (length got) :: u64"
  have v: "unat ?at = unat p + length got" using room by (auto intro!: unat_offset)
  have b: "lies p got (sg_bytes s)"
    and out: "\<forall>q. q < p \<or> (\<exists>e. ck_end c = Some e \<and> e \<le> q) \<longrightarrow> sg_bytes s q = sg_bytes s0 q"
    using r by (simp_all add: has_run_def)
  obtain offs where o: "sg_commits s = sg_commits s0 @ map (Pair (ck_id c)) offs"
    "\<forall>off \<in> set offs. \<exists>n \<le> length got. off = p + of_nat n \<and> lies p (take n got) (sg_durable s)"
    using r unfolding has_run_def by blast
  have out': "\<forall>q. q < p \<or> (\<exists>e. ck_end c = Some e \<and> e \<le> q) \<longrightarrow> overlay ?at bytes (sg_bytes s) q = sg_bytes s0 q"
  proof (intro allI impI)
    fix q assume q: "q < p \<or> (\<exists>e. ck_end c = Some e \<and> e \<le> q)"
    then have "q < ?at \<or> unat ?at + length bytes \<le> unat q"
      using v inside by (auto simp: word_less_nat_alt word_le_nat_alt)
    then have "overlay ?at bytes (sg_bytes s) q = sg_bytes s q"
      using v room by (intro overlay_elsewhere) simp_all
    then show "overlay ?at bytes (sg_bytes s) q = sg_bytes s0 q" using out q by simp
  qed
  have offs': "\<forall>off \<in> set offs. \<exists>n \<le> length (got @ bytes). off = p + of_nat n
      \<and> lies p (take n (got @ bytes)) (sg_durable s)"
  proof
    fix off assume "off \<in> set offs"
    then obtain n where "n \<le> length got" "off = p + of_nat n" "lies p (take n got) (sg_durable s)" using o(2) by blast
    then show "\<exists>n \<le> length (got @ bytes). off = p + of_nat n \<and> lies p (take n (got @ bytes)) (sg_durable s)"
      by (intro exI [of _ n]) simp
  qed
  show "has_run c p s0 (got @ bytes) (s\<lparr>sg_bytes := overlay ?at bytes (sg_bytes s)\<rparr>)"
    unfolding has_run_def using lies_overlay [OF b room] out' o(1) offs' by auto
  have "unat p + length got < 18446744073709551616" using room by linarith
  then show "has_run c p s0 got (s\<lparr>sg_bytes := overlay ?at bytes (sg_bytes s)\<rparr>)"
    unfolding has_run_def using lies_overlay_partial [OF b] out' o by auto
qed

section \<open>The body of an HTTP answer\<close>

text \<open>What the connection delivers before it breaks or is cancelled.\<close>

fun delivered :: "body_event list \<Rightarrow> u8 list" where
  "delivered (Received buf # rest) = rc_bytes buf @ delivered rest"
| "delivered _ = []"

lemma write_bytes_cases:
  assumes r: "has_run c p s0 got s"
    and room: "unat p + length got + length (rc_bytes buf) < 18446744073709551616"
    and w: "write_bytes c (p + of_nat (length got)) buf s = (res, s')"
  obtains (failed) e where "res = Inl e" "has_run c p s0 got s'"
  | (wrote) "res = Inr (p + of_nat (length (got @ rc_bytes buf)))" "has_run c p s0 (got @ rc_bytes buf) s'"
proof -
  let ?len = "word_of_nat (length (rc_bytes buf)) :: u64"
  let ?at = "p + of_nat (length got) :: u64"
  have at: "unat ?at = unat p + length got" using room by (auto intro!: unat_offset)
  have len: "unat ?len = length (rc_bytes buf)" using room by (simp add: unat_of_nat_small)
  show thesis
  proof (cases "case ck_end c of Some e \<Rightarrow> sat_add ?at ?len > e | None \<Rightarrow> False")
    case True
    then show thesis using failed w r by (auto simp: write_bytes_def Let_def)
  next
    case False
    have inside: "\<forall>e. ck_end c = Some e \<longrightarrow> unat p + length got + length (rc_bytes buf) \<le> unat e"
    proof (intro allI impI)
      fix e assume "ck_end c = Some e"
      then have "sat_add ?at ?len \<le> e" using False by (simp add: not_less)
      then show "unat p + length got + length (rc_bytes buf) \<le> unat e"
        using at len room by (simp add: word_le_nat_alt unat_sat_add)
    qed
    note step = run_overlay [OF r room inside]
    have part: "unat p + length got + length (take n (rc_bytes buf)) < 18446744073709551616"
      "\<forall>e. ck_end c = Some e \<longrightarrow> unat p + length got + length (take n (rc_bytes buf)) \<le> unat e" for n
      using room inside by (auto intro: le_trans [rotated])
    show thesis
    proof (cases "rc_paced buf")
      case (Some e)
      then show thesis using failed w r False by (auto simp: write_bytes_def Let_def)
    next
      case None
      show thesis
      proof (cases "rc_written buf")
        case None': None
        then have "res = Inr (?at + ?len)" and "s' = s\<lparr>sg_bytes := overlay ?at (rc_bytes buf) (sg_bytes s)\<rparr>"
          using w False None by (auto simp: write_bytes_def Let_def)
        then show thesis using wrote step(1) by (simp add: add.assoc)
      next
        case (Some f)
        then show thesis
          using failed w False None run_overlay(2) [OF r part, of "snd f"]
          by (cases f) (auto simp: write_bytes_def Let_def)
      qed
    qed
  qed
qed

text \<open>The end of a body: what it wrote and what it confirmed.\<close>

definition ended :: "chunk_spec \<Rightarrow> u64 \<Rightarrow> staging \<Rightarrow> u8 list \<Rightarrow> u8 list
    \<Rightarrow> (http_download_error + download_outcome) \<times> staging \<Rightarrow> bool" where
  "ended c p s0 got coming result =
     (\<exists>more. prefix more coming \<and> has_run c p s0 (got @ more) (snd result)
      \<and> (\<forall>out. fst result = Inr out \<longrightarrow> sg_commits (snd result) \<noteq> []
           \<and> last (sg_commits (snd result)) = (ck_id c, p + of_nat (length (got @ more))))
      \<and> (fst result = Inr Complete \<longrightarrow> more = coming
           \<and> (\<forall>e. ck_end c = Some e \<longrightarrow> e = p + of_nat (length (got @ more)))))"

lemma ended_failed: "has_run c p s0 got s \<Longrightarrow> ended c p s0 got coming (Inl e, s)"
  by (auto simp: ended_def intro!: exI [of _ "[]"])

lemma ended_more: "ended c p s0 (got @ bytes) rest result \<Longrightarrow> ended c p s0 got (bytes @ rest) result"
  unfolding ended_def by (elim exE) (rule_tac x = "bytes @ more" in exI, auto)

lemma write_body_ended:
  assumes "has_run c p s0 got s" and "unat p + length got + length (delivered evs) < 18446744073709551616"
  shows "ended c p s0 got (delivered evs) (write_body c evs final (p + of_nat (length got)) cp s)"
  using assms
proof (induction evs arbitrary: got s cp)
  case Nil
  show ?case
  proof (cases "case ck_end c of Some e \<Rightarrow> p + of_nat (length got) \<noteq> e | None \<Rightarrow> False")
    case True
    then show ?thesis using Nil.prems by (simp add: ended_failed)
  next
    case False
    obtain res s' where f: "flush (ck_id c) (p + of_nat (length got)) final s = (res, s')" by fastforce
    show ?thesis
      using run_flush [OF Nil.prems(1) f] False f
      by (cases res) (auto simp: ended_failed ended_def split: option.splits)
  qed
next
  case (Cons ev evs)
  show ?case
  proof (cases ev)
    case (Broken failure)
    then show ?thesis using Cons.prems by (simp add: ended_failed)
  next
    case (Cancelled fault)
    obtain res s' where f: "flush (ck_id c) (p + of_nat (length got)) fault s = (res, s')" by fastforce
    show ?thesis
      using run_flush [OF Cons.prems(1) f] Cancelled f
      by (cases res) (auto simp: ended_failed ended_def)
  next
    case (Received buf)
    obtain res s1 where w: "write_bytes c (p + of_nat (length got)) buf s = (res, s1)" by fastforce
    have room: "unat p + length got + length (rc_bytes buf) < 18446744073709551616"
      and room': "unat p + length (got @ rc_bytes buf) + length (delivered evs) < 18446744073709551616"
      using Cons.prems(2) Received by simp_all
    show ?thesis
    proof (cases rule: write_bytes_cases [OF Cons.prems(1) room w, case_names failed wrote])
      case (failed e)
      then show ?thesis using Received w by (simp add: ended_failed)
    next
      case wrote
      let ?got = "got @ rc_bytes buf"
      let ?pos = "p + of_nat (length ?got) :: u64"
      show ?thesis
      proof (cases "sat_sub ?pos cp \<ge> CHECKPOINT_BYTES \<or> rc_elapsed buf")
        case False
        have "ended c p s0 ?got (delivered evs) (write_body c evs final ?pos cp s1)"
          by (rule Cons.IH [OF wrote(2) room'])
        then show ?thesis using Received w wrote(1) False by (simp add: ended_more)
      next
        case True
        obtain r2 s2 where f: "flush (ck_id c) ?pos (rc_flush buf) s1 = (r2, s2)" by fastforce
        have r2: "has_run c p s0 ?got s2" using run_flush [OF wrote(2) f] by simp
        show ?thesis
        proof (cases r2)
          case (Inl e)
          have "ended c p s0 ?got (delivered evs) (Inl e, s2)" by (rule ended_failed [OF r2])
          then show ?thesis using Received w wrote(1) True f Inl by (simp add: ended_more)
        next
          case (Inr u)
          have "ended c p s0 ?got (delivered evs) (write_body c evs final ?pos ?pos s2)"
            by (rule Cons.IH [OF r2 room'])
          then show ?thesis using Received w wrote(1) True f Inr by (simp add: ended_more)
        qed
      qed
    qed
  qed
qed

section \<open>The reads of a mirror\<close>

text \<open>The bytes the reads hand over: each read fills at most what is left of the chunk.\<close>

fun handed_over :: "u64 \<Rightarrow> u64 \<Rightarrow> read_event list \<Rightarrow> u8 list" where
  "handed_over position e (ReadBytes buf # rest) =
     (if \<not> position < e then []
      else let bytes = take (min (unat (e - position)) READ_BYTES) (rc_bytes buf)
           in bytes @ (if bytes = [] then [] else handed_over (position + of_nat (length bytes)) e rest))"
| "handed_over _ _ _ = []"

lemma via_close_ended:
  assumes "has_run c p s0 got s" and "ck_end c = Some e"
  shows "ended c p s0 got [] (via_close c e final (p + of_nat (length got)) s)"
proof -
  obtain res s' where f: "flush (ck_id c) (p + of_nat (length got)) final s = (res, s')" by fastforce
  show ?thesis
    using run_flush [OF assms(1) f] assms(2) f
    by (cases res) (auto simp: via_close_def ended_failed ended_def)
qed

lemma run_flush_pair:
  assumes "has_run c p s0 got s"
  obtains res s' where "flush (ck_id c) (p + of_nat (length got)) fault s = (res, s')" "has_run c p s0 got s'"
    "res = Inr () \<longrightarrow> sg_commits s' \<noteq> [] \<and> last (sg_commits s') = (ck_id c, p + of_nat (length got))"
  using run_flush [OF assms] by (metis surj_pair)

lemma via_read:
  assumes "position < e" and "take (min (unat (e - position)) READ_BYTES) (rc_bytes buf) = bytes" and "bytes \<noteq> []"
  shows "via_loop c e (ReadBytes buf # rest) final position cp s =
    (case rc_paced buf of
       Some err \<Rightarrow> (Inl (Internal err), s)
     | None \<Rightarrow>
         (case rc_written buf of
            Some (err, n) \<Rightarrow> (Inl (Local err), s\<lparr>sg_bytes := overlay position (take n bytes) (sg_bytes s)\<rparr>)
          | None \<Rightarrow>
              (if position + of_nat (length bytes) - cp \<ge> CHECKPOINT_BYTES \<or> rc_elapsed buf then
                 (case flush (ck_id c) (position + of_nat (length bytes)) (rc_flush buf)
                     (s\<lparr>sg_bytes := overlay position bytes (sg_bytes s)\<rparr>) of
                    (Inl err, s) \<Rightarrow> (Inl err, s)
                  | (Inr _, s) \<Rightarrow> via_loop c e rest final (position + of_nat (length bytes)) (position + of_nat (length bytes)) s)
               else via_loop c e rest final (position + of_nat (length bytes)) cp
                 (s\<lparr>sg_bytes := overlay position bytes (sg_bytes s)\<rparr>))))"
  using assms(1,3) unfolding via_loop.simps read_event.case Let_def assms(2) by simp

lemma via_loop_ended:
  assumes "has_run c p s0 got s" and "ck_end c = Some e" and "unat p + length got \<le> unat e"
  shows "ended c p s0 got (handed_over (p + of_nat (length got)) e evs)
    (via_loop c e evs final (p + of_nat (length got)) cp s)"
  using assms(1,3)
proof (induction evs arbitrary: got s cp)
  case Nil
  then show ?case using via_close_ended [OF _ assms(2)] by simp
next
  case (Cons ev evs)
  let ?pos = "p + of_nat (length got) :: u64"
  have pos: "unat ?pos = unat p + length got" using Cons.prems(2) u64_bound [of e] by (intro unat_offset) simp
  show ?case
  proof (cases "?pos < e")
    case False
    moreover from False have "handed_over ?pos e (ev # evs) = []" by (cases ev) simp_all
    ultimately show ?thesis using via_close_ended [OF Cons.prems(1) assms(2)] by simp
  next
    case True
    show ?thesis
    proof (cases ev)
      case (ReadCancelled fault)
      obtain res s' where f: "flush (ck_id c) ?pos fault s = (res, s')" "has_run c p s0 got s'"
        "res = Inr () \<longrightarrow> sg_commits s' \<noteq> [] \<and> last (sg_commits s') = (ck_id c, ?pos)"
        by (rule run_flush_pair [OF Cons.prems(1)])
      then show ?thesis using ReadCancelled True by (cases res) (auto simp: ended_failed ended_def)
    next
      case (ReadFailed detail fault)
      obtain res s' where f: "flush (ck_id c) ?pos fault s = (res, s')" "has_run c p s0 got s'"
        by (rule run_flush_pair [OF Cons.prems(1)])
      then show ?thesis using ReadFailed True by (cases res) (auto simp: ended_failed)
    next
      case (ReadTimedOut fault)
      obtain res s' where f: "flush (ck_id c) ?pos fault s = (res, s')" "has_run c p s0 got s'"
        by (rule run_flush_pair [OF Cons.prems(1)])
      then show ?thesis using ReadTimedOut True by (cases res) (auto simp: ended_failed)
    next
      case (ReadBytes buf)
      define bytes where "bytes = take (min (unat (e - ?pos)) READ_BYTES) (rc_bytes buf)"
      have "length bytes \<le> unat (e - ?pos)" by (simp add: bytes_def)
      also have "\<dots> = unat e - unat ?pos" using True by (simp add: unat_sub)
      finally have fit: "unat p + length got + length bytes \<le> unat e" using pos Cons.prems(2) by linarith
      have room: "unat p + length got + length bytes < 18446744073709551616" using fit u64_bound [of e] by linarith
      have inside: "\<forall>e'. ck_end c = Some e' \<longrightarrow> unat p + length got + length bytes \<le> unat e'" using fit assms(2) by simp
      note wrote = run_overlay [OF Cons.prems(1) room inside]
      let ?got = "got @ bytes"
      let ?pos' = "?pos + of_nat (length bytes) :: u64"
      let ?s = "s\<lparr>sg_bytes := overlay ?pos bytes (sg_bytes s)\<rparr>"
      have pos': "?pos' = p + of_nat (length ?got)" by simp
      have fit': "unat p + length ?got \<le> unat e" using fit by simp
      show ?thesis
      proof (cases "bytes = []")
        case empty: True
        have l: "via_loop c e (ev # evs) final ?pos cp s = via_close c e final ?pos s"
          using True unfolding ReadBytes via_loop.simps read_event.case Let_def bytes_def [symmetric] empty by simp
        have h: "handed_over ?pos e (ev # evs) = []"
          using True unfolding ReadBytes handed_over.simps Let_def bytes_def [symmetric] empty by simp
        show ?thesis unfolding l h by (rule via_close_ended [OF Cons.prems(1) assms(2)])
      next
        case some: False
        have coming: "handed_over ?pos e (ev # evs) = bytes @ handed_over ?pos' e evs"
          using True some unfolding ReadBytes handed_over.simps Let_def bytes_def [symmetric] by simp
        note step = via_read [OF True bytes_def [symmetric] some, of c evs final cp s, folded ReadBytes]
        show ?thesis
        proof (cases "rc_paced buf")
          case (Some err)
          then have "via_loop c e (ev # evs) final ?pos cp s = (Inl (Internal err), s)"
            by (simp add: step del: via_loop.simps)
          then show ?thesis by (simp only: ended_failed [OF Cons.prems(1)])
        next
          case None
          show ?thesis
          proof (cases "rc_written buf")
            case (Some f)
            obtain err n where fn: "f = (err, n)" by fastforce
            have l: "via_loop c e (ev # evs) final ?pos cp s
                = (Inl (Local err), s\<lparr>sg_bytes := overlay ?pos (take n bytes) (sg_bytes s)\<rparr>)"
              using None Some fn by (simp add: step del: via_loop.simps)
            have "unat p + length got + length (take n bytes) < 18446744073709551616"
              "\<forall>e'. ck_end c = Some e' \<longrightarrow> unat p + length got + length (take n bytes) \<le> unat e'"
              using fit room assms(2) by simp_all
            from run_overlay(2) [OF Cons.prems(1) this] show ?thesis unfolding l by (rule ended_failed)
          next
            case written: None
            show ?thesis
            proof (cases "?pos' - cp \<ge> CHECKPOINT_BYTES \<or> rc_elapsed buf")
              case False
              then have l: "via_loop c e (ev # evs) final ?pos cp s = via_loop c e evs final ?pos' cp ?s"
                using None written by (simp add: step del: via_loop.simps)
              show ?thesis unfolding l coming pos' by (rule ended_more) (rule Cons.IH [OF wrote(1) fit'])
            next
              case due: True
              obtain res s2 where f: "flush (ck_id c) (p + of_nat (length ?got)) (rc_flush buf) ?s = (res, s2)"
                "has_run c p s0 ?got s2"
                by (rule run_flush_pair [OF wrote(1)])
              show ?thesis
              proof (cases res)
                case (Inl err)
                then have l: "via_loop c e (ev # evs) final ?pos cp s = (Inl err, s2)"
                  using None written due f(1) unfolding pos' [symmetric] by (simp add: step del: via_loop.simps)
                show ?thesis unfolding l coming by (rule ended_more) (rule ended_failed [OF f(2)])
              next
                case (Inr u)
                then have l: "via_loop c e (ev # evs) final ?pos cp s = via_loop c e evs final ?pos' ?pos' s2"
                  using None written due f(1) unfolding pos' [symmetric] by (simp add: step del: via_loop.simps)
                show ?thesis unfolding l coming pos' by (rule ended_more) (rule Cons.IH [OF f(2) fit'])
              qed
            qed
          qed
        qed
      qed
    qed
  qed
qed

section \<open>Where a body is written from\<close>

lemma map_sum_Inr_iff [simp]: "map_sum id (\<lambda>_. x) r = Inr p \<longleftrightarrow> (\<exists>u. r = Inr u) \<and> p = x"
  by (cases r) auto

lemma check_total_ok:
  assumes "check_total w c v = Inr ()"
  shows "(\<forall>named expected. parse_content_range_total v = Some named \<and> wk_total_bytes w = Some expected \<longrightarrow> named = expected)
    \<and> (wk_validator w = None \<and> ck_committed c > ck_start c \<longrightarrow> (\<exists>n. parse_content_range_total v = Some n \<and> wk_total_bytes w = Some n))"
  using assms by (auto simp: check_total_def split: option.splits if_splits)

lemma undescribed_start_ok:
  assumes "undescribed_start w c r = Inr p"
  shows "p = ck_start c \<and> ck_committed c \<le> ck_start c \<and> wk_covers_whole_file w
    \<and> looks_downloadable (header_text r ''content-disposition'') (header_text r ''content-type'') (rs_content_length r)"
  using assms by (auto simp: undescribed_start_def Let_def split: if_splits)

lemma start_position_committed:
  assumes "ck_start c \<le> ck_committed c" and "start_position w c r = Inr p"
  shows "p = ck_committed c"
  using assms undescribed_start_ok [of w c r p]
  by (auto simp: start_position_def unranged_start_def split: if_splits option.splits sum.splits)

text \<open>Property C26. A body is written where it belongs: when ranges are required and an answer is taken,
  its body goes to the chunk's confirmed offset, and either the answer's \<open>Content-Range\<close> names exactly
  this offset, of a file of the expected length where both lengths are named (and both are named
  when bytes are on disk that no validator answers for), or no part is described at all, the answer is
  no \<open>206\<close>, nothing of the chunk is confirmed yet, the chunk is the whole file and the headers are those
  of a file and not of a page.\<close>

theorem body_goes_where_it_belongs:
  assumes "ck_start c \<le> ck_committed c" and "wk_require_range w" and "start_position w c r = Inr p"
  shows "p = ck_committed c
    \<and> ((\<exists>v. header_text r ''content-range'' = Some v \<and> parse_content_range_start v = Some p
          \<and> (\<forall>named expected. parse_content_range_total v = Some named \<and> wk_total_bytes w = Some expected \<longrightarrow> named = expected)
          \<and> (wk_validator w = None \<and> ck_committed c > ck_start c \<longrightarrow>
               (\<exists>n. parse_content_range_total v = Some n \<and> wk_total_bytes w = Some n)))
       \<or> (rs_status r \<noteq> 206 \<and> ck_committed c = ck_start c \<and> wk_covers_whole_file w
          \<and> Option.bind (header_text r ''content-range'') parse_content_range_start = None
          \<and> looks_downloadable (header_text r ''content-disposition'') (header_text r ''content-type'') (rs_content_length r)))"
proof -
  have p: "p = ck_committed c" by (rule start_position_committed [OF assms(1,3)])
  have no_range: "parse_content_range_start [] = None" by (simp add: parse_content_range_start_def trim_def trim_start_def trim_end_def)
  show ?thesis
  proof (cases "rs_status r = 206")
    case True
    then obtain u where "check_partial_range w c r = Inr u"
      using assms(3) by (auto simp: start_position_def split: sum.splits)
    then obtain v where v: "header_text r ''content-range'' = Some v" "parse_content_range_start v = Some (ck_committed c)"
      "check_total w c v = Inr ()"
      using no_range by (auto simp: check_partial_range_def Let_def split: option.splits if_splits)
    show ?thesis using p v(1,2) check_total_ok [OF v(3)] by blast
  next
    case False
    then have u: "unranged_start w c r = Inr p" using assms(2,3) by (simp add: start_position_def)
    show ?thesis
    proof (cases "Option.bind (header_text r ''content-range'') parse_content_range_start")
      case None
      then have "Option.bind (header_text r ''content-range'')
          (\<lambda>rng. map_option (Pair rng) (parse_content_range_start rng)) = None"
        by (auto simp: Option.bind_eq_None_conv)
      then have "undescribed_start w c r = Inr p" using u by (simp add: unranged_start_def)
      from undescribed_start_ok [OF this] show ?thesis using False None p assms(1) by auto
    next
      case (Some start)
      then obtain v where v: "header_text r ''content-range'' = Some v" "parse_content_range_start v = Some start"
        by (auto simp: Option.bind_eq_Some_conv)
      then have "start = ck_committed c" "check_total w c v = Inr ()"
        using u by (auto simp: unranged_start_def split: if_splits sum.splits)
      then show ?thesis using p v check_total_ok [of w c v] by blast
    qed
  qed
qed

definition a_worker :: worker where
  "a_worker = \<lparr>wk_covers_whole_file = False, wk_validator = None, wk_total_bytes = Some 9,
     wk_require_range = True, wk_approved_origins = []\<rparr>"

definition a_chunk :: chunk_spec where
  "a_chunk = \<lparr>ck_id = ''c'', ck_start = 4, ck_end = Some 9, ck_committed = 6\<rparr>"

definition an_answer :: response where
  "an_answer = \<lparr>rs_status = 206, rs_status_text = ''206 Partial Content'',
     rs_headers = [(''content-range'', ''bytes 6-8/9'')], rs_content_length = Some 3,
     rs_origin = None, rs_target = [], rs_redirect = None\<rparr>"

lemma an_answer_starts: "start_position a_worker a_chunk an_answer = Inr 6"
  by (simp add: start_position_def check_partial_range_def header_text_def an_answer_def a_worker_def a_chunk_def
      parse_content_range_start_def trim_def trim_start_def trim_end_def ws_char_def lowercase_def lower_char_def
      parse_u64_def digit_char_def undec_def digit_value_def check_total_def parse_content_range_total_def
      rsplit_once_def Let_def)

lemma body_goes_where_it_belongs_witness:
  "\<exists>v. header_text an_answer ''content-range'' = Some v \<and> parse_content_range_start v = Some 6"
proof -
  have "ck_start a_chunk \<le> ck_committed a_chunk" and "wk_require_range a_worker" by (simp_all add: a_chunk_def a_worker_def)
  from body_goes_where_it_belongs [OF this an_answer_starts] show ?thesis by (auto simp: an_answer_def)
qed

text \<open>Property C27. Checkpoints stay behind the disk: whatever a connection meets (a failed write, a
  failed sync, a broken body, a pause), every checkpoint it adds is an offset up to which exactly the
  delivered bytes, from the chunk's confirmed offset on, are in the synced file; nothing outside the
  chunk is written; and a chunk it calls complete has its last checkpoint at its end, with every byte
  delivered.\<close>

theorem checkpoints_stay_behind_the_disk:
  assumes "ck_start c \<le> ck_committed c"
    and "unat (ck_committed c) + length (delivered (xc_body x)) < 2 ^ 64"
    and "run_worker w c x s = (res, s')"
  shows "(\<exists>offs. sg_commits s' = sg_commits s @ map (Pair (ck_id c)) offs
      \<and> (\<forall>off \<in> set offs. \<exists>n \<le> length (delivered (xc_body x)). off = ck_committed c + of_nat n
           \<and> (\<forall>i < n. sg_durable s' (ck_committed c + of_nat i) = Some (delivered (xc_body x) ! i))))
    \<and> (\<forall>q. q < ck_committed c \<or> (\<exists>e. ck_end c = Some e \<and> e \<le> q) \<longrightarrow> sg_bytes s' q = sg_bytes s q)
    \<and> (res = Inr Complete \<longrightarrow>
        sg_commits s' \<noteq> [] \<and> last (sg_commits s') = (ck_id c, ck_committed c + of_nat (length (delivered (xc_body x))))
        \<and> (\<forall>e. ck_end c = Some e \<longrightarrow> e = ck_committed c + of_nat (length (delivered (xc_body x)))))"
proof -
  let ?p = "ck_committed c" and ?body = "delivered (xc_body x)"
  have room: "unat ?p + length ([] :: u8 list) + length ?body < 18446744073709551616" using assms(2) by simp
  consider (idle) "s' = s" "res \<noteq> Inr Complete" | (ran) "ended c ?p s [] ?body (res, s')"
  proof (cases "xc_cancelled x \<or> xc_slot_cancelled x")
    case True
    then show thesis using idle assms(3) by (auto simp: run_worker_def)
  next
    case False
    show thesis
    proof (cases "xc_answer x")
      case (Inl f)
      then show thesis using idle assms(3) False by (auto simp: run_worker_def)
    next
      case (Inr r)
      show thesis
      proof (cases "check_response w r")
        case Inl': (Inl e)
        then show thesis using idle assms(3) False Inr by (auto simp: run_worker_def)
      next
        case Inr': (Inr u)
        show thesis
        proof (cases "start_position w c r")
          case Inl'': (Inl e)
          then show thesis using idle assms(3) False Inr Inr' by (auto simp: run_worker_def)
        next
          case Inr'': (Inr p)
          then have p: "p = ?p" by (rule start_position_committed [OF assms(1)])
          have "(res, s') = write_body c (xc_body x) (xc_last_flush x) ?p ?p s"
            using assms(3) False Inr Inr' Inr'' p by (simp add: run_worker_def)
          then show thesis
            using ran write_body_ended [OF run_start room, of c s "xc_last_flush x" ?p] by simp
        qed
      qed
    qed
  qed
  then show ?thesis
  proof cases
    case idle
    then show ?thesis by (auto intro: exI [of _ "[]"])
  next
    case ran
    then obtain more where m: "prefix more ?body" "has_run c ?p s more s'"
      "res = Inr Complete \<longrightarrow> sg_commits s' \<noteq> [] \<and> last (sg_commits s') = (ck_id c, ?p + of_nat (length more))
         \<and> more = ?body \<and> (\<forall>e. ck_end c = Some e \<longrightarrow> e = ?p + of_nat (length more))"
      unfolding ended_def by auto
    obtain offs where o: "sg_commits s' = sg_commits s @ map (Pair (ck_id c)) offs"
      "\<forall>off \<in> set offs. \<exists>n \<le> length more. off = ?p + of_nat n \<and> lies ?p (take n more) (sg_durable s')"
      and out: "\<forall>q. q < ?p \<or> (\<exists>e. ck_end c = Some e \<and> e \<le> q) \<longrightarrow> sg_bytes s' q = sg_bytes s q"
      using m(2) unfolding has_run_def by blast
    have "\<forall>off \<in> set offs. \<exists>n \<le> length ?body. off = ?p + of_nat n
        \<and> (\<forall>i < n. sg_durable s' (?p + of_nat i) = Some (?body ! i))"
    proof
      fix off assume "off \<in> set offs"
      then obtain n where n: "n \<le> length more" "off = ?p + of_nat n" "lies ?p (take n more) (sg_durable s')"
        using o(2) by blast
      obtain rest where "?body = more @ rest" using m(1) by (auto simp: prefix_def)
      then have "\<forall>i < n. sg_durable s' (?p + of_nat i) = Some (?body ! i)" and "n \<le> length ?body"
        using n(1,3) by (auto simp: lies_def nth_append)
      then show "\<exists>n \<le> length ?body. off = ?p + of_nat n
          \<and> (\<forall>i < n. sg_durable s' (?p + of_nat i) = Some (?body ! i))" using n(2) by blast
    qed
    then show ?thesis using o(1) out m(3) by auto
  qed
qed

definition an_exchange :: exchange where
  "an_exchange = \<lparr>xc_cancelled = False, xc_slot_cancelled = False, xc_answer = Inr an_answer,
     xc_body = [Received \<lparr>rc_bytes = [7, 8, 9], rc_paced = None, rc_written = None, rc_elapsed = False, rc_flush = FlushFine\<rparr>],
     xc_last_flush = FlushFine\<rparr>"

definition no_staging :: staging where
  "no_staging = \<lparr>sg_bytes = (\<lambda>_. None), sg_durable = (\<lambda>_. None), sg_commits = []\<rparr>"

lemma checkpoints_stay_behind_the_disk_witness:
  "last (sg_commits (snd (run_worker a_worker a_chunk an_exchange no_staging))) = (''c'', 9)"
proof -
  have whole: "fst (run_worker a_worker a_chunk an_exchange no_staging) = Inr Complete"
    using an_answer_starts
    by (simp add: run_worker_def an_exchange_def check_response_def a_worker_def an_answer_def a_chunk_def
        write_bytes_def sat_add_def flush_def)
  have body: "delivered (xc_body an_exchange) = [7, 8, 9]" by (simp add: an_exchange_def)
  have a: "ck_start a_chunk \<le> ck_committed a_chunk" by (simp add: a_chunk_def)
  have b: "unat (ck_committed a_chunk) + length (delivered (xc_body an_exchange)) < 2 ^ 64"
    by (simp add: a_chunk_def body)
  show ?thesis
    using checkpoints_stay_behind_the_disk [OF a b, of a_worker no_staging, OF surjective_pairing] whole
    by (simp add: body a_chunk_def)
qed

end
