(* ===== verification/ChunkProps.thy ===== *)
theory ChunkProps
  imports Chunks
begin

text \<open>
  What the plans and the layout check of the HTTP engine promise: a plan splits the file into
  consecutive chunks, an aligned one on piece boundaries, and the check accepts exactly the layouts
  that are responsible for every byte.
\<close>

section \<open>Plans\<close>

lemma count_small:
  fixes n T cs :: nat
  assumes "0 < T" "1 \<le> n" "n - 1 \<le> 4194304" "(n - 1) * 4194304 < T" "n * cs < T + n" "i + 1 < n"
  shows "(i + 1) * cs < T"
proof -
  have "(n - 1) * (n - 1) \<le> (n - 1) * 4194304" using assms(3) by (rule mult_le_mono2)
  then have sq: "(n - 1) * (n - 1) < T" using assms(4) by linarith
  have "n * ((n - 1) * cs) \<le> (n - 1) * (T + (n - 1))"
  proof -
    have "n * cs \<le> T + (n - 1)" using assms(2,5) by linarith
    then have "(n - 1) * (n * cs) \<le> (n - 1) * (T + (n - 1))" by (rule mult_le_mono2)
    then show ?thesis by (simp only: mult.left_commute)
  qed
  also have "\<dots> = (n - 1) * T + (n - 1) * (n - 1)" by (rule distrib_left)
  also have "\<dots> < (n - 1) * T + T" using sq by simp
  also have "\<dots> = n * T" using assms(2) by (cases n) simp_all
  finally have "(n - 1) * cs < T" by simp
  moreover have "(i + 1) * cs \<le> (n - 1) * cs" using assms(6) by (intro mult_le_mono1) linarith
  ultimately show ?thesis by linarith
qed

lemma unat_times_small: "i * unat c < 18446744073709551616 \<Longrightarrow> unat (of_nat i * c) = i * unat c" for c :: u64
proof (cases "unat c = 0")
  case False
  assume a: "i * unat c < 18446744073709551616"
  have "i \<le> i * unat c" using False by simp
  then have "i < 18446744073709551616" using a by (rule le_less_trans)
  then have "unat (of_nat i :: u64) = i" by (simp add: unat_of_nat_small)
  with a show ?thesis by (simp add: unat_word_ariths)
qed (simp add: unat_eq_zero)

lemma plan_chunks_tiles:
  assumes tot: "0 < tot" "tot \<le> 9223372036854775808" and most: "max_chunks \<le> 4194304"
  shows "tiles 0 (plan_chunks ids (Some tot) ranges max_chunks) tot"
proof -
  define count :: u64 where "count = (if ranges then clamp max_chunks 1 (max (div_ceil tot MIN_CHUNK_SIZE) 1) else 1)"
  define n where "n = unat count"
  define c where "c = div_ceil tot count"
  define s where "s i = (if i < n then of_nat i * c else tot)" for i
  have T: "0 < unat tot" "unat tot \<le> 9223372036854775808"
    using tot by (simp_all add: word_less_nat_alt word_le_nat_alt)
  have min_pos: "0 < MIN_CHUNK_SIZE" "unat MIN_CHUNK_SIZE = 4194304" by (simp_all add: MIN_CHUNK_SIZE_def)
  have n1: "1 \<le> n" using clamp_count(1) by (cases ranges) (simp_all add: n_def count_def)
  have pos: "0 < count" using n1 by (simp only: n_def word_less_nat_alt unat_0)
  have "n \<le> max (unat max_chunks) 1" and nM: "n \<le> max (unat (div_ceil tot MIN_CHUNK_SIZE)) 1"
    using clamp_count(3,2) by (cases ranges; simp add: n_def count_def)+
  moreover have "unat max_chunks \<le> 4194304" using most by (simp add: word_le_nat_alt)
  ultimately have n2: "n \<le> 4194304" by linarith
  have small: "(n - 1) * 4194304 < unat tot"
  proof (cases "n = 1")
    case False
    then have "n \<le> unat (div_ceil tot MIN_CHUNK_SIZE)" using nM n1 by linarith
    then have "4194304 * n \<le> 4194304 * unat (div_ceil tot MIN_CHUNK_SIZE)" by simp
    also have "\<dots> < unat tot + 4194304" using div_ceil_covers(2) [OF min_pos(1), of tot] min_pos(2) by simp
    finally show ?thesis using n1 by (simp add: diff_mult_distrib)
  qed (use T in simp)
  have cover: "unat tot \<le> n * unat c" "n * unat c < unat tot + n"
    using div_ceil_covers [OF pos, of tot] by (simp_all add: n_def c_def)
  have val: "unat (of_nat i * c) = i * unat c" if "i \<le> n" for i
  proof (rule unat_times_small)
    have "i * unat c \<le> n * unat c" using that by (rule mult_le_mono1)
    then show "i * unat c < 18446744073709551616" using cover(2) T(2) n2 by linarith
  qed
  have below: "(i + 1) * unat c < unat tot" if "i + 1 < n" for i
    using count_small [OF T(1) n1 _ small cover(2) that] n2 by linarith
  have step: "min ((of_nat i + 1) * c) tot = s (Suc i) \<and> s i < s (Suc i)" if i: "i < n" for i
  proof -
    have e: "(of_nat i + 1) * c = of_nat (Suc i) * c" by (simp only: of_nat_Suc add.commute)
    have v: "unat (of_nat (Suc i) * c) = Suc i * unat c" using val [of "Suc i"] i by simp
    have cpos: "0 < unat c" using cover(1) T(1) by (cases "unat c = 0") auto
    have vi: "unat (of_nat i * c) = i * unat c" using val [of i] i by simp
    show ?thesis
    proof (cases "Suc i < n")
      case True
      then have "of_nat (Suc i) * c < tot" using below [of i] v by (simp add: word_less_nat_alt)
      then have "min (of_nat (Suc i) * c) tot = of_nat (Suc i) * c" by (intro min_absorb1) simp
      moreover have "of_nat i * c < of_nat (Suc i) * c"
        using v vi cpos by (simp only: word_less_nat_alt) simp
      ultimately show ?thesis using True i e by (simp add: s_def)
    next
      case False
      then have "Suc i = n" using i by simp
      then have "tot \<le> of_nat (Suc i) * c" using v cover(1) by (simp add: word_le_nat_alt)
      then have "min (of_nat (Suc i) * c) tot = tot" by (rule min_absorb2)
      moreover have "of_nat i * c < tot"
      proof (cases i)
        case 0
        then show ?thesis using tot(1) by simp
      next
        case (Suc j)
        then show ?thesis using below [of j] vi i by (simp add: word_less_nat_alt)
      qed
      ultimately show ?thesis using False i e by (simp add: s_def)
    qed
  qed
  let ?f = "\<lambda>index. let start = of_nat index * c; stop = min ((of_nat index + 1) * c) tot
      in \<lparr>ck_id = ids index, ck_start = start, ck_end = Some stop, ck_committed = start\<rparr>"
  have "tiles (s 0) (map ?f [0..<n]) (s n)"
    by (rule tiles_upt) (use step in \<open>auto simp: Let_def s_def\<close>)
  moreover have "plan_chunks ids (Some tot) ranges max_chunks = map ?f [0..<n]"
    using tot(1) by (simp add: plan_chunks_def Let_def n_def c_def count_def)
  moreover have "s 0 = 0" "s n = tot" using n1 by (simp_all add: s_def)
  ultimately show ?thesis by simp
qed

section \<open>Aligned plans\<close>

lemma aligned_from_tiles:
  assumes "0 < width" and "start \<le> tot"
  shows "tiles start (aligned_from ids tot width index start) tot"
  using assms(2)
proof (induction "unat tot - unat start" arbitrary: index start rule: less_induct)
  case less
  show ?case
  proof (cases "start < tot")
    case True
    let ?stop = "min (sat_add start width) tot"
    have w: "0 < unat width" and st: "unat start < unat tot"
      using assms(1) True by (simp_all add: word_less_nat_alt)
    have u: "unat ?stop = min (min (unat start + unat width) 18446744073709551615) (unat tot)"
      unfolding unat_min unat_sat_add by simp
    have lt: "unat start < unat ?stop" using u w st u64_bound [of tot] by auto
    have "unat tot - unat ?stop < unat tot - unat start" and "?stop \<le> tot" using lt st by simp_all
    then have "tiles ?stop (aligned_from ids tot width (index + 1) ?stop) tot" by (rule less.hyps)
    moreover have "start < ?stop" using lt by (simp add: word_less_nat_alt)
    ultimately show ?thesis using True assms(1) by (subst aligned_from.simps) (simp add: Let_def)
  next
    case False
    then show ?thesis using less.prems by (subst aligned_from.simps) simp
  qed
qed

text \<open>What one turn of the loop leaves: the end of the file, or one width further.\<close>

lemma aligned_stop:
  fixes start width tot :: u64
  defines "stop \<equiv> min (sat_add start width) tot"
  assumes "start < tot"
  obtains (over) "stop = tot" "unat tot \<le> unat start + unat width"
  | (inside) "unat stop = unat start + unat width" "stop < tot"
proof (cases "stop = tot")
  case True
  then have "tot \<le> sat_add start width" by (simp add: stop_def min_def split: if_splits)
  then have "unat tot \<le> unat start + unat width" by (simp add: word_le_nat_alt unat_sat_add)
  with True show thesis by (rule over)
next
  case False
  then have e: "stop = sat_add start width" and l: "stop < tot" by (auto simp: stop_def min_def split: if_splits)
  have "unat stop < unat tot" using l by (simp add: word_less_nat_alt)
  then have "unat stop = unat start + unat width" using u64_bound [of tot] by (simp add: e unat_sat_add)
  then show thesis using l by (rule inside)
qed

text \<open>A width that is a multiple of the alignment, or reaches beyond the file, keeps every boundary.\<close>

lemma aligned_from_aligned:
  assumes "unat align dvd unat start" and "unat align dvd unat width \<or> tot \<le> width"
  shows "\<forall>c \<in> set (aligned_from ids tot width index start). unat align dvd unat (ck_start c)
    \<and> (\<exists>e. ck_end c = Some e \<and> (unat align dvd unat e \<or> e = tot))"
  using assms
proof (induction "unat tot - unat start" arbitrary: index start rule: less_induct)
  case less
  show ?case
  proof (cases "start < tot \<and> 0 < width")
    case True
    let ?stop = "min (sat_add start width) tot"
    let ?rest = "aligned_from ids tot width (index + 1) ?stop"
    have w: "0 < unat width" and st: "unat start < unat tot" using True by (simp_all add: word_less_nat_alt)
    have here: "aligned_from ids tot width index start
        = \<lparr>ck_id = ids index, ck_start = start, ck_end = Some ?stop, ck_committed = start\<rparr> # ?rest"
      using True by (subst aligned_from.simps) (simp add: Let_def)
    show ?thesis
    proof (cases rule: aligned_stop [of start tot width, OF conjunct1 [OF True], case_names over inside])
      case over
      then have "?rest = []" by (subst aligned_from.simps) simp
      then show ?thesis using here over(1) less.prems(1) by simp
    next
      case inside
      have "\<not> tot \<le> width"
        using inside w by (simp add: word_le_nat_alt word_less_nat_alt)
      then have "unat align dvd unat ?stop" using less.prems inside(1) by simp
      moreover have "unat tot - unat ?stop < unat tot - unat start"
        using inside w st by (simp add: word_less_nat_alt)
      ultimately show ?thesis using here less.hyps less.prems by simp
    qed
  next
    case False
    then have "aligned_from ids tot width index start = []" by (subst aligned_from.simps) (simp only: if_False)
    then show ?thesis by simp
  qed
qed

lemma aligned_from_length:
  assumes "0 < width" and "unat tot \<le> unat start + m * unat width"
  shows "length (aligned_from ids tot width index start) \<le> m"
  using assms(2)
proof (induction m arbitrary: index start)
  case 0
  then have "\<not> start < tot" by (simp add: word_less_nat_alt)
  then show ?case by (subst aligned_from.simps) simp
next
  case (Suc m)
  show ?case
  proof (cases "start < tot")
    case True
    let ?stop = "min (sat_add start width) tot"
    let ?rest = "aligned_from ids tot width (index + 1) ?stop"
    have here: "length (aligned_from ids tot width index start) = Suc (length ?rest)"
      using True assms(1) by (subst aligned_from.simps) (simp add: Let_def)
    show ?thesis
    proof (cases rule: aligned_stop [of start tot width, OF True, case_names over inside])
      case over
      then have "?rest = []" by (subst aligned_from.simps) simp
      then show ?thesis using here by simp
    next
      case inside
      then have "length ?rest \<le> m" using Suc.prems by (intro Suc.IH) simp
      then show ?thesis using here by simp
    qed
  next
    case False
    then show ?thesis by (subst aligned_from.simps) simp
  qed
qed

lemma plan_aligned_shape:
  assumes "0 < tot"
  obtains width count where "plan_aligned_chunks ids tot max_chunks align = aligned_from ids tot width 0 0"
    and "0 < width" and "unat (max align 1) dvd unat width \<or> tot \<le> width"
    and "unat tot \<le> count * unat width" and "count \<le> max (unat max_chunks) 1"
proof -
  define a where "a = max align 1"
  define count where "count = clamp max_chunks 1 (max (div_ceil tot (max MIN_CHUNK_SIZE a)) 1)"
  define pieces where "pieces = div_ceil (div_ceil tot count) a"
  define width where "width = max (sat_mul pieces a) a"
  have a1: "1 \<le> unat a" by (simp add: a_def unat_word_max)
  have c1: "1 \<le> unat count" and c2: "unat count \<le> max (unat max_chunks) 1"
    unfolding count_def by (rule clamp_count)+
  have pos: "0 < a" "0 < count" using a1 c1 by (simp_all add: word_less_nat_alt)
  have w: "unat width = max (min (unat pieces * unat a) 18446744073709551615) (unat a)"
    by (simp add: width_def unat_word_max unat_sat_mul)
  have "unat tot \<le> unat count * unat (div_ceil tot count)" by (rule div_ceil_covers(1) [OF pos(2)])
  also have "\<dots> \<le> unat count * (unat a * unat pieces)"
    unfolding pieces_def by (rule mult_le_mono2) (rule div_ceil_covers(1) [OF pos(1)])
  finally have reach: "unat tot \<le> unat count * (unat a * unat pieces)" .
  have covers: "unat tot \<le> unat count * unat width"
  proof (cases "unat pieces * unat a \<le> 18446744073709551615")
    case True
    then have "unat a * unat pieces \<le> unat width" using w by (simp add: mult.commute)
    then have "unat count * (unat a * unat pieces) \<le> unat count * unat width" by (rule mult_le_mono2)
    then show ?thesis using reach by linarith
  next
    case False
    then have "unat tot \<le> unat width" using w u64_bound [of tot] by simp
    also have "\<dots> \<le> unat count * unat width" using c1 by (cases "unat count") simp_all
    finally show ?thesis .
  qed
  have dvd: "unat a dvd unat width \<or> tot \<le> width"
  proof (cases "unat pieces * unat a \<le> 18446744073709551615")
    case True
    then show ?thesis using w by (simp add: max_def)
  next
    case False
    then have "18446744073709551615 \<le> unat width" using w by simp
    then have "unat tot \<le> unat width" using u64_bound [of tot] by linarith
    then show ?thesis by (simp add: word_le_nat_alt)
  qed
  show thesis
  proof
    show "plan_aligned_chunks ids tot max_chunks align = aligned_from ids tot width 0 0"
      using assms by (simp only: plan_aligned_chunks_def Let_def a_def count_def pieces_def width_def
          less_irrefl if_False word_neq_0_conv [symmetric])
    show "0 < width" using w a1 by (simp add: word_less_nat_alt)
    show "unat (max align 1) dvd unat width \<or> tot \<le> width" using dvd by (simp add: a_def)
  qed (use covers c2 in auto)
qed

lemma mod_0_dvd: "unat a dvd unat b \<Longrightarrow> b mod a = 0" for a b :: u64
  by (simp add: unat_mod unat_eq_zero [symmetric])

lemma plan_aligned_tiles: "0 < tot \<Longrightarrow> tiles 0 (plan_aligned_chunks ids tot max_chunks align) tot"
  by (erule plan_aligned_shape [of tot ids max_chunks align]) (simp add: aligned_from_tiles)

lemma plan_aligned_aligned:
  assumes "0 < tot"
  shows "chunks_aligned (plan_aligned_chunks ids tot max_chunks align) align tot"
proof -
  obtain width count where p: "plan_aligned_chunks ids tot max_chunks align = aligned_from ids tot width 0 0"
    and d: "unat (max align 1) dvd unat width \<or> tot \<le> width"
    using plan_aligned_shape [OF assms] by metis
  show ?thesis
    using aligned_from_aligned [of "max align 1" 0 width tot ids 0, OF _ d]
    by (auto simp: chunks_aligned_def Let_def list_all_iff p mod_0_dvd split: option.splits)
qed

lemma plan_aligned_length: "0 < tot \<Longrightarrow> length (plan_aligned_chunks ids tot max_chunks align) \<le> max (unat max_chunks) 1"
  by (erule plan_aligned_shape [of tot ids max_chunks align]) (auto intro: order_trans [OF aligned_from_length])

text \<open>Property C30. A plan splits the file: of a file that is not empty, every byte lies in exactly
  one chunk of the plan \<open>plan_chunks\<close> makes (for files of up to 2^63 bytes and up to 2^22
  connections, beyond which the unchecked products of the code can pass the end of the file) and in
  exactly one chunk of the plan \<open>plan_aligned_chunks\<close> makes (for every size, limit and alignment,
  because that code saturates); every chunk of a plan is not empty, ends inside the file and starts
  with nothing committed; the aligned plan's boundaries fall on the pieces and it has no more chunks
  than asked for.\<close>

theorem plans_split_the_file:
  assumes "0 < tot" and "p < tot"
    and "plan = plan_chunks ids (Some tot) ranges max_chunks \<and> tot \<le> 2 ^ 63 \<and> max_chunks \<le> 2 ^ 22
         \<or> plan = plan_aligned_chunks ids tot max_chunks align"
  shows "(\<exists>i < length plan. in_chunk p (plan ! i) \<and> (\<forall>j < length plan. in_chunk p (plan ! j) \<longrightarrow> j = i))
    \<and> (\<forall>c \<in> set plan. ck_committed c = ck_start c \<and> (\<exists>e. ck_end c = Some e \<and> ck_start c < e \<and> e \<le> tot))
    \<and> chunks_aligned (plan_aligned_chunks ids tot max_chunks align) align tot
    \<and> length (plan_aligned_chunks ids tot max_chunks align) \<le> max (unat max_chunks) 1"
proof -
  have t: "tiles 0 plan tot"
    using assms(3)
  proof
    assume b: "plan = plan_chunks ids (Some tot) ranges max_chunks \<and> tot \<le> 2 ^ 63 \<and> max_chunks \<le> 2 ^ 22"
    then have "tot \<le> 9223372036854775808" and "max_chunks \<le> 4194304" by simp_all
    then show "tiles 0 plan tot" using b by (simp only: plan_chunks_tiles [OF assms(1)])
  next
    show "plan = plan_aligned_chunks ids tot max_chunks align \<Longrightarrow> tiles 0 plan tot"
      by (simp only: plan_aligned_tiles [OF assms(1)])
  qed
  have "\<exists>i < length plan. in_chunk p (plan ! i) \<and> (\<forall>j < length plan. in_chunk p (plan ! j) \<longrightarrow> j = i)"
    by (rule tiles_byte [OF t _ assms(2)]) simp
  moreover have "\<forall>c \<in> set plan. ck_committed c = ck_start c \<and> (\<exists>e. ck_end c = Some e \<and> ck_start c < e \<and> e \<le> tot)"
    using tiles_ends [OF t] by blast
  ultimately show ?thesis
    using plan_aligned_aligned [OF assms(1)] plan_aligned_length [OF assms(1)] by blast
qed

lemma plans_split_the_file_witness:
  "\<exists>i < length (plan_aligned_chunks (\<lambda>n. dec n) 20971520 4 1048576).
     in_chunk 7340032 (plan_aligned_chunks (\<lambda>n. dec n) 20971520 4 1048576 ! i)"
  using plans_split_the_file [of 20971520 7340032 "plan_aligned_chunks (\<lambda>n. dec n) 20971520 4 1048576"
      "\<lambda>n. dec n" True 4 1048576] by auto

section \<open>The layout check\<close>

lemma reach_of_iff:
  assumes "sorted (map ck_start cs)" and "\<forall>c \<in> set cs. ck_start c \<le> tot"
  shows "reach_of reach cs (Some tot) \<longleftrightarrow> (\<forall>p. reach \<le> p \<and> p < tot \<longrightarrow> (\<exists>c \<in> set cs. in_chunk p c))"
  using assms
proof (induction cs arbitrary: reach)
  case Nil
  show ?case by (auto simp: not_le)
next
  case (Cons c cs)
  show ?case
  proof (cases "reach < ck_start c")
    case True
    have "reach < tot" using True Cons.prems(2) by (simp add: less_le_trans)
    moreover have "\<not> in_chunk reach d" if "d \<in> set (c # cs)" for d
      using that True Cons.prems(1) by (auto simp: in_chunk_def dest: less_le_trans)
    ultimately show ?thesis using True by auto
  next
    case False
    then have st: "ck_start c \<le> reach" by simp
    show ?thesis
    proof (cases "ck_end c")
      case None
      then have "in_chunk p c" if "reach \<le> p" for p
        using that st by (simp add: in_chunk_def order_trans [OF st])
      then show ?thesis using None False by auto
    next
      case (Some e)
      have here: "in_chunk p c \<longleftrightarrow> p < e" if "reach \<le> p" for p
        using that Some by (simp add: in_chunk_def order_trans [OF st])
      have "reach_of reach (c # cs) (Some tot) = reach_of (max reach e) cs (Some tot)" using False Some by simp
      also have "\<dots> \<longleftrightarrow> (\<forall>p. max reach e \<le> p \<and> p < tot \<longrightarrow> (\<exists>d \<in> set cs. in_chunk p d))"
        using Cons.prems by (intro Cons.IH) simp_all
      also have "\<dots> \<longleftrightarrow> (\<forall>p. reach \<le> p \<and> p < tot \<longrightarrow> (\<exists>d \<in> set (c # cs). in_chunk p d))"
        using here by (metis list.set_intros(1) list.set_intros(2) set_ConsD max.bounded_iff not_le)
      finally show ?thesis .
    qed
  qed
qed

text \<open>Property C31. The layout check is coverage: it accepts a set of chunks, in any order and with any
  overlap, exactly when every byte of the file lies in one of them, as long as no chunk starts
  beyond the end of the file (a chunk that does is refused although nothing is missing).\<close>

theorem layout_check_is_coverage:
  assumes "\<forall>c \<in> set chunks. ck_start c \<le> tot"
  shows "layout_covers_file chunks (Some tot) \<longleftrightarrow> (\<forall>p. p < tot \<longrightarrow> (\<exists>c \<in> set chunks. in_chunk p c))"
  using reach_of_iff [of "sort_key ck_start chunks" tot 0] assms
  by (simp add: layout_covers_file_def)

lemma layout_check_is_coverage_witness:
  "\<not> layout_covers_file
      [\<lparr>ck_id = ''b'', ck_start = 6, ck_end = Some 9, ck_committed = 6\<rparr>,
       \<lparr>ck_id = ''a'', ck_start = 0, ck_end = Some 4, ck_committed = 2\<rparr>] (Some 9)"
proof -
  have "\<not> (\<exists>c \<in> set [\<lparr>ck_id = ''b'', ck_start = 6, ck_end = Some 9, ck_committed = 6\<rparr>,
       \<lparr>ck_id = ''a'', ck_start = 0, ck_end = Some 4, ck_committed = (2 :: u64)\<rparr>]. in_chunk 4 c)"
    by (simp add: in_chunk_def)
  moreover have "(4 :: u64) < 9" by simp
  ultimately show ?thesis by (subst layout_check_is_coverage) (auto intro!: exI [of _ 4])
qed

end
