(* ===== verification/HttpDownloadProps.thy ===== *)
theory HttpDownloadProps
  imports HttpDownload WorkerProps ChunkProps
begin

text \<open>
  What a transfer promises: interleaved workers over an honest server leave the remote file, however
  often the transfer is interrupted and resumed from its checkpoints; a transfer ends; and with a
  single chunk it is the one worker it starts.
\<close>

section \<open>Steps of a transfer\<close>

lemma join_workers_done [simp]:
  "tf_tasks t = [] \<Longrightarrow> join_workers q xs sf evs t = Inl (finish_download sf t)"
  by (simp add: join_workers.simps)

lemma join_workers_waits [simp]: "tf_tasks t \<noteq> [] \<Longrightarrow> join_workers q xs sf [] t = Inr t"
  by (simp add: join_workers.simps)

lemma join_workers_step:
  "tf_tasks t \<noteq> [] \<Longrightarrow> join_workers q xs sf (ev # evs) t =
     (case transfer_move q xs ev t of
        (None, t) \<Rightarrow> join_workers q xs sf evs t
      | (Some (Inr Complete), t) \<Rightarrow> join_workers q xs sf evs t
      | (Some over, t) \<Rightarrow> Inl (over, wind_down_workers q xs evs t))"
  by (simp add: join_workers.simps)

lemma pick_task_less: "tf_tasks t \<noteq> [] \<Longrightarrow> pick_task i t < length (tf_tasks t)"
  by (simp add: pick_task_def)

text \<open>What one event does to the tasks: one of them leaves, or moves on in its place.\<close>

lemma transfer_move_cases:
  assumes "transfer_move q xs ev t = (r, t')" and "tf_tasks t \<noteq> []"
  obtains (ends) k over where "k < length (tf_tasks t)" "r = Some over"
      "task_event q xs ev (tf_tasks t ! k) (tf_staging t) = (Inl over, tf_staging t')"
      "tf_tasks t' = take k (tf_tasks t) @ drop (Suc k) (tf_tasks t)"
  | (moves) k phase where "k < length (tf_tasks t)" "r = None"
      "task_event q xs ev (tf_tasks t ! k) (tf_staging t) = (Inr phase, tf_staging t')"
      "tf_tasks t' = (tf_tasks t)[k := (tf_tasks t ! k)\<lparr>tk_phase := phase\<rparr>]"
  using assms(1) ends [OF pick_task_less [OF assms(2)]] moves [OF pick_task_less [OF assms(2)]]
  by (auto simp: transfer_move_def Let_def split: prod.splits sum.splits)

section \<open>Termination\<close>

definition task_steps :: "(chunk_id \<Rightarrow> exchange) \<Rightarrow> task \<Rightarrow> nat" where
  "task_steps xs t =
     (case tk_phase t of
        Asking \<Rightarrow> length (xc_body (xs (ck_id (tk_chunk t)))) + 2
      | Streaming _ _ evs \<Rightarrow> length evs + 1)"

lemma receive_shrinks:
  "receive c final p cp evs s = (Inr ph, s') \<Longrightarrow> \<exists>p' cp' rest. ph = Streaming p' cp' rest \<and> length rest < length evs"
  by (auto simp: receive_def split: list.splits body_event.splits prod.splits sum.splits if_splits)

lemma task_event_goes_on:
  assumes "task_event q xs ev t s = (Inr ph, s')"
  obtains i where "ev = Moves i"
    "task_step (download_worker q (tk_chunk t)) (xs (ck_id (tk_chunk t))) t s = (Inr ph, s')"
  using assms by (cases ev) (auto simp: task_event_def map_prod_def split: prod.splits)

lemma task_event_shrinks:
  assumes "task_event q xs ev t s = (Inr ph, s')"
  shows "task_steps xs (t\<lparr>tk_phase := ph\<rparr>) < task_steps xs t"
proof -
  obtain i where step: "task_step (download_worker q (tk_chunk t)) (xs (ck_id (tk_chunk t))) t s = (Inr ph, s')"
    by (rule task_event_goes_on [OF assms])
  show ?thesis
  proof (cases "tk_phase t")
    case Asking
    then show ?thesis
      using step by (auto simp: task_step_def ask_def task_steps_def split: if_splits sum.splits)
  next
    case (Streaming p cp evs)
    then obtain p' cp' rest where "ph = Streaming p' cp' rest" "length rest < length evs"
      using step receive_shrinks by (force simp: task_step_def)
    then show ?thesis using Streaming by (simp add: task_steps_def)
  qed
qed

lemma sum_list_update_less:
  fixes f :: "'a \<Rightarrow> nat"
  assumes "k < length xs" and "f y < f (xs ! k)"
  shows "sum_list (map f (xs[k := y])) < sum_list (map f xs)"
proof -
  have "xs = take k xs @ xs ! k # drop (Suc k) xs" using assms(1) by (rule id_take_nth_drop)
  then have "sum_list (map f xs) = sum_list (map f (take k xs)) + f (xs ! k) + sum_list (map f (drop (Suc k) xs))"
    by (metis (no_types, lifting) add.assoc list.simps(9) map_append sum_list.Cons sum_list.append)
  moreover have "sum_list (map f (xs[k := y])) = sum_list (map f (take k xs)) + f y + sum_list (map f (drop (Suc k) xs))"
    using assms(1) by (simp add: upd_conv_take_nth_drop)
  ultimately show ?thesis using assms(2) by simp
qed

lemma sum_list_removed_less:
  fixes f :: "'a \<Rightarrow> nat"
  assumes "k < length xs" and "0 < f (xs ! k)"
  shows "sum_list (map f (take k xs @ drop (Suc k) xs)) < sum_list (map f xs)"
proof -
  have "xs = take k xs @ xs ! k # drop (Suc k) xs" using assms(1) by (rule id_take_nth_drop)
  then have "sum_list (map f xs) = sum_list (map f (take k xs)) + f (xs ! k) + sum_list (map f (drop (Suc k) xs))"
    by (metis (no_types, lifting) add.assoc list.simps(9) map_append sum_list.Cons sum_list.append)
  then show ?thesis using assms(2) by simp
qed

definition steps_left :: "(chunk_id \<Rightarrow> exchange) \<Rightarrow> transfer \<Rightarrow> nat" where
  "steps_left xs t = sum_list (map (task_steps xs) (tf_tasks t))"

lemma transfer_move_less:
  assumes "transfer_move q xs ev t = (r, t')" and "tf_tasks t \<noteq> []"
  shows "steps_left xs t' < steps_left xs t"
  using assms
proof (cases rule: transfer_move_cases)
  case (ends k over)
  have "0 < task_steps xs (tf_tasks t ! k)" by (simp add: task_steps_def split: phase.splits)
  from sum_list_removed_less [where f = "task_steps xs", OF ends(1) this] show ?thesis
    using ends(4) by (simp add: steps_left_def)
next
  case (moves k phase)
  show ?thesis
    unfolding steps_left_def moves(4) by (rule sum_list_update_less [OF moves(1)]) (rule task_event_shrinks [OF moves(3)])
qed

lemma join_workers_ends: "steps_left xs t \<le> length evs \<Longrightarrow> \<exists>over. join_workers q xs sf evs t = Inl over"
proof (induction evs arbitrary: t)
  case Nil
  then have "tf_tasks t = []"
    by (cases "tf_tasks t") (auto simp: steps_left_def task_steps_def split: phase.splits)
  then show ?case by simp
next
  case (Cons ev evs)
  show ?case
  proof (cases "tf_tasks t = []")
    case False
    obtain r t' where m: "transfer_move q xs ev t = (r, t')" by fastforce
    have "steps_left xs t' \<le> length evs" using transfer_move_less [OF m False] Cons.prems by simp
    note IH = Cons.IH [OF this]
    show ?thesis
      using IH m False
      by (auto simp: join_workers_step split: option.splits sum.splits download_outcome.splits)
  qed simp
qed

text \<open>A transfer ends: in whatever order its workers move, are cancelled or panic, after at
  most two events more per worker than its connection delivers buffers, the transfer has returned an
  outcome or an error. No schedule of the workers keeps it running.\<close>

lemma transfer_ends:
  assumes "length evs \<ge> sum_list (map (\<lambda>c. length (xc_body (xs (ck_id c))) + 2) (dq_chunks q))"
  shows "\<exists>over. download q xs open_fault sync_fault evs s = Inl over"
proof (cases "open_fault = None \<and> \<not> refuses_layout q")
  case True
  let ?t = "\<lparr>tf_staging = s, tf_tasks = map (\<lambda>c. \<lparr>tk_chunk = c, tk_phase = Asking\<rparr>)
      (filter (\<lambda>c. \<not> is_complete c) (dq_chunks q))\<rparr>"
  have "steps_left xs ?t
      = sum_list (map (\<lambda>c. length (xc_body (xs (ck_id c))) + 2) (filter (\<lambda>c. \<not> is_complete c) (dq_chunks q)))"
    by (simp add: steps_left_def task_steps_def comp_def)
  also have "\<dots> \<le> sum_list (map (\<lambda>c. length (xc_body (xs (ck_id c))) + 2) (dq_chunks q))"
    by (rule sum_list_filter_le_nat)
  finally show ?thesis using join_workers_ends [of xs ?t evs] assms True by (simp add: download_def)
qed (auto simp: download_def split: option.splits)

section \<open>One chunk is one worker\<close>

lemma alone_streaming:
  assumes "length evs < n"
  shows "join_workers q xs sf (replicate n (Moves i))
      \<lparr>tf_staging = s, tf_tasks = [\<lparr>tk_chunk = c, tk_phase = Streaming p cp evs\<rparr>]\<rparr>
    = (case write_body c evs (xc_last_flush (xs (ck_id c))) p cp s of
         (Inr Complete, s') \<Rightarrow> Inl (finish_download sf \<lparr>tf_staging = s', tf_tasks = []\<rparr>)
       | (over, s') \<Rightarrow> Inl (over, \<lparr>tf_staging = s', tf_tasks = []\<rparr>))"
  using assms
proof (induction evs arbitrary: n p cp s)
  case Nil
  then obtain m where n: "n = Suc m" by (cases n) auto
  have w: "wind_down_workers q xs evs' \<lparr>tf_staging = s', tf_tasks = []\<rparr> = \<lparr>tf_staging = s', tf_tasks = []\<rparr>" for evs' s'
    by (cases evs') simp_all
  show ?case
    unfolding n by (simp add: join_workers_step transfer_move_def pick_task_def event_task_def task_event_def task_step_def receive_def
        Let_def w del: write_body.simps split: prod.split sum.split download_outcome.split)
next
  case (Cons ev evs)
  then obtain m where n: "n = Suc m" "length evs < m" by (cases n) auto
  have w: "wind_down_workers q xs evs' \<lparr>tf_staging = s', tf_tasks = []\<rparr> = \<lparr>tf_staging = s', tf_tasks = []\<rparr>" for evs' s'
    by (cases evs') simp_all
  show ?case
  proof (cases ev)
    case (Received buf)
    show ?thesis
      unfolding n Received
      by (simp add: join_workers_step transfer_move_def pick_task_def event_task_def task_event_def task_step_def receive_def
          Let_def w Cons.IH [OF n(2)] split: prod.split sum.split)
  next
    case (Broken f)
    show ?thesis
      unfolding n Broken
      by (simp add: join_workers_step transfer_move_def pick_task_def event_task_def task_event_def task_step_def receive_def Let_def w)
  next
    case (Cancelled f)
    show ?thesis
      unfolding n Cancelled
      by (simp add: join_workers_step transfer_move_def pick_task_def event_task_def task_event_def task_step_def receive_def
          Let_def w split: prod.split sum.split)
  qed
qed


section \<open>Right bytes\<close>

text \<open>The remote file is \<open>remote\<close>. A byte of a part file is right when it is the remote file's.\<close>

definition right :: "(u64 \<Rightarrow> u8) \<Rightarrow> (u64 \<Rightarrow> u8 option) \<Rightarrow> u64 \<Rightarrow> bool" where
  "right remote m p = (m p = Some (remote p))"

text \<open>The offset in the remote file an answer says its body begins at, when a range was asked for (\<open>ranges\<close>) or not.\<close>

definition body_origin :: "bool \<Rightarrow> response \<Rightarrow> u64" where
  "body_origin ranges r =
     (if ranges \<or> rs_status r = 206 then
        (case Option.bind (header_text r ''content-range'') parse_content_range_start of Some p \<Rightarrow> p | None \<Rightarrow> 0)
      else 0)"

text \<open>An honest server sends the remote file's bytes from there on, until the connection ends or breaks.\<close>

definition honest :: "(u64 \<Rightarrow> u8) \<Rightarrow> bool \<Rightarrow> exchange \<Rightarrow> bool" where
  "honest remote ranges x =
     (length (delivered (xc_body x)) < 18446744073709551616
      \<and> (\<forall>r. xc_answer x = Inr r \<longrightarrow>
            (\<forall>k < length (delivered (xc_body x)). delivered (xc_body x) ! k = remote (body_origin ranges r + of_nat k))))"

text \<open>What the layout says is on the disk, is there and right.\<close>

definition chunk_right :: "(u64 \<Rightarrow> u8) \<Rightarrow> (u64 \<Rightarrow> u8 option) \<Rightarrow> chunk_spec \<Rightarrow> bool" where
  "chunk_right remote m c =
     (ck_start c \<le> ck_committed c \<and> (\<exists>e. ck_end c = Some e \<and> ck_committed c \<le> e \<and> e < 18446744073709551615)
      \<and> (\<forall>p. ck_start c \<le> p \<and> p < ck_committed c \<longrightarrow> right remote m p))"

lemma overlay_right:
  assumes "\<forall>k < length bytes. bytes ! k = remote (p + of_nat k)" and "unat p + length bytes < 18446744073709551616"
  shows "right remote m a \<Longrightarrow> right remote (overlay p bytes m) a"
    and "p \<le> a \<Longrightarrow> unat a < unat p + length bytes \<Longrightarrow> right remote (overlay p bytes m) a"
proof -
  have byte: "bytes ! (unat a - unat p) = remote a" if "p \<le> a" "unat a - unat p < length bytes"
  proof -
    have "unat p \<le> unat a" using that(1) by (simp add: word_le_nat_alt)
    then have "unat (p + of_nat (unat a - unat p)) = unat a"
      using u64_bound [of a] unat_offset [of p "unat a - unat p"] by simp
    then have "p + of_nat (unat a - unat p) = a" by (simp add: word_unat_eq_iff)
    then show ?thesis using assms(1) that(2) by metis
  qed
  show "right remote m a \<Longrightarrow> right remote (overlay p bytes m) a"
    using byte by (auto simp: right_def overlay_def)
  show "p \<le> a \<Longrightarrow> unat a < unat p + length bytes \<Longrightarrow> right remote (overlay p bytes m) a"
    using byte by (auto simp: right_def overlay_def word_le_nat_alt)
qed

text \<open>What a step may do to the part file: right bytes stay right, in the file and in what is synced, and
  what is newly recorded as committed is synced and right.\<close>

definition grows :: "(u64 \<Rightarrow> u8) \<Rightarrow> chunk_spec \<Rightarrow> staging \<Rightarrow> staging \<Rightarrow> bool" where
  "grows remote c s s' =
     ((\<forall>p. right remote (sg_bytes s) p \<longrightarrow> right remote (sg_bytes s') p)
      \<and> ((\<forall>p. right remote (sg_durable s) p \<longrightarrow> right remote (sg_bytes s) p) \<longrightarrow>
           (\<forall>p. right remote (sg_durable s) p \<longrightarrow> right remote (sg_durable s') p)
           \<and> (\<forall>p. right remote (sg_durable s') p \<longrightarrow> right remote (sg_bytes s') p))
      \<and> (\<exists>offs. sg_commits s' = sg_commits s @ map (Pair (ck_id c)) offs
           \<and> (\<forall>off \<in> set offs. chunk_right remote (sg_durable s') (c\<lparr>ck_committed := off\<rparr>))))"

lemma grows_refl [simp]: "grows remote c s s"
  by (simp add: grows_def)

lemma chunk_right_mono:
  "chunk_right remote m c \<Longrightarrow> \<forall>p. right remote m p \<longrightarrow> right remote m' p \<Longrightarrow> chunk_right remote m' c"
  by (auto simp: chunk_right_def)

definition synced_ok :: "(u64 \<Rightarrow> u8) \<Rightarrow> staging \<Rightarrow> bool" where
  "synced_ok remote s = (\<forall>p. right remote (sg_durable s) p \<longrightarrow> right remote (sg_bytes s) p)"

lemma grows_trans:
  assumes "grows remote c s s1" and "grows remote c s1 s2" and "synced_ok remote s"
  shows "grows remote c s s2"
proof -
  obtain o1 where o1: "sg_commits s1 = sg_commits s @ map (Pair (ck_id c)) o1"
    "\<forall>off \<in> set o1. chunk_right remote (sg_durable s1) (c\<lparr>ck_committed := off\<rparr>)"
    using assms(1) unfolding grows_def by blast
  obtain o2 where o2: "sg_commits s2 = sg_commits s1 @ map (Pair (ck_id c)) o2"
    "\<forall>off \<in> set o2. chunk_right remote (sg_durable s2) (c\<lparr>ck_committed := off\<rparr>)"
    using assms(2) unfolding grows_def by blast
  have d: "\<forall>p. right remote (sg_durable s1) p \<longrightarrow> right remote (sg_durable s2) p"
    and rest: "(\<forall>p. right remote (sg_bytes s) p \<longrightarrow> right remote (sg_bytes s2) p)
      \<and> (\<forall>p. right remote (sg_durable s) p \<longrightarrow> right remote (sg_durable s2) p)
      \<and> (\<forall>p. right remote (sg_durable s2) p \<longrightarrow> right remote (sg_bytes s2) p)"
    using assms unfolding grows_def synced_ok_def by blast+
  have "\<forall>off \<in> set (o1 @ o2). chunk_right remote (sg_durable s2) (c\<lparr>ck_committed := off\<rparr>)"
    using o1(2) o2(2) chunk_right_mono [OF _ d] by auto
  then have "\<exists>offs. sg_commits s2 = sg_commits s @ map (Pair (ck_id c)) offs
      \<and> (\<forall>off \<in> set offs. chunk_right remote (sg_durable s2) (c\<lparr>ck_committed := off\<rparr>))"
    using o1(1) o2(1) by (intro exI [of _ "o1 @ o2"]) simp
  then show ?thesis using rest unfolding grows_def by blast
qed

lemma grows_synced: "grows remote c s s' \<Longrightarrow> synced_ok remote s \<Longrightarrow> synced_ok remote s'"
  by (simp add: grows_def synced_ok_def)

lemma flush_grows:
  assumes "flush (ck_id c) off fault s = (res, s')" and "synced_ok remote s"
    and "chunk_right remote (sg_bytes s) (c\<lparr>ck_committed := off\<rparr>)"
  shows "grows remote c s s' \<and> sg_bytes s' = sg_bytes s"
proof (cases fault)
  case FlushFine
  then have s': "s' = s\<lparr>sg_durable := sg_bytes s, sg_commits := sg_commits s @ [(ck_id c, off)]\<rparr>"
    using assms(1) by (simp add: flush_def)
  have "\<exists>offs. sg_commits s' = sg_commits s @ map (Pair (ck_id c)) offs
      \<and> (\<forall>o1 \<in> set offs. chunk_right remote (sg_durable s') (c\<lparr>ck_committed := o1\<rparr>))"
    using assms(3) s' by (intro exI [of _ "[off]"]) simp
  then show ?thesis using s' assms(2) by (simp add: grows_def synced_ok_def)
qed (use assms in \<open>auto simp: flush_def grows_def synced_ok_def\<close>)

lemma write_grows:
  assumes "\<forall>k < length bytes. bytes ! k = remote (p + of_nat k)" and "unat p + length bytes < 18446744073709551616"
    and "synced_ok remote s"
  shows "grows remote c s (s\<lparr>sg_bytes := overlay p bytes (sg_bytes s)\<rparr>)"
  using overlay_right(1) [OF assms(1,2)] assms(3) by (auto simp: grows_def synced_ok_def)

section \<open>A worker writes right bytes\<close>

lemma no_range_in_nothing: "parse_content_range_start [] = None"
  by (simp add: parse_content_range_start_def trim_def trim_start_def trim_end_def)

text \<open>Where an answer to a range request is put, it says so, or it is the whole file.\<close>

lemma placed:
  assumes "ck_start c \<le> ck_committed c" and "wk_require_range w" and "start_position w c r = Inr p"
  shows "(\<exists>v. header_text r ''content-range'' = Some v \<and> parse_content_range_start v = Some (ck_committed c))
    \<or> Option.bind (header_text r ''content-range'') parse_content_range_start = None
      \<and> wk_covers_whole_file w \<and> ck_committed c = ck_start c"
  using assms undescribed_start_ok [of w c r p] no_range_in_nothing
  by (auto simp: start_position_def check_partial_range_def unranged_start_def Let_def
      Option.bind_eq_Some_conv Option.bind_eq_None_conv
      split: if_splits option.splits sum.splits)

text \<open>A worker in its body: the bytes of its chunk before its offset are right, and what comes belongs
  there.\<close>

definition streaming_right :: "(u64 \<Rightarrow> u8) \<Rightarrow> chunk_spec \<Rightarrow> u64 \<Rightarrow> u8 list \<Rightarrow> staging \<Rightarrow> bool" where
  "streaming_right remote c p coming s =
     (chunk_right remote (sg_bytes s) (c\<lparr>ck_committed := p\<rparr>)
      \<and> (\<forall>k < length coming. coming ! k = remote (p + of_nat k))
      \<and> length coming < 18446744073709551616)"

lemma streaming_right_mono:
  "streaming_right remote c p coming s \<Longrightarrow> grows remote d s s' \<Longrightarrow> streaming_right remote c p coming s'"
  using chunk_right_mono by (auto simp: streaming_right_def grows_def)

lemma right_advance:
  assumes r: "streaming_right remote c p (bytes @ rest) s" and e: "ck_end c = Some e" "unat p + length bytes \<le> unat e"
  shows "streaming_right remote c (p + of_nat (length bytes)) rest (s\<lparr>sg_bytes := overlay p bytes (sg_bytes s)\<rparr>)"
proof -
  let ?p' = "p + of_nat (length bytes) :: u64"
  have u: "unat ?p' = unat p + length bytes" using e(2) u64_bound [of e] by (intro unat_offset) simp
  have b: "\<forall>k < length bytes. bytes ! k = remote (p + of_nat k)"
    using r by (auto simp: streaming_right_def nth_append dest: spec [of _ "_ :: nat"] split: if_splits)
  have rest: "\<forall>k < length rest. rest ! k = remote (?p' + of_nat k)"
  proof (intro allI impI)
    fix k assume k: "k < length rest"
    have "(bytes @ rest) ! (length bytes + k) = remote (p + of_nat (length bytes + k))"
      using r k unfolding streaming_right_def by (auto dest: spec [of _ "length bytes + k"])
    then show "rest ! k = remote (?p' + of_nat k)" by (simp add: add.assoc)
  qed
  have room: "unat p + length bytes < 18446744073709551616" using e(2) u64_bound [of e] by simp
  have "right remote (overlay p bytes (sg_bytes s)) a" if "ck_start c \<le> a" "a < ?p'" for a
  proof (cases "a < p")
    case True
    then show ?thesis
      using r that(1) overlay_right(1) [OF b room] by (simp add: streaming_right_def chunk_right_def)
  next
    case False
    then show ?thesis
      using overlay_right(2) [OF b room, of a] that(2) u by (simp add: word_less_nat_alt word_le_nat_alt)
  qed
  moreover have "ck_start c \<le> ?p' \<and> ?p' \<le> e \<and> e < 18446744073709551615"
    using r e u by (auto simp: streaming_right_def chunk_right_def word_le_nat_alt)
  ultimately show ?thesis
    using rest r e(1) by (simp add: streaming_right_def chunk_right_def)
qed

lemma write_bytes_right:
  assumes r: "streaming_right remote c p (rc_bytes buf @ rest) s" and ok: "synced_ok remote s"
    and w: "write_bytes c p buf s = (res, s')"
  shows "grows remote c s s' \<and> (\<forall>p'. res = Inr p' \<longrightarrow> streaming_right remote c p' rest s')"
proof -
  let ?bytes = "rc_bytes buf" and ?len = "word_of_nat (length (rc_bytes buf)) :: u64"
  obtain e where e: "ck_end c = Some e" "p \<le> e" "e < 18446744073709551615"
    using r by (auto simp: streaming_right_def chunk_right_def)
  have b: "\<forall>k < length ?bytes. ?bytes ! k = remote (p + of_nat k)"
    using r by (auto simp: streaming_right_def nth_append dest: spec [of _ "_ :: nat"] split: if_splits)
  show ?thesis
  proof (cases "sat_add p ?len > e")
    case True
    then show ?thesis using w e(1) by (auto simp: write_bytes_def Let_def)
  next
    case False
    have "length ?bytes < 18446744073709551616" using r by (simp add: streaming_right_def)
    then have "unat ?len = length ?bytes" by (simp add: unat_of_nat_small)
    then have fit: "unat p + length ?bytes \<le> unat e"
      using False e(3) by (simp add: not_less word_le_nat_alt word_less_nat_alt unat_sat_add)
    then have room: "unat p + length ?bytes < 18446744073709551616" using u64_bound [of e] by simp
    have part: "grows remote c s (s\<lparr>sg_bytes := overlay p (take n ?bytes) (sg_bytes s)\<rparr>)" for n
      by (rule write_grows) (use b room ok in auto)
    show ?thesis
      using w e(1) False part right_advance [OF r e(1) fit] write_grows [OF b room ok, of c]
      by (auto simp: write_bytes_def Let_def split: option.splits)
  qed
qed

lemma ask_right:
  assumes "chunk_right remote (sg_bytes s) c" and "honest remote (dq_use_ranges q) x"
    and "\<not> refuses_layout q" and "c \<in> set (dq_chunks q)"
    and "ask (download_worker q c) c x = Inr ph"
  obtains p where "ph = Streaming p p (xc_body x)" "streaming_right remote c p (delivered (xc_body x)) s"
proof -
  let ?w = "download_worker q c"
  obtain r u p where a: "xc_answer x = Inr r" "check_response ?w r = Inr u" "start_position ?w c r = Inr p"
    "ph = Streaming p p (xc_body x)"
    using assms(5) by (auto simp: ask_def split: if_splits sum.splits)
  have le: "ck_start c \<le> ck_committed c" using assms(1) by (simp add: chunk_right_def)
  have p: "p = ck_committed c" by (rule start_position_committed [OF le a(3)])
  have req: "wk_require_range ?w = dq_use_ranges q" by (simp add: download_worker_def)
  have "body_origin (dq_use_ranges q) r = p"
  proof (cases "dq_use_ranges q")
    case True
    from placed [OF le _ a(3)] True req show ?thesis
      by (auto simp: body_origin_def download_worker_def p split: if_splits)
  next
    case False
    then have "\<not> ck_committed c > 0" using assms(3,4) by (auto simp: refuses_layout_def list_ex_iff)
    then have z: "ck_committed c = 0" by (simp add: word_gt_0)
    show ?thesis
    proof (cases "rs_status r = 206")
      case True
      then have "\<exists>v. header_text r ''content-range'' = Some v \<and> parse_content_range_start v = Some (ck_committed c)"
        using a(3) no_range_in_nothing
        by (auto simp: start_position_def check_partial_range_def Let_def split: sum.splits option.splits if_splits)
      then show ?thesis using True p by (auto simp: body_origin_def)
    next
      case 206: False
      then show ?thesis using False z p by (simp add: body_origin_def)
    qed
  qed
  then have "streaming_right remote c p (delivered (xc_body x)) s"
    using assms(1,2) a(1) p by (auto simp: streaming_right_def honest_def)
  then show ?thesis using that a(4) by blast
qed

definition task_right :: "(u64 \<Rightarrow> u8) \<Rightarrow> staging \<Rightarrow> task \<Rightarrow> bool" where
  "task_right remote s t =
     (case tk_phase t of
        Asking \<Rightarrow> chunk_right remote (sg_bytes s) (tk_chunk t)
      | Streaming p _ evs \<Rightarrow> streaming_right remote (tk_chunk t) p (delivered evs) s)"

definition finished :: "(u64 \<Rightarrow> u8) \<Rightarrow> staging \<Rightarrow> chunk_spec \<Rightarrow> bool" where
  "finished remote s c = chunk_right remote (sg_bytes s) (c\<lparr>ck_committed := the (ck_end c)\<rparr>)"

lemma task_right_mono:
  assumes "task_right remote s t" and "grows remote d s s'"
  shows "task_right remote s' t"
proof (cases "tk_phase t")
  case Asking
  have "\<forall>p. right remote (sg_bytes s) p \<longrightarrow> right remote (sg_bytes s') p" using assms(2) by (simp add: grows_def)
  then show ?thesis using assms(1) Asking chunk_right_mono [of remote "sg_bytes s"] by (simp add: task_right_def)
next
  case (Streaming p cp evs)
  then show ?thesis using assms streaming_right_mono by (simp add: task_right_def)
qed

lemma finished_mono: "finished remote s c \<Longrightarrow> grows remote d s s' \<Longrightarrow> finished remote s' c"
  unfolding finished_def by (erule chunk_right_mono) (simp add: grows_def)

text \<open>The ends of a body that leave no buffer: each flushes the offset reached, or nothing.\<close>

lemma write_body_end_right:
  assumes r: "streaming_right remote c p coming s" and ok: "synced_ok remote s"
    and w: "write_body c evs final p cp s = (over, s')" and "\<forall>buf rest. evs \<noteq> Received buf # rest"
  shows "grows remote c s s' \<and> (over = Inr Complete \<longrightarrow> finished remote s' c)"
proof -
  have c: "chunk_right remote (sg_bytes s) (c\<lparr>ck_committed := p\<rparr>)" using r by (simp add: streaming_right_def)
  have f: "grows remote c s s1 \<and> sg_bytes s1 = sg_bytes s" if "flush (ck_id c) p fault s = (res, s1)" for fault res s1
    by (rule flush_grows [OF that ok c])
  obtain e where e: "ck_end c = Some e" using c by (auto simp: chunk_right_def)
  consider "evs = []" | fault rest where "evs = Cancelled fault # rest" | failure rest where "evs = Broken failure # rest"
    using assms(4) by (cases evs rule: list.exhaust) (auto, metis body_event.exhaust)
  then show ?thesis
  proof cases
    case 1
    show ?thesis
    proof (cases "p = e")
      case True
      then have "(c\<lparr>ck_committed := the (ck_end c)\<rparr>) = c\<lparr>ck_committed := p\<rparr>" using e by simp
      then show ?thesis using w 1 e True c f by (auto simp: finished_def split: prod.splits sum.splits)
    next
      case False
      then show ?thesis using w 1 e by auto
    qed
  next
    case 2
    then show ?thesis using w f by (auto split: prod.splits sum.splits)
  next
    case 3
    then show ?thesis using w by auto
  qed
qed

lemma receive_right:
  assumes r: "streaming_right remote c p (delivered evs) s" and ok: "synced_ok remote s"
    and w: "receive c final p cp evs s = (res, s')"
  shows "grows remote c s s'"
    and "res = Inr ph \<Longrightarrow> task_right remote s' \<lparr>tk_chunk = c, tk_phase = ph\<rparr>"
    and "res = Inl (Inr Complete) \<Longrightarrow> finished remote s' c"
proof -
  have "grows remote c s s' \<and> (\<forall>ph. res = Inr ph \<longrightarrow> task_right remote s' \<lparr>tk_chunk = c, tk_phase = ph\<rparr>)
      \<and> (res = Inl (Inr Complete) \<longrightarrow> finished remote s' c)"
  proof (cases "\<exists>buf rest. evs = Received buf # rest")
    case False
    then have plain: "receive c final p cp evs s = map_prod Inl id (write_body c evs final p cp s)"
      by (auto simp: receive_def split: list.splits body_event.splits)
    obtain over s1 where b: "write_body c evs final p cp s = (over, s1)" by fastforce
    show ?thesis using write_body_end_right [OF r ok b] False w plain b by auto
  next
    case True
    then obtain buf rest where ev: "evs = Received buf # rest" by blast
    obtain r1 s1 where b: "write_bytes c p buf s = (r1, s1)" by fastforce
    have "streaming_right remote c p (rc_bytes buf @ delivered rest) s" using r ev by simp
    note wrote = write_bytes_right [OF this ok b]
    show ?thesis
    proof (cases r1)
      case (Inl e)
      then show ?thesis using w ev b wrote by (auto simp: receive_def)
    next
      case (Inr p')
      have ok1: "synced_ok remote s1" using wrote grows_synced ok by blast
      have right1: "streaming_right remote c p' (delivered rest) s1" using wrote Inr by blast
      then have c1: "chunk_right remote (sg_bytes s1) (c\<lparr>ck_committed := p'\<rparr>)" by (simp add: streaming_right_def)
      show ?thesis
      proof (cases "sat_sub p' cp \<ge> CHECKPOINT_BYTES \<or> rc_elapsed buf")
        case False
        then show ?thesis using w ev b wrote Inr right1 by (auto simp: receive_def task_right_def)
      next
        case True
        obtain r2 s2 where f: "flush (ck_id c) p' (rc_flush buf) s1 = (r2, s2)" by fastforce
        have g: "grows remote c s1 s2" using flush_grows [OF f ok1 c1] by blast
        have g': "grows remote c s s2" using grows_trans [OF _ g ok] wrote by blast
        have "streaming_right remote c p' (delivered rest) s2" by (rule streaming_right_mono [OF right1 g])
        then show ?thesis
          using w ev b Inr True f g' by (auto simp: receive_def task_right_def split: sum.splits)
      qed
    qed
  qed
  then show "grows remote c s s'"
    and "res = Inr ph \<Longrightarrow> task_right remote s' \<lparr>tk_chunk = c, tk_phase = ph\<rparr>"
    and "res = Inl (Inr Complete) \<Longrightarrow> finished remote s' c" by blast+
qed

lemma task_event_right:
  assumes r: "task_right remote s t" and ok: "synced_ok remote s"
    and h: "honest remote (dq_use_ranges q) (xs (ck_id (tk_chunk t)))"
    and q: "\<not> refuses_layout q" "tk_chunk t \<in> set (dq_chunks q)"
    and w: "task_event q xs ev t s = (res, s')"
  shows "grows remote (tk_chunk t) s s' \<and> (\<forall>ph. res = Inr ph \<longrightarrow> task_right remote s' (t\<lparr>tk_phase := ph\<rparr>))
    \<and> (res = Inl (Inr Complete) \<longrightarrow> finished remote s' (tk_chunk t))"
proof (cases ev)
  case (Moves i)
  show ?thesis
  proof (cases "tk_phase t")
    case Asking
    then have a: "ask (download_worker q (tk_chunk t)) (tk_chunk t) (xs (ck_id (tk_chunk t))) = res" "s' = s"
      using w Moves by (simp_all add: task_event_def task_step_def)
    have c: "chunk_right remote (sg_bytes s) (tk_chunk t)" using r Asking by (simp add: task_right_def)
    have "task_right remote s (t\<lparr>tk_phase := ph\<rparr>)" if "res = Inr ph" for ph
      by (rule ask_right [OF c h q]) (use a(1) that in \<open>auto simp: task_right_def\<close>)
    moreover have "res \<noteq> Inl (Inr Complete)"
      using a(1) by (auto simp: ask_def split: if_splits sum.splits)
    ultimately show ?thesis using a(2) by simp
  next
    case (Streaming p cp evs)
    have rs: "streaming_right remote (tk_chunk t) p (delivered evs) s" using r Streaming by (simp add: task_right_def)
    have rec: "receive (tk_chunk t) (xc_last_flush (xs (ck_id (tk_chunk t)))) p cp evs s = (res, s')"
      using w Moves Streaming by (simp add: task_event_def task_step_def)
    show ?thesis
      using receive_right(1,3) [OF rs ok rec] receive_right(2) [OF rs ok rec]
      by (auto simp: task_right_def split: phase.splits)
  qed
next
  case (Cancels i fault)
  show ?thesis
  proof (cases "tk_phase t")
    case Asking
    then show ?thesis using w Cancels by (auto simp: task_event_def task_cancel_def)
  next
    case (Streaming p cp evs)
    have rs: "streaming_right remote (tk_chunk t) p (delivered evs) s" using r Streaming by (simp add: task_right_def)
    obtain over s1 where b: "write_body (tk_chunk t) [Cancelled fault] FlushFine p cp s = (over, s1)" by fastforce
    have "res = Inl over" "s' = s1"
      using w Cancels Streaming b by (simp_all add: task_event_def task_cancel_def)
    then show ?thesis using write_body_end_right [OF rs ok b] by simp
  qed
next
  case (Panics i e)
  then show ?thesis using w by (auto simp: task_event_def)
qed

section \<open>The invariant of a transfer\<close>

definition layout_right :: "(u64 \<Rightarrow> u8) \<Rightarrow> chunk_spec list \<Rightarrow> (u64 \<Rightarrow> u8 option) \<Rightarrow> bool" where
  "layout_right remote chunks m = (distinct (map ck_id chunks) \<and> (\<forall>c \<in> set chunks. chunk_right remote m c))"

text \<open>What an attempt has recorded: what is on disk stays right, and every checkpoint is behind it.\<close>

definition transfer_right :: "(u64 \<Rightarrow> u8) \<Rightarrow> chunk_spec list \<Rightarrow> transfer \<Rightarrow> bool" where
  "transfer_right remote chunks t =
     (synced_ok remote (tf_staging t) \<and> layout_right remote chunks (sg_durable (tf_staging t))
      \<and> (\<forall>task \<in> set (tf_tasks t). tk_chunk task \<in> set chunks \<and> task_right remote (tf_staging t) task)
      \<and> (\<forall>c \<in> set chunks. \<forall>off. (ck_id c, off) \<in> set (sg_commits (tf_staging t)) \<longrightarrow>
           chunk_right remote (sg_durable (tf_staging t)) (c\<lparr>ck_committed := off\<rparr>)))"

definition transfer_covers :: "(u64 \<Rightarrow> u8) \<Rightarrow> chunk_spec list \<Rightarrow> transfer \<Rightarrow> bool" where
  "transfer_covers remote chunks t =
     (\<forall>c \<in> set chunks. (\<exists>task \<in> set (tf_tasks t). tk_chunk task = c) \<or> finished remote (tf_staging t) c)"

lemma in_removed: "k < length xs \<Longrightarrow> x \<in> set xs \<Longrightarrow> x = xs ! k \<or> x \<in> set (take k xs @ drop (Suc k) xs)"
  by (metis Un_iff id_take_nth_drop set_ConsD set_append)

lemma removed_in: "x \<in> set (take k xs @ drop (Suc k) xs) \<Longrightarrow> x \<in> set xs"
  by (metis Un_iff in_set_dropD in_set_takeD set_append)

lemma in_updated: "k < length xs \<Longrightarrow> x \<in> set xs \<Longrightarrow> x = xs ! k \<or> x \<in> set (xs[k := y])"
  by (metis in_set_conv_nth length_list_update nth_list_update_neq)

lemma transfer_move_right:
  assumes t: "transfer_right remote (dq_chunks q) t" and ne: "tf_tasks t \<noteq> []" and q: "\<not> refuses_layout q"
    and h: "\<forall>c \<in> set (dq_chunks q). honest remote (dq_use_ranges q) (xs (ck_id c))"
    and m: "transfer_move q xs ev t = (r, t')"
  shows "transfer_right remote (dq_chunks q) t'"
    and "transfer_covers remote (dq_chunks q) t \<Longrightarrow> r = None \<or> r = Some (Inr Complete) \<Longrightarrow> transfer_covers remote (dq_chunks q) t'"
proof -
  have ok: "synced_ok remote (tf_staging t)" using t by (simp add: transfer_right_def)
  have task: "tk_chunk x \<in> set (dq_chunks q)" "task_right remote (tf_staging t) x" if "x \<in> set (tf_tasks t)" for x
    using t that by (simp_all add: transfer_right_def)
  have main: "transfer_right remote (dq_chunks q) t' \<and> (transfer_covers remote (dq_chunks q) t \<longrightarrow>
      r = None \<or> r = Some (Inr Complete) \<longrightarrow> transfer_covers remote (dq_chunks q) t')"
    if k: "k < length (tf_tasks t)" and e: "task_event q xs ev (tf_tasks t ! k) (tf_staging t) = (res, tf_staging t')"
      and tasks: "\<forall>x \<in> set (tf_tasks t'). x \<in> set (tf_tasks t) \<or> (\<exists>ph. res = Inr ph \<and> x = (tf_tasks t ! k)\<lparr>tk_phase := ph\<rparr>)"
      and kept: "\<forall>x \<in> set (tf_tasks t). x = tf_tasks t ! k \<or> x \<in> set (tf_tasks t')"
      and left: "(\<exists>over. res = Inl over \<and> r = Some over)
        \<or> (\<exists>ph. res = Inr ph \<and> (tf_tasks t ! k)\<lparr>tk_phase := ph\<rparr> \<in> set (tf_tasks t'))" for k res
  proof -
    let ?c = "tk_chunk (tf_tasks t ! k)"
    have c: "?c \<in> set (dq_chunks q)" and tr: "task_right remote (tf_staging t) (tf_tasks t ! k)"
      using task nth_mem [OF k] by blast+
    have g: "grows remote ?c (tf_staging t) (tf_staging t')"
      and ph: "\<And>ph. res = Inr ph \<Longrightarrow> task_right remote (tf_staging t') ((tf_tasks t ! k)\<lparr>tk_phase := ph\<rparr>)"
      and fin: "res = Inl (Inr Complete) \<Longrightarrow> finished remote (tf_staging t') ?c"
      using task_event_right [OF tr ok _ q c e] h c by blast+
    have d: "\<forall>p. right remote (sg_durable (tf_staging t)) p \<longrightarrow> right remote (sg_durable (tf_staging t')) p"
      using g ok by (simp add: grows_def synced_ok_def)
    have lay: "layout_right remote (dq_chunks q) (sg_durable (tf_staging t'))"
      using t chunk_right_mono [OF _ d] by (auto simp: transfer_right_def layout_right_def)
    have tasks': "tk_chunk x \<in> set (dq_chunks q) \<and> task_right remote (tf_staging t') x" if "x \<in> set (tf_tasks t')" for x
      using tasks that task task_right_mono [OF _ g] ph c by fastforce
    have commits: "chunk_right remote (sg_durable (tf_staging t')) (c\<lparr>ck_committed := off\<rparr>)"
      if cc: "c \<in> set (dq_chunks q)" and off: "(ck_id c, off) \<in> set (sg_commits (tf_staging t'))" for c off
    proof -
      obtain offs where o: "sg_commits (tf_staging t') = sg_commits (tf_staging t) @ map (Pair (ck_id ?c)) offs"
        "\<forall>off \<in> set offs. chunk_right remote (sg_durable (tf_staging t')) (?c\<lparr>ck_committed := off\<rparr>)"
        using g unfolding grows_def by blast
      show ?thesis
      proof (cases "(ck_id c, off) \<in> set (sg_commits (tf_staging t))")
        case True
        then have "chunk_right remote (sg_durable (tf_staging t)) (c\<lparr>ck_committed := off\<rparr>)"
          using t cc by (simp add: transfer_right_def)
        then show ?thesis by (rule chunk_right_mono [OF _ d])
      next
        case False
        then have "ck_id c = ck_id ?c" and "off \<in> set offs" using off o(1) by auto
        moreover have "distinct (map ck_id (dq_chunks q))" using lay by (simp add: layout_right_def)
        ultimately have "c = ?c" using c cc by (auto simp: distinct_map dest: inj_onD)
        then show ?thesis using o(2) \<open>off \<in> set offs\<close> by blast
      qed
    qed
    have "transfer_covers remote (dq_chunks q) t'" if cov: "transfer_covers remote (dq_chunks q) t"
      and r: "r = None \<or> r = Some (Inr Complete)"
      unfolding transfer_covers_def
    proof
      fix d assume "d \<in> set (dq_chunks q)"
      then consider x where "x \<in> set (tf_tasks t)" "tk_chunk x = d" | "finished remote (tf_staging t) d"
        using cov unfolding transfer_covers_def by blast
      then show "(\<exists>task \<in> set (tf_tasks t'). tk_chunk task = d) \<or> finished remote (tf_staging t') d"
      proof cases
        case 1
        show ?thesis
        proof (cases "x = tf_tasks t ! k")
          case True
          then have dc: "d = ?c" using 1(2) by simp
          from left show ?thesis
          proof
            assume "\<exists>over. res = Inl over \<and> r = Some over"
            then have "res = Inl (Inr Complete)" using r by auto
            then show ?thesis using fin dc by blast
          next
            assume "\<exists>ph. res = Inr ph \<and> (tf_tasks t ! k)\<lparr>tk_phase := ph\<rparr> \<in> set (tf_tasks t')"
            then obtain ph where "(tf_tasks t ! k)\<lparr>tk_phase := ph\<rparr> \<in> set (tf_tasks t')" by blast
            then show ?thesis using dc by (intro disjI1 bexI [of _ "(tf_tasks t ! k)\<lparr>tk_phase := ph\<rparr>"]) simp_all
          qed
        next
          case False
          then show ?thesis using kept 1 by blast
        qed
      next
        case 2
        then show ?thesis using finished_mono [OF _ g] by blast
      qed
    qed
    then show ?thesis
      using lay tasks' commits grows_synced [OF g ok] by (simp add: transfer_right_def)
  qed
  have "transfer_right remote (dq_chunks q) t' \<and> (transfer_covers remote (dq_chunks q) t \<longrightarrow>
      r = None \<or> r = Some (Inr Complete) \<longrightarrow> transfer_covers remote (dq_chunks q) t')"
    using m ne
  proof (cases rule: transfer_move_cases)
    case (ends k over)
    show ?thesis
      by (rule main [OF ends(1,3)]) (use ends(2,4) in_removed [OF ends(1)] removed_in [of _ k "tf_tasks t"] in auto)
  next
    case (moves k phase)
    show ?thesis
    proof (rule main [OF moves(1,3)])
      show "\<forall>x \<in> set (tf_tasks t'). x \<in> set (tf_tasks t) \<or> (\<exists>ph. Inr phase = Inr ph \<and> x = (tf_tasks t ! k)\<lparr>tk_phase := ph\<rparr>)"
        using moves(4) set_update_subset_insert by fastforce
      show "\<forall>x \<in> set (tf_tasks t). x = tf_tasks t ! k \<or> x \<in> set (tf_tasks t')"
        using moves(4) in_updated [OF moves(1)] by auto
      show "(\<exists>over. Inr phase = Inl over \<and> r = Some over)
          \<or> (\<exists>ph. Inr phase = Inr ph \<and> (tf_tasks t ! k)\<lparr>tk_phase := ph\<rparr> \<in> set (tf_tasks t'))"
        using moves(1,4) by (simp add: set_update_memI)
    qed
  qed
  then show "transfer_right remote (dq_chunks q) t'"
    and "transfer_covers remote (dq_chunks q) t \<Longrightarrow> r = None \<or> r = Some (Inr Complete) \<Longrightarrow> transfer_covers remote (dq_chunks q) t'"
    by blast+
qed

section \<open>A whole attempt\<close>

lemma finish_right:
  assumes "transfer_right remote chunks t" and "finish_download sf t = (over, t')"
  shows "transfer_right remote chunks t'"
    and "over = Inr Complete \<Longrightarrow> sg_durable (tf_staging t') = sg_bytes (tf_staging t)"
proof -
  have sync: "\<forall>p. right remote (sg_durable (tf_staging t)) p \<longrightarrow> right remote (sg_bytes (tf_staging t)) p"
    using assms(1) by (simp add: transfer_right_def synced_ok_def)
  have "transfer_right remote chunks (t\<lparr>tf_staging := (tf_staging t)\<lparr>sg_durable := sg_bytes (tf_staging t)\<rparr>\<rparr>)"
    using assms(1) chunk_right_mono [OF _ sync]
    by (auto simp: transfer_right_def synced_ok_def layout_right_def task_right_def streaming_right_def split: phase.splits)
  then show "transfer_right remote chunks t'" using assms by (auto simp: finish_download_def split: option.splits)
  show "over = Inr Complete \<Longrightarrow> sg_durable (tf_staging t') = sg_bytes (tf_staging t)"
    using assms(2) by (auto simp: finish_download_def split: option.splits)
qed

lemma wind_down_right:
  assumes "\<not> refuses_layout q" and "\<forall>c \<in> set (dq_chunks q). honest remote (dq_use_ranges q) (xs (ck_id c))"
    and "transfer_right remote (dq_chunks q) t"
  shows "transfer_right remote (dq_chunks q) (wind_down_workers q xs evs t)"
  using assms(3)
proof (induction evs arbitrary: t)
  case Nil
  then show ?case by (simp add: transfer_right_def)
next
  case (Cons ev evs)
  show ?case
  proof (cases "tf_tasks t = []")
    case False
    obtain r t' where m: "transfer_move q xs ev t = (r, t')" by fastforce
    show ?thesis
      using Cons.IH [OF transfer_move_right(1) [OF Cons.prems False assms(1,2) m]] m False by simp
  qed (use Cons.prems in simp)
qed

text \<open>The transfer as the attempt leaves it, ended or cut off in the middle.\<close>

definition left_by :: "worker_end \<times> transfer + transfer \<Rightarrow> transfer" where
  "left_by result = (case result of Inl (_, t) \<Rightarrow> t | Inr t \<Rightarrow> t)"

lemma join_workers_right:
  assumes "\<not> refuses_layout q" and "\<forall>c \<in> set (dq_chunks q). honest remote (dq_use_ranges q) (xs (ck_id c))"
    and "transfer_right remote (dq_chunks q) t"
  shows "transfer_right remote (dq_chunks q) (left_by (join_workers q xs sf evs t))"
    and "transfer_covers remote (dq_chunks q) t \<Longrightarrow> join_workers q xs sf evs t = Inl (Inr Complete, t') \<Longrightarrow>
      c \<in> set (dq_chunks q) \<Longrightarrow> chunk_right remote (sg_durable (tf_staging t')) (c\<lparr>ck_committed := the (ck_end c)\<rparr>)"
proof -
  have "transfer_right remote (dq_chunks q) (left_by (join_workers q xs sf evs t))
    \<and> (transfer_covers remote (dq_chunks q) t \<longrightarrow> join_workers q xs sf evs t = Inl (Inr Complete, t') \<longrightarrow>
      c \<in> set (dq_chunks q) \<longrightarrow> chunk_right remote (sg_durable (tf_staging t')) (c\<lparr>ck_committed := the (ck_end c)\<rparr>))"
    using assms(3)
  proof (induction evs arbitrary: t)
    case Nil
    show ?case
    proof (cases "tf_tasks t = []")
      case True
      obtain over t1 where f: "finish_download sf t = (over, t1)" by fastforce
      show ?thesis
        using finish_right [OF Nil f] True f by (auto simp: left_by_def transfer_covers_def finished_def)
    next
      case False
      then show ?thesis using Nil by (simp add: left_by_def)
    qed
  next
    case (Cons ev evs)
    show ?case
    proof (cases "tf_tasks t = []")
      case True
      obtain over t1 where f: "finish_download sf t = (over, t1)" by fastforce
      show ?thesis
        using finish_right [OF Cons.prems f] True f by (auto simp: left_by_def transfer_covers_def finished_def)
    next
      case False
      obtain r t1 where m: "transfer_move q xs ev t = (r, t1)" by fastforce
      note moved = transfer_move_right [OF Cons.prems False assms(1,2) m]
      show ?thesis
      proof (cases "r = None \<or> r = Some (Inr Complete)")
        case True
        then have j: "join_workers q xs sf (ev # evs) t = join_workers q xs sf evs t1"
          using m False by (auto simp: join_workers_step)
        show ?thesis unfolding j using Cons.IH [OF moved(1)] moved(2) True by blast
      next
        case stop: False
        then obtain over where over: "r = Some over" "over \<noteq> Inr Complete" by auto
        have j: "join_workers q xs sf (ev # evs) t = Inl (over, wind_down_workers q xs evs t1)"
          using m False over by (auto simp: join_workers_step split: sum.splits download_outcome.splits)
        show ?thesis
          unfolding j using over(2) wind_down_right [OF assms(1,2) moved(1)] by (auto simp: left_by_def)
      qed
    qed
  qed
  then show "transfer_right remote (dq_chunks q) (left_by (join_workers q xs sf evs t))"
    and "transfer_covers remote (dq_chunks q) t \<Longrightarrow> join_workers q xs sf evs t = Inl (Inr Complete, t') \<Longrightarrow>
      c \<in> set (dq_chunks q) \<Longrightarrow> chunk_right remote (sg_durable (tf_staging t')) (c\<lparr>ck_committed := the (ck_end c)\<rparr>)"
    by blast+
qed

text \<open>A part file as a new attempt finds it: what was synced.\<close>

definition reopened :: "(u64 \<Rightarrow> u8 option) \<Rightarrow> staging" where
  "reopened m = \<lparr>sg_bytes = m, sg_durable = m, sg_commits = []\<rparr>"

lemma download_right:
  assumes "layout_right remote (dq_chunks q) m"
    and h: "\<forall>c \<in> set (dq_chunks q). honest remote (dq_use_ranges q) (xs (ck_id c))"
  shows "transfer_right remote (dq_chunks q) (left_by (download q xs opf sf evs (reopened m)))"
    and "download q xs opf sf evs (reopened m) = Inl (Inr Complete, t) \<Longrightarrow> c \<in> set (dq_chunks q) \<Longrightarrow>
      chunk_right remote (sg_durable (tf_staging t)) (c\<lparr>ck_committed := the (ck_end c)\<rparr>)"
proof -
  let ?t = "\<lparr>tf_staging = reopened m, tf_tasks = map (\<lambda>c. \<lparr>tk_chunk = c, tk_phase = Asking\<rparr>)
      (filter (\<lambda>c. \<not> is_complete c) (dq_chunks q))\<rparr>"
  have chunks: "chunk_right remote m c" if "c \<in> set (dq_chunks q)" for c
    using assms(1) that by (simp add: layout_right_def)
  have idle: "transfer_right remote (dq_chunks q) \<lparr>tf_staging = reopened m, tf_tasks = []\<rparr>"
    and start: "transfer_right remote (dq_chunks q) ?t"
    using assms(1) chunks by (auto simp: transfer_right_def synced_ok_def reopened_def task_right_def)
  have "finished remote (reopened m) c" if c: "c \<in> set (dq_chunks q)" and complete: "is_complete c" for c
  proof -
    obtain e where e: "ck_end c = Some e" "ck_committed c \<le> e" using chunks [OF c] by (auto simp: chunk_right_def)
    then have "ck_committed c = e" using complete by (simp add: is_complete_def)
    then have "c\<lparr>ck_committed := the (ck_end c)\<rparr> = c" using e(1) by (cases c) simp
    then show ?thesis using chunks [OF c] by (simp add: finished_def reopened_def)
  qed
  then have cov: "transfer_covers remote (dq_chunks q) ?t" by (force simp: transfer_covers_def)
  show "transfer_right remote (dq_chunks q) (left_by (download q xs opf sf evs (reopened m)))"
    using idle join_workers_right(1) [OF _ h start] by (auto simp: download_def left_by_def split: option.splits)
  show "download q xs opf sf evs (reopened m) = Inl (Inr Complete, t) \<Longrightarrow> c \<in> set (dq_chunks q) \<Longrightarrow>
      chunk_right remote (sg_durable (tf_staging t)) (c\<lparr>ck_committed := the (ck_end c)\<rparr>)"
    using join_workers_right(2) [OF _ h start cov] by (auto simp: download_def split: option.splits if_splits)
qed

section \<open>Attempts one after another\<close>

text \<open>The layout as the queue has it after an attempt: every chunk with its last checkpoint.\<close>

definition recorded :: "(chunk_id \<times> u64) list \<Rightarrow> chunk_spec \<Rightarrow> chunk_spec" where
  "recorded commits c =
     (case filter (\<lambda>(i, _). i = ck_id c) commits of
        [] \<Rightarrow> c
      | own \<Rightarrow> c\<lparr>ck_committed := snd (last own)\<rparr>)"

record attempt =
  at_exchanges :: "chunk_id \<Rightarrow> exchange"
  at_open_fault :: "string option"
  at_sync_fault :: "string option"
  at_events :: "transfer_event list"

definition attempt_run :: "download_request \<Rightarrow> attempt \<Rightarrow> (u64 \<Rightarrow> u8 option) \<Rightarrow> worker_end \<times> transfer + transfer" where
  "attempt_run q a m = download q (at_exchanges a) (at_open_fault a) (at_sync_fault a) (at_events a) (reopened m)"

text \<open>The request and the part file after attempts that ended in any way or were cut off by a crash.\<close>

fun resumed :: "attempt list \<Rightarrow> download_request \<times> (u64 \<Rightarrow> u8 option) \<Rightarrow> download_request \<times> (u64 \<Rightarrow> u8 option)" where
  "resumed [] (q, m) = (q, m)"
| "resumed (a # as) (q, m) =
     (let s = tf_staging (left_by (attempt_run q a m))
      in resumed as (q\<lparr>dq_chunks := map (recorded (sg_commits s)) (dq_chunks q)\<rparr>, sg_durable s))"

lemma recorded_same [simp]:
  "ck_id (recorded cs c) = ck_id c" "ck_start (recorded cs c) = ck_start c" "ck_end (recorded cs c) = ck_end c"
  by (simp_all add: recorded_def split: list.split)

lemma recorded_cases: "recorded cs c = c \<or> (\<exists>off. (ck_id c, off) \<in> set cs \<and> recorded cs c = c\<lparr>ck_committed := off\<rparr>)"
proof (cases "filter (\<lambda>(i, _). i = ck_id c) cs")
  case Nil
  then show ?thesis by (simp add: recorded_def)
next
  case (Cons x own)
  obtain i off where l: "last (x # own) = (i, off)" by fastforce
  have "last (x # own) \<in> set (filter (\<lambda>(i, _). i = ck_id c) cs)" unfolding Cons by (rule last_in_set) simp
  then have "(ck_id c, off) \<in> set cs" using l by auto
  moreover have "recorded cs c = c\<lparr>ck_committed := off\<rparr>" using Cons l by (simp add: recorded_def del: last.simps)
  ultimately show ?thesis by blast
qed

lemma attempt_recorded:
  assumes "transfer_right remote chunks t"
  shows "layout_right remote (map (recorded (sg_commits (tf_staging t))) chunks) (sg_durable (tf_staging t))"
proof -
  have "chunk_right remote (sg_durable (tf_staging t)) (recorded (sg_commits (tf_staging t)) c)" if "c \<in> set chunks" for c
    using recorded_cases [of "sg_commits (tf_staging t)" c] assms that
    by (auto simp: transfer_right_def layout_right_def)
  then show ?thesis using assms by (auto simp: transfer_right_def layout_right_def comp_def)
qed

lemma resumed_right:
  assumes "layout_right remote (dq_chunks q) m"
    and "\<forall>a \<in> set as. \<forall>c \<in> set (dq_chunks q). honest remote (dq_use_ranges q) (at_exchanges a (ck_id c))"
    and "resumed as (q, m) = (q', m')"
  shows "layout_right remote (dq_chunks q') m' \<and> dq_use_ranges q' = dq_use_ranges q
    \<and> map (\<lambda>c. (ck_id c, ck_start c, ck_end c)) (dq_chunks q') = map (\<lambda>c. (ck_id c, ck_start c, ck_end c)) (dq_chunks q)"
  using assms
proof (induction as arbitrary: q m)
  case (Cons a as)
  define s where "s = tf_staging (left_by (attempt_run q a m))"
  define q1 where "q1 = q\<lparr>dq_chunks := map (recorded (sg_commits s)) (dq_chunks q)\<rparr>"
  have "layout_right remote (dq_chunks q1) (sg_durable s)"
    unfolding q1_def s_def attempt_run_def
    using attempt_recorded [OF download_right(1) [OF Cons.prems(1)]] Cons.prems(2) by simp
  moreover have "\<forall>a \<in> set as. \<forall>c \<in> set (dq_chunks q1). honest remote (dq_use_ranges q1) (at_exchanges a (ck_id c))"
    using Cons.prems(2) by (simp add: q1_def)
  moreover have "resumed as (q1, sg_durable s) = (q', m')" using Cons.prems(3) by (simp add: q1_def s_def Let_def)
  ultimately show ?case using Cons.IH by (fastforce simp: q1_def comp_def)
qed simp

text \<open>Property C28. However often a transfer over one address is interrupted, what it completes is the remote
  file. It starts from a layout that covers the file of \<open>tot\<close> bytes: the chunks have distinct ids, none
  starts behind the end of the file, each has a known end below 2^64 - 1 and is committed up to a point
  between its start and its end, and the bytes before that point are on the disk and are the remote
  file's. Then come attempts of any number, each with its own interleaving of the workers, and each ended
  by an error, a pause, a panic or by being cut off; between two attempts everything that was not synced
  is lost, as in a crash, and the next attempt takes up the last checkpoint recorded for each chunk. The
  remote file does not change meanwhile, and the servers are honest: the body of an answer, of fewer than
  2^64 bytes, is the remote file's bytes from the offset its \<open>Content-Range\<close> names, or from 0 where none
  counts. When an attempt at last returns complete, every byte of the file is synced and is the remote
  file's byte.\<close>

theorem interrupted_transfers_end_in_the_file:
  assumes "layout_covers_file (dq_chunks q) (Some tot)" and "layout_right remote (dq_chunks q) m"
    and "\<forall>c \<in> set (dq_chunks q). ck_start c \<le> tot"
    and "\<forall>a \<in> set (as @ [a']). \<forall>c \<in> set (dq_chunks q). honest remote (dq_use_ranges q) (at_exchanges a (ck_id c))"
    and "resumed as (q, m) = (q', m')"
    and "attempt_run q' a' m' = Inl (Inr Complete, t)" and "p < tot"
  shows "sg_durable (tf_staging t) p = Some (remote p)"
proof -
  have r: "layout_right remote (dq_chunks q') m'" "dq_use_ranges q' = dq_use_ranges q"
    "map (\<lambda>c. (ck_id c, ck_start c, ck_end c)) (dq_chunks q') = map (\<lambda>c. (ck_id c, ck_start c, ck_end c)) (dq_chunks q)"
    using resumed_right [OF assms(2) _ assms(5)] assms(4) by simp_all
  obtain c where c: "c \<in> set (dq_chunks q)" "in_chunk p c"
    using assms(1,7) reach_of_iff [of "sort_key ck_start (dq_chunks q)" tot 0] assms(3)
    by (auto simp: layout_covers_file_def)
  have "(ck_id c, ck_start c, ck_end c) \<in> (\<lambda>c. (ck_id c, ck_start c, ck_end c)) ` set (dq_chunks q')"
    using c(1) arg_cong [OF r(3), of set] by (metis (no_types, lifting) image_eqI set_map)
  then obtain c' where c': "c' \<in> set (dq_chunks q')" "ck_start c' = ck_start c" "ck_end c' = ck_end c" by auto
  have "\<forall>c \<in> set (dq_chunks q'). honest remote (dq_use_ranges q') (at_exchanges a' (ck_id c))"
  proof
    fix d assume "d \<in> set (dq_chunks q')"
    then have "(ck_id d, ck_start d, ck_end d) \<in> (\<lambda>c. (ck_id c, ck_start c, ck_end c)) ` set (dq_chunks q)"
      using arg_cong [OF r(3), of set] by (metis (no_types, lifting) image_eqI set_map)
    then show "honest remote (dq_use_ranges q') (at_exchanges a' (ck_id d))" using assms(4) r(2) by auto
  qed
  from download_right(2) [OF r(1) this assms(6) [unfolded attempt_run_def] c'(1)]
  have "right remote (sg_durable (tf_staging t)) p"
    using c(2) c'(2,3) by (auto simp: chunk_right_def in_chunk_def)
  then show ?thesis by (simp add: right_def)
qed

section \<open>Samples\<close>

definition a_file_chunk :: "u64 \<Rightarrow> chunk_spec" where
  "a_file_chunk committed = \<lparr>ck_id = ''c'', ck_start = 0, ck_end = Some 4, ck_committed = committed\<rparr>"

definition a_download :: download_request where
  "a_download = (download_request_get (Some 4) [a_file_chunk 0])\<lparr>dq_use_ranges := True\<rparr>"

definition a_part :: "string \<Rightarrow> response" where
  "a_part rng = \<lparr>rs_status = 206, rs_status_text = ''206 Partial Content'', rs_headers = [(''content-range'', rng)],
     rs_content_length = None, rs_origin = None, rs_target = [], rs_redirect = None\<rparr>"

definition a_buffer :: "u8 list \<Rightarrow> bool \<Rightarrow> body_event" where
  "a_buffer bytes elapsed = Received \<lparr>rc_bytes = bytes, rc_paced = None, rc_written = None, rc_elapsed = elapsed, rc_flush = FlushFine\<rparr>"

definition an_answered :: "string \<Rightarrow> body_event list \<Rightarrow> exchange" where
  "an_answered rng body = \<lparr>xc_cancelled = False, xc_slot_cancelled = False, xc_answer = Inr (a_part rng),
     xc_body = body, xc_last_flush = FlushFine\<rparr>"

definition broken_off :: attempt where
  "broken_off = \<lparr>at_exchanges = (\<lambda>_. an_answered ''bytes 0-3/4'' [a_buffer [1, 2] True, a_buffer [3] False]),
     at_open_fault = None, at_sync_fault = None, at_events = [Moves 0, Moves 0, Moves 0]\<rparr>"

definition taken_up :: attempt where
  "taken_up = \<lparr>at_exchanges = (\<lambda>_. an_answered ''bytes 2-3/4'' [a_buffer [3, 4] False]),
     at_open_fault = None, at_sync_fault = None, at_events = [Moves 0, Moves 0, Moves 0]\<rparr>"

lemmas parse_range_defs = parse_content_range_start_def trim_def trim_start_def trim_end_def ws_char_def lowercase_def
  lower_char_def parse_u64_def digit_char_def undec_def digit_value_def parse_content_range_total_def rsplit_once_def

lemma sample_ranges:
  "parse_content_range_start ''bytes 0-3/4'' = Some 0" "parse_content_range_total ''bytes 0-3/4'' = Some 4"
  "parse_content_range_start ''bytes 2-3/4'' = Some 2" "parse_content_range_total ''bytes 2-3/4'' = Some 4"
  by (simp_all add: parse_range_defs)

lemmas attempt_defs = attempt_run_def download_def broken_off_def taken_up_def reopened_def refuses_layout_def a_download_def
  download_request_get_def a_file_chunk_def is_complete_def join_workers.simps transfer_move_def pick_task_def event_task_def
  task_event_def task_step_def ask_def an_answered_def a_part_def check_response_def download_worker_def start_position_def
  check_partial_range_def header_text_def check_total_def sample_ranges receive_def a_buffer_def write_bytes_def
  sat_add_def sat_sub_def flush_def CHECKPOINT_BYTES_def finish_download_def left_by_def

lemma no_checkpoint_due: "\<not> (8388608 :: u64) \<le> 1"
  by (simp add: word_le_nat_alt)

definition after_break :: "u64 \<Rightarrow> u8 option" where
  "after_break = overlay 0 [1, 2] (\<lambda>_. None)"

lemma broken_off_leaves:
  "resumed [broken_off] (a_download, \<lambda>_. None) = (a_download\<lparr>dq_chunks := [a_file_chunk 2]\<rparr>, after_break)"
  by (simp add: attempt_defs Let_def recorded_def after_break_def no_checkpoint_due)

lemma interrupted_transfers_end_in_the_file_witness:
  "\<exists>t. attempt_run (a_download\<lparr>dq_chunks := [a_file_chunk 2]\<rparr>) taken_up after_break = Inl (Inr Complete, t)
    \<and> sg_durable (tf_staging t) 1 = Some 2 \<and> sg_durable (tf_staging t) 3 = Some 4"
proof -
  let ?remote = "\<lambda>p :: u64. ucast (p + 1) :: u8"
  have layout: "layout_covers_file (dq_chunks a_download) (Some 4)" "layout_right ?remote (dq_chunks a_download) (\<lambda>_. None)"
    "\<forall>c \<in> set (dq_chunks a_download). ck_start c \<le> 4"
    by (simp_all add: layout_covers_file_def layout_right_def chunk_right_def a_download_def download_request_get_def a_file_chunk_def)
  have h: "honest ?remote True (at_exchanges broken_off i)" "honest ?remote True (at_exchanges taken_up i)" for i
    by (auto simp: honest_def broken_off_def taken_up_def an_answered_def a_part_def a_buffer_def body_origin_def
        header_text_def sample_ranges less_Suc_eq nth_Cons split: nat.splits)
  have honest_all: "\<forall>a \<in> set ([broken_off] @ [taken_up]). \<forall>c \<in> set (dq_chunks a_download).
      honest ?remote (dq_use_ranges a_download) (at_exchanges a (ck_id c))"
    using h by (simp add: a_download_def)
  obtain t where t: "attempt_run (a_download\<lparr>dq_chunks := [a_file_chunk 2]\<rparr>) taken_up after_break = Inl (Inr Complete, t)"
    by (simp add: attempt_defs Let_def)
  note bytes_of = interrupted_transfers_end_in_the_file [OF layout honest_all broken_off_leaves t]
  have "sg_durable (tf_staging t) 1 = Some 2" using bytes_of [of 1] by simp
  moreover have "sg_durable (tf_staging t) 3 = Some 4" using bytes_of [of 3] by simp
  ultimately show ?thesis using t by blast
qed

lemma transfer_ends_sample:
  "\<exists>over. download a_download (at_exchanges taken_up) None None [Moves 0, Cancels 0 FlushFine, Panics 0 ''gone''] (reopened after_break) = Inl over"
  by (rule transfer_ends) (simp add: a_download_def download_request_get_def a_file_chunk_def taken_up_def an_answered_def)


end
