(* ===== verification/MultiSource.thy ===== *)
theory MultiSource
  imports HttpWorker
begin

text \<open>
  One file from several sources at once (\<open>rd-http/src/multisource.rs\<close>, \<open>multisource_state.rs\<close>): the
  chunks of a part file are handed to sources, a source that fails or delivers a refused piece
  leaves the run and its chunk goes on to the next one.

  The run is a state that the events of its fetches move: bytes written, a checkpoint, a fetch that
  ended. Which fetch an event belongs to is its number among the fetches in flight, taken modulo
  their count, so that every sequence of events is one the join set can report. The ledger is the
  list of what was written to it; it refuses every write after a given number. The digest of a
  range of the file is a parameter, and so are the errors of reading it.
\<close>

section \<open>Sources\<close>

record source_endpoint =
  se_position :: u32
  se_url :: string
  se_headers :: "(string \<times> string) list"
  se_via :: bool     \<comment> \<open>an FTP or SFTP mirror, read through a range source\<close>

record pool =
  pl_sources :: "source_endpoint list"
  pl_parallel :: nat
  pl_busy :: "u32 \<Rightarrow> nat"      \<comment> \<open>0 where the code has no entry\<close>
  pl_out :: "u32 set"
  pl_hash_basis :: bool

definition may_serve :: "pool \<Rightarrow> source_endpoint \<Rightarrow> u64 \<Rightarrow> bool" where
  "may_serve p source offset = (pl_hash_basis p \<or> offset = 0 \<or> \<not> se_via source)"

definition pool_pick :: "u64 \<Rightarrow> pool \<Rightarrow> (source_endpoint \<times> pool) option" where
  "pool_pick offset p =
     map_option (\<lambda>chosen. (chosen, p\<lparr>pl_busy := (pl_busy p)(se_position chosen := pl_busy p (se_position chosen) + 1)\<rparr>))
       (min_by_key (\<lambda>source. pl_busy p (se_position source))
         (take (pl_parallel p)
           (filter (\<lambda>source. may_serve p source offset)
             (filter (\<lambda>source. se_position source \<notin> pl_out p) (pl_sources p)))))"

definition held_back :: "pool \<Rightarrow> bool" where
  "held_back p = (\<not> pl_hash_basis p \<and> list_ex (\<lambda>source. se_position source \<notin> pl_out p) (pl_sources p))"

definition pool_release :: "u32 \<Rightarrow> pool \<Rightarrow> pool" where
  "pool_release position p = p\<lparr>pl_busy := (pl_busy p)(position := pl_busy p position - 1)\<rparr>"

definition exclude :: "u32 \<Rightarrow> pool \<Rightarrow> bool \<times> pool" where
  "exclude position p = (position \<notin> pl_out p, p\<lparr>pl_out := insert position (pl_out p)\<rparr>)"

section \<open>The ledger\<close>

datatype ledger_entry =
    Delivered u32 u64
  | SourceFailed u32 string "u64 option"
  | Isolated u32 string
  | Marked chunk_id "u32 option" bool
  | Rewound chunk_id u64
  | Committed chunk_id u64

record ledger =
  lg_entries :: "ledger_entry list"   \<comment> \<open>oldest first\<close>
  lg_left :: "nat option"             \<comment> \<open>how many writes succeed still, \<open>None\<close> for all of them\<close>

definition ledger_write :: "ledger_entry \<Rightarrow> ledger \<Rightarrow> string + ledger" where
  "ledger_write e l =
     (if lg_left l = Some 0 then Inl ''the ledger could not be written''
      else Inr (l\<lparr>lg_entries := lg_entries l @ [e], lg_left := map_option (\<lambda>n. n - 1) (lg_left l)\<rparr>))"

section \<open>Pieces on the disk\<close>

record run_env =
  re_digest :: "string \<Rightarrow> u8 option list \<Rightarrow> string"
  re_open_fault :: "string option"
  re_sync_fault :: "string option"

definition checksum_range :: "run_env \<Rightarrow> string \<Rightarrow> u64 \<Rightarrow> u64 \<Rightarrow> (u64 \<Rightarrow> u8 option) \<Rightarrow> string" where
  "checksum_range env algorithm start len disk =
     re_digest env algorithm (map (\<lambda>k. disk (start + of_nat k)) [0..<unat len])"

text \<open>The loop over the pieces from \<open>first\<close> on. The fault says which of the reads fails, counted from 0.\<close>

fun bad_piece_from ::
  "run_env \<Rightarrow> piece_hashes \<Rightarrow> u64 \<Rightarrow> u64 \<Rightarrow> (u64 \<Rightarrow> u8 option) \<Rightarrow> (nat \<times> string) option \<Rightarrow> nat list
     \<Rightarrow> http_download_error + u64 option" where
  "bad_piece_from env pieces e tot disk fault [] = Inr None"
| "bad_piece_from env pieces e tot disk fault (index # rest) =
     (let (start, stop) = piece_range pieces index tot in
      if stop > e \<or> start \<ge> stop then Inr None
      else case fault of
        Some (0, err) \<Rightarrow> Inl (Local err)
      | _ \<Rightarrow>
          if lowercase (checksum_range env (ph_algorithm pieces) start (stop - start) disk)
             \<noteq> lowercase (ph_hashes pieces ! index)
          then Inr (Some start)
          else bad_piece_from env pieces e tot disk (map_option (\<lambda>(n, err). (n - 1, err)) fault) rest)"

definition first_bad_piece ::
  "run_env \<Rightarrow> piece_hashes \<Rightarrow> chunk_spec \<Rightarrow> u64 \<Rightarrow> (u64 \<Rightarrow> u8 option) \<Rightarrow> (nat \<times> string) option
     \<Rightarrow> http_download_error + u64 option" where
  "first_bad_piece env pieces chunk tot disk fault =
     (let e = (case ck_end chunk of Some e \<Rightarrow> e | None \<Rightarrow> tot);
          first = unat (div_ceil (ck_start chunk) (max (ph_length pieces) 1))
      in bad_piece_from env pieces e tot disk fault [first..<length (ph_hashes pieces)])"

section \<open>Failures\<close>

definition CODE_PIECE_MISMATCH :: string where
  "CODE_PIECE_MISMATCH = ''mirror.piece_hash_mismatch''"

definition CODE_NO_USABLE_SOURCE :: string where
  "CODE_NO_USABLE_SOURCE = ''mirror.no_usable_source''"

definition CODE_INTERNAL_ADDRESS :: string where
  "CODE_INTERNAL_ADDRESS = ''mirror.internal_address''"

definition failure_code :: "http_download_error \<Rightarrow> string \<times> u64 option" where
  "failure_code err =
     (case err of
        RangeIgnored \<Rightarrow> (''download.range_ignored'', None)
      | RemoteChanged \<Rightarrow> (''download.remote_changed'', None)
      | HttpFailure f \<Rightarrow>
          ((case fl_code f of Some c \<Rightarrow> c | None \<Rightarrow> ''download.failed''),
           (case fl_category f of RateLimited s \<Rightarrow> s | Transient s \<Rightarrow> s | _ \<Rightarrow> None))
      | Internal _ \<Rightarrow> (''download.failed'', None)
      | Local _ \<Rightarrow> (''download.failed'', None))"

definition piece_mismatch :: "u64 \<Rightarrow> http_download_error" where
  "piece_mismatch offset =
     HttpFailure (with_param ''offset'' (dec (unat offset))
       (failure_coded (Transient None) CODE_PIECE_MISMATCH
         (''a mirror delivered a piece at byte '' @ dec (unat offset) @ '' that does not match its hash'')))"

definition mirror_offset_unverified :: http_download_error where
  "mirror_offset_unverified =
     HttpFailure (failure_coded (Transient None) ''mirror.offset_unverified''
       ''without a checksum, the FTP and SFTP mirrors of this file can only serve it from its first byte, and no other source is ready to continue it'')"

definition no_usable_source :: http_download_error where
  "no_usable_source =
     HttpFailure (failure_coded (Transient None) CODE_NO_USABLE_SOURCE
       ''no source of this file can be used right now'')"

section \<open>The run\<close>

text \<open>A fetch in flight; it starts at its chunk's \<open>ck_committed\<close>.\<close>

record fetch =
  ft_chunk :: chunk_spec
  ft_position :: u32
  ft_covers_whole_file :: bool

record source_run =
  sr_ledger :: ledger
  sr_confirmed :: "chunk_id \<Rightarrow> u64 option"   \<comment> \<open>\<open>Tracked\<close>: the last confirmed offsets\<close>
  sr_disk :: "u64 \<Rightarrow> u8 option"
  sr_total :: u64
  sr_single_chunk :: bool
  sr_pieces :: "piece_hashes option"
  sr_pool :: pool
  sr_last_error :: "http_download_error option"
  sr_pending :: "chunk_spec list"
  sr_tasks :: "fetch list"
  sr_wound_down :: bool

definition ledger_note :: "ledger_entry \<Rightarrow> source_run \<Rightarrow> string + source_run" where
  "ledger_note e run = map_sum id (\<lambda>l. run\<lparr>sr_ledger := l\<rparr>) (ledger_write e (sr_ledger run))"

text \<open>The other fetches stop at their next checkpoint; nothing is booked for them any more.\<close>

definition wind_down :: "source_run \<Rightarrow> source_run" where
  "wind_down run = run\<lparr>sr_tasks := [], sr_wound_down := True\<rparr>"

type_synonym answer = "http_download_error + download_outcome option"

text \<open>Taking a source out, with its note on the ledger when it was in until then.\<close>

definition isolate_source :: "u32 \<Rightarrow> source_run \<Rightarrow> string + source_run" where
  "isolate_source position run =
     (let (fresh, p) = exclude position (sr_pool run);
          run = run\<lparr>sr_pool := p\<rparr>
      in if fresh then ledger_note (Isolated position CODE_PIECE_MISMATCH) run else Inr run)"

fun queue_chunks ::
  "run_env \<Rightarrow> (chunk_id \<Rightarrow> (nat \<times> string) option) \<Rightarrow> (chunk_id \<Rightarrow> u32 option option) \<Rightarrow> chunk_spec list
     \<Rightarrow> source_run \<Rightarrow> (http_download_error + unit) \<times> source_run" where
  "queue_chunks env faults unverified [] run = (Inr (), run)"
| "queue_chunks env faults unverified (chunk # rest) run =
     (if \<not> is_complete chunk then
        queue_chunks env faults unverified rest (run\<lparr>sr_pending := sr_pending run @ [chunk]\<rparr>)
      else case (sr_pieces run, unverified (ck_id chunk)) of
        (Some pieces, Some delivered_by) \<Rightarrow>
          (case first_bad_piece env pieces chunk (sr_total run) (sr_disk run) (faults (ck_id chunk)) of
             Inl e \<Rightarrow> (Inl e, run)
           | Inr None \<Rightarrow>
               (case ledger_note (Marked (ck_id chunk) delivered_by True) run of
                  Inl e \<Rightarrow> (Inl (Internal e), run)
                | Inr run \<Rightarrow> queue_chunks env faults unverified rest run)
           | Inr (Some bad) \<Rightarrow>
               (case (case delivered_by of Some position \<Rightarrow> isolate_source position run | None \<Rightarrow> Inr run) of
                  Inl e \<Rightarrow> (Inl (Internal e), run)
                | Inr run \<Rightarrow>
                    (case ledger_note (Rewound (ck_id chunk) bad) run of
                       Inl e \<Rightarrow> (Inl (Internal e), run)
                     | Inr run \<Rightarrow>
                         queue_chunks env faults unverified rest
                           (run\<lparr>sr_pending := sr_pending run @ [chunk\<lparr>ck_committed := bad\<rparr>]\<rparr>))))
      | _ \<Rightarrow> queue_chunks env faults unverified rest run)"

definition spawn_fetch :: "chunk_spec \<Rightarrow> source_endpoint \<Rightarrow> source_run \<Rightarrow> source_run" where
  "spawn_fetch chunk source run =
     run\<lparr>sr_tasks := sr_tasks run @
       [\<lparr>ft_chunk = chunk, ft_position = se_position source,
         ft_covers_whole_file = (sr_single_chunk run \<and> ck_start chunk = 0 \<and> ck_end chunk = Some (sr_total run))\<rparr>]\<rparr>"

fun dispatch_loop :: "chunk_spec list \<Rightarrow> chunk_spec list \<Rightarrow> source_run
    \<Rightarrow> (http_download_error + unit) \<times> source_run" where
  "dispatch_loop [] waiting run = (Inr (), run\<lparr>sr_pending := waiting\<rparr>)"
| "dispatch_loop (chunk # rest) waiting run =
     (case pool_pick (ck_committed chunk) (sr_pool run) of
        None \<Rightarrow> dispatch_loop rest (waiting @ [chunk]) run
      | Some (source, p) \<Rightarrow>
          (case ledger_note (Marked (ck_id chunk) (Some (se_position source)) False) (run\<lparr>sr_pool := p\<rparr>) of
             Inl e \<Rightarrow> (Inl (Internal e), wind_down (run\<lparr>sr_pool := p, sr_pending := rest\<rparr>))
           | Inr run \<Rightarrow> dispatch_loop rest waiting (spawn_fetch chunk source run)))"

definition dispatch :: "source_run \<Rightarrow> (http_download_error + unit) \<times> source_run" where
  "dispatch run = dispatch_loop (sr_pending run) [] run"

text \<open>\<open>settle_complete\<close>: the errors of the piece check, of the mark, of the isolation and of the rewind
  leave the run at once, the error of the delivery winds the other fetches down first.\<close>

definition settle_complete ::
  "run_env \<Rightarrow> (nat \<times> string) option \<Rightarrow> fetch \<Rightarrow> source_run \<Rightarrow> answer \<times> source_run" where
  "settle_complete env fault fetched run =
     (let chunk = ft_chunk fetched; position = ft_position fetched; started_at = ck_committed chunk;
          e = (case ck_end chunk of Some e \<Rightarrow> e | None \<Rightarrow> sr_total run);
          chunk = chunk\<lparr>ck_committed := e\<rparr>
      in case (case sr_pieces run of
                 Some pieces \<Rightarrow> first_bad_piece env pieces chunk (sr_total run) (sr_disk run) fault
               | None \<Rightarrow> Inr None) of
           Inl err \<Rightarrow> (Inl err, run)
         | Inr None \<Rightarrow>
             (case ledger_note (Marked (ck_id chunk) (Some position) (sr_pieces run \<noteq> None)) run of
                Inl err \<Rightarrow> (Inl (Internal err), run)
              | Inr run \<Rightarrow>
                  (case ledger_note (Delivered position (sat_sub e started_at)) run of
                     Inl err \<Rightarrow> (Inl (Internal err), wind_down run)
                   | Inr run \<Rightarrow> (Inr None, run)))
         | Inr (Some bad) \<Rightarrow>
             (case isolate_source position run of
                Inl err \<Rightarrow> (Inl (Internal err), run)
              | Inr run \<Rightarrow>
                  (case ledger_note (Rewound (ck_id chunk) bad) run of
                     Inl err \<Rightarrow> (Inl (Internal err), run)
                   | Inr run \<Rightarrow>
                       (Inr None,
                        run\<lparr>sr_confirmed := (sr_confirmed run)(ck_id chunk := Some bad),
                            sr_pending := sr_pending run @ [chunk\<lparr>ck_committed := bad\<rparr>],
                            sr_last_error := Some (piece_mismatch bad)\<rparr>))))"

definition settle_failure ::
  "fetch \<Rightarrow> http_download_error \<Rightarrow> source_run \<Rightarrow> answer \<times> source_run" where
  "settle_failure fetched error run =
     (let chunk = ft_chunk fetched; position = ft_position fetched; started_at = ck_committed chunk;
          confirmed = max (case sr_confirmed run (ck_id chunk) of Some c \<Rightarrow> c | None \<Rightarrow> ck_committed chunk)
                          (ck_committed chunk);
          (code, retry_after) = failure_code error;
          run = run\<lparr>sr_pool := snd (exclude position (sr_pool run))\<rparr>
      in case (if confirmed > started_at then ledger_note (Delivered position (confirmed - started_at)) run else Inr run) of
           Inl e \<Rightarrow> (Inl (Internal e), wind_down run)
         | Inr run \<Rightarrow>
             (case ledger_note (if code = CODE_INTERNAL_ADDRESS then Isolated position code
                                else SourceFailed position code retry_after) run of
                Inl e \<Rightarrow> (Inl (Internal e), wind_down run)
              | Inr run \<Rightarrow>
                  (Inr None,
                   run\<lparr>sr_pending := sr_pending run @ [chunk\<lparr>ck_committed := confirmed\<rparr>],
                       sr_last_error := Some error\<rparr>)))"

definition settle ::
  "run_env \<Rightarrow> (nat \<times> string) option \<Rightarrow> fetch \<Rightarrow> http_download_error + download_outcome
     \<Rightarrow> source_run \<Rightarrow> answer \<times> source_run" where
  "settle env fault fetched result run =
     (case result of
        Inr Complete \<Rightarrow> settle_complete env fault fetched run
      | Inr Paused \<Rightarrow> (Inr (Some Paused), wind_down run)
      | Inl (Local e) \<Rightarrow> (Inl (Local e), wind_down run)
      | Inl (Internal e) \<Rightarrow> (Inl (Internal e), wind_down run)
      | Inl error \<Rightarrow> settle_failure fetched error run)"

section \<open>From event to event\<close>

type_synonym run_end = "(http_download_error + download_outcome) \<times> source_run"

text \<open>The head of the loop: hand out what waits; without a fetch in flight the run is over.\<close>

definition turn :: "run_env \<Rightarrow> source_run \<Rightarrow> run_end + source_run" where
  "turn env run =
     (case dispatch run of
        (Inl e, run) \<Rightarrow> Inl (Inl e, run)
      | (Inr _, run) \<Rightarrow>
          if sr_tasks run \<noteq> [] then Inr run
          else if sr_pending run = [] then
            (case re_sync_fault env of Some e \<Rightarrow> Inl (Inl (Local e), run) | None \<Rightarrow> Inl (Inr Complete, run))
          else if held_back (sr_pool run) then Inl (Inl mirror_offset_unverified, run)
          else Inl (Inl (case sr_last_error run of Some e \<Rightarrow> e | None \<Rightarrow> no_usable_source), run))"

datatype run_event =
    Wrote nat u64 "u8 list"
  | Checkpoint nat u64
  | Joined nat "http_download_error + download_outcome" "(nat \<times> string) option"
  | Panicked nat string

definition task_of :: "nat \<Rightarrow> source_run \<Rightarrow> fetch" where
  "task_of i run = sr_tasks run ! (i mod length (sr_tasks run))"

definition take_task :: "nat \<Rightarrow> source_run \<Rightarrow> source_run" where
  "take_task i run =
     (let k = i mod length (sr_tasks run)
      in run\<lparr>sr_tasks := take k (sr_tasks run) @ drop (Suc k) (sr_tasks run)\<rparr>)"

text \<open>\<open>Tracked::commit\<close>: the ledger first, then the remembered offset. A refused commit reaches the run as
  the error of its fetch.\<close>

definition tracked_commit :: "chunk_id \<Rightarrow> u64 \<Rightarrow> source_run \<Rightarrow> source_run" where
  "tracked_commit chunk_id offset run =
     (case ledger_note (Committed chunk_id offset) run of
        Inl _ \<Rightarrow> run
      | Inr run \<Rightarrow> run\<lparr>sr_confirmed := (sr_confirmed run)(chunk_id := Some offset)\<rparr>)"

definition run_step :: "run_env \<Rightarrow> run_event \<Rightarrow> source_run \<Rightarrow> run_end + source_run" where
  "run_step env ev run =
     (case ev of
        Wrote i at bytes \<Rightarrow> Inr (run\<lparr>sr_disk := overlay at bytes (sr_disk run)\<rparr>)
      | Checkpoint i offset \<Rightarrow> Inr (tracked_commit (ck_id (ft_chunk (task_of i run))) offset run)
      | Panicked i e \<Rightarrow> Inl (Inl (Internal e), wind_down (take_task i run))
      | Joined i result fault \<Rightarrow>
          let fetched = task_of i run;
              run = take_task i run;
              run = run\<lparr>sr_pool := pool_release (ft_position fetched) (sr_pool run)\<rparr>
          in case settle env fault fetched result run of
               (Inl e, run) \<Rightarrow> Inl (Inl e, run)
             | (Inr (Some out), run) \<Rightarrow> Inl (Inr out, run)
             | (Inr None, run) \<Rightarrow> turn env run)"

fun drive :: "run_env \<Rightarrow> run_event list \<Rightarrow> source_run \<Rightarrow> run_end + source_run" where
  "drive env [] run = Inr run"
| "drive env (ev # evs) run =
     (case run_step env ev run of Inl over \<Rightarrow> Inl over | Inr run \<Rightarrow> drive env evs run)"

section \<open>The request\<close>

record multi_source_request =
  mr_total :: u64
  mr_chunks :: "chunk_spec list"
  mr_sources :: "source_endpoint list"
  mr_parallel :: nat
  mr_pieces :: "piece_hashes option"
  mr_unverified :: "chunk_id \<Rightarrow> u32 option option"
  mr_whole_file_hash :: bool

definition first_run :: "multi_source_request \<Rightarrow> ledger \<Rightarrow> (u64 \<Rightarrow> u8 option) \<Rightarrow> source_run" where
  "first_run q l disk =
     \<lparr>sr_ledger = l, sr_confirmed = (\<lambda>_. None), sr_disk = disk, sr_total = mr_total q,
      sr_single_chunk = (length (mr_chunks q) = 1), sr_pieces = mr_pieces q,
      sr_pool = \<lparr>pl_sources = mr_sources q, pl_parallel = max (mr_parallel q) 1, pl_busy = (\<lambda>_. 0),
        pl_out = {}, pl_hash_basis = (mr_pieces q \<noteq> None \<or> mr_whole_file_hash q)\<rparr>,
      sr_last_error = None, sr_pending = [], sr_tasks = [], sr_wound_down = False\<rparr>"

text \<open>The part of \<open>download_from_sources\<close> before the first fetch ends.\<close>

definition begin_run ::
  "run_env \<Rightarrow> (chunk_id \<Rightarrow> (nat \<times> string) option) \<Rightarrow> multi_source_request \<Rightarrow> ledger \<Rightarrow> (u64 \<Rightarrow> u8 option)
     \<Rightarrow> run_end + source_run" where
  "begin_run env faults q l disk =
     (case re_open_fault env of
        Some e \<Rightarrow> Inl (Inl (Local e), first_run q l disk)
      | None \<Rightarrow>
          (case queue_chunks env faults (mr_unverified q) (mr_chunks q) (first_run q l disk) of
             (Inl e, run) \<Rightarrow> Inl (Inl e, run)
           | (Inr _, run) \<Rightarrow> turn env run))"

definition download_from_sources ::
  "run_env \<Rightarrow> (chunk_id \<Rightarrow> (nat \<times> string) option) \<Rightarrow> multi_source_request \<Rightarrow> ledger \<Rightarrow> (u64 \<Rightarrow> u8 option)
     \<Rightarrow> run_event list \<Rightarrow> run_end + source_run" where
  "download_from_sources env faults q l disk evs =
     (case begin_run env faults q l disk of
        Inl over \<Rightarrow> Inl over
      | Inr run \<Rightarrow> drive env evs run)"

end
