(* ===== verification/MultiSourceFacts.thy ===== *)
theory MultiSourceFacts
  imports MultiSource "HOL-Library.Multiset"
begin

text \<open>
  What one dispatch and one settlement change of a run over several sources: the facts every
  invariant of the run is proved from.
\<close>

lemma ledger_note_ok:
  "ledger_note e run = Inr run' \<longleftrightarrow>
     lg_left (sr_ledger run) \<noteq> Some 0
     \<and> run' = run\<lparr>sr_ledger := \<lparr>lg_entries = lg_entries (sr_ledger run) @ [e],
         lg_left = map_option (\<lambda>n. n - 1) (lg_left (sr_ledger run))\<rparr>\<rparr>"
  by (cases run; cases "sr_ledger run") (auto simp: ledger_note_def ledger_write_def)

text \<open>The ledger may change at every step; everything else of the run is compared without it.\<close>

definition noted :: "ledger_entry list \<Rightarrow> source_run \<Rightarrow> source_run \<Rightarrow> bool" where
  "noted es run run' =
     (\<exists>l. run' = run\<lparr>sr_ledger := l\<rparr> \<and> lg_entries l = lg_entries (sr_ledger run) @ es)"

lemma noted_refl: "noted [] run run"
  by (auto simp: noted_def intro!: exI [of _ "sr_ledger run"])

lemma ledger_note_noted: "ledger_note e run = Inr run' \<Longrightarrow> noted [e] run run'"
  by (auto simp: ledger_note_ok noted_def)

lemma noted_trans: "noted es run run' \<Longrightarrow> noted fs run' run'' \<Longrightarrow> noted (es @ fs) run run''"
  by (auto simp: noted_def)

lemma notedD:
  assumes "noted es run run'"
  shows "lg_entries (sr_ledger run') = lg_entries (sr_ledger run) @ es" "sr_confirmed run' = sr_confirmed run"
    "sr_disk run' = sr_disk run" "sr_total run' = sr_total run" "sr_pieces run' = sr_pieces run"
    "sr_pool run' = sr_pool run" "sr_pending run' = sr_pending run" "sr_tasks run' = sr_tasks run"
  using assms by (auto simp: noted_def)

section \<open>Choosing a source\<close>

lemma pool_pick_Some:
  assumes "pool_pick offset p = Some (source, p')"
  shows "source \<in> set (pl_sources p) \<and> se_position source \<notin> pl_out p \<and> may_serve p source offset
    \<and> pl_sources p' = pl_sources p \<and> pl_out p' = pl_out p \<and> pl_hash_basis p' = pl_hash_basis p
    \<and> pl_parallel p' = pl_parallel p"
proof -
  obtain m where m: "min_by_key (\<lambda>source. pl_busy p (se_position source)) (take (pl_parallel p)
        (filter (\<lambda>source. may_serve p source offset)
          (filter (\<lambda>source. se_position source \<notin> pl_out p) (pl_sources p)))) = Some m"
    "m = source" "p' = p\<lparr>pl_busy := (pl_busy p)(se_position m := pl_busy p (se_position m) + 1)\<rparr>"
    using assms by (auto simp: pool_pick_def)
  have "source \<in> set (take (pl_parallel p) (filter (\<lambda>source. may_serve p source offset)
          (filter (\<lambda>source. se_position source \<notin> pl_out p) (pl_sources p))))"
    using min_by_key_Some [OF m(1)] m(2) by simp
  then have "source \<in> set (filter (\<lambda>source. may_serve p source offset)
          (filter (\<lambda>source. se_position source \<notin> pl_out p) (pl_sources p)))"
    by (rule in_set_takeD)
  then show ?thesis using m(3) by simp
qed

text \<open>What the pool keeps through a dispatch: all but the counts of fetches in flight.\<close>

definition same_pool :: "pool \<Rightarrow> pool \<Rightarrow> bool" where
  "same_pool p p' = (pl_sources p' = pl_sources p \<and> pl_out p' = pl_out p
     \<and> pl_hash_basis p' = pl_hash_basis p \<and> pl_parallel p' = pl_parallel p)"

definition served_by :: "pool \<Rightarrow> fetch \<Rightarrow> bool" where
  "served_by p t = (\<exists>s \<in> set (pl_sources p). se_position s = ft_position t \<and> se_position s \<notin> pl_out p
     \<and> may_serve p s (ck_committed (ft_chunk t)))"

abbreviation mark_of :: "fetch \<Rightarrow> ledger_entry" where
  "mark_of t \<equiv> Marked (ck_id (ft_chunk t)) (Some (ft_position t)) False"

lemma served_by_same: "same_pool p p' \<Longrightarrow> served_by p' t = served_by p t"
  by (auto simp: same_pool_def served_by_def may_serve_def)

text \<open>A dispatch starts fetches of waiting chunks at sources that are in and may serve them, marks
  each of them, and loses no chunk.\<close>

lemma dispatch_loop_facts:
  assumes "dispatch_loop cs waiting run = (res, run')"
  shows "\<exists>new. lg_entries (sr_ledger run') = lg_entries (sr_ledger run) @ map mark_of new
    \<and> same_pool (sr_pool run) (sr_pool run') \<and> sr_disk run' = sr_disk run \<and> sr_confirmed run' = sr_confirmed run
    \<and> sr_total run' = sr_total run \<and> sr_pieces run' = sr_pieces run
    \<and> (\<forall>t \<in> set new. served_by (sr_pool run) t)
    \<and> (res = Inr () \<longrightarrow> sr_tasks run' = sr_tasks run @ new
         \<and> mset (sr_pending run') + mset (map ft_chunk new) = mset waiting + mset cs)"
  using assms
proof (induction cs arbitrary: waiting run)
  case Nil
  then show ?case by (intro exI [of _ "[]"]) (auto simp: same_pool_def)
next
  case (Cons c cs)
  show ?case
  proof (cases "pool_pick (ck_committed c) (sr_pool run)")
    case None
    then have "dispatch_loop cs (waiting @ [c]) run = (res, run')" using Cons.prems by simp
    from Cons.IH [OF this] show ?thesis by auto
  next
    case (Some sp)
    obtain source p where sp: "sp = (source, p)" by fastforce
    note pick = pool_pick_Some [OF Some [unfolded sp]]
    let ?run = "run\<lparr>sr_pool := p\<rparr>"
    let ?mark = "Marked (ck_id c) (Some (se_position source)) False"
    show ?thesis
    proof (cases "ledger_note ?mark ?run")
      case (Inl e)
      then have "run' = wind_down (run\<lparr>sr_pool := p, sr_pending := cs\<rparr>)" and "res = Inl (Internal e)"
        using Cons.prems Some sp by simp_all
      then show ?thesis using pick by (intro exI [of _ "[]"]) (simp add: wind_down_def same_pool_def)
    next
      case (Inr run1)
      note n = notedD [OF ledger_note_noted [OF Inr]]
      define t where "t = \<lparr>ft_chunk = c, ft_position = se_position source,
        ft_covers_whole_file = (sr_single_chunk run1 \<and> ck_start c = 0 \<and> ck_end c = Some (sr_total run1))\<rparr>"
      let ?run2 = "run1\<lparr>sr_tasks := sr_tasks run1 @ [t]\<rparr>"
      have spawned: "spawn_fetch c source run1 = ?run2" by (simp add: spawn_fetch_def t_def)
      have loop: "dispatch_loop cs waiting ?run2 = (res, run')"
        using Cons.prems Some sp Inr spawned by simp
      have same: "same_pool (sr_pool run) (sr_pool ?run2)" using pick n(6) by (simp add: same_pool_def)
      have served: "served_by (sr_pool run) t"
        using pick by (auto simp: served_by_def t_def intro!: bexI [of _ source])
      obtain new where new: "lg_entries (sr_ledger run') = lg_entries (sr_ledger ?run2) @ map mark_of new"
        "same_pool (sr_pool ?run2) (sr_pool run')" "sr_disk run' = sr_disk ?run2"
        "sr_confirmed run' = sr_confirmed ?run2" "sr_total run' = sr_total ?run2" "sr_pieces run' = sr_pieces ?run2"
        "\<forall>t \<in> set new. served_by (sr_pool ?run2) t"
        "res = Inr () \<longrightarrow> sr_tasks run' = sr_tasks ?run2 @ new
           \<and> mset (sr_pending run') + mset (map ft_chunk new) = mset waiting + mset cs"
        using Cons.IH [OF loop] by blast
      have "lg_entries (sr_ledger run') = lg_entries (sr_ledger run) @ map mark_of (t # new)"
        using new(1) n(1) by (simp add: t_def)
      moreover have "same_pool (sr_pool run) (sr_pool run')" using same new(2) by (simp add: same_pool_def)
      moreover have "\<forall>u \<in> set (t # new). served_by (sr_pool run) u"
        using new(7) served served_by_same [OF same] by simp
      moreover have "res = Inr () \<longrightarrow> sr_tasks run' = sr_tasks run @ t # new
           \<and> mset (sr_pending run') + mset (map ft_chunk (t # new)) = mset waiting + mset (c # cs)"
        using new(8) n(8) by (simp add: t_def)
      ultimately show ?thesis using new(3-6) n(2-5) by (intro exI [of _ "t # new"]) simp
    qed
  qed
qed

lemma dispatch_facts:
  assumes "dispatch run = (res, run')"
  obtains new where "lg_entries (sr_ledger run') = lg_entries (sr_ledger run) @ map mark_of new"
    "same_pool (sr_pool run) (sr_pool run')" "sr_disk run' = sr_disk run" "sr_confirmed run' = sr_confirmed run"
    "sr_total run' = sr_total run" "sr_pieces run' = sr_pieces run"
    "\<forall>t \<in> set new. served_by (sr_pool run) t"
    "res = Inr () \<longrightarrow> sr_tasks run' = sr_tasks run @ new
       \<and> mset (sr_pending run') + mset (map ft_chunk new) = mset (sr_pending run)"
  using dispatch_loop_facts [OF assms [unfolded dispatch_def]] by auto

section \<open>Booking a fetch that ended\<close>

text \<open>The sources a log names as failed or isolated.\<close>

definition barred :: "ledger_entry list \<Rightarrow> u32 set" where
  "barred es = {p. (\<exists>c w. SourceFailed p c w \<in> set es) \<or> (\<exists>c. Isolated p c \<in> set es)}"

lemma barred_append [simp]: "barred (es @ fs) = barred es \<union> barred fs"
  by (auto simp: barred_def)

lemma barred_marks [simp]: "barred (map mark_of new) = {}"
  by (auto simp: barred_def)

text \<open>The offsets a log records for a chunk, oldest first: its confirmed checkpoints and its rewinds.\<close>

definition offset_note :: "chunk_id \<Rightarrow> ledger_entry \<Rightarrow> u64 option" where
  "offset_note i e =
     (case e of
        Committed j v \<Rightarrow> if j = i then Some v else None
      | Rewound j v \<Rightarrow> if j = i then Some v else None
      | _ \<Rightarrow> None)"

definition offsets_of :: "chunk_id \<Rightarrow> ledger_entry list \<Rightarrow> u64 list" where
  "offsets_of i es = List.map_filter (offset_note i) es"

lemma offsets_of_simps [simp]:
  "offsets_of i [] = []" "offsets_of i (es @ fs) = offsets_of i es @ offsets_of i fs"
  "offsets_of i (e # es) = (case offset_note i e of None \<Rightarrow> [] | Some v \<Rightarrow> [v]) @ offsets_of i es"
  by (simp_all add: offsets_of_def List.map_filter_def split: option.split)

lemma offset_note_simps [simp]:
  "offset_note i (Delivered p b) = None" "offset_note i (SourceFailed p k w) = None" "offset_note i (Isolated p k) = None"
  "offset_note i (Marked j by_source final) = None"
  "offset_note i (Committed j v) = (if j = i then Some v else None)"
  "offset_note i (Rewound j v) = (if j = i then Some v else None)"
  by (simp_all add: offset_note_def)

lemma offsets_of_marks [simp]: "offsets_of i (map mark_of new) = []"
  by (induction new) simp_all

text \<open>A run after a fetch whose chunk goes back to the queue and whose source is out.\<close>

definition requeued :: "fetch \<Rightarrow> source_run \<Rightarrow> source_run \<Rightarrow> bool" where
  "requeued t run run' =
     (\<exists>c es. ck_id c = ck_id (ft_chunk t) \<and> ck_start c = ck_start (ft_chunk t) \<and> ck_end c = ck_end (ft_chunk t)
       \<and> lg_entries (sr_ledger run') = lg_entries (sr_ledger run) @ es
       \<and> barred es \<subseteq> {ft_position t}
       \<and> sr_pending run' = sr_pending run @ [c] \<and> sr_tasks run' = sr_tasks run
       \<and> sr_disk run' = sr_disk run \<and> sr_total run' = sr_total run \<and> sr_pieces run' = sr_pieces run
       \<and> sr_pool run' = (sr_pool run)\<lparr>pl_out := insert (ft_position t) (pl_out (sr_pool run))\<rparr>
       \<and> sr_last_error run' \<noteq> None
       \<and> ((sr_confirmed run' = sr_confirmed run \<and> (\<forall>i. offsets_of i es = [])
            \<and> ck_committed c = max (case sr_confirmed run (ck_id c) of Some v \<Rightarrow> v | None \<Rightarrow> ck_committed (ft_chunk t))
                                 (ck_committed (ft_chunk t)))
          \<or> (sr_confirmed run' = (sr_confirmed run)(ck_id c := Some (ck_committed c))
             \<and> (\<forall>i. offsets_of i es = (if i = ck_id c then [ck_committed c] else [])))))"

text \<open>A run after a fetch whose chunk is whole and, where pieces exist, checked.\<close>

definition finished :: "run_env \<Rightarrow> (nat \<times> string) option \<Rightarrow> fetch \<Rightarrow> source_run \<Rightarrow> source_run \<Rightarrow> bool" where
  "finished env fault t run run' =
     ((\<exists>es. noted es run run' \<and> barred es = {} \<and> (\<forall>i. offsets_of i es = []))
      \<and> (\<forall>pieces. sr_pieces run = Some pieces \<longrightarrow>
           first_bad_piece env pieces
             ((ft_chunk t)\<lparr>ck_committed := (case ck_end (ft_chunk t) of Some e \<Rightarrow> e | None \<Rightarrow> sr_total run)\<rparr>)
             (sr_total run) (sr_disk run) fault = Inr None))"

lemma isolate_source_facts:
  assumes "isolate_source p run = Inr run'"
  shows "\<exists>es. noted es (run\<lparr>sr_pool := (sr_pool run)\<lparr>pl_out := insert p (pl_out (sr_pool run))\<rparr>\<rparr>) run'
    \<and> barred es \<subseteq> {p} \<and> (\<forall>i. offsets_of i es = [])"
proof (cases "p \<in> pl_out (sr_pool run)")
  case True
  then show ?thesis using assms noted_refl
    by (intro exI [of _ "[]"]) (auto simp: isolate_source_def exclude_def barred_def)
next
  case False
  then have "ledger_note (Isolated p CODE_PIECE_MISMATCH)
      (run\<lparr>sr_pool := (sr_pool run)\<lparr>pl_out := insert p (pl_out (sr_pool run))\<rparr>\<rparr>) = Inr run'"
    using assms by (simp add: isolate_source_def exclude_def)
  from ledger_note_noted [OF this] show ?thesis
    by (intro exI [of _ "[Isolated p CODE_PIECE_MISMATCH]"]) (auto simp: barred_def)
qed

lemma settle_complete_facts:
  assumes "settle_complete env fault t run = (Inr None, run')"
  shows "finished env fault t run run' \<or> requeued t run run'"
proof -
  let ?e = "case ck_end (ft_chunk t) of Some e \<Rightarrow> e | None \<Rightarrow> sr_total run"
  let ?c = "(ft_chunk t)\<lparr>ck_committed := ?e\<rparr>"
  define verdict where "verdict = (case sr_pieces run of
      Some pieces \<Rightarrow> first_bad_piece env pieces ?c (sr_total run) (sr_disk run) fault | None \<Rightarrow> Inr None)"
  note defs = settle_complete_def Let_def verdict_def [symmetric]
  consider (good) "verdict = Inr None" | (bad) b where "verdict = Inr (Some b)"
    using assms unfolding defs by (cases verdict) (auto split: option.splits)
  then show ?thesis
  proof cases
    case good
    then obtain run1 where n1: "ledger_note (Marked (ck_id (ft_chunk t)) (Some (ft_position t)) (sr_pieces run \<noteq> None)) run = Inr run1"
      and n2: "ledger_note (Delivered (ft_position t) (sat_sub ?e (ck_committed (ft_chunk t)))) run1 = Inr run'"
      using assms unfolding defs by (auto split: sum.splits)
    let ?es = "[Marked (ck_id (ft_chunk t)) (Some (ft_position t)) (sr_pieces run \<noteq> None)]
      @ [Delivered (ft_position t) (sat_sub ?e (ck_committed (ft_chunk t)))]"
    have n: "noted ?es run run'" by (rule noted_trans [OF ledger_note_noted [OF n1] ledger_note_noted [OF n2]])
    have "barred ?es = {} \<and> (\<forall>i. offsets_of i ?es = [])" by (auto simp: barred_def)
    then have "finished env fault t run run'"
      using n good unfolding finished_def verdict_def by auto
    then show ?thesis ..
  next
    case (bad b)
    obtain run1 where i: "isolate_source (ft_position t) run = Inr run1"
      using assms bad unfolding defs by (auto split: sum.splits)
    obtain run2 where r: "ledger_note (Rewound (ck_id (ft_chunk t)) b) run1 = Inr run2"
      and run': "run' = run2\<lparr>sr_confirmed := (sr_confirmed run2)(ck_id (ft_chunk t) := Some b),
         sr_pending := sr_pending run2 @ [?c\<lparr>ck_committed := b\<rparr>], sr_last_error := Some (piece_mismatch b)\<rparr>"
      using assms bad i unfolding defs by (auto split: sum.splits)
    obtain es where es: "noted es (run\<lparr>sr_pool := (sr_pool run)\<lparr>pl_out := insert (ft_position t) (pl_out (sr_pool run))\<rparr>\<rparr>) run1"
      "barred es \<subseteq> {ft_position t}" "\<forall>i. offsets_of i es = []"
      using isolate_source_facts [OF i] by blast
    have n: "noted (es @ [Rewound (ck_id (ft_chunk t)) b])
        (run\<lparr>sr_pool := (sr_pool run)\<lparr>pl_out := insert (ft_position t) (pl_out (sr_pool run))\<rparr>\<rparr>) run2"
      by (rule noted_trans [OF es(1) ledger_note_noted [OF r]])
    have "barred (es @ [Rewound (ck_id (ft_chunk t)) b]) \<subseteq> {ft_position t}"
      using es(2) by (simp add: barred_def)
    then have "requeued t run run'"
      unfolding requeued_def run' using notedD [OF n]
      by (intro exI [of _ "?c\<lparr>ck_committed := b\<rparr>"] exI [of _ "es @ [Rewound (ck_id (ft_chunk t)) b]"]) (simp add: es(3))
    then show ?thesis ..
  qed
qed

lemma settle_failure_facts:
  assumes "settle_failure t error run = (Inr None, run')"
  shows "requeued t run run'"
proof -
  obtain code wait where f: "failure_code error = (code, wait)" by fastforce
  define confirmed where "confirmed = max (case sr_confirmed run (ck_id (ft_chunk t)) of Some c \<Rightarrow> c
      | None \<Rightarrow> ck_committed (ft_chunk t)) (ck_committed (ft_chunk t))"
  let ?run = "run\<lparr>sr_pool := (sr_pool run)\<lparr>pl_out := insert (ft_position t) (pl_out (sr_pool run))\<rparr>\<rparr>"
  let ?last = "if code = CODE_INTERNAL_ADDRESS then Isolated (ft_position t) code else SourceFailed (ft_position t) code wait"
  define first where "first = (if confirmed > ck_committed (ft_chunk t)
      then ledger_note (Delivered (ft_position t) (confirmed - ck_committed (ft_chunk t))) ?run else Inr ?run)"
  note defs = settle_failure_def Let_def confirmed_def [symmetric] f prod.case exclude_def snd_conv first_def [symmetric]
  obtain run1 where r1: "first = Inr run1"
    using assms unfolding defs by (cases first) simp_all
  obtain run2 where r2: "ledger_note ?last run1 = Inr run2"
    and run': "run' = run2\<lparr>sr_pending := sr_pending run2 @ [(ft_chunk t)\<lparr>ck_committed := confirmed\<rparr>], sr_last_error := Some error\<rparr>"
    using assms r1 unfolding defs by (auto split: sum.splits)
  obtain es where es: "noted es ?run run1" "barred es = {}" "\<forall>i. offsets_of i es = []"
  proof (cases "confirmed > ck_committed (ft_chunk t)")
    case True
    then have "noted [Delivered (ft_position t) (confirmed - ck_committed (ft_chunk t))] ?run run1"
      using r1 ledger_note_noted by (simp add: first_def)
    then show thesis using that by (force simp: barred_def)
  next
    case False
    then have "run1 = ?run" using r1 by (simp add: first_def)
    then have "noted [] ?run run1" using noted_refl by simp
    then show thesis using that by (force simp: barred_def)
  qed
  have n: "noted (es @ [?last]) ?run run2" by (rule noted_trans [OF es(1) ledger_note_noted [OF r2]])
  have b: "barred (es @ [?last]) \<subseteq> {ft_position t}" using es(2) by (auto simp: barred_def)
  show ?thesis
    unfolding requeued_def run' using notedD [OF n] b
    by (intro exI [of _ "(ft_chunk t)\<lparr>ck_committed := confirmed\<rparr>"] exI [of _ "es @ [?last]"]) (simp add: confirmed_def es(3))
qed

lemma settle_facts:
  assumes "settle env fault t result run = (Inr None, run')"
  obtains (finished) "result = Inr Complete" "finished env fault t run run'"
  | (requeued) "requeued t run run'"
proof (cases result)
  case (Inl e)
  then have "settle_failure t e run = (Inr None, run')"
    using assms by (cases e) (simp_all add: settle_def)
  then show thesis by (rule requeued [OF settle_failure_facts])
next
  case (Inr out)
  then have "out = Complete" and "settle_complete env fault t run = (Inr None, run')"
    using assms by (cases out; simp add: settle_def)+
  then show thesis using settle_complete_facts [of env fault t run run'] finished requeued Inr by blast
qed

section \<open>One turn of the loop\<close>

lemma take_task_split:
  assumes "sr_tasks run \<noteq> []"
  shows "\<exists>pre post. sr_tasks run = pre @ task_of i run # post \<and> sr_tasks (take_task i run) = pre @ post"
proof -
  let ?k = "i mod length (sr_tasks run)"
  have "?k < length (sr_tasks run)" using assms by simp
  then have "sr_tasks run = take ?k (sr_tasks run) @ task_of i run # drop (Suc ?k) (sr_tasks run)"
    unfolding task_of_def by (rule id_take_nth_drop)
  then show ?thesis by (auto simp: take_task_def Let_def)
qed

lemma take_task_same [simp]:
  "sr_pending (take_task i run) = sr_pending run" "sr_pool (take_task i run) = sr_pool run"
  "sr_ledger (take_task i run) = sr_ledger run" "sr_confirmed (take_task i run) = sr_confirmed run"
  "sr_disk (take_task i run) = sr_disk run" "sr_total (take_task i run) = sr_total run"
  "sr_pieces (take_task i run) = sr_pieces run"
  by (simp_all add: take_task_def Let_def)

lemma same_pool_refl [simp]: "same_pool p p"
  by (simp add: same_pool_def)

lemma release_same [simp]: "same_pool p (pool_release q p)"
  by (simp add: same_pool_def pool_release_def)

definition after_join :: "nat \<Rightarrow> source_run \<Rightarrow> source_run" where
  "after_join i run =
     (take_task i run)\<lparr>sr_pool := pool_release (ft_position (task_of i run)) (sr_pool run)\<rparr>"

lemma after_join_same [simp]:
  "sr_pending (after_join i run) = sr_pending run" "sr_tasks (after_join i run) = sr_tasks (take_task i run)"
  "sr_ledger (after_join i run) = sr_ledger run" "sr_confirmed (after_join i run) = sr_confirmed run"
  "sr_disk (after_join i run) = sr_disk run" "sr_total (after_join i run) = sr_total run"
  "sr_pieces (after_join i run) = sr_pieces run"
  "pl_out (sr_pool (after_join i run)) = pl_out (sr_pool run)"
  "pl_sources (sr_pool (after_join i run)) = pl_sources (sr_pool run)"
  "pl_hash_basis (sr_pool (after_join i run)) = pl_hash_basis (sr_pool run)"
  by (simp_all add: after_join_def pool_release_def)

text \<open>A turn that goes on: what the dispatch changed, and a fetch is in flight.\<close>

lemma turn_goes_on:
  assumes "turn env run = Inr run'"
  obtains new where "sr_tasks run' = sr_tasks run @ new" "sr_tasks run' \<noteq> []"
    "mset (sr_pending run') + mset (map ft_chunk new) = mset (sr_pending run)"
    "\<forall>t \<in> set new. served_by (sr_pool run) t" "same_pool (sr_pool run) (sr_pool run')"
    "lg_entries (sr_ledger run') = lg_entries (sr_ledger run) @ map mark_of new"
    "sr_disk run' = sr_disk run" "sr_confirmed run' = sr_confirmed run" "sr_total run' = sr_total run"
    "sr_pieces run' = sr_pieces run"
proof -
  obtain res mid where d: "dispatch run = (res, mid)" by fastforce
  then have "res = Inr ()" and "mid = run'" and "sr_tasks run' \<noteq> []"
    using assms by (auto simp: turn_def split: sum.splits if_splits option.splits)
  with d show thesis by (elim dispatch_facts) (auto intro!: that)
qed

lemma turn_completes:
  assumes "turn env run = Inl (Inr out, run')"
  shows "out = Complete \<and> sr_tasks run = [] \<and> sr_pending run = [] \<and> sr_disk run' = sr_disk run"
proof -
  obtain res mid where d: "dispatch run = (res, mid)" by fastforce
  then have r: "res = Inr ()" "mid = run'" "sr_tasks run' = []" "sr_pending run' = []" "out = Complete"
    using assms by (auto simp: turn_def split: sum.splits if_splits option.splits)
  from d show ?thesis
    by (elim dispatch_facts) (use r in auto)
qed

lemma joined_goes_on:
  assumes "run_step env (Joined i result fault) run = Inr run'"
  obtains mid where "settle env fault (task_of i run) result (after_join i run) = (Inr None, mid)" "turn env mid = Inr run'"
  using assms by (auto simp: run_step_def Let_def after_join_def split: prod.splits sum.splits option.splits)

section \<open>Queueing the chunks\<close>

text \<open>The first chunk of a queueing that goes well: it waits as it is, it is done and nothing is left to
  check, it was checked, or it was checked and goes back to the refused piece.\<close>

definition queued :: "chunk_spec \<Rightarrow> bool \<Rightarrow> source_run \<Rightarrow> source_run \<Rightarrow> bool" where
  "queued c rewinds run run' =
     (\<exists>es out. sr_pending run' = sr_pending run @ [c] \<and> sr_tasks run' = sr_tasks run
       \<and> sr_confirmed run' = sr_confirmed run \<and> sr_disk run' = sr_disk run \<and> sr_total run' = sr_total run
       \<and> sr_pieces run' = sr_pieces run \<and> lg_entries (sr_ledger run') = lg_entries (sr_ledger run) @ es
       \<and> sr_pool run' = (sr_pool run)\<lparr>pl_out := out\<rparr> \<and> pl_out (sr_pool run) \<subseteq> out \<and> barred es \<subseteq> out
       \<and> (\<forall>i. offsets_of i es = (if rewinds \<and> i = ck_id c then [ck_committed c] else [])))"

lemma isolate_given_facts:
  assumes "(case delivered_by of Some position \<Rightarrow> isolate_source position run | None \<Rightarrow> Inr run) = Inr run'"
  shows "\<exists>es out. noted es (run\<lparr>sr_pool := (sr_pool run)\<lparr>pl_out := out\<rparr>\<rparr>) run'
    \<and> pl_out (sr_pool run) \<subseteq> out \<and> barred es \<subseteq> out \<and> (\<forall>i. offsets_of i es = [])"
proof (cases delivered_by)
  case None
  then have "noted [] (run\<lparr>sr_pool := (sr_pool run)\<lparr>pl_out := pl_out (sr_pool run)\<rparr>\<rparr>) run'"
    using assms noted_refl by simp
  then show ?thesis by (intro exI [of _ "[]"] exI [of _ "pl_out (sr_pool run)"]) (simp add: barred_def)
next
  case (Some p)
  then obtain es where "noted es (run\<lparr>sr_pool := (sr_pool run)\<lparr>pl_out := insert p (pl_out (sr_pool run))\<rparr>\<rparr>) run'"
    "barred es \<subseteq> {p}" "\<forall>i. offsets_of i es = []"
    using assms isolate_source_facts [of p run run'] by auto
  then show ?thesis by (intro exI [of _ es] exI [of _ "insert p (pl_out (sr_pool run))"]) auto
qed

lemma queue_chunks_step:
  assumes "queue_chunks env faults unverified (c # cs) run = (Inr u, run')"
  obtains (wait) "\<not> is_complete c" "queued c False run (run\<lparr>sr_pending := sr_pending run @ [c]\<rparr>)"
      "queue_chunks env faults unverified cs (run\<lparr>sr_pending := sr_pending run @ [c]\<rparr>) = (Inr u, run')"
  | (trusted) "is_complete c" "sr_pieces run = None \<or> unverified (ck_id c) = None"
      "queue_chunks env faults unverified cs run = (Inr u, run')"
  | (checked) pieces by_source run1 where "is_complete c" "sr_pieces run = Some pieces"
      "first_bad_piece env pieces c (sr_total run) (sr_disk run) (faults (ck_id c)) = Inr None"
      "noted [Marked (ck_id c) by_source True] run run1" "queue_chunks env faults unverified cs run1 = (Inr u, run')"
  | (rewound) bad run1 where "is_complete c" "queued (c\<lparr>ck_committed := bad\<rparr>) True run run1"
      "queue_chunks env faults unverified cs run1 = (Inr u, run')"
proof (cases "is_complete c")
  case False
  have "queued c False run (run\<lparr>sr_pending := sr_pending run @ [c]\<rparr>)"
    unfolding queued_def by (intro exI [of _ "[]"] exI [of _ "pl_out (sr_pool run)"]) (simp add: barred_def)
  then show thesis using wait assms False by simp
next
  case whole: True
  show thesis
  proof (cases "sr_pieces run = None \<or> unverified (ck_id c) = None")
    case True
    then show thesis using trusted assms whole by (cases "sr_pieces run") (auto split: option.splits)
  next
    case False
    then obtain pieces by_source where pb: "sr_pieces run = Some pieces" "unverified (ck_id c) = Some by_source" by auto
    let ?verdict = "first_bad_piece env pieces c (sr_total run) (sr_disk run) (faults (ck_id c))"
    consider "?verdict = Inr None" | bad where "?verdict = Inr (Some bad)" | e where "?verdict = Inl e"
      by (metis option.exhaust sum.exhaust)
    then show thesis
    proof cases
      case 1
      then obtain run1 where "ledger_note (Marked (ck_id c) by_source True) run = Inr run1"
        "queue_chunks env faults unverified cs run1 = (Inr u, run')"
        using assms whole pb by (auto split: sum.splits)
      then show thesis using checked [OF whole pb(1) 1] ledger_note_noted by blast
    next
      case (2 bad)
      obtain run1 where i: "(case by_source of Some position \<Rightarrow> isolate_source position run | None \<Rightarrow> Inr run) = Inr run1"
        using assms whole pb 2 by (auto split: sum.splits)
      obtain run2 where r: "ledger_note (Rewound (ck_id c) bad) run1 = Inr run2"
        "queue_chunks env faults unverified cs (run2\<lparr>sr_pending := sr_pending run2 @ [c\<lparr>ck_committed := bad\<rparr>]\<rparr>) = (Inr u, run')"
        using assms whole pb 2 i by (auto split: sum.splits)
      obtain es out where es: "noted es (run\<lparr>sr_pool := (sr_pool run)\<lparr>pl_out := out\<rparr>\<rparr>) run1"
        "pl_out (sr_pool run) \<subseteq> out" "barred es \<subseteq> out" "\<forall>i. offsets_of i es = []"
        using isolate_given_facts [OF i] by blast
      have n: "noted (es @ [Rewound (ck_id c) bad]) (run\<lparr>sr_pool := (sr_pool run)\<lparr>pl_out := out\<rparr>\<rparr>) run2"
        by (rule noted_trans [OF es(1) ledger_note_noted [OF r(1)]])
      have "barred (es @ [Rewound (ck_id c) bad]) \<subseteq> out" using es(3) by (simp add: barred_def)
      then have "queued (c\<lparr>ck_committed := bad\<rparr>) True run (run2\<lparr>sr_pending := sr_pending run2 @ [c\<lparr>ck_committed := bad\<rparr>]\<rparr>)"
        unfolding queued_def using notedD [OF n] es(2)
        by (intro exI [of _ "es @ [Rewound (ck_id c) bad]"] exI [of _ out]) (simp add: es(4))
      then show thesis by (rule rewound [OF whole _ r(2)])
    next
      case (3 e)
      then show thesis using assms whole pb by simp
    qed
  qed
qed

end
