(* ===== verification/MultiSourceProps.thy ===== *)
theory MultiSourceProps
  imports MultiSourceFacts ChunkProps WorkerProps
begin

text \<open>
  What a run over several sources promises: it ends after a bounded number of fetches; a source that
  failed is not asked again, and confirmed bytes are not fetched again; a run with piece hashes that
  ends complete leaves a file every piece of which matches its hash.
\<close>

section \<open>A run ends\<close>

definition positions :: "pool \<Rightarrow> u32 set" where
  "positions p = se_position ` set (pl_sources p)"

definition known_sources :: "source_run \<Rightarrow> bool" where
  "known_sources run = (\<forall>t \<in> set (sr_tasks run). ft_position t \<in> positions (sr_pool run))"

text \<open>How many fetches can still end: every open chunk once at every source that is in, once for
  good, and every fetch in flight at a source that is out.\<close>

definition fetches_left :: "source_run \<Rightarrow> nat" where
  "fetches_left run =
     (length (sr_pending run) + length (sr_tasks run))
       * Suc (card (positions (sr_pool run) - pl_out (sr_pool run)))
     + length (filter (\<lambda>t. ft_position t \<in> pl_out (sr_pool run)) (sr_tasks run))"

lemma same_pool_positions: "same_pool p p' \<Longrightarrow> positions p' = positions p \<and> pl_out p' = pl_out p"
  by (simp add: same_pool_def positions_def)

lemma served_position: "served_by p t \<Longrightarrow> ft_position t \<in> positions p \<and> ft_position t \<notin> pl_out p"
  by (auto simp: served_by_def positions_def intro: rev_image_eqI)

lemma turn_left:
  assumes "turn env run = Inr run'" and "known_sources run"
  shows "known_sources run' \<and> fetches_left run' = fetches_left run"
proof -
  obtain new where t: "sr_tasks run' = sr_tasks run @ new"
    "mset (sr_pending run') + mset (map ft_chunk new) = mset (sr_pending run)"
    "\<forall>t \<in> set new. served_by (sr_pool run) t" "same_pool (sr_pool run) (sr_pool run')"
    by (rule turn_goes_on [OF assms(1)])
  have "size (mset (sr_pending run') + mset (map ft_chunk new)) = size (mset (sr_pending run))" using t(2) by simp
  then have "length (sr_pending run') + length new = length (sr_pending run)" by simp
  moreover have "filter (\<lambda>t. ft_position t \<in> pl_out (sr_pool run)) new = []"
    using t(3) served_position by (auto simp: filter_empty_conv)
  moreover have "known_sources run'"
    using assms(2) t(1,3) served_position same_pool_positions [OF t(4)] by (auto simp: known_sources_def)
  moreover have "length (sr_pending run') + length (sr_tasks run') = length (sr_pending run) + length (sr_tasks run)"
    using \<open>length (sr_pending run') + length new = length (sr_pending run)\<close> t(1) by simp
  moreover have "length (filter (\<lambda>t. ft_position t \<in> pl_out (sr_pool run)) (sr_tasks run'))
      = length (filter (\<lambda>t. ft_position t \<in> pl_out (sr_pool run)) (sr_tasks run))"
    using \<open>filter (\<lambda>t. ft_position t \<in> pl_out (sr_pool run)) new = []\<close> t(1) by simp
  ultimately show ?thesis using same_pool_positions [OF t(4)] unfolding fetches_left_def by metis
qed

text \<open>The arithmetic of one fetch that ended: \<open>n\<close> open chunks, \<open>k\<close> sources in, \<open>m\<close> fetches in flight.\<close>

lemma requeue_counts:
  fixes n k m :: nat
  assumes "m < n" "0 < k"
  shows "n * k + m < n * Suc k"
  using assms by simp

lemma settle_left:
  assumes s: "settle env fault (task_of i run) result (after_join i run) = (Inr None, mid)"
    and some: "sr_tasks run \<noteq> []" and known: "known_sources run"
  shows "known_sources mid \<and> fetches_left mid < fetches_left run"
proof -
  let ?t = "task_of i run" and ?out = "pl_out (sr_pool run)" and ?all = "positions (sr_pool run)"
  obtain pre post where split: "sr_tasks run = pre @ ?t # post" "sr_tasks (take_task i run) = pre @ post"
    using take_task_split [OF some] by blast
  define n where "n = length (sr_pending run) + length (pre @ post)"
  define o' where "o' = length (filter (\<lambda>t. ft_position t \<in> ?out) (pre @ post))"
  have here: "fetches_left run = Suc n * Suc (card (?all - ?out)) + (o' + (if ft_position ?t \<in> ?out then 1 else 0))"
    by (simp add: fetches_left_def n_def o'_def split(1))
  have pos: "positions (sr_pool (after_join i run)) = ?all" by (simp add: positions_def)
  have in_all: "ft_position ?t \<in> ?all" using known split(1) by (simp add: known_sources_def)
  show ?thesis
    using s
  proof (cases rule: settle_facts)
    case finished
    then obtain es where e: "noted es (after_join i run) mid" by (auto simp: finished_def)
    note n' = notedD [OF e]
    have "known_sources mid" using known split n' pos by (auto simp: known_sources_def)
    moreover have "fetches_left mid = n * Suc (card (?all - ?out)) + o'"
      by (simp add: fetches_left_def n_def o'_def n' split pos)
    ultimately show ?thesis using here by simp
  next
    case requeued
    then have r: "length (sr_pending mid) = Suc (length (sr_pending run))" "sr_tasks mid = pre @ post"
      "sr_pool mid = (sr_pool (after_join i run))\<lparr>pl_out := insert (ft_position ?t) ?out\<rparr>"
      using split by (auto simp: requeued_def)
    have p: "positions (sr_pool mid) = ?all" using r(3) pos by (simp add: positions_def)
    have "known_sources mid" using known split r(2) p by (auto simp: known_sources_def)
    moreover have "fetches_left mid < fetches_left run"
    proof (cases "ft_position ?t \<in> ?out")
      case True
      then have "pl_out (sr_pool mid) = ?out" using r(3) by (simp add: insert_absorb)
      then have "fetches_left mid = Suc n * Suc (card (?all - ?out)) + o'"
        using r(1,2) p by (simp add: fetches_left_def n_def o'_def)
      then show ?thesis using here True by simp
    next
      case False
      have fin: "finite (?all - ?out)" by (simp add: positions_def)
      have "?all - insert (ft_position ?t) ?out = (?all - ?out) - {ft_position ?t}" by auto
      then have c: "Suc (card (?all - insert (ft_position ?t) ?out)) = card (?all - ?out)"
        using False in_all card.remove [OF fin, of "ft_position ?t"] by simp
      have "length (filter (\<lambda>t. ft_position t \<in> insert (ft_position ?t) ?out) (pre @ post)) \<le> n"
        unfolding n_def by (rule trans_le_add2) (rule length_filter_le)
      moreover have "fetches_left mid = Suc n * card (?all - ?out)
          + length (filter (\<lambda>t. ft_position t \<in> insert (ft_position ?t) ?out) (pre @ post))"
        using r p c by (simp add: fetches_left_def n_def)
      ultimately show ?thesis using here False by simp
    qed
    ultimately show ?thesis ..
  qed
qed

fun ended_fetches :: "run_event list \<Rightarrow> nat" where
  "ended_fetches [] = 0"
| "ended_fetches (Joined i result fault # evs) = Suc (ended_fetches evs)"
| "ended_fetches (Panicked i e # evs) = Suc (ended_fetches evs)"
| "ended_fetches (_ # evs) = ended_fetches evs"

lemma tracked_commit_same [simp]:
  "sr_pending (tracked_commit c off run) = sr_pending run" "sr_tasks (tracked_commit c off run) = sr_tasks run"
  "sr_pool (tracked_commit c off run) = sr_pool run" "sr_disk (tracked_commit c off run) = sr_disk run"
  "sr_total (tracked_commit c off run) = sr_total run" "sr_pieces (tracked_commit c off run) = sr_pieces run"
  by (auto simp: tracked_commit_def ledger_note_ok split: sum.splits)

lemma drive_ends:
  assumes "known_sources run" and "sr_tasks run \<noteq> []" and "fetches_left run \<le> ended_fetches evs"
  shows "\<exists>over. drive env evs run = Inl over"
  using assms
proof (induction evs arbitrary: run)
  case Nil
  then show ?case by (simp add: fetches_left_def)
next
  case (Cons ev evs)
  show ?case
  proof (cases "run_step env ev run")
    case (Inl over)
    then show ?thesis by simp
  next
    case (Inr run')
    have "known_sources run' \<and> sr_tasks run' \<noteq> [] \<and> fetches_left run' \<le> ended_fetches evs"
    proof (cases ev)
      case (Wrote i at bytes)
      then show ?thesis using Inr Cons.prems by (auto simp: run_step_def known_sources_def fetches_left_def)
    next
      case (Checkpoint i off)
      then show ?thesis using Inr Cons.prems by (auto simp: run_step_def known_sources_def fetches_left_def)
    next
      case (Panicked i e)
      then show ?thesis using Inr by (simp add: run_step_def)
    next
      case (Joined i result fault)
      obtain mid where m: "settle env fault (task_of i run) result (after_join i run) = (Inr None, mid)"
        "turn env mid = Inr run'"
        using joined_goes_on [OF Inr [unfolded Joined]] .
      have s: "known_sources mid" "fetches_left mid < fetches_left run"
        using settle_left [OF m(1) Cons.prems(2,1)] by simp_all
      have t: "known_sources run'" "fetches_left run' = fetches_left mid"
        using turn_left [OF m(2) s(1)] by simp_all
      have "sr_tasks run' \<noteq> []" using turn_goes_on [OF m(2)] by metis
      then show ?thesis using s(2) t Cons.prems(3) Joined by simp
    qed
    then show ?thesis using Inr Cons.IH by simp
  qed
qed

lemma queue_chunks_pending:
  assumes "queue_chunks env faults unverified cs run = (Inr u, run')"
  shows "length (sr_pending run') \<le> length (sr_pending run) + length cs \<and> sr_tasks run' = sr_tasks run
    \<and> pl_sources (sr_pool run') = pl_sources (sr_pool run)"
  using assms
proof (induction cs arbitrary: run)
  case (Cons c cs)
  from Cons.prems show ?case
  proof (cases rule: queue_chunks_step)
    case wait
    then show ?thesis using Cons.IH by fastforce
  next
    case trusted
    then show ?thesis using Cons.IH by fastforce
  next
    case (checked pieces by_source run1)
    then show ?thesis using Cons.IH [OF checked(5)] notedD [OF checked(4)] by simp
  next
    case (rewound bad run1)
    then show ?thesis using Cons.IH [OF rewound(3)] rewound(2) by (auto simp: queued_def)
  qed
qed simp

text \<open>Property C24. A run over several sources ends: whatever the fetches do and in whatever order they
  end, after at most one fetch per chunk and source, and one more per chunk, the run is over.\<close>

theorem run_over_sources_ends:
  assumes "length (mr_chunks q) * Suc (length (mr_sources q)) \<le> ended_fetches evs"
  shows "\<exists>over. download_from_sources env faults q l disk evs = Inl over"
proof (cases "re_open_fault env")
  case (Some e)
  then show ?thesis by (simp add: download_from_sources_def begin_run_def)
next
  case None
  obtain res run where qc: "queue_chunks env faults (mr_unverified q) (mr_chunks q) (first_run q l disk) = (res, run)"
    by fastforce
  show ?thesis
  proof (cases res)
    case (Inl e)
    then show ?thesis using None qc by (simp add: download_from_sources_def begin_run_def)
  next
    case (Inr u)
    have p: "length (sr_pending run) \<le> length (mr_chunks q)" "sr_tasks run = []" "pl_sources (sr_pool run) = mr_sources q"
      using queue_chunks_pending [OF qc [unfolded Inr]] by (simp_all add: first_run_def)
    show ?thesis
    proof (cases "turn env run")
      case (Inl over)
      then show ?thesis using None qc Inr by (simp add: download_from_sources_def begin_run_def)
    next
      case going: (Inr run')
      have k: "known_sources run" using p(2) by (simp add: known_sources_def)
      have t: "known_sources run'" "fetches_left run' = fetches_left run" using turn_left [OF going k] by simp_all
      have "card (positions (sr_pool run) - pl_out (sr_pool run)) \<le> length (mr_sources q)"
      proof -
        have "card (positions (sr_pool run) - pl_out (sr_pool run)) \<le> card (positions (sr_pool run))"
          by (rule card_mono) (auto simp: positions_def)
        also have "\<dots> \<le> length (mr_sources q)"
          using card_length [of "map se_position (mr_sources q)"] p(3) by (simp add: positions_def)
        finally show ?thesis .
      qed
      then have "fetches_left run \<le> length (mr_chunks q) * Suc (length (mr_sources q))"
        unfolding fetches_left_def using p(1,2) by (simp del: mult_Suc_right add: mult_le_mono)
      then have "fetches_left run' \<le> ended_fetches evs" using t(2) assms by linarith
      moreover have "sr_tasks run' \<noteq> []" using turn_goes_on [OF going] by metis
      ultimately show ?thesis
        using drive_ends [OF t(1)] None qc Inr going by (simp add: download_from_sources_def begin_run_def)
    qed
  qed
qed

definition a_source :: source_endpoint where
  "a_source = \<lparr>se_position = 0, se_url = ''http://a'', se_headers = [], se_via = False\<rparr>"

definition a_request :: multi_source_request where
  "a_request = \<lparr>mr_total = 4, mr_chunks = [\<lparr>ck_id = ''c'', ck_start = 0, ck_end = Some 4, ck_committed = 0\<rparr>],
     mr_sources = [a_source], mr_parallel = 1, mr_pieces = Some \<lparr>ph_algorithm = ''x'', ph_length = 4, ph_hashes = [''h'']\<rparr>,
     mr_unverified = (\<lambda>_. None), mr_whole_file_hash = False\<rparr>"

definition a_run_env :: run_env where
  "a_run_env = \<lparr>re_digest = (\<lambda>_ bytes. if bytes = [Some 1, Some 2, Some 3, Some 4] then ''H'' else ''none''),
     re_open_fault = None, re_sync_fault = None\<rparr>"

definition a_ledger :: ledger where
  "a_ledger = \<lparr>lg_entries = [], lg_left = None\<rparr>"

lemma run_over_sources_ends_witness:
  "\<exists>over. download_from_sources a_run_env (\<lambda>_. None) a_request a_ledger (\<lambda>_. None)
     [Joined 0 (Inl RangeIgnored) None, Joined 0 (Inr Complete) None] = Inl over"
  by (rule run_over_sources_ends) (simp add: a_request_def)

section \<open>Where a fetch starts\<close>

text \<open>What the workers guarantee of the events (\<open>checkpoints_stay_behind_the_disk\<close>): a fetch writes inside its
  chunk, and its checkpoints lie between the offset it started at and the end of the chunk.\<close>

definition event_fits :: "run_event \<Rightarrow> source_run \<Rightarrow> bool" where
  "event_fits ev run =
     (case ev of
        Wrote i at bytes \<Rightarrow>
          ck_start (ft_chunk (task_of i run)) \<le> at
          \<and> (\<forall>e. ck_end (ft_chunk (task_of i run)) = Some e \<longrightarrow> unat at + length bytes \<le> unat e)
      | Checkpoint i off \<Rightarrow> ck_committed (ft_chunk (task_of i run)) \<le> off
      | _ \<Rightarrow> True)"

fun fits :: "run_env \<Rightarrow> run_event list \<Rightarrow> source_run \<Rightarrow> bool" where
  "fits env [] run = True"
| "fits env (ev # evs) run =
     (event_fits ev run \<and> (case run_step env ev run of Inl _ \<Rightarrow> True | Inr run' \<Rightarrow> fits env evs run'))"

definition open_chunks :: "source_run \<Rightarrow> chunk_spec list" where
  "open_chunks run = sr_pending run @ map ft_chunk (sr_tasks run)"

definition sound_run :: "source_run \<Rightarrow> bool" where
  "sound_run run =
     (barred (lg_entries (sr_ledger run)) \<subseteq> pl_out (sr_pool run)
      \<and> distinct (map ck_id (open_chunks run))
      \<and> (\<forall>c \<in> set (sr_pending run). sr_confirmed run (ck_id c) \<in> {None, Some (ck_committed c)})
      \<and> (\<forall>t \<in> set (sr_tasks run). \<forall>v. sr_confirmed run (ck_id (ft_chunk t)) = Some v \<longrightarrow> ck_committed (ft_chunk t) \<le> v))"

lemma mset_distinct_ids: "mset xs = mset ys \<Longrightarrow> distinct (map ck_id xs) = distinct (map ck_id ys)"
  by (rule mset_eq_imp_distinct_iff) simp

lemma turn_sound:
  assumes "turn env run = Inr run'" and s: "sound_run run"
  shows "sound_run run' \<and> (\<exists>new. sr_tasks run' = sr_tasks run @ new
    \<and> (\<forall>t \<in> set new. served_by (sr_pool run) t \<and> ft_position t \<notin> barred (lg_entries (sr_ledger run'))
         \<and> sr_confirmed run' (ck_id (ft_chunk t)) \<in> {None, Some (ck_committed (ft_chunk t))}))"
proof -
  obtain new where n: "sr_tasks run' = sr_tasks run @ new"
    "mset (sr_pending run') + mset (map ft_chunk new) = mset (sr_pending run)"
    "\<forall>t \<in> set new. served_by (sr_pool run) t" "same_pool (sr_pool run) (sr_pool run')"
    "lg_entries (sr_ledger run') = lg_entries (sr_ledger run) @ map mark_of new"
    "sr_confirmed run' = sr_confirmed run"
    by (rule turn_goes_on [OF assms(1)])
  have "mset (open_chunks run') = (mset (sr_pending run') + mset (map ft_chunk new)) + mset (map ft_chunk (sr_tasks run))"
    by (simp add: open_chunks_def n(1))
  then have "mset (open_chunks run') = mset (open_chunks run)" unfolding n(2) by (simp add: open_chunks_def)
  from mset_distinct_ids [OF this] have ids: "distinct (map ck_id (open_chunks run'))"
    using s by (simp add: sound_run_def)
  have "set_mset (mset (sr_pending run') + mset (map ft_chunk new)) = set (sr_pending run)" using n(2) by simp
  then have sub: "set (sr_pending run') \<subseteq> set (sr_pending run)" "ft_chunk ` set new \<subseteq> set (sr_pending run)" by auto
  have conf: "sr_confirmed run (ck_id (ft_chunk t)) \<in> {None, Some (ck_committed (ft_chunk t))}" if "t \<in> set new" for t
    using that sub(2) s by (auto simp: sound_run_def)
  have log: "barred (lg_entries (sr_ledger run')) = barred (lg_entries (sr_ledger run))" using n(5) by simp
  have "\<forall>c \<in> set (sr_pending run'). sr_confirmed run' (ck_id c) \<in> {None, Some (ck_committed c)}"
    using s sub(1) n(6) by (auto simp: sound_run_def)
  moreover have "\<forall>t \<in> set (sr_tasks run'). \<forall>v. sr_confirmed run' (ck_id (ft_chunk t)) = Some v \<longrightarrow> ck_committed (ft_chunk t) \<le> v"
  proof (intro ballI allI impI)
    fix t v assume t: "t \<in> set (sr_tasks run')" "sr_confirmed run' (ck_id (ft_chunk t)) = Some v"
    then consider "t \<in> set (sr_tasks run)" | "t \<in> set new" using n(1) by auto
    then show "ck_committed (ft_chunk t) \<le> v"
      by cases (use s t(2) conf [of t] n(6) in \<open>auto simp: sound_run_def\<close>)
  qed
  moreover have "barred (lg_entries (sr_ledger run')) \<subseteq> pl_out (sr_pool run')"
    using s log n(4) by (simp add: sound_run_def same_pool_def)
  ultimately have "sound_run run'" using ids by (simp add: sound_run_def)
  moreover have "ft_position t \<notin> barred (lg_entries (sr_ledger run'))" if "t \<in> set new" for t
    using that n(3) served_position s log by (auto simp: sound_run_def)
  ultimately show ?thesis using n(1,3,6) conf by auto
qed

lemma settle_sound:
  assumes st: "settle env fault (task_of i run) result (after_join i run) = (Inr None, mid)"
    and some: "sr_tasks run \<noteq> []" and s: "sound_run run"
  shows "sound_run mid \<and> mset (sr_tasks mid) \<subseteq># mset (sr_tasks run)
    \<and> pl_sources (sr_pool mid) = pl_sources (sr_pool run) \<and> pl_hash_basis (sr_pool mid) = pl_hash_basis (sr_pool run)"
proof -
  let ?t = "task_of i run"
  obtain pre post where split: "sr_tasks run = pre @ ?t # post" "sr_tasks (take_task i run) = pre @ post"
    using take_task_split [OF some] by blast
  have sub: "mset (pre @ post) \<subseteq># mset (sr_tasks run)" by (simp add: split(1))
  have fresh: "ck_id (ft_chunk ?t) \<notin> ck_id ` set (sr_pending run) \<union> (\<lambda>t. ck_id (ft_chunk t)) ` set (pre @ post)"
    and ids: "distinct (map ck_id (sr_pending run) @ map (\<lambda>t. ck_id (ft_chunk t)) (pre @ post))"
    using s by (auto simp: sound_run_def open_chunks_def split(1) image_image comp_def)
  show ?thesis
    using st
  proof (cases rule: settle_facts)
    case finished
    then obtain es where e: "noted es (after_join i run) mid" "barred es = {}" by (auto simp: finished_def)
    note n = notedD [OF e(1)]
    have "sound_run mid"
      using s ids e(2) by (auto simp: sound_run_def open_chunks_def n split image_image comp_def)
    then show ?thesis using sub by (simp add: n split)
  next
    case requeued
    then obtain c es where r: "ck_id c = ck_id (ft_chunk ?t)"
      "lg_entries (sr_ledger mid) = lg_entries (sr_ledger run) @ es" "barred es \<subseteq> {ft_position ?t}"
      "sr_pending mid = sr_pending run @ [c]" "sr_tasks mid = pre @ post"
      "sr_pool mid = (sr_pool (after_join i run))\<lparr>pl_out := insert (ft_position ?t) (pl_out (sr_pool run))\<rparr>"
      "(sr_confirmed mid = sr_confirmed run
          \<and> ck_committed c = max (case sr_confirmed run (ck_id c) of Some v \<Rightarrow> v | None \<Rightarrow> ck_committed (ft_chunk ?t))
                                 (ck_committed (ft_chunk ?t)))
       \<or> sr_confirmed mid = (sr_confirmed run)(ck_id c := Some (ck_committed c))"
      unfolding requeued_def by (auto simp: split)
    have log: "barred (lg_entries (sr_ledger mid)) \<subseteq> pl_out (sr_pool mid)"
      using s r(2,3,6) by (auto simp: sound_run_def)
    have ids': "distinct (map ck_id (open_chunks mid))"
      using ids fresh r(1,4,5) by (auto simp: open_chunks_def image_image comp_def)
    have new: "sr_confirmed mid (ck_id c) \<in> {None, Some (ck_committed c)}"
      using r(1,7) s by (auto simp: sound_run_def split(1) max_def split: option.splits)
    have old: "sr_confirmed mid i = sr_confirmed run i" if "i \<noteq> ck_id c" for i using r(7) that by auto
    have pend: "\<forall>d \<in> set (sr_pending mid). sr_confirmed mid (ck_id d) \<in> {None, Some (ck_committed d)}"
    proof
      fix d assume "d \<in> set (sr_pending mid)"
      then consider "d = c" | "d \<in> set (sr_pending run)" using r(4) by auto
      then show "sr_confirmed mid (ck_id d) \<in> {None, Some (ck_committed d)}"
      proof cases
        case 2
        then have "ck_id d \<noteq> ck_id c" using fresh r(1) by (metis UnI1 imageI)
        then show ?thesis using old s 2 by (simp add: sound_run_def)
      qed (use new in simp)
    qed
    have task: "\<forall>t \<in> set (sr_tasks mid). \<forall>v. sr_confirmed mid (ck_id (ft_chunk t)) = Some v \<longrightarrow> ck_committed (ft_chunk t) \<le> v"
    proof (intro ballI allI impI)
      fix t v assume t: "t \<in> set (sr_tasks mid)" "sr_confirmed mid (ck_id (ft_chunk t)) = Some v"
      then have "ck_id (ft_chunk t) \<in> (\<lambda>t. ck_id (ft_chunk t)) ` set (pre @ post)" using r(5) by (metis imageI)
      then have "ck_id (ft_chunk t) \<noteq> ck_id c" using fresh r(1) by (metis UnI2)
      then show "ck_committed (ft_chunk t) \<le> v" using old s t r(5) by (simp add: sound_run_def split(1))
    qed
    have "sound_run mid" using log ids' pend task by (simp add: sound_run_def)
    then show ?thesis using sub r(5,6) by simp
  qed
qed

lemma step_sound:
  assumes "run_step env ev run = Inr run'" and "sr_tasks run \<noteq> []" and "sound_run run" and "event_fits ev run"
  shows "sound_run run' \<and> sr_tasks run' \<noteq> [] \<and> pl_sources (sr_pool run') = pl_sources (sr_pool run)
    \<and> pl_hash_basis (sr_pool run') = pl_hash_basis (sr_pool run)"
proof (cases ev)
  case (Wrote i at bytes)
  then have "run' = run\<lparr>sr_disk := overlay at bytes (sr_disk run)\<rparr>" using assms(1) by (simp add: run_step_def)
  then show ?thesis using assms(2,3) by (simp add: sound_run_def open_chunks_def)
next
  case (Checkpoint i off)
  let ?c = "ft_chunk (task_of i run)"
  have run': "run' = tracked_commit (ck_id ?c) off run" using assms(1) Checkpoint by (simp add: run_step_def)
  have mem: "task_of i run \<in> set (sr_tasks run)" using take_task_split [OF assms(2), of i] by auto
  show ?thesis
  proof (cases "ledger_note (Committed (ck_id ?c) off) run")
    case (Inl e)
    then show ?thesis using run' assms by (simp add: tracked_commit_def)
  next
    case (Inr mid)
    note n = notedD [OF ledger_note_noted [OF Inr]]
    have conf: "sr_confirmed run' = (sr_confirmed run)(ck_id ?c := Some off)" using Inr run' n by (simp add: tracked_commit_def)
    have log: "barred (lg_entries (sr_ledger run')) = barred (lg_entries (sr_ledger run))"
      using Inr run' n by (simp add: tracked_commit_def) (simp add: barred_def)
    have same: "sr_pending run' = sr_pending run" "sr_tasks run' = sr_tasks run" "sr_pool run' = sr_pool run"
      using run' by simp_all
    have pend: "\<forall>d \<in> set (sr_pending run'). sr_confirmed run' (ck_id d) \<in> {None, Some (ck_committed d)}"
    proof
      fix d assume d: "d \<in> set (sr_pending run')"
      have "ck_id d \<noteq> ck_id ?c" using assms(3) d mem same(1) by (force simp: sound_run_def open_chunks_def)
      then show "sr_confirmed run' (ck_id d) \<in> {None, Some (ck_committed d)}"
        using assms(3) d same(1) by (simp add: conf sound_run_def)
    qed
    have task: "\<forall>t \<in> set (sr_tasks run'). \<forall>v. sr_confirmed run' (ck_id (ft_chunk t)) = Some v \<longrightarrow> ck_committed (ft_chunk t) \<le> v"
    proof (intro ballI allI impI)
      fix t v assume t: "t \<in> set (sr_tasks run')" "sr_confirmed run' (ck_id (ft_chunk t)) = Some v"
      show "ck_committed (ft_chunk t) \<le> v"
      proof (cases "ck_id (ft_chunk t) = ck_id ?c")
        case True
        have "inj_on (\<lambda>t. ck_id (ft_chunk t)) (set (sr_tasks run))"
          using assms(3) by (simp add: sound_run_def open_chunks_def distinct_map comp_inj_on_iff [symmetric] inj_on_def)
        then have "t = task_of i run" using True mem t(1) same(2) by (simp add: inj_on_def)
        then show ?thesis using t(2) True assms(4) Checkpoint by (simp add: conf event_fits_def)
      next
        case False
        then show ?thesis using t assms(3) same(2) by (simp add: conf sound_run_def)
      qed
    qed
    show ?thesis
      using assms(2,3) same log pend task by (simp add: sound_run_def open_chunks_def)
  qed
next
  case (Panicked i e)
  then show ?thesis using assms(1) by (simp add: run_step_def)
next
  case (Joined i result fault)
  obtain mid where m: "settle env fault (task_of i run) result (after_join i run) = (Inr None, mid)"
    "turn env mid = Inr run'"
    using joined_goes_on [OF assms(1) [unfolded Joined]] .
  note s = settle_sound [OF m(1) assms(2,3)]
  have "same_pool (sr_pool mid) (sr_pool run')" and "sr_tasks run' \<noteq> []" using turn_goes_on [OF m(2)] by metis+
  then show ?thesis using turn_sound [OF m(2)] s by (simp add: same_pool_def)
qed

lemma drive_sound:
  assumes "drive env evs run = Inr run'" and "sr_tasks run \<noteq> []" and "sound_run run" and "fits env evs run"
  shows "sound_run run' \<and> sr_tasks run' \<noteq> [] \<and> pl_sources (sr_pool run') = pl_sources (sr_pool run)
    \<and> pl_hash_basis (sr_pool run') = pl_hash_basis (sr_pool run)"
  using assms
proof (induction evs arbitrary: run)
  case (Cons ev evs)
  obtain mid where m: "run_step env ev run = Inr mid" "drive env evs mid = Inr run'" "event_fits ev run" "fits env evs mid"
    using Cons.prems(1,4) by (auto split: sum.splits)
  note s = step_sound [OF m(1) Cons.prems(2,3) m(3)]
  show ?case using Cons.IH [OF m(2) _ _ m(4)] s by simp
qed simp

lemma queue_chunks_sound:
  assumes "queue_chunks env faults unverified cs run = (Inr u, run')"
    and "sound_run run" and "sr_tasks run = []" and "sr_confirmed run = (\<lambda>_. None)"
    and "distinct (map ck_id (sr_pending run @ cs))"
  shows "sound_run run' \<and> sr_tasks run' = [] \<and> pl_sources (sr_pool run') = pl_sources (sr_pool run)
    \<and> pl_hash_basis (sr_pool run') = pl_hash_basis (sr_pool run)"
  using assms
proof (induction cs arbitrary: run)
  case (Cons c cs)
  have put: "sound_run run1 \<and> sr_tasks run1 = [] \<and> sr_confirmed run1 = (\<lambda>_. None)
      \<and> distinct (map ck_id (sr_pending run1 @ cs)) \<and> pl_sources (sr_pool run1) = pl_sources (sr_pool run)
      \<and> pl_hash_basis (sr_pool run1) = pl_hash_basis (sr_pool run)"
    if "queued d m run run1" and "ck_id d = ck_id c" for d m run1
    using that Cons.prems(2-5) by (auto simp: queued_def sound_run_def open_chunks_def) (meson subsetD)+
  from Cons.prems(1) show ?case
  proof (cases rule: queue_chunks_step)
    case wait
    then show ?thesis using Cons.IH [OF wait(3)] put [OF wait(2)] by simp
  next
    case trusted
    then show ?thesis using Cons.IH [OF trusted(3)] Cons.prems(2-5) by simp
  next
    case (checked pieces by_source run1)
    note n = notedD [OF checked(4)]
    have "barred (lg_entries (sr_ledger run1)) = barred (lg_entries (sr_ledger run))" by (simp add: n(1)) (simp add: barred_def)
    then have "sound_run run1" using Cons.prems(2,4) by (simp add: sound_run_def open_chunks_def n)
    then show ?thesis using Cons.IH [OF checked(5)] Cons.prems(3-5) n by simp
  next
    case (rewound bad run1)
    then show ?thesis using Cons.IH [OF rewound(3)] put [OF rewound(2)] by simp
  qed
qed simp

lemma begin_run_sound:
  assumes "begin_run env faults q l disk = Inr run" and "lg_entries l = []" and "distinct (map ck_id (mr_chunks q))"
  shows "sound_run run \<and> sr_tasks run \<noteq> [] \<and> pl_sources (sr_pool run) = mr_sources q
    \<and> pl_hash_basis (sr_pool run) = (mr_pieces q \<noteq> None \<or> mr_whole_file_hash q)"
proof -
  obtain u mid where m: "queue_chunks env faults (mr_unverified q) (mr_chunks q) (first_run q l disk) = (Inr u, mid)"
    "turn env mid = Inr run"
    using assms(1) by (auto simp: begin_run_def split: option.splits sum.splits prod.splits)
  have f: "sound_run (first_run q l disk)" using assms(2) by (simp add: sound_run_def first_run_def open_chunks_def barred_def)
  have s: "sound_run mid" "pl_sources (sr_pool mid) = mr_sources q"
    "pl_hash_basis (sr_pool mid) = (mr_pieces q \<noteq> None \<or> mr_whole_file_hash q)"
    using queue_chunks_sound [OF m(1) f] assms(3) by (simp_all add: first_run_def)
  have "same_pool (sr_pool mid) (sr_pool run)" and "sr_tasks run \<noteq> []" using turn_goes_on [OF m(2)] by metis+
  then show ?thesis using turn_sound [OF m(2) s(1)] s(2,3) by (simp add: same_pool_def)
qed

text \<open>Two descriptions of the same chunk, whatever of it is confirmed.\<close>

definition same_place :: "chunk_spec \<Rightarrow> chunk_spec \<Rightarrow> bool" where
  "same_place c d = (ck_id c = ck_id d \<and> ck_start c = ck_start d \<and> ck_end c = ck_end d)"

text \<open>
  Where the log says a chunk stands: its last checkpoint or rewind, or where the request started it. The
  fetches and the waiting chunks follow the log.
\<close>

definition recorded_offset :: "ledger_entry list \<Rightarrow> chunk_spec \<Rightarrow> u64" where
  "recorded_offset es c = last (ck_committed c # offsets_of (ck_id c) es)"

definition follows :: "chunk_spec list \<Rightarrow> source_run \<Rightarrow> bool" where
  "follows chunks run \<longleftrightarrow> (\<forall>d \<in> set (open_chunks run). \<exists>c \<in> set chunks. same_place d c \<and>
     recorded_offset (lg_entries (sr_ledger run)) c = (case sr_confirmed run (ck_id d) of Some v \<Rightarrow> v | None \<Rightarrow> ck_committed d))"

lemma recorded_more:
  "recorded_offset (es @ fs) c = (if offsets_of (ck_id c) fs = [] then recorded_offset es c else last (offsets_of (ck_id c) fs))"
  by (simp add: recorded_offset_def)

lemma followsI:
  assumes "follows chunks run" and "lg_entries (sr_ledger run') = lg_entries (sr_ledger run) @ es"
    and old: "\<And>d. d \<in> set (open_chunks run') \<Longrightarrow> d \<notin> new \<Longrightarrow> d \<in> set (open_chunks run)
       \<and> (case offsets_of (ck_id d) es of [] \<Rightarrow> sr_confirmed run' (ck_id d) = sr_confirmed run (ck_id d)
          | _ \<Rightarrow> sr_confirmed run' (ck_id d) = Some (last (offsets_of (ck_id d) es)))"
    and new: "\<And>d. d \<in> set (open_chunks run') \<Longrightarrow> d \<in> new \<Longrightarrow> \<exists>c \<in> set chunks. same_place d c \<and>
       recorded_offset (lg_entries (sr_ledger run) @ es) c = (case sr_confirmed run' (ck_id d) of Some v \<Rightarrow> v | None \<Rightarrow> ck_committed d)"
  shows "follows chunks run'"
  unfolding follows_def assms(2)
proof
  fix d assume d: "d \<in> set (open_chunks run')"
  show "\<exists>c \<in> set chunks. same_place d c \<and>
       recorded_offset (lg_entries (sr_ledger run) @ es) c = (case sr_confirmed run' (ck_id d) of Some v \<Rightarrow> v | None \<Rightarrow> ck_committed d)"
  proof (cases "d \<in> new")
    case False
    note o = old [OF d False]
    then obtain c where c: "c \<in> set chunks" "same_place d c"
      "recorded_offset (lg_entries (sr_ledger run)) c = (case sr_confirmed run (ck_id d) of Some v \<Rightarrow> v | None \<Rightarrow> ck_committed d)"
      using assms(1) by (auto simp: follows_def)
    have "ck_id c = ck_id d" using c(2) by (simp add: same_place_def)
    then show ?thesis using c o by (intro bexI [of _ c]) (auto simp: recorded_more split: list.splits)
  qed (rule new [OF d])
qed

lemma turn_follows:
  assumes "turn env run = Inr run'" and "follows chunks run"
  shows "follows chunks run'"
proof -
  obtain new where n: "lg_entries (sr_ledger run') = lg_entries (sr_ledger run) @ map mark_of new"
    "sr_confirmed run' = sr_confirmed run" "mset (sr_pending run') + mset (map ft_chunk new) = mset (sr_pending run)"
    "sr_tasks run' = sr_tasks run @ new"
    by (rule turn_goes_on [OF assms(1)])
  have "set_mset (mset (sr_pending run') + mset (map ft_chunk new)) = set (sr_pending run)" using n(3) by simp
  then have "set (open_chunks run') = set (open_chunks run)" using n(4) by (auto simp: open_chunks_def)
  then show ?thesis by (intro followsI [OF assms(2) n(1), of "{}"]) (auto simp: n(2))
qed

lemma settle_follows:
  assumes st: "settle env fault (task_of i run) result (after_join i run) = (Inr None, mid)"
    and some: "sr_tasks run \<noteq> []" and f: "follows chunks run"
  shows "follows chunks mid"
proof -
  let ?t = "task_of i run"
  obtain pre post where split: "sr_tasks run = pre @ ?t # post" "sr_tasks (take_task i run) = pre @ post"
    using take_task_split [OF some] by blast
  have opened: "set (open_chunks run) = insert (ft_chunk ?t) (set (sr_pending run) \<union> ft_chunk ` set (pre @ post))"
    by (auto simp: open_chunks_def split(1))
  show ?thesis
    using st
  proof (cases rule: settle_facts)
    case finished
    then obtain es where e: "noted es (after_join i run) mid" "\<forall>i. offsets_of i es = []" by (auto simp: finished_def)
    note n = notedD [OF e(1)]
    have "lg_entries (sr_ledger mid) = lg_entries (sr_ledger run) @ es" by (simp add: n)
    moreover have "set (open_chunks mid) = set (sr_pending run) \<union> ft_chunk ` set (pre @ post)"
      by (simp add: open_chunks_def n split(2) image_Un)
    ultimately show ?thesis
      using opened by (intro followsI [OF f, of _ es "{}"]) (auto simp: n e(2))
  next
    case requeued
    then obtain c es where c: "same_place c (ft_chunk ?t)" "sr_pending mid = sr_pending run @ [c]" "sr_tasks mid = pre @ post"
      and es: "lg_entries (sr_ledger mid) = lg_entries (sr_ledger run) @ es"
      and cases: "(sr_confirmed mid = sr_confirmed run \<and> (\<forall>i. offsets_of i es = [])
          \<and> ck_committed c = max (case sr_confirmed run (ck_id c) of Some v \<Rightarrow> v | None \<Rightarrow> ck_committed (ft_chunk ?t))
                                 (ck_committed (ft_chunk ?t)))
       \<or> (sr_confirmed mid = (sr_confirmed run)(ck_id c := Some (ck_committed c))
           \<and> (\<forall>i. offsets_of i es = (if i = ck_id c then [ck_committed c] else [])))"
      unfolding requeued_def by (auto simp: split same_place_def)
    have o: "set (open_chunks mid) = insert c (set (sr_pending run) \<union> ft_chunk ` set (pre @ post))"
      by (auto simp: open_chunks_def c)
    obtain c0 where c0: "c0 \<in> set chunks" "same_place (ft_chunk ?t) c0"
      "recorded_offset (lg_entries (sr_ledger run)) c0
        = (case sr_confirmed run (ck_id (ft_chunk ?t)) of Some v \<Rightarrow> v | None \<Rightarrow> ck_committed (ft_chunk ?t))"
      using f opened by (auto simp: follows_def)
    have ids: "ck_id c0 = ck_id c" "ck_id (ft_chunk ?t) = ck_id c" using c(1) c0(2) by (simp_all add: same_place_def)
    have "recorded_offset (lg_entries (sr_ledger run) @ es) c0
        = (case sr_confirmed mid (ck_id c) of Some v \<Rightarrow> v | None \<Rightarrow> ck_committed c)"
      using cases c0(3) unfolding recorded_more ids by (auto split: option.splits)
    moreover have "same_place c c0" using c(1) c0(2) by (simp add: same_place_def)
    ultimately show ?thesis
      using o opened cases c0(1) by (intro followsI [OF f es, of "{c}"]) auto
  qed
qed

lemma step_follows:
  assumes "run_step env ev run = Inr run'" and "sr_tasks run \<noteq> []" and f: "follows chunks run"
  shows "follows chunks run'"
proof (cases ev)
  case (Wrote i at bytes)
  then have "run' = run\<lparr>sr_disk := overlay at bytes (sr_disk run)\<rparr>" using assms(1) by (simp add: run_step_def)
  then show ?thesis using f by (simp add: follows_def open_chunks_def)
next
  case (Checkpoint i off)
  let ?c = "ft_chunk (task_of i run)"
  have run': "run' = tracked_commit (ck_id ?c) off run" using assms(1) Checkpoint by (simp add: run_step_def)
  show ?thesis
  proof (cases "ledger_note (Committed (ck_id ?c) off) run")
    case (Inl e)
    then show ?thesis using run' f by (simp add: tracked_commit_def)
  next
    case (Inr mid)
    note n = notedD [OF ledger_note_noted [OF Inr]]
    have e: "run' = mid\<lparr>sr_confirmed := (sr_confirmed mid)(ck_id ?c := Some off)\<rparr>"
      using Inr run' by (simp add: tracked_commit_def)
    have log: "lg_entries (sr_ledger run') = lg_entries (sr_ledger run) @ [Committed (ck_id ?c) off]" by (simp add: e n)
    show ?thesis by (rule followsI [OF f log, of "{}"]) (simp_all add: e n open_chunks_def)
  qed
next
  case (Panicked i e)
  then show ?thesis using assms(1) by (simp add: run_step_def)
next
  case (Joined i result fault)
  obtain mid where m: "settle env fault (task_of i run) result (after_join i run) = (Inr None, mid)" "turn env mid = Inr run'"
    using joined_goes_on [OF assms(1) [unfolded Joined]] .
  show ?thesis by (rule turn_follows [OF m(2) settle_follows [OF m(1) assms(2) f]])
qed

lemma drive_follows:
  assumes "drive env evs run = Inr run'" and "sr_tasks run \<noteq> []" and "sound_run run" and "fits env evs run"
    and "follows chunks run"
  shows "follows chunks run'"
  using assms
proof (induction evs arbitrary: run)
  case (Cons ev evs)
  obtain mid where m: "run_step env ev run = Inr mid" "drive env evs mid = Inr run'" "event_fits ev run" "fits env evs mid"
    using Cons.prems(1,4) by (auto split: sum.splits)
  show ?case
    using Cons.IH [OF m(2) _ _ m(4)] step_sound [OF m(1) Cons.prems(2,3) m(3)] step_follows [OF m(1) Cons.prems(2,5)] by simp
qed simp

lemma queue_chunks_follows:
  assumes "queue_chunks env faults unverified cs run = (Inr u, run')"
    and "follows chunks run" and "sr_tasks run = []" and "sr_confirmed run = (\<lambda>_. None)"
    and "distinct (map ck_id (sr_pending run @ cs))" and "set cs \<subseteq> set chunks"
    and "\<forall>c \<in> set cs. offsets_of (ck_id c) (lg_entries (sr_ledger run)) = []"
  shows "follows chunks run'"
  using assms
proof (induction cs arbitrary: run)
  case (Cons c cs)
  have put: "follows chunks run'"
    if q: "queued d m run run1" and d: "same_place d c" "\<not> m \<Longrightarrow> d = c"
      and go: "queue_chunks env faults unverified cs run1 = (Inr u, run')" for d m run1
  proof -
    obtain es where r: "sr_pending run1 = sr_pending run @ [d]" "sr_tasks run1 = sr_tasks run" "sr_confirmed run1 = sr_confirmed run"
      "lg_entries (sr_ledger run1) = lg_entries (sr_ledger run) @ es"
      "\<forall>i. offsets_of i es = (if m \<and> i = ck_id d then [ck_committed d] else [])"
      using q unfolding queued_def by blast
    have id: "ck_id d = ck_id c" using d(1) by (simp add: same_place_def)
    have fresh: "ck_id x \<noteq> ck_id d" if "x \<in> set (sr_pending run)" for x
      using Cons.prems(5) imageI [OF that, of ck_id] by (auto simp: id)
    have later: "ck_id d \<notin> ck_id ` set cs"
      using Cons.prems(5) by (simp add: id)
    have "recorded_offset (lg_entries (sr_ledger run) @ es) c = ck_committed d"
      unfolding recorded_more using r(5) d(2) Cons.prems(7) id by (auto simp: recorded_offset_def)
    then have "follows chunks run1"
      using Cons.prems(3,4,6) r d(1) fresh
      by (intro followsI [OF Cons.prems(2) r(4), of "{d}"]) (auto simp: open_chunks_def)
    moreover have "distinct (map ck_id (sr_pending run1 @ cs))" using Cons.prems(5) r(1) id by simp
    moreover have "offsets_of (ck_id x) (lg_entries (sr_ledger run1)) = []" if "x \<in> set cs" for x
    proof -
      have "ck_id x \<noteq> ck_id d" using later imageI [OF that, of ck_id] by auto
      then show ?thesis using Cons.prems(7) r(4,5) that by simp
    qed
    ultimately show ?thesis using Cons.IH [OF go] Cons.prems(3,4,6) r(2,3) by simp
  qed
  from Cons.prems(1) show ?case
  proof (cases rule: queue_chunks_step)
    case wait
    then show ?thesis using put [OF wait(2) _ _ wait(3)] by (simp add: same_place_def)
  next
    case trusted
    then show ?thesis using Cons.IH [OF trusted(3) Cons.prems(2)] Cons.prems(3-7) by simp
  next
    case (checked pieces by_source run1)
    note n = notedD [OF checked(4)]
    have "follows chunks run1"
      by (rule followsI [OF Cons.prems(2) n(1), of "{}"]) (simp_all add: open_chunks_def n)
    then show ?thesis using Cons.IH [OF checked(5)] Cons.prems(3-7) n by simp
  next
    case (rewound bad run1)
    then show ?thesis using put [OF rewound(2) _ _ rewound(3)] by (simp add: same_place_def)
  qed
qed simp

lemma begin_run_follows:
  assumes "begin_run env faults q l disk = Inr run" and "lg_entries l = []" and "distinct (map ck_id (mr_chunks q))"
  shows "follows (mr_chunks q) run"
proof -
  obtain u mid where m: "queue_chunks env faults (mr_unverified q) (mr_chunks q) (first_run q l disk) = (Inr u, mid)"
    "turn env mid = Inr run"
    using assms(1) by (auto simp: begin_run_def split: option.splits sum.splits prod.splits)
  have "follows (mr_chunks q) mid"
    by (rule queue_chunks_follows [OF m(1)]) (use assms(2,3) in \<open>simp_all add: first_run_def follows_def open_chunks_def\<close>)
  then show ?thesis by (rule turn_follows [OF m(2)])
qed

text \<open>Property C25. A fetch starts where it may: at any moment of a run, a fetch that is started after
  another one ended goes to a source of the set that the ledger does not name as failed or isolated; it
  fetches a chunk of the request, from the offset the ledger last recorded for it -- its last confirmed
  checkpoint or its rewind to a refused piece -- and where the ledger records none, from the offset the
  request started the chunk at; and an FTP or SFTP mirror, where no hash proves the bytes, only starts
  at the first byte of the file. The other fetches in flight are those that were in flight before. The
  checkpoints of a fetch do not lie before its start, and the run began with an empty ledger.\<close>

theorem fetch_starts_where_it_may:
  assumes "begin_run env faults q l disk = Inr run0" and "lg_entries l = []" and "distinct (map ck_id (mr_chunks q))"
    and "fits env evs run0" and "drive env evs run0 = Inr run" and "run_step env (Joined i result fault) run = Inr run'"
  shows "\<exists>kept new. sr_tasks run' = kept @ new \<and> mset kept \<subseteq># mset (sr_tasks run)
    \<and> (\<forall>t \<in> set new. ft_position t \<notin> barred (lg_entries (sr_ledger run'))
         \<and> sr_confirmed run' (ck_id (ft_chunk t)) \<in> {None, Some (ck_committed (ft_chunk t))}
         \<and> (\<exists>c \<in> set (mr_chunks q). ck_id (ft_chunk t) = ck_id c \<and> ck_start (ft_chunk t) = ck_start c
              \<and> ck_end (ft_chunk t) = ck_end c
              \<and> ck_committed (ft_chunk t) = recorded_offset (lg_entries (sr_ledger run')) c)
         \<and> (\<exists>s \<in> set (mr_sources q). se_position s = ft_position t
              \<and> (se_via s \<and> mr_pieces q = None \<and> \<not> mr_whole_file_hash q \<longrightarrow> ck_committed (ft_chunk t) = 0)))"
proof -
  note b = begin_run_sound [OF assms(1-3)]
  have r: "sound_run run" "sr_tasks run \<noteq> []" "pl_sources (sr_pool run) = mr_sources q"
    "pl_hash_basis (sr_pool run) = (mr_pieces q \<noteq> None \<or> mr_whole_file_hash q)"
    using drive_sound [OF assms(5) _ _ assms(4)] b by auto
  obtain mid where m: "settle env fault (task_of i run) result (after_join i run) = (Inr None, mid)" "turn env mid = Inr run'"
    using joined_goes_on [OF assms(6)] .
  note s = settle_sound [OF m(1) r(2,1)]
  obtain new where n: "sr_tasks run' = sr_tasks mid @ new"
    "\<forall>t \<in> set new. served_by (sr_pool mid) t \<and> ft_position t \<notin> barred (lg_entries (sr_ledger run'))
       \<and> sr_confirmed run' (ck_id (ft_chunk t)) \<in> {None, Some (ck_committed (ft_chunk t))}"
    using turn_sound [OF m(2)] s by auto
  have "\<exists>s \<in> set (mr_sources q). se_position s = ft_position t
      \<and> (se_via s \<and> mr_pieces q = None \<and> \<not> mr_whole_file_hash q \<longrightarrow> ck_committed (ft_chunk t) = 0)"
    if "t \<in> set new" for t
  proof -
    have "served_by (sr_pool mid) t" using that n(2) by blast
    then obtain so where so: "so \<in> set (mr_sources q)" "se_position so = ft_position t"
      "may_serve (sr_pool mid) so (ck_committed (ft_chunk t))"
      using s r(3) by (auto simp: served_by_def)
    then show ?thesis using s r(4) by (intro bexI [of _ so]) (auto simp: may_serve_def)
  qed
  moreover have "follows (mr_chunks q) run'"
    by (rule step_follows [OF assms(6) r(2) drive_follows [OF assms(5) _ _ assms(4) begin_run_follows [OF assms(1-3)]]])
      (use b in auto)
  then have "\<exists>c \<in> set (mr_chunks q). ck_id (ft_chunk t) = ck_id c \<and> ck_start (ft_chunk t) = ck_start c
      \<and> ck_end (ft_chunk t) = ck_end c \<and> ck_committed (ft_chunk t) = recorded_offset (lg_entries (sr_ledger run')) c"
    if "t \<in> set new" for t
  proof -
    have "ft_chunk t \<in> set (open_chunks run')" using that n(1) by (simp add: open_chunks_def)
    with \<open>follows (mr_chunks q) run'\<close> obtain c where c: "c \<in> set (mr_chunks q)" "same_place (ft_chunk t) c"
      "recorded_offset (lg_entries (sr_ledger run')) c
        = (case sr_confirmed run' (ck_id (ft_chunk t)) of Some v \<Rightarrow> v | None \<Rightarrow> ck_committed (ft_chunk t))"
      by (auto simp: follows_def)
    moreover have "sr_confirmed run' (ck_id (ft_chunk t)) \<in> {None, Some (ck_committed (ft_chunk t))}" using n(2) that by blast
    ultimately show ?thesis by (intro bexI [of _ c]) (auto simp: same_place_def)
  qed
  ultimately show ?thesis using n s by (intro exI [of _ "sr_tasks mid"] exI [of _ new]) simp
qed

section \<open>What the pieces prove\<close>

text \<open>A check of a chunk that finds nothing has read every piece inside the chunk, and looks at the
  chunk's own bytes only.\<close>

lemma bad_piece_from_fault:
  "bad_piece_from env pieces e tot disk fault is = Inr None \<Longrightarrow> bad_piece_from env pieces e tot disk None is = Inr None"
  by (induction "is" arbitrary: fault) (auto simp: Let_def split: prod.splits option.splits if_splits nat.splits)

lemma piece_range_bounds: "piece_range pieces i tot = (start, stop) \<Longrightarrow> start \<le> tot \<and> stop \<le> tot"
  by (auto simp: piece_range_def Let_def)

definition piece_ok :: "run_env \<Rightarrow> piece_hashes \<Rightarrow> u64 \<Rightarrow> (u64 \<Rightarrow> u8 option) \<Rightarrow> nat \<Rightarrow> bool" where
  "piece_ok env pieces tot disk i =
     (case piece_range pieces i tot of (start, stop) \<Rightarrow>
        start < stop \<longrightarrow> lowercase (checksum_range env (ph_algorithm pieces) start (stop - start) disk)
          = lowercase (ph_hashes pieces ! i))"

lemma bad_piece_from_reads:
  assumes "bad_piece_from env pieces e tot disk None [k..<n] = Inr None" and "k \<le> i" and "i < n"
    and "\<forall>j \<in> {k..i}. fst (piece_range pieces j tot) < snd (piece_range pieces j tot) \<and> snd (piece_range pieces j tot) \<le> e"
  shows "piece_ok env pieces tot disk i"
  using assms
proof (induction "i - k" arbitrary: k)
  case 0
  then have "[k..<n] = i # [Suc i..<n]" by (simp add: upt_conv_Cons)
  then show ?case using 0 by (auto simp: piece_ok_def Let_def split: prod.splits if_splits)
next
  case (Suc d)
  then have "[k..<n] = k # [Suc k..<n]" by (simp add: upt_conv_Cons)
  moreover have "fst (piece_range pieces k tot) < snd (piece_range pieces k tot) \<and> snd (piece_range pieces k tot) \<le> e"
    using Suc by simp
  ultimately have "bad_piece_from env pieces e tot disk None [Suc k..<n] = Inr None"
    using Suc.prems(1) by (auto simp: Let_def split: prod.splits if_splits)
  moreover have "d = i - Suc k" "Suc k \<le> i" using Suc.hyps(2) by simp_all
  ultimately show ?case using Suc.hyps(1) [of "Suc k"] Suc.prems(3,4) by simp
qed

lemma checksum_range_cong:
  assumes "\<forall>q. start \<le> q \<and> q < stop \<longrightarrow> disk q = disk' q" and "start \<le> stop"
  shows "checksum_range env algorithm start (stop - start) disk = checksum_range env algorithm start (stop - start) disk'"
proof -
  have "disk (start + of_nat k) = disk' (start + of_nat k)" if "k < unat (stop - start)" for k
  proof -
    have l: "unat (stop - start) = unat stop - unat start" using assms(2) by (simp add: unat_sub)
    have "unat start + k < 18446744073709551616" using that l u64_bound [of stop] by linarith
    then have u: "unat (start + of_nat k) = unat start + k" by (rule unat_offset)
    have "start \<le> start + of_nat k" and "start + of_nat k < stop"
      using u that l by (simp_all add: word_le_nat_alt word_less_nat_alt)
    then show ?thesis using assms(1) by blast
  qed
  then have "map (\<lambda>k. disk (start + of_nat k)) [0..<unat (stop - start)]
      = map (\<lambda>k. disk' (start + of_nat k)) [0..<unat (stop - start)]"
    by (intro map_cong) simp_all
  then show ?thesis by (simp only: checksum_range_def)
qed

lemma bad_piece_from_cong:
  assumes "\<forall>q. b \<le> q \<and> q < e \<longrightarrow> disk q = disk' q"
    and "\<forall>i \<in> set is. fst (piece_range pieces i tot) < snd (piece_range pieces i tot) \<longrightarrow> b \<le> fst (piece_range pieces i tot)"
  shows "bad_piece_from env pieces e tot disk None is = bad_piece_from env pieces e tot disk' None is"
  using assms(2)
proof (induction "is")
  case (Cons i "is")
  obtain start stop where r: "piece_range pieces i tot = (start, stop)" by fastforce
  show ?case
  proof (cases "stop > e \<or> start \<ge> stop")
    case False
    then have "b \<le> start" "stop \<le> e" "start \<le> stop" using Cons.prems r by auto
    then have "checksum_range env (ph_algorithm pieces) start (stop - start) disk
        = checksum_range env (ph_algorithm pieces) start (stop - start) disk'"
      using assms(1) by (intro checksum_range_cong allI impI) (meson order_trans less_le_trans)+
    then show ?thesis using Cons r by (simp add: Let_def)
  qed (use r in auto)
qed simp

text \<open>The pieces a check of a chunk looks at begin inside the chunk.\<close>

lemma piece_starts_inside:
  assumes "0 < ph_length pieces" and "unat (div_ceil b (max (ph_length pieces) 1)) \<le> i"
    and "i < 18446744073709551616"
    and "fst (piece_range pieces i tot) < snd (piece_range pieces i tot)"
  shows "b \<le> fst (piece_range pieces i tot)
    \<and> unat (fst (piece_range pieces i tot)) = i * unat (ph_length pieces)
    \<and> unat (snd (piece_range pieces i tot)) = min (i * unat (ph_length pieces) + unat (ph_length pieces)) (unat tot)"
proof -
  let ?len = "ph_length pieces"
  have "1 \<le> ?len" using assms(1) by (simp add: word_less_nat_alt word_le_nat_alt)
  then have m: "max ?len 1 = ?len" by (rule max_absorb1)
  have i: "unat (of_nat i :: u64) = i" using assms(3) by (simp add: unat_of_nat_small)
  have s: "unat (sat_mul (of_nat i) ?len) = min (i * unat ?len) 18446744073709551615"
    by (simp add: unat_sat_mul i)
  have st: "unat (fst (piece_range pieces i tot)) = min (min (i * unat ?len) 18446744073709551615) (unat tot)"
    by (simp add: piece_range_def Let_def unat_min s)
  have sp: "unat (snd (piece_range pieces i tot))
      = min (min (min (i * unat ?len) 18446744073709551615 + unat ?len) 18446744073709551615) (unat tot)"
    by (simp add: piece_range_def Let_def unat_min unat_sat_add s)
  have "unat (fst (piece_range pieces i tot)) < unat (snd (piece_range pieces i tot))"
    using assms(4) by (simp add: word_less_nat_alt)
  then have lt: "unat (fst (piece_range pieces i tot)) < unat tot" using sp by simp
  then have start: "unat (fst (piece_range pieces i tot)) = i * unat ?len" using st u64_bound [of tot] by auto
  have small: "i * unat ?len < 18446744073709551615" using lt start u64_bound [of tot] by linarith
  have stop: "unat (snd (piece_range pieces i tot)) = min (i * unat ?len + unat ?len) (unat tot)"
    using sp small u64_bound [of tot] by auto
  have "unat b \<le> unat ?len * unat (div_ceil b ?len)" using div_ceil_covers(1) [OF assms(1)] .
  also have "\<dots> \<le> unat ?len * i" using assms(2) m by simp
  finally have "b \<le> fst (piece_range pieces i tot)" using start by (simp add: word_le_nat_alt mult.commute)
  then show ?thesis using start stop by simp
qed

lemma piece_values:
  assumes "0 < ph_length pieces" and "i < 18446744073709551616" and "i * unat (ph_length pieces) < unat tot"
  shows "unat (fst (piece_range pieces i tot)) = i * unat (ph_length pieces)
    \<and> unat (snd (piece_range pieces i tot)) = min (i * unat (ph_length pieces) + unat (ph_length pieces)) (unat tot)"
proof -
  have i: "unat (of_nat i :: u64) = i" using assms(2) by (simp add: unat_of_nat_small)
  have s: "unat (sat_mul (of_nat i) (ph_length pieces)) = i * unat (ph_length pieces)"
    using assms(3) u64_bound [of tot] by (simp add: unat_sat_mul i)
  show ?thesis
    using assms(3) u64_bound [of tot] by (auto simp: piece_range_def Let_def unat_min unat_sat_add s)
qed

definition unstarted :: "chunk_spec \<Rightarrow> chunk_spec" where
  "unstarted c = c\<lparr>ck_committed := ck_start c\<rparr>"

definition checked :: "run_env \<Rightarrow> piece_hashes \<Rightarrow> u64 \<Rightarrow> (u64 \<Rightarrow> u8 option) \<Rightarrow> chunk_spec \<Rightarrow> bool" where
  "checked env pieces tot disk c = (first_bad_piece env pieces c tot disk None = Inr None)"

lemma checked_same: "same_place c d \<Longrightarrow> checked env pieces tot disk c = checked env pieces tot disk d"
  by (simp add: checked_def same_place_def first_bad_piece_def)

lemma checked_fault: "first_bad_piece env pieces c tot disk fault = Inr None \<Longrightarrow> checked env pieces tot disk c"
  by (auto simp: checked_def first_bad_piece_def Let_def dest: bad_piece_from_fault)

lemma checked_cong:
  assumes "0 < ph_length pieces" and "length (ph_hashes pieces) < 18446744073709551616" and "ck_end c = Some e"
    and "\<forall>q. ck_start c \<le> q \<and> q < e \<longrightarrow> disk q = disk' q"
  shows "checked env pieces tot disk c = checked env pieces tot disk' c"
proof -
  let ?first = "unat (div_ceil (ck_start c) (max (ph_length pieces) 1))"
  have "\<forall>i \<in> set [?first..<length (ph_hashes pieces)].
      fst (piece_range pieces i tot) < snd (piece_range pieces i tot) \<longrightarrow> ck_start c \<le> fst (piece_range pieces i tot)"
    using piece_starts_inside [OF assms(1)] assms(2) by auto
  from bad_piece_from_cong [OF assms(4) this] show ?thesis
    by (simp add: checked_def first_bad_piece_def assms(3))
qed

lemma tiles_disjoint:
  "tiles a cs b \<Longrightarrow> c \<in> set cs \<Longrightarrow> d \<in> set cs \<Longrightarrow> c = d \<or> the (ck_end c) \<le> ck_start d \<or> the (ck_end d) \<le> ck_start c"
proof (induction a cs b rule: tiles.induct)
  case (2 a x cs b)
  obtain e where e: "ck_end x = Some e" "tiles e cs b" using "2.prems"(1) by (auto split: option.splits)
  have later: "e \<le> ck_start y" if "y \<in> set cs" for y using tiles_ends [OF e(2) that] by simp
  then show ?case using "2.IH" [OF e] "2.prems"(2,3) e(1) by auto
qed simp

text \<open>Every chunk of the request is open, or it is checked on the disk as it is.\<close>

definition accounted :: "run_env \<Rightarrow> piece_hashes \<Rightarrow> u64 \<Rightarrow> chunk_spec list \<Rightarrow> source_run \<Rightarrow> bool" where
  "accounted env pieces tot chunks run =
     (sr_pieces run = Some pieces \<and> sr_total run = tot
      \<and> (\<forall>c0 \<in> set chunks. (\<exists>c \<in> set (open_chunks run). same_place c c0) \<or> checked env pieces tot (sr_disk run) c0)
      \<and> (\<forall>c \<in> set (open_chunks run). \<exists>c0 \<in> set chunks. same_place c c0))"

lemma accounted_open_set:
  assumes "accounted env pieces tot chunks run" and "set (open_chunks run') = set (open_chunks run)"
    and "sr_pieces run' = sr_pieces run" "sr_total run' = sr_total run" "sr_disk run' = sr_disk run"
  shows "accounted env pieces tot chunks run'"
  using assms by (simp add: accounted_def)

lemma turn_open:
  assumes "turn env run = Inr run'"
  shows "set (open_chunks run') = set (open_chunks run) \<and> sr_pieces run' = sr_pieces run
    \<and> sr_total run' = sr_total run \<and> sr_disk run' = sr_disk run \<and> sr_tasks run' \<noteq> []"
proof -
  obtain new where n: "sr_tasks run' = sr_tasks run @ new"
    "mset (sr_pending run') + mset (map ft_chunk new) = mset (sr_pending run)"
    "sr_pieces run' = sr_pieces run" "sr_total run' = sr_total run" "sr_disk run' = sr_disk run" "sr_tasks run' \<noteq> []"
    by (rule turn_goes_on [OF assms])
  have "set_mset (mset (sr_pending run') + mset (map ft_chunk new)) = set (sr_pending run)" using n(2) by simp
  then show ?thesis using n by (auto simp: open_chunks_def)
qed

lemma settle_accounted:
  assumes st: "settle env fault (task_of i run) result (after_join i run) = (Inr None, mid)"
    and some: "sr_tasks run \<noteq> []" and a: "accounted env pieces tot chunks run"
  shows "accounted env pieces tot chunks mid"
proof -
  let ?t = "task_of i run"
  obtain pre post where split: "sr_tasks run = pre @ ?t # post" "sr_tasks (take_task i run) = pre @ post"
    using take_task_split [OF some] by blast
  have opened: "set (open_chunks run) = insert (ft_chunk ?t) (set (sr_pending run) \<union> ft_chunk ` set (pre @ post))"
    by (auto simp: open_chunks_def split(1))
  show ?thesis
    using st
  proof (cases rule: settle_facts)
    case finished
    then obtain es where e: "noted es (after_join i run) mid" by (auto simp: finished_def)
    note n = notedD [OF e]
    obtain k where "first_bad_piece env pieces ((ft_chunk ?t)\<lparr>ck_committed := k\<rparr>) tot (sr_disk run) fault = Inr None"
      using finished(2) a by (auto simp: finished_def accounted_def)
    then have "checked env pieces tot (sr_disk run) ((ft_chunk ?t)\<lparr>ck_committed := k\<rparr>)" by (rule checked_fault)
    then have "checked env pieces tot (sr_disk run) (ft_chunk ?t)"
      using checked_same [of "(ft_chunk ?t)\<lparr>ck_committed := k\<rparr>" "ft_chunk ?t"] by (simp add: same_place_def)
    then have c: "checked env pieces tot (sr_disk run) c0" if "same_place (ft_chunk ?t) c0" for c0
      using checked_same [OF that] by simp
    have "set (open_chunks mid) = set (sr_pending run) \<union> ft_chunk ` set (pre @ post)"
      by (simp add: open_chunks_def n split(2) image_Un)
    then show ?thesis using a c opened by (auto simp: accounted_def n)
  next
    case requeued
    then obtain c where c: "same_place c (ft_chunk ?t)" "sr_pending mid = sr_pending run @ [c]" "sr_tasks mid = pre @ post"
      "sr_disk mid = sr_disk run" "sr_total mid = sr_total run" "sr_pieces mid = sr_pieces run"
      unfolding requeued_def by (auto simp: split same_place_def)
    have "set (open_chunks mid) = insert c (set (sr_pending run) \<union> ft_chunk ` set (pre @ post))"
      by (auto simp: open_chunks_def c)
    moreover have "same_place c d \<longleftrightarrow> same_place (ft_chunk ?t) d" for d using c(1) by (simp add: same_place_def)
    ultimately show ?thesis using a opened by (simp add: accounted_def c)
  qed
qed

lemma write_accounted:
  assumes a: "accounted env pieces tot chunks run" and t: "t \<in> set (sr_tasks run)"
    and fit: "ck_start (ft_chunk t) \<le> at" "\<forall>e. ck_end (ft_chunk t) = Some e \<longrightarrow> unat at + length bytes \<le> unat e"
    and layout: "tiles 0 (map unstarted chunks) tot"
    and pieces: "0 < ph_length pieces" "length (ph_hashes pieces) < 18446744073709551616"
  shows "accounted env pieces tot chunks (run\<lparr>sr_disk := overlay at bytes (sr_disk run)\<rparr>)"
proof -
  have mem: "ft_chunk t \<in> set (open_chunks run)" using t by (simp add: open_chunks_def)
  obtain c where c: "c \<in> set chunks" "same_place (ft_chunk t) c" using a mem by (auto simp: accounted_def)
  have keep: "checked env pieces tot (overlay at bytes (sr_disk run)) c0"
    if c0: "c0 \<in> set chunks" "checked env pieces tot (sr_disk run) c0" "\<not> same_place (ft_chunk t) c0" for c0
  proof -
    have u: "unstarted c \<in> set (map unstarted chunks)" "unstarted c0 \<in> set (map unstarted chunks)" using c(1) c0(1) by simp_all
    obtain e e0 where e: "ck_end c = Some e" "ck_end c0 = Some e0"
      using tiles_ends [OF layout u(1)] tiles_ends [OF layout u(2)] by (auto simp: unstarted_def)
    have "unstarted c \<noteq> unstarted c0"
    proof
      assume "unstarted c = unstarted c0"
      then have "same_place c c0" by (cases c; cases c0) (simp add: unstarted_def same_place_def)
      then show False using c(2) c0(3) by (simp add: same_place_def)
    qed
    then have d: "e \<le> ck_start c0 \<or> e0 \<le> ck_start c"
      using tiles_disjoint [OF layout u] e by (auto simp: unstarted_def)
    have f: "ck_start c \<le> at" "unat at + length bytes \<le> unat e" using fit c(2) e(1) by (simp_all add: same_place_def)
    have "\<forall>q. ck_start c0 \<le> q \<and> q < e0 \<longrightarrow> sr_disk run q = overlay at bytes (sr_disk run) q"
    proof (intro allI impI)
      fix q assume q: "ck_start c0 \<le> q \<and> q < e0"
      then have "q < at \<or> unat at + length bytes \<le> unat q"
        using d f by (auto simp: word_le_nat_alt word_less_nat_alt)
      then show "sr_disk run q = overlay at bytes (sr_disk run) q"
        using f(2) u64_bound [of e] by (intro overlay_elsewhere [symmetric]) simp_all
    qed
    then show ?thesis using checked_cong [OF pieces e(2)] c0(2) by blast
  qed
  have same: "open_chunks (run\<lparr>sr_disk := overlay at bytes (sr_disk run)\<rparr>) = open_chunks run" by (simp add: open_chunks_def)
  show ?thesis
    unfolding accounted_def same
  proof (intro conjI ballI)
    fix c0 assume c0: "c0 \<in> set chunks"
    show "(\<exists>c \<in> set (open_chunks run). same_place c c0)
        \<or> checked env pieces tot (sr_disk (run\<lparr>sr_disk := overlay at bytes (sr_disk run)\<rparr>)) c0"
      using a c0 keep [OF c0] mem by (auto simp: accounted_def)
  qed (use a in \<open>simp_all add: accounted_def\<close>)
qed

lemma step_accounted:
  assumes "run_step env ev run = Inr run'" and "sr_tasks run \<noteq> []" and a: "accounted env pieces tot chunks run"
    and "event_fits ev run" and layout: "tiles 0 (map unstarted chunks) tot"
    and pieces: "0 < ph_length pieces" "length (ph_hashes pieces) < 18446744073709551616"
  shows "accounted env pieces tot chunks run' \<and> sr_tasks run' \<noteq> []"
proof (cases ev)
  case (Wrote i at bytes)
  have mem: "task_of i run \<in> set (sr_tasks run)" using take_task_split [OF assms(2), of i] by auto
  have "run' = run\<lparr>sr_disk := overlay at bytes (sr_disk run)\<rparr>" using assms(1) Wrote by (simp add: run_step_def)
  then show ?thesis
    using write_accounted [OF a mem _ _ layout pieces, of at bytes] assms(2,4) Wrote by (simp add: event_fits_def)
next
  case (Checkpoint i off)
  then have "run' = tracked_commit (ck_id (ft_chunk (task_of i run))) off run" using assms(1) by (simp add: run_step_def)
  then show ?thesis using a assms(2) by (simp add: accounted_def open_chunks_def)
next
  case (Panicked i e)
  then show ?thesis using assms(1) by (simp add: run_step_def)
next
  case (Joined i result fault)
  obtain mid where m: "settle env fault (task_of i run) result (after_join i run) = (Inr None, mid)"
    "turn env mid = Inr run'"
    using joined_goes_on [OF assms(1) [unfolded Joined]] .
  then show ?thesis
    using accounted_open_set [OF settle_accounted [OF m(1) assms(2) a]] turn_open [OF m(2)] by simp
qed

lemma settle_some:
  assumes "settle env fault t result run = (Inr (Some out), run')"
  shows "out = Paused"
proof (cases result)
  case (Inl e)
  have "settle_failure t e run \<noteq> (Inr (Some out), run')"
    by (simp add: settle_failure_def Let_def split: sum.splits prod.splits)
  then show ?thesis using assms Inl by (cases e) (auto simp: settle_def)
next
  case (Inr o')
  have "settle_complete env fault t run \<noteq> (Inr (Some out), run')"
    by (simp add: settle_complete_def Let_def split: sum.splits option.splits)
  then show ?thesis using assms Inr by (cases o') (auto simp: settle_def)
qed

lemma complete_step:
  assumes "run_step env ev run = Inl (Inr Complete, run')" and "sr_tasks run \<noteq> []"
    and a: "accounted env pieces tot chunks run"
  shows "\<forall>c \<in> set chunks. checked env pieces tot (sr_disk run') c"
proof -
  obtain i result fault where ev: "ev = Joined i result fault"
    using assms(1) by (cases ev) (simp_all add: run_step_def)
  obtain ans mid where m: "settle env fault (task_of i run) result (after_join i run) = (ans, mid)" by fastforce
  have "ans = Inr None" and t: "turn env mid = Inl (Inr Complete, run')"
    using assms(1) m settle_some [of env fault "task_of i run" result "after_join i run" _ mid]
    by (auto simp: ev run_step_def Let_def after_join_def split: sum.splits option.splits)
  with m have m: "ev = ev" "settle env fault (task_of i run) result (after_join i run) = (Inr None, mid)"
    "turn env mid = Inl (Inr Complete, run')" by simp_all
  show ?thesis
    using settle_accounted [OF m(2) assms(2) a] turn_completes [OF m(3)] by (simp add: accounted_def open_chunks_def)
qed

lemma drive_complete:
  assumes "drive env evs run = Inl (Inr Complete, run')" and "sr_tasks run \<noteq> []"
    and "accounted env pieces tot chunks run" and "fits env evs run" and "tiles 0 (map unstarted chunks) tot"
    and "0 < ph_length pieces" "length (ph_hashes pieces) < 18446744073709551616"
  shows "\<forall>c \<in> set chunks. checked env pieces tot (sr_disk run') c"
  using assms(1-4)
proof (induction evs arbitrary: run)
  case (Cons ev evs)
  show ?case
  proof (cases "run_step env ev run")
    case (Inl over)
    then show ?thesis using complete_step [OF _ Cons.prems(2,3)] Cons.prems(1) by simp
  next
    case (Inr mid)
    have "event_fits ev run" "fits env evs mid" using Cons.prems(4) Inr by simp_all
    then show ?thesis
      using Cons.IH step_accounted [OF Inr Cons.prems(2,3) _ assms(5-7)] Cons.prems(1) Inr by simp
  qed
qed simp

lemma queue_chunks_accounted:
  assumes "queue_chunks env faults unverified cs run = (Inr u, run')"
    and "sr_pieces run = Some pieces" and "sr_total run = tot" and "sr_tasks run = []"
    and "\<forall>c \<in> set cs. is_complete c \<and> unverified (ck_id c) = None \<longrightarrow> checked env pieces tot (sr_disk run) c"
    and "\<forall>c \<in> set (sr_pending run). \<exists>c0 \<in> set before. same_place c c0"
    and "\<forall>c0 \<in> set before. (\<exists>c \<in> set (sr_pending run). same_place c c0) \<or> checked env pieces tot (sr_disk run) c0"
  shows "accounted env pieces tot (before @ cs) run' \<and> sr_tasks run' = [] \<and> sr_disk run' = sr_disk run"
  using assms
proof (induction cs arbitrary: run before)
  case Nil
  then show ?case by (simp add: accounted_def open_chunks_def)
next
  case (Cons c cs)
  have put: "accounted env pieces tot (before @ c # cs) run' \<and> sr_tasks run' = [] \<and> sr_disk run' = sr_disk run"
    if "queued d m run run1" "same_place d c" "queue_chunks env faults unverified cs run1 = (Inr u, run')" for d m run1
    using Cons.IH [OF that(3), of "before @ [c]"] Cons.prems(2-7) that(1,2) by (auto simp: queued_def)
  have later: "\<forall>d \<in> set cs. is_complete d \<and> unverified (ck_id d) = None \<longrightarrow> checked env pieces tot (sr_disk run) d"
    "\<forall>d \<in> set (sr_pending run). \<exists>c0 \<in> set (before @ [c]). same_place d c0"
    "checked env pieces tot (sr_disk run) c \<longrightarrow> (\<forall>c0 \<in> set (before @ [c]).
       (\<exists>d \<in> set (sr_pending run). same_place d c0) \<or> checked env pieces tot (sr_disk run) c0)"
    using Cons.prems(5-7) by auto
  from Cons.prems(1) show ?case
  proof (cases rule: queue_chunks_step)
    case wait
    then show ?thesis using put [OF wait(2) _ wait(3)] by (simp add: same_place_def)
  next
    case trusted
    then have "checked env pieces tot (sr_disk run) c" using Cons.prems(2,5) by simp
    then show ?thesis using Cons.IH [OF trusted(3), of "before @ [c]"] Cons.prems(2-4) later by simp
  next
    case (checked ps by_source run1)
    note n = notedD [OF checked(4)]
    have "checked env pieces tot (sr_disk run) c"
      using checked(2,3) Cons.prems(2,3) by (auto intro: checked_fault)
    then show ?thesis using Cons.IH [OF checked(5), of "before @ [c]"] Cons.prems(2-4) later n by simp
  next
    case (rewound bad run1)
    then show ?thesis using put [OF rewound(2) _ rewound(3)] by (simp add: same_place_def)
  qed
qed

text \<open>Chunks that are checked and lie on piece boundaries leave no piece unchecked.\<close>

lemma checked_pieces:
  assumes all: "\<forall>c \<in> set chunks. checked env pieces tot disk c"
    and layout: "tiles 0 (map unstarted chunks) tot" and aligned: "chunks_aligned chunks (ph_length pieces) tot"
    and pieces: "0 < ph_length pieces" "length (ph_hashes pieces) < 18446744073709551616"
    and i: "i < length (ph_hashes pieces)"
  shows "piece_ok env pieces tot disk i"
proof -
  let ?len = "unat (ph_length pieces)"
  obtain start stop where r: "piece_range pieces i tot = (start, stop)" by fastforce
  show ?thesis
  proof (cases "start < stop")
    case False
    then show ?thesis using r by (simp add: piece_ok_def)
  next
    case True
    have l1: "1 \<le> ph_length pieces" using pieces(1) by (simp add: word_less_nat_alt word_le_nat_alt)
    then have m: "max (ph_length pieces) 1 = ph_length pieces" by (rule max_absorb1)
    have "unat (div_ceil 0 (max (ph_length pieces) 1)) \<le> i"
      using l1 m by (simp add: unat_div_ceil [OF pieces(1)] word_le_nat_alt)
    then have v: "unat start = i * ?len" "unat stop = min (i * ?len + ?len) (unat tot)"
      using piece_starts_inside [OF pieces(1) _ _, of 0 i tot] i pieces(2) True r by simp_all
    have below: "i * ?len < unat tot" using True v by (simp add: word_less_nat_alt)
    have "start < tot" using below v(1) by (simp add: word_less_nat_alt)
    from tiles_byte [OF layout word_zero_le this]
    obtain k where k: "k < length (map unstarted chunks)" "in_chunk start (map unstarted chunks ! k)" by blast
    let ?c = "chunks ! k"
    have mem: "?c \<in> set chunks" using k(1) by simp
    obtain e where e: "ck_end ?c = Some e" "e \<le> tot"
      using tiles_ends [OF layout, of "unstarted ?c"] mem by (auto simp: unstarted_def)
    have inside: "ck_start ?c \<le> start" "start < e"
      using k e(1) by (simp_all add: in_chunk_def unstarted_def)
    let ?first = "unat (div_ceil (ck_start ?c) (max (ph_length pieces) 1))"
    have first: "?first \<le> i"
    proof -
      have "unat (ck_start ?c) \<le> i * ?len" using inside(1) v(1) by (simp add: word_le_nat_alt)
      moreover have pos: "0 < ?len" using pieces(1) by (simp add: word_less_nat_alt)
      ultimately have "(unat (ck_start ?c) + ?len - 1) div ?len \<le> (i * ?len + (?len - 1)) div ?len"
        by (intro div_le_mono) simp
      also have "\<dots> = i" using pos by (simp only: div_mult_self3 neq0_conv) simp
      finally show ?thesis by (simp add: m unat_div_ceil [OF pieces(1)])
    qed
    have reach: "min (i * ?len + ?len) (unat tot) \<le> unat e"
    proof -
      have "e mod ph_length pieces = 0 \<or> e = tot"
        using aligned mem e(1) m by (auto simp: chunks_aligned_def Let_def list_all_iff split: option.splits)
      then show ?thesis
      proof
        assume "e mod ph_length pieces = 0"
        then have "unat e mod ?len = 0" by (simp add: unat_mod [symmetric])
        then obtain q where q: "unat e = q * ?len" by (metis mod_0_imp_dvd dvd_def mult.commute)
        have "i * ?len < q * ?len" using inside(2) v(1) q by (simp add: word_less_nat_alt)
        then have "Suc i \<le> q" by simp
        then have "Suc i * ?len \<le> q * ?len" by (rule mult_le_mono1)
        then show ?thesis using q by simp
      qed simp
    qed
    have ranges: "\<forall>j \<in> {?first..i}. fst (piece_range pieces j tot) < snd (piece_range pieces j tot)
        \<and> snd (piece_range pieces j tot) \<le> e"
    proof
      fix j assume j: "j \<in> {?first..i}"
      have jl: "j * ?len \<le> i * ?len" using j by simp
      then have jt: "j * ?len < unat tot" using below by (rule le_less_trans)
      then have jv: "unat (fst (piece_range pieces j tot)) = j * ?len"
        "unat (snd (piece_range pieces j tot)) = min (j * ?len + ?len) (unat tot)"
        using piece_values [OF pieces(1), of j tot] j i pieces(2) by simp_all
      have "0 < ?len" using pieces(1) by (simp add: word_less_nat_alt)
      then have "j * ?len < min (j * ?len + ?len) (unat tot)" using jt by simp
      moreover have "min (j * ?len + ?len) (unat tot) \<le> unat e"
        using reach jl by linarith
      ultimately show "fst (piece_range pieces j tot) < snd (piece_range pieces j tot)
          \<and> snd (piece_range pieces j tot) \<le> e"
        using jv by (simp add: word_less_nat_alt word_le_nat_alt)
    qed
    have "bad_piece_from env pieces e tot disk None [?first..<length (ph_hashes pieces)] = Inr None"
    proof -
      have "checked env pieces tot disk ?c" using all mem by blast
      then show ?thesis using e(1) by (simp add: checked_def first_bad_piece_def)
    qed
    from bad_piece_from_reads [OF this first i ranges] show ?thesis .
  qed
qed

text \<open>Property C23. A complete run left the right file: when a run with piece hashes ends complete, every
  piece of the file on the disk hashes to what the set states, whichever sources delivered it and in
  whatever order the fetches wrote, failed and were repeated. The chunks split the file on piece
  boundaries, the fetches write inside their chunks, and a chunk that an earlier run finished and
  marked as verified is right on the disk it starts from.\<close>

theorem complete_run_left_the_right_file:
  assumes over: "download_from_sources env faults q l disk evs = Inl (Inr Complete, run')"
    and p: "mr_pieces q = Some pieces" "0 < ph_length pieces" "length (ph_hashes pieces) < 2 ^ 64"
    and layout: "tiles 0 (map unstarted (mr_chunks q)) (mr_total q)"
    and aligned: "chunks_aligned (mr_chunks q) (ph_length pieces) (mr_total q)"
    and fit: "\<forall>run0. begin_run env faults q l disk = Inr run0 \<longrightarrow> fits env evs run0"
    and trusted: "\<forall>c \<in> set (mr_chunks q). is_complete c \<and> mr_unverified q (ck_id c) = None \<longrightarrow>
      checked env pieces (mr_total q) disk c"
    and i: "i < length (ph_hashes pieces)" and range_i: "piece_range pieces i (mr_total q) = (start, stop)" and "start < stop"
  shows "lowercase (checksum_range env (ph_algorithm pieces) start (stop - start) (sr_disk run'))
    = lowercase (ph_hashes pieces ! i)"
proof -
  have len: "length (ph_hashes pieces) < 18446744073709551616" using p(3) by simp
  have "\<forall>c \<in> set (mr_chunks q). checked env pieces (mr_total q) (sr_disk run') c"
  proof -
    have open_ok: "re_open_fault env = None"
      using over by (auto simp: download_from_sources_def begin_run_def split: option.splits)
    obtain res mid where qc: "queue_chunks env faults (mr_unverified q) (mr_chunks q) (first_run q l disk) = (res, mid)" by fastforce
    then obtain u where u: "res = Inr u"
      using over open_ok by (cases res) (simp_all add: download_from_sources_def begin_run_def)
    have a: "accounted env pieces (mr_total q) (mr_chunks q) mid" "sr_tasks mid = []" "sr_disk mid = disk"
      using queue_chunks_accounted [OF qc [unfolded u], of pieces "mr_total q" "[]"] p(1) trusted
      by (simp_all add: first_run_def)
    show ?thesis
    proof (cases "turn env mid")
      case (Inl end_of)
      then have "turn env mid = Inl (Inr Complete, run')"
        using over open_ok qc u by (simp add: download_from_sources_def begin_run_def)
      from turn_completes [OF this] show ?thesis using a(1) by (simp add: accounted_def open_chunks_def)
    next
      case (Inr run0)
      then have b: "begin_run env faults q l disk = Inr run0" using open_ok qc u by (simp add: begin_run_def)
      have d: "drive env evs run0 = Inl (Inr Complete, run')" using over b by (simp add: download_from_sources_def)
      have "accounted env pieces (mr_total q) (mr_chunks q) run0"
        using turn_open [OF Inr] by (intro accounted_open_set [OF a(1)]) simp_all
      then show ?thesis
        using turn_open [OF Inr] fit b by (intro drive_complete [OF d _ _ _ layout p(2) len]) simp_all
    qed
  qed
  from checked_pieces [OF this layout aligned p(2) len i] show ?thesis
    using range_i \<open>start < stop\<close> by (simp add: piece_ok_def)
qed

section \<open>Sample runs\<close>

definition two_sources :: multi_source_request where
  "two_sources = a_request\<lparr>mr_sources := [a_source, a_source\<lparr>se_position := 1, se_url := ''http://b''\<rparr>]\<rparr>"

lemmas sample_defs = begin_run_def a_run_env_def a_request_def two_sources_def a_source_def a_ledger_def first_run_def
  is_complete_def turn_def dispatch_def pool_pick_def may_serve_def ledger_note_def ledger_write_def spawn_fetch_def
  run_step_def Let_def task_of_def take_task_def pool_release_def

definition started :: source_run where
  "started = projr (begin_run a_run_env (\<lambda>_. None) two_sources a_ledger (\<lambda>_. None))"

lemma started: "begin_run a_run_env (\<lambda>_. None) two_sources a_ledger (\<lambda>_. None) = Inr started"
  unfolding started_def by (simp add: sample_defs)

definition moved_on :: source_run where
  "moved_on = projr (run_step a_run_env (Joined 0 (Inl RangeIgnored) None) started)"

lemma moved_on: "run_step a_run_env (Joined 0 (Inl RangeIgnored) None) started = Inr moved_on"
  unfolding moved_on_def started_def
  by (simp add: sample_defs settle_def settle_failure_def failure_code_def exclude_def CODE_INTERNAL_ADDRESS_def)

lemma fetch_starts_where_it_may_witness:
  "\<exists>kept new. sr_tasks moved_on = kept @ new \<and> (\<forall>t \<in> set new. ft_position t \<notin> barred (lg_entries (sr_ledger moved_on)))"
proof -
  have "lg_entries a_ledger = []" and "distinct (map ck_id (mr_chunks two_sources))"
    by (simp_all add: a_ledger_def two_sources_def a_request_def)
  from fetch_starts_where_it_may [OF started this, of "[]" started 0 "Inl RangeIgnored" None moved_on]
  show ?thesis using moved_on by auto
qed

definition the_events :: "run_event list" where
  "the_events = [Wrote 0 0 [1, 2, 3, 4], Checkpoint 0 4, Joined 0 (Inr Complete) None]"

lemma sample_digest:
  "checksum_range a_run_env ''x'' 0 4 (overlay 0 [1, 2, 3, 4] (\<lambda>_. None)) = ''H''"
  by (simp add: checksum_range_def a_run_env_def overlay_def upt_rec)

lemma sample_hex: "lowercase ''H'' = ''h''" "lowercase ''h'' = ''h''"
  by code_simp+

definition complete_run :: source_run where
  "complete_run = snd (projl (download_from_sources a_run_env (\<lambda>_. None) a_request a_ledger (\<lambda>_. None) the_events))"

lemma complete_run:
  "download_from_sources a_run_env (\<lambda>_. None) a_request a_ledger (\<lambda>_. None) the_events = Inl (Inr Complete, complete_run)"
proof -
  have check: "first_bad_piece a_run_env \<lparr>ph_algorithm = ''x'', ph_length = 4, ph_hashes = [''h'']\<rparr>
      \<lparr>ck_id = ''c'', ck_start = 0, ck_end = Some 4, ck_committed = 4\<rparr> 4
      (overlay 0 [1, 2, 3, 4] (\<lambda>_. None)) None = Inr None"
    by (simp add: first_bad_piece_def Let_def div_ceil_def piece_range_def sat_mul_def sat_add_def sample_digest
        sample_hex upt_rec)
  show ?thesis
    unfolding complete_run_def download_from_sources_def the_events_def
    using check
    by (simp add: sample_defs settle_def settle_complete_def tracked_commit_def)
qed

lemma complete_run_left_the_right_file_witness:
  "lowercase (checksum_range a_run_env ''x'' 0 4 (sr_disk complete_run)) = ''h''"
proof -
  let ?pieces = "\<lparr>ph_algorithm = ''x'', ph_length = 4, ph_hashes = [''h'']\<rparr>"
  have p: "mr_pieces a_request = Some ?pieces" "0 < ph_length ?pieces" "length (ph_hashes ?pieces) < 2 ^ 64"
    by (simp_all add: a_request_def)
  have layout: "tiles 0 (map unstarted (mr_chunks a_request)) (mr_total a_request)"
    by (simp add: a_request_def unstarted_def)
  have aligned: "chunks_aligned (mr_chunks a_request) (ph_length ?pieces) (mr_total a_request)"
    by (simp add: a_request_def chunks_aligned_def Let_def)
  have fit: "\<forall>run0. begin_run a_run_env (\<lambda>_. None) a_request a_ledger (\<lambda>_. None) = Inr run0 \<longrightarrow> fits a_run_env the_events run0"
    by (auto simp: sample_defs the_events_def event_fits_def tracked_commit_def split: sum.splits)
  have trusted: "\<forall>c \<in> set (mr_chunks a_request). is_complete c \<and> mr_unverified a_request (ck_id c) = None \<longrightarrow>
      checked a_run_env ?pieces (mr_total a_request) (\<lambda>_. None) c"
    by (simp add: a_request_def is_complete_def)
  have r: "piece_range ?pieces 0 (mr_total a_request) = (0, 4)"
    by (simp add: piece_range_def a_request_def Let_def sat_mul_def sat_add_def)
  show ?thesis
    using complete_run_left_the_right_file [OF complete_run p layout aligned fit trusted _ r] by (simp add: sample_hex)
qed

end
