(* ===== verification/Spec2Isabelle.thy ===== *)
theory Spec2Isabelle
  imports Limiter Automations StoreProps HoldsProps TurnsSteps StorageProps HttpDownloadProps MultiSourceProps
begin

text \<open>
  rDownloader is a download manager: a service that keeps a persistent queue of downloads grouped in
  packages, fetches them through runners (HTTP, Usenet, BitTorrent, external tools), limits their
  bandwidth by schedules and budgets, and runs automations over what happens. This development
  models the logic of its core crates under \<open>src/crates\<close> and proves what makes it correct.

  How the parts interact. The store holds the rows of the queue. A supervisor loop settles the free
  space, the pauses, the windows and the stop mark, and then makes a dispatch pass over the startable
  rows; the pass asks the holds, the mirror groups, the package order and the places left, and starts
  files. A running file is fetched by its runner, here the HTTP engine over one or several sources,
  through the rate limiter; how it ends is written to the store, which decides about a retry, and in
  a mirror group about the turn. Automations hear the events of the store.

  Theories, in the order they build on one another.

  Ground:

  \<^item> \<open>Prelude\<close>: names for the machine integers, saturating arithmetic, decimal texts, first minimum and
    maximum of a list; the collections of simplification rules the components share.
  \<^item> \<open>Timing\<close>: back-off curves (\<open>rd-core/src/timing.rs\<close>, \<open>rd-notify/src/retry.rs\<close>).
  \<^item> \<open>Failures\<close>: the kinds of failure and their retry classes (\<open>rd-plugin-types/src/error.rs\<close>).
  \<^item> \<open>Lifecycle\<close>: the states of a download and the table of legal moves (\<open>rd-core/src/download.rs\<close>).
  \<^item> \<open>Hosts\<close>: host keys and wildcards (\<open>rd-provider-registry/src/host_pattern.rs\<close>).

  Limits and automations:

  \<^item> \<open>Budget\<close>, \<open>Schedule\<close>, \<open>Limiter\<close>: traffic budgets, bandwidth schedules with quiet hours and download
    windows, and the registry of rate limiters (\<open>rd-limits\<close>).
  \<^item> \<open>Conditions\<close>, \<open>Automations\<close>: condition trees, definitions, admission and time triggers
    (\<open>rd-automation\<close>).

  The store (\<open>rd-db\<close>):

  \<^item> \<open>Store\<close>, \<open>StoreBatch\<close>, \<open>Queries\<close>: the tables, the writer's operations on one row, on many rows and
    on packages, the recovery at start, the reads in queue order. \<open>StoreFacts\<close> states what every
    operation keeps (the relation \<open>settles\<close> between a row before and after), \<open>Writes\<close> the contract of a
    one-row operation (\<open>writes_one\<close>) its callers rest on, \<open>StoreProps\<close> the promises of the writer.

  The scheduler (\<open>rd-scheduler\<close>):

  \<^item> \<open>Retry\<close>: whether and when a failure is tried again (\<open>retry.rs\<close>, \<open>auto_retry.rs\<close>).
  \<^item> \<open>Mirrors\<close>, \<open>Turns\<close>: the best candidate of a mirror group, and what follows a failure -- the retry,
    the hoster's hold, the handover to the next mirror, the sweep at start, the automatic retry
    (\<open>mirrors.rs\<close>, \<open>failures.rs\<close>). \<open>TurnsProps\<close> is about one such step, \<open>TurnsSteps\<close> about runs of them.
  \<^item> \<open>Holds\<close>, \<open>HoldsProps\<close>: what holds queued files back in memory: hoster blocks, account traffic, the
    reasons that hold the whole queue, connections per host (\<open>holds.rs\<close>, \<open>hostblock.rs\<close>,
    \<open>account_traffic.rs\<close>, \<open>rd-http/src/hostlimit.rs\<close>).
  \<^item> \<open>Capacity\<close>: free space against the thresholds of the storage roots (\<open>rd-files/src/capacity.rs\<close>).
  \<^item> \<open>Control\<close>: the running files, and pausing, resuming, cancelling and blocking them (\<open>active.rs\<close>,
    \<open>control.rs\<close>, \<open>block.rs\<close>).
  \<^item> \<open>Admission\<close>, \<open>Dispatch\<close>: what a file has to pass to start, and one dispatch pass
    (\<open>dispatch_admission.rs\<close>, \<open>dispatch_order.rs\<close>, \<open>dispatch_selection.rs\<close>, \<open>dispatch.rs\<close>). \<open>DispatchFacts\<close>
    states what each step leaves alone, \<open>DispatchSteps\<close> the cases of a file and the walk over all of
    them, \<open>DispatchProps\<close> the promises of a pass.
  \<^item> \<open>QueuePauses\<close>, \<open>QueuePausesProps\<close>: pauses of the whole queue, the stop mark, download windows and
    the supervisor's tick (\<open>queue_pause.rs\<close>, \<open>stop_mark.rs\<close>, \<open>download_window.rs\<close>).
  \<^item> \<open>StorageWatch\<close>, \<open>StorageProps\<close>: the supervision of free space (\<open>capacity.rs\<close> of the scheduler).

  The HTTP engine (\<open>rd-http\<close>):

  \<^item> \<open>Chunks\<close>, \<open>ChunkProps\<close>: the plans of a file's chunks and the check of a recorded layout (\<open>plan.rs\<close>,
    \<open>engine/resume.rs\<close>, \<open>rd-core/src/source_set.rs\<close>).
  \<^item> \<open>HttpWorker\<close>, \<open>WorkerProps\<close>: one connection from its request to its last checkpoint (\<open>engine/\<close>,
    \<open>probe.rs\<close>, \<open>range_source.rs\<close>).
  \<^item> \<open>HttpDownload\<close>, \<open>HttpDownloadProps\<close>: one file from one address (\<open>engine.rs\<close>, \<open>wind_down.rs\<close>): the
    workers of a transfer side by side, its end and its last sync, and what any number of interrupted
    transfers leaves in the file.
  \<^item> \<open>MultiSource\<close>: one file from several sources (\<open>multisource.rs\<close>, \<open>multisource_state.rs\<close>);
    \<open>MultiSourceFacts\<close> holds the facts of each step, \<open>MultiSourceProps\<close> the promises of a run.

  State. The queue is the record \<open>store\<close> (rows, packages, published events, statistics); one
  serialized writer runs every operation, so an operation is a function on it, and an error leaves
  the store it was given. The scheduler's records extend one another in the order of the theories
  (\<open>scheduler\<close>, \<open>controller\<close>, \<open>dispatcher\<close>, the supervisor's), so an operation of an inner one applies to
  every outer one. The limiter registry is the record \<open>registry\<close> over a store of shared cells,
  because transfers hold on to the cells. A part file is a map from offsets to bytes, as written and
  as synced. A transfer over one address and a run over several sources are states moved by the
  events of their workers and fetches, in any order they can come in; a request to the rate limiters
  runs over a history of the registry, one state for every limit it reads. Where the code takes two
  locks one after the other in one step, the model has one step: \<open>hl_acquire\<close> reads the limit of a host
  and takes a place in its slots, \<open>settle_account_traffic\<close> settles the accounts and sets the hold of the
  queue. Machine integers keep their width; letters are lower-cased in ASCII only. The clock and the
  random draws are arguments.

  Interfaces. \<open>chooser\<close> (in \<open>Prelude\<close>) is the contract of a pick from candidates, interpreted for the
  first minimum, the first maximum and the best mirror; \<open>bucket\<close> (in \<open>Limiter\<close>) that of a place that
  holds a rate limit, interpreted for each of the four kinds of place; \<open>cached_lookup\<close> (in
  \<open>Conditions\<close>) that of a bounded cache, interpreted for the compiled patterns; \<open>first_change\<close> (in
  \<open>Schedule\<close>) that of a search for the next change of a clock, interpreted for the switch of profiles
  and the end of quiet hours; \<open>timed_holds\<close> (in \<open>Holds\<close>) that of entries with an end, interpreted for
  the hosters and the accounts.

  Loops and bounds. Every recursion terminates and no fuel is used: the walk to the next switch of a
  schedule goes by the minutes left of its eight days, the acquisition of bandwidth by the bytes that
  remain, an aligned plan by the bytes left of the file, the passes and the body of a response by
  their lists. A retry is bounded by the attempts, the waits and the one renewal of the address of a
  row, a transfer by the buffers its connections deliver, a run over sources by the sources it can lose.
  The plan without pieces multiplies unchecked; the property about the plans asks for a file of at most
  \<open>2 ^ 63\<close> bytes and at most \<open>2 ^ 22\<close> connections for it, and for nothing of the aligned plan.

  Parameters. Code that is not in the repository is an argument: the rate limiter's readiness (the
  governor crate), regular expressions, the cron evaluator, URL parsing, the calendar rendering of
  an instant, the zone, digests, random identifiers, the free space the system reports, what the
  network and the disk do. So are the rule that removes credentials from failure texts, the
  resolver's route to an account, and the runners that are configured.

  Not modelled. The other transfer engines (Usenet, BitTorrent, external tools) and the plugin host
  wrap libraries and programs outside the repository; the HTTP service and the web interface are
  input and output around this core; of the HTTP crate the client pool, proxies, cookies, the
  address guard and the content transforms are settings of the client library and cryptography. The
  manifest lists each part with its reason.
\<close>

end
